(* ===== verification/Prelude.thy ===== *)
theory Prelude
  imports
    Complex_Main
    "HOL-Library.List_Lexorder"
    "HOL-Library.Char_ord"
    "HOL-Library.Product_Lexorder"
    "HOL-Library.AList"
begin

section \<open>Prelude: vocabulary and generic lemmas shared by all components\<close>

text \<open>
  Python exceptions become values of \<open>exn\<close> and a fallible computation a value of
  \<open>'a res\<close> (\<open>Inl\<close> the exception raised, \<open>Inr\<close> the value returned). Strings are
  lists of code points below 256 (\<open>string\<close>), ordered lexicographically by code point as
  Python orders \<open>str\<close>; tuples are ordered lexicographically. Python's \<open>dict\<close> is an
  association list in insertion order, written with \<open>AList.update\<close> (which overwrites in
  place and appends a new key at the end) and read with \<open>map_of\<close>; a dictionary whose
  order is never observed is a map. \<open>sorted(xs, key=f)\<close> is the stable \<open>sort_key f xs\<close>.
\<close>

subsection \<open>Automation collections\<close>

named_theorems wf_intros \<open>introduction rules for the well-formedness predicates of the model\<close>
named_theorems wf_dests \<open>what the well-formedness predicates of the model give\<close>
named_theorems res_simps \<open>case analysis of fallible computations\<close>

subsection \<open>Exceptions and fallible results\<close>

datatype exn =
    ValueError string
  | TypeError string
  | KeyError string
  | AssertionError
  | ZeroDivisionError
  | OverflowError string
  | IndexError string
  | ValidationError string
  | DuplicateRegistrationError string string
  | RecursionError

type_synonym 'a res = "exn + 'a"

fun try_bind :: "'e + 'a \<Rightarrow> ('a \<Rightarrow> 'e + 'b) \<Rightarrow> 'e + 'b" where
  "try_bind (Inl e) f = Inl e"
| "try_bind (Inr x) f = f x"

fun traverse :: "('a \<Rightarrow> 'e + 'b) \<Rightarrow> 'a list \<Rightarrow> 'e + 'b list" where
  "traverse f [] = Inr []"
| "traverse f (x # xs) = try_bind (f x) (\<lambda>y. try_bind (traverse f xs) (\<lambda>ys. Inr (y # ys)))"

lemma try_bind_Inr [res_simps]:
  "try_bind r f = Inr y \<longleftrightarrow> (\<exists>x. r = Inr x \<and> f x = Inr y)"
  by (cases r) auto

lemma try_bind_Inl [res_simps]:
  "try_bind r f = Inl e \<longleftrightarrow> r = Inl e \<or> (\<exists>x. r = Inr x \<and> f x = Inl e)"
  by (cases r) auto

lemma traverse_Inr [res_simps]:
  "traverse f xs = Inr ys \<longleftrightarrow> list_all2 (\<lambda>x y. f x = Inr y) xs ys"
  by (induction xs arbitrary: ys) (auto simp: try_bind_Inr list_all2_Cons1)

lemma traverse_Inl_ex: "traverse f xs = Inl e \<Longrightarrow> \<exists>x\<in>set xs. f x = Inl e"
  by (induction xs) (auto simp: try_bind_Inl)

lemma traverse_map_Inr: "(\<And>x. x \<in> set xs \<Longrightarrow> f x = Inr (g x)) \<Longrightarrow> traverse f xs = Inr (map g xs)"
  by (induction xs) auto

subsection \<open>Text: decimal numerals and \<open>repr\<close> of a string\<close>

definition digit_char :: "nat \<Rightarrow> char" where
  "digit_char d = char_of (48 + d)"

fun dec_nat :: "nat \<Rightarrow> string" where
  "dec_nat n = (if n < 10 then [digit_char n] else dec_nat (n div 10) @ [digit_char (n mod 10)])"

declare dec_nat.simps [simp del]

definition dec_int :: "int \<Rightarrow> string" where
  "dec_int i = (if i < 0 then ''-'' @ dec_nat (nat (- i)) else dec_nat (nat i))"

definition hex_char :: "nat \<Rightarrow> char" where
  "hex_char d = (if d < 10 then char_of (48 + d) else char_of (87 + d))"

text \<open>\<open>repr(s)\<close>: single quotes unless the text has a single and no double quote.\<close>

definition repr_char :: "char \<Rightarrow> char \<Rightarrow> string" where
  "repr_char q c =
     (let n = of_char c :: nat in
      if c = q \<or> n = 92 then [char_of (92::nat), c]
      else if n = 10 then [char_of (92::nat), CHR ''n'']
      else if n = 13 then [char_of (92::nat), CHR ''r'']
      else if n = 9 then [char_of (92::nat), CHR ''t'']
      else if n < 32 \<or> (127 \<le> n \<and> n \<le> 160) \<or> n = 173
        then [char_of (92::nat), CHR ''x'', hex_char (n div 16), hex_char (n mod 16)]
      else [c])"

definition repr_str :: "string \<Rightarrow> string" where
  "repr_str s =
     (let q = (if char_of (39::nat) \<in> set s \<and> char_of (34::nat) \<notin> set s
               then char_of (34::nat) else char_of (39::nat))
      in [q] @ concat (map (repr_char q) s) @ [q])"

fun exn_text :: "exn \<Rightarrow> string" where
  "exn_text (ValueError m) = ''ValueError: '' @ m"
| "exn_text (TypeError m) = ''TypeError: '' @ m"
| "exn_text (KeyError m) = ''KeyError: '' @ m"
| "exn_text AssertionError = ''AssertionError: ''"
| "exn_text ZeroDivisionError = ''ZeroDivisionError: float division by zero''"
| "exn_text (OverflowError m) = ''OverflowError: '' @ m"
| "exn_text (IndexError m) = ''IndexError: '' @ m"
| "exn_text (ValidationError m) = ''ValidationError: '' @ m"
| "exn_text RecursionError = ''RecursionError: maximum recursion depth exceeded''"
| "exn_text (DuplicateRegistrationError t v) = ''DuplicateRegistrationError: node type '' @ repr_str t @ '' version '' @ repr_str v @ '' is already registered''"

definition join_str :: "string \<Rightarrow> string list \<Rightarrow> string" where
  "join_str sep xs = (case xs of [] \<Rightarrow> [] | y # ys \<Rightarrow> y @ concat (map (\<lambda>z. sep @ z) ys))"

subsection \<open>Sorting and strict order\<close>

text \<open>\<open>sorted(xs)\<close> followed by the scan for equal neighbours: strictly ascending lists.\<close>

fun adjacent_dup :: "'a list \<Rightarrow> 'a option" where
  "adjacent_dup (x # y # zs) = (if x = y then Some x else adjacent_dup (y # zs))"
| "adjacent_dup _ = None"

lemma adjacent_dup_None_iff:
  "sorted xs \<Longrightarrow> adjacent_dup xs = None \<longleftrightarrow> distinct xs" for xs :: "'a::linorder list"
  by (induction xs rule: adjacent_dup.induct) (auto simp: order_antisym_conv)

lemma sort_key_stable_filter:
  "filter P (sort_key f xs) = sort_key f (filter P xs)"
  by (rule filter_sort)

lemma sorted_distinct_strict: "sorted xs \<Longrightarrow> distinct xs \<Longrightarrow> sorted_wrt (<) xs"
  for xs :: "'a::linorder list"
  by (simp add: strict_sorted_iff)

lemma map_sort_key_fst: "map fst (sort_key fst xs) = sort (map fst xs)"
proof -
  have ins: "map fst (insort_key fst x ys) = insort (fst x) (map fst ys)" for x and ys :: "('a::linorder \<times> 'b) list"
    by (induction ys) auto
  show ?thesis by (induction xs) (auto simp: ins)
qed

lemma list_all2_map_eq: "list_all2 R xs ys \<Longrightarrow> (\<And>x y. R x y \<Longrightarrow> f x = g y) \<Longrightarrow> map f xs = map g ys"
  by (induction rule: list_all2_induct) auto

lemma list_all2_in_right: "list_all2 R xs ys \<Longrightarrow> y \<in> set ys \<Longrightarrow> \<exists>x \<in> set xs. R x y"
  by (induction rule: list_all2_induct) auto

lemma list_all2_in_left: "list_all2 R xs ys \<Longrightarrow> x \<in> set xs \<Longrightarrow> \<exists>y \<in> set ys. R x y"
  by (induction rule: list_all2_induct) auto

subsection \<open>Dictionaries\<close>

text \<open>A dict comprehension: a repeated key keeps its place and takes the last value.\<close>

definition dict_of :: "('k \<times> 'v) list \<Rightarrow> ('k \<times> 'v) list" where
  "dict_of kvs = foldl (\<lambda>m (k, v). AList.update k v m) [] kvs"

definition dict_get :: "('k \<times> 'v) list \<Rightarrow> 'k \<Rightarrow> 'v \<Rightarrow> 'v" where
  "dict_get m k d = (case map_of m k of Some v \<Rightarrow> v | None \<Rightarrow> d)"

lemma map_of_foldl_update:
  "map_of (foldl (\<lambda>m (k, v). AList.update k v m) acc kvs) x =
     (case map_of (rev kvs) x of Some v \<Rightarrow> Some v | None \<Rightarrow> map_of acc x)"
  by (induction kvs arbitrary: acc) (auto simp: update_conv' map_add_def split: option.splits)

lemma map_of_dict_of: "map_of (dict_of kvs) x = map_of (rev kvs) x"
  by (simp add: dict_of_def map_of_foldl_update split: option.splits)

lemma map_of_rev_distinct: "distinct (map fst kvs) \<Longrightarrow> map_of (rev kvs) = map_of kvs"
  by (rule map_of_inject_set[THEN iffD2]) (simp_all add: rev_map[symmetric])

lemma map_of_dict_of_distinct: "distinct (map fst kvs) \<Longrightarrow> map_of (dict_of kvs) = map_of kvs"
  by (rule ext) (simp add: map_of_dict_of map_of_rev_distinct)

lemma dict_of_keys: "fst ` set (dict_of kvs) = fst ` set kvs"
proof -
  have "fst ` set (foldl (\<lambda>m (k, v). AList.update k v m) acc kvs) = fst ` set acc \<union> fst ` set kvs" for acc
  proof (induction kvs arbitrary: acc)
    case (Cons kv kvs)
    then show ?case by (cases kv) (simp add: dom_update)
  qed simp
  then show ?thesis by (simp add: dict_of_def)
qed

lemma dict_get_update: "dict_get (AList.update k v m) x d = (if x = k then v else dict_get m x d)"
  by (simp add: dict_get_def update_conv')

lemma dict_get_map: "dict_get (map (\<lambda>n. (n, f n)) ns) k d = (if k \<in> set ns then f k else d)"
  by (induction ns) (auto simp: dict_get_def)

end
