(* ===== verification/Dates.thy ===== *)
theory Dates
  imports Prelude
begin

section \<open>Civil dates and instants: what the program uses of \<open>datetime\<close>\<close>

text \<open>
  A \<open>date\<close> is a year, month and day ordered lexicographically; \<open>ymd2ord\<close> and
  \<open>isocalendar\<close> follow the standard library's proleptic Gregorian arithmetic. An aware
  \<open>datetime\<close> is its absolute instant in microseconds with the UTC offset it was written in;
  after \<open>require_aware_utc\<close> the program only compares instants, so a normalised instant is
  an integer.
\<close>

datatype date = Date (year: int) (month: int) (day: int)

instantiation date :: linorder
begin

fun less_eq_date :: "date \<Rightarrow> date \<Rightarrow> bool" where
  "Date y m d \<le> Date y' m' d' \<longleftrightarrow> (y, m, d) \<le> (y', m', d')"

fun less_date :: "date \<Rightarrow> date \<Rightarrow> bool" where
  "Date y m d < Date y' m' d' \<longleftrightarrow> (y, m, d) < (y', m', d')"

instance
proof
  fix a b c :: date
  show "(a < b) = (a \<le> b \<and> \<not> b \<le> a)" by (cases a; cases b) auto
  show "a \<le> a" by (cases a) auto
  show "a \<le> b \<Longrightarrow> b \<le> c \<Longrightarrow> a \<le> c" by (cases a; cases b; cases c) auto
  show "a \<le> b \<Longrightarrow> b \<le> a \<Longrightarrow> a = b" by (cases a; cases b) auto
  show "a \<le> b \<or> b \<le> a" by (cases a; cases b) auto
qed

end

subsection \<open>Ordinals and the ISO calendar\<close>

definition is_leap :: "int \<Rightarrow> bool" where
  "is_leap y \<longleftrightarrow> y mod 4 = 0 \<and> (y mod 100 \<noteq> 0 \<or> y mod 400 = 0)"

definition days_before_year :: "int \<Rightarrow> int" where
  "days_before_year y = (let p = y - 1 in p * 365 + p div 4 - p div 100 + p div 400)"

definition days_before_month :: "int \<Rightarrow> int \<Rightarrow> int" where
  "days_before_month y m =
     [0, 0, 31, 59, 90, 120, 151, 181, 212, 243, 273, 304, 334] ! nat m
       + (if m > 2 \<and> is_leap y then 1 else 0)"

definition days_in_month :: "int \<Rightarrow> int \<Rightarrow> int" where
  "days_in_month y m = (if m = 2 \<and> is_leap y then 29
     else [0, 31, 28, 31, 30, 31, 30, 31, 31, 30, 31, 30, 31] ! nat m)"

fun ymd2ord :: "date \<Rightarrow> int" where
  "ymd2ord (Date y m d) = days_before_year y + days_before_month y m + d"

fun date_ok :: "date \<Rightarrow> bool" where
  "date_ok (Date y m d) \<longleftrightarrow> 1 \<le> m \<and> m \<le> 12 \<and> 1 \<le> d \<and> d \<le> days_in_month y m"

definition isoweek1monday :: "int \<Rightarrow> int" where
  "isoweek1monday y =
     (let firstday = ymd2ord (Date y 1 1);
          firstweekday = (firstday + 6) mod 7;
          week1monday = firstday - firstweekday
      in if firstweekday > 3 then week1monday + 7 else week1monday)"

definition iso_year_week :: "date \<Rightarrow> int \<times> int" where
  "iso_year_week t =
     (let today = ymd2ord t; y = year t; week = (today - isoweek1monday y) div 7
      in if week < 0
         then (y - 1, (today - isoweek1monday (y - 1)) div 7 + 1)
         else if week \<ge> 52 \<and> today \<ge> isoweek1monday (y + 1) then (y + 1, 1)
         else (y, week + 1))"

definition pad_digits :: "nat \<Rightarrow> int \<Rightarrow> string" where
  "pad_digits n i = (let s = dec_int i in replicate (n - length s) (CHR ''0'') @ s)"

fun isoformat :: "date \<Rightarrow> string" where
  "isoformat (Date y m d) = pad_digits 4 y @ ''-'' @ pad_digits 2 m @ ''-'' @ pad_digits 2 d"

subsection \<open>Equal ISO keys are the same Monday--Sunday week\<close>

definition monday_index :: "date \<Rightarrow> int" where
  "monday_index t = (ymd2ord t - 1) div 7"

lemma leap_arith:
  fixes y :: int
  assumes "a' - a = (if p then 1 else 0)" "b' - b = (if q then 1 else 0)" "c' - c = (if r then 1 else 0)"
    and "q \<Longrightarrow> p" "r \<Longrightarrow> q"
  shows "y * 365 + a' - b' + c' = (y - 1) * 365 + a - b + c + (if p \<and> (\<not> q \<or> r) then 366 else 365)"
  using assms by (cases p; cases q; cases r) auto

lemma div_pred_step:
  fixes y k :: int
  assumes "0 < k" shows "y div k - (y - 1) div k = (if y mod k = 0 then 1 else 0)"
proof (cases "y mod k = 0")
  case True
  then obtain q where q: "y = k * q" by auto
  have "(k * q - 1) div k = q - 1"
    using assms by (intro int_div_pos_eq[of _ _ _ "k - 1"]) (auto simp: algebra_simps)
  then show ?thesis using q assms by simp
next
  case False
  have "(y - 1) div k = y div k"
  proof (rule int_div_pos_eq[of _ _ _ "y mod k - 1"])
    show "y - 1 = k * (y div k) + (y mod k - 1)" by simp
    show "0 \<le> y mod k - 1" using False assms pos_mod_sign[of k y] by linarith
    show "y mod k - 1 < k" using assms pos_mod_bound[of k y] by linarith
  qed
  then show ?thesis using False by simp
qed

lemma days_before_year_step:
  "days_before_year (y + 1) = days_before_year y + (if is_leap y then 366 else 365)"
proof -
  have "y div 4 - (y - 1) div 4 = (if y mod 4 = 0 then 1 else 0)"
    "y div 100 - (y - 1) div 100 = (if y mod 100 = 0 then 1 else 0)"
    "y div 400 - (y - 1) div 400 = (if y mod 400 = 0 then 1 else 0)" by (rule div_pred_step, simp)+
  moreover have "y mod 100 = 0 \<Longrightarrow> y mod 4 = 0" "y mod 400 = 0 \<Longrightarrow> y mod 100 = 0"
    using dvd_trans[of 4 100 y] dvd_trans[of 100 400 y] by (simp_all add: mod_eq_0_iff_dvd)
  ultimately have "y * 365 + y div 4 - y div 100 + y div 400 =
      (y - 1) * 365 + (y - 1) div 4 - (y - 1) div 100 + (y - 1) div 400
        + (if y mod 4 = 0 \<and> (y mod 100 \<noteq> 0 \<or> y mod 400 = 0) then 366 else 365)"
    by (rule leap_arith)
  then show ?thesis by (simp only: days_before_year_def is_leap_def Let_def add_diff_cancel_right')
qed

lemma month_cases:
  "1 \<le> m \<Longrightarrow> m \<le> (12::int) \<Longrightarrow> m \<in> {1, 2, 3, 4, 5, 6, 7, 8, 9, 10, 11, 12}"
  by simp presburger

lemma ymd2ord_in_year:
  assumes "date_ok t"
  shows "days_before_year (year t) < ymd2ord t" "ymd2ord t \<le> days_before_year (year t + 1)"
proof -
  obtain y m d where t: "t = Date y m d" by (cases t)
  have m: "m \<in> {1, 2, 3, 4, 5, 6, 7, 8, 9, 10, 11, 12}" using assms t month_cases by auto
  then have "0 \<le> days_before_month y m \<and> days_before_month y m + days_in_month y m \<le> (if is_leap y then 366 else 365)"
    by (auto simp: days_before_month_def days_in_month_def)
  then show "days_before_year (year t) < ymd2ord t" "ymd2ord t \<le> days_before_year (year t + 1)"
    using assms by (auto simp: t days_before_year_step split: if_splits)
qed

lemma isoweek1monday_facts:
  "(isoweek1monday y - 1) mod 7 = 0"
  "days_before_year y - 2 \<le> isoweek1monday y" "isoweek1monday y \<le> days_before_year y + 4"
  by (auto simp: isoweek1monday_def Let_def days_before_month_def)

lemma isoweek1monday_step: "isoweek1monday y + 364 \<le> isoweek1monday (y + 1)"
proof -
  obtain a b where ab: "isoweek1monday y - 1 = 7 * a" "isoweek1monday (y + 1) - 1 = 7 * b"
    using isoweek1monday_facts(1)[of y] isoweek1monday_facts(1)[of "y + 1"]
    by (auto simp only: mod_eq_0_iff_dvd elim!: dvdE)
  have "365 \<le> days_before_year (y + 1) - days_before_year y" using days_before_year_step[of y] by simp
  then have "52 \<le> b - a"
    using isoweek1monday_facts(3)[of y] isoweek1monday_facts(2)[of "y + 1"] ab by linarith
  then show ?thesis using ab by linarith
qed

lemma isoweek1monday_mono: "y < z \<Longrightarrow> isoweek1monday y < isoweek1monday z"
proof (induction "nat (z - y)" arbitrary: z)
  case (Suc n)
  have "isoweek1monday (z - 1) + 364 \<le> isoweek1monday z" using isoweek1monday_step[of "z - 1"] by simp
  moreover have "isoweek1monday y \<le> isoweek1monday (z - 1)"
  proof (cases "y = z - 1")
    case False
    then have "n = nat ((z - 1) - y)" "y < z - 1" using Suc by auto
    from Suc(1)[OF this] show ?thesis by simp
  qed simp
  ultimately show ?case by linarith
qed simp

lemma iso_year_week_char:
  assumes "date_ok t" "iso_year_week t = (Y, W)"
  shows "isoweek1monday Y \<le> ymd2ord t" "ymd2ord t < isoweek1monday (Y + 1)"
    "W = (ymd2ord t - isoweek1monday Y) div 7 + 1"
proof -
  note in_year = ymd2ord_in_year[OF assms(1)]
  let ?y = "year t"
  have step: "isoweek1monday (?y - 1) + 364 \<le> isoweek1monday ?y" using isoweek1monday_step[of "?y - 1"] by simp
  have next_ge: "isoweek1monday ?y + 364 \<le> isoweek1monday (?y + 1)" by (rule isoweek1monday_step)
  have prev: "isoweek1monday (?y - 1) \<le> days_before_year ?y"
    using isoweek1monday_facts(3)[of "?y - 1"] days_before_year_step[of "?y - 1"] by (auto split: if_splits)
  have nn: "days_before_year (?y + 1) < isoweek1monday (?y + 2)"
  proof -
    have "?y + 1 + 1 = ?y + 2" by simp
    then have "365 \<le> days_before_year (?y + 2) - days_before_year (?y + 1)"
      using days_before_year_step[of "?y + 1"] by (simp only:) simp
    then show ?thesis using isoweek1monday_facts(2)[of "?y + 2"] by linarith
  qed
  have nx: "days_before_year (?y + 1) \<le> isoweek1monday (?y + 1) + 2"
    using isoweek1monday_facts(2)[of "?y + 1"] by simp
  define w where "w = (ymd2ord t - isoweek1monday ?y) div 7"
  define v where "v = (ymd2ord t - isoweek1monday (?y - 1)) div 7"
  have iso: "(Y, W) = (if w < 0 then (?y - 1, v + 1)
      else if 52 \<le> w \<and> isoweek1monday (?y + 1) \<le> ymd2ord t then (?y + 1, 1) else (?y, w + 1))"
    by (simp only: assms(2)[symmetric] iso_year_week_def Let_def w_def v_def)
  consider "w < 0" "Y = ?y - 1" "W = v + 1"
    | "\<not> w < 0" "isoweek1monday (?y + 1) \<le> ymd2ord t" "Y = ?y + 1" "W = 1"
    | "\<not> w < 0" "w < 52 \<or> ymd2ord t < isoweek1monday (?y + 1)" "Y = ?y" "W = w + 1"
    using iso by (auto split: if_splits)
  then have "isoweek1monday Y \<le> ymd2ord t \<and> ymd2ord t < isoweek1monday (Y + 1) \<and>
    W = (ymd2ord t - isoweek1monday Y) div 7 + 1"
  proof cases
    case 1
    then have "ymd2ord t < isoweek1monday ?y" unfolding w_def by (simp add: pos_imp_zdiv_neg_iff)
    then show ?thesis using 1 in_year prev by (simp add: v_def)
  next
    case 2
    have "ymd2ord t - isoweek1monday (?y + 1) \<le> 2" using in_year(2) nx by linarith
    then have "(ymd2ord t - isoweek1monday (?y + 1)) div 7 = 0" using 2(2) by (intro div_pos_pos_trivial) auto
    then show ?thesis using 2 in_year(2) nn by (simp add: algebra_simps)
  next
    case 3
    have "isoweek1monday ?y \<le> ymd2ord t" using 3(1) unfolding w_def by (simp add: pos_imp_zdiv_neg_iff)
    moreover have "ymd2ord t < isoweek1monday (?y + 1)" using 3(2) next_ge unfolding w_def by linarith
    ultimately show ?thesis using 3 by (simp add: w_def)
  qed
  then show "isoweek1monday Y \<le> ymd2ord t" "ymd2ord t < isoweek1monday (Y + 1)"
    "W = (ymd2ord t - isoweek1monday Y) div 7 + 1" by auto
qed

lemma div7_shift: "(b - 1) mod 7 = 0 \<Longrightarrow> (a - b) div 7 = (a - 1) div 7 - (b - 1) div (7::int)"
proof -
  assume "(b - 1) mod 7 = 0"
  then have "7 dvd b - 1" by (simp add: mod_eq_0_iff_dvd)
  then obtain q where "b - 1 = 7 * q" by (elim dvdE)
  then have q: "b = 7 * q + 1" by simp
  have "(a - 1 - 7 * q) div 7 = (a - 1) div 7 - q" using div_mult_self1[of 7 "a - 1" "- q"] by simp
  then show ?thesis using q by (simp add: algebra_simps)
qed

lemma div7_le: "(z - 1) mod 7 = 0 \<Longrightarrow> z \<le> a \<longleftrightarrow> (z - 1) div 7 \<le> (a - 1) div (7::int)"
  using div7_shift[of z a] pos_imp_zdiv_nonneg_iff[of 7 "a - z"] by simp

lemma iso_year_week_eq_iff:
  assumes "date_ok s" "date_ok t"
  shows "iso_year_week s = iso_year_week t \<longleftrightarrow> monday_index s = monday_index t"
proof
  obtain Y W Y' W' where s: "iso_year_week s = (Y, W)" and t: "iso_year_week t = (Y', W')" by fastforce
  note cs = iso_year_week_char[OF assms(1) s] and ct = iso_year_week_char[OF assms(2) t]
  have W: "W = monday_index s - (isoweek1monday Y - 1) div 7 + 1"
    using cs(3) unfolding div7_shift[OF isoweek1monday_facts(1)] monday_index_def .
  have W': "W' = monday_index t - (isoweek1monday Y' - 1) div 7 + 1"
    using ct(3) unfolding div7_shift[OF isoweek1monday_facts(1)] monday_index_def .
  show "iso_year_week s = iso_year_week t \<Longrightarrow> monday_index s = monday_index t"
    using s t W W' by auto
  assume eq: "monday_index s = monday_index t"
  have week: "isoweek1monday Z \<le> ymd2ord t \<longleftrightarrow> isoweek1monday Z \<le> ymd2ord s" for Z
    unfolding div7_le[OF isoweek1monday_facts(1)] using eq by (simp add: monday_index_def)
  have "Y = Y'"
  proof (rule ccontr)
    assume "Y \<noteq> Y'"
    then consider "Y + 1 \<le> Y'" | "Y' + 1 \<le> Y" by linarith
    then show False
    proof cases
      case 1
      then have "isoweek1monday (Y + 1) \<le> isoweek1monday Y'" using isoweek1monday_mono[of "Y + 1" Y'] by (cases "Y + 1 = Y'") auto
      then show False using cs(2) ct(1) week[of Y'] by linarith
    next
      case 2
      then have "isoweek1monday (Y' + 1) \<le> isoweek1monday Y" using isoweek1monday_mono[of "Y' + 1" Y] by (cases "Y' + 1 = Y") auto
      then show False using ct(2) cs(1) week[of Y] by linarith
    qed
  qed
  then show "iso_year_week s = iso_year_week t"
    using s t W W' eq by simp
qed

lemma days_before_month_mono:
  assumes "1 \<le> m" "m < m'" "m' \<le> 12"
  shows "days_before_month y m + days_in_month y m \<le> days_before_month y m'"
proof -
  have m: "m \<in> {1, 2, 3, 4, 5, 6, 7, 8, 9, 10, 11, 12}" "m' \<in> {1, 2, 3, 4, 5, 6, 7, 8, 9, 10, 11, 12}"
    using assms by (intro month_cases; simp)+
  then show ?thesis using assms(2)
    by (elim insertE emptyE) (simp_all add: days_before_month_def days_in_month_def)
qed

lemma days_before_year_mono: "y \<le> z \<Longrightarrow> days_before_year y \<le> days_before_year z"
proof (induction "nat (z - y)" arbitrary: z)
  case (Suc n)
  then have "days_before_year y \<le> days_before_year (z - 1)" by (intro Suc(1)) auto
  then show ?case using days_before_year_step[of "z - 1"] by simp
qed simp

lemma ymd2ord_strict_mono:
  assumes "date_ok s" "date_ok t" "s < t" shows "ymd2ord s < ymd2ord t"
proof -
  obtain y m d y' m' d' where s: "s = Date y m d" and t: "t = Date y' m' d'" by (cases s; cases t)
  consider "y < y'" | "y = y'" "m < m'" | "y = y'" "m = m'" "d < d'"
    using assms(3) s t by (auto simp: le_less)
  then show ?thesis
  proof cases
    case 1
    then have "days_before_year (y + 1) \<le> days_before_year y'" by (intro days_before_year_mono) simp
    then show ?thesis using ymd2ord_in_year(2)[OF assms(1)] ymd2ord_in_year(1)[OF assms(2)] s t by simp
  next
    case 2
    then show ?thesis using days_before_month_mono[of m m' y] assms(1,2) s t by simp
  qed (simp add: s t)
qed

lemma monday_index_mono: "date_ok s \<Longrightarrow> date_ok t \<Longrightarrow> s \<le> t \<Longrightarrow> monday_index s \<le> monday_index t"
  using ymd2ord_strict_mono[of s t] unfolding monday_index_def
  by (intro zdiv_mono1) (auto simp: le_less)

subsection \<open>Instants\<close>

type_synonym instant = int

datatype datetime = Naive int | Aware instant int

definition require_aware_utc :: "datetime \<Rightarrow> string \<Rightarrow> instant res" where
  "require_aware_utc t label = (case t of
     Naive _ \<Rightarrow> Inl (ValueError (label @ '' must be timezone-aware''))
   | Aware u _ \<Rightarrow> Inr u)"

end
