(* ===== verification/Calendar.thy ===== *)
theory Calendar
  imports Dates
begin

section \<open>The exchange calendar and schedule firing\<close>

text \<open>
  \<open>quantize/market/calendar.py\<close> and \<open>quantize/engine/schedule.py\<close>. A session is built
  from aware datetimes and keeps their UTC instants; a calendar is built from sessions. Both
  constructors check what the code's \<open>__post_init__\<close> checks and raise otherwise.
\<close>

subsection \<open>Sessions and calendars\<close>

record market_session =
  session_date :: date
  open_at :: instant
  close_at :: instant

definition mk_market_session :: "date \<Rightarrow> datetime \<Rightarrow> datetime \<Rightarrow> market_session res" where
  "mk_market_session d o' c =
     try_bind (require_aware_utc o' ''open_at'') (\<lambda>op.
     try_bind (require_aware_utc c ''close_at'') (\<lambda>cl.
       if op < cl then Inr \<lparr>session_date = d, open_at = op, close_at = cl\<rparr>
       else Inl (ValueError (''session '' @ isoformat d @ '' must open before it closes''))))"

record exchange_calendar =
  exchange :: string
  cal_timezone :: string
  sessions :: "market_session list"

fun check_sessions :: "market_session option \<Rightarrow> market_session list \<Rightarrow> unit res" where
  "check_sessions previous [] = Inr ()"
| "check_sessions previous (s # ss) =
     (case previous of
        None \<Rightarrow> check_sessions (Some s) ss
      | Some p \<Rightarrow>
          if \<not> session_date p < session_date s
          then Inl (ValueError ''session dates must be strictly increasing'')
          else if \<not> close_at p \<le> open_at s
          then Inl (ValueError ''sessions must not overlap in time'')
          else check_sessions (Some s) ss)"

definition mk_exchange_calendar ::
    "string \<Rightarrow> string \<Rightarrow> market_session list \<Rightarrow> exchange_calendar res" where
  "mk_exchange_calendar ex tz ss =
     (if ex = [] then Inl (ValueError ''exchange must be non-empty'')
      else if tz = [] then Inl (ValueError ''timezone must be non-empty'')
      else try_bind (check_sessions None ss) (\<lambda>_.
        Inr \<lparr>exchange = ex, cal_timezone = tz, sessions = ss\<rparr>))"

definition session_dates :: "exchange_calendar \<Rightarrow> date list" where
  "session_dates cal = map session_date (sessions cal)"

text \<open>The public operation normalises its instant; \<open>closed_by\<close> is its body on UTC.\<close>

definition closed_by :: "exchange_calendar \<Rightarrow> instant \<Rightarrow> market_session list" where
  "closed_by cal cutoff = filter (\<lambda>s. close_at s \<le> cutoff) (sessions cal)"

definition sessions_closed_by :: "exchange_calendar \<Rightarrow> datetime \<Rightarrow> market_session list res" where
  "sessions_closed_by cal t =
     try_bind (require_aware_utc t ''instant'') (\<lambda>cutoff. Inr (closed_by cal cutoff))"

definition last_closed_session :: "exchange_calendar \<Rightarrow> datetime \<Rightarrow> market_session option res" where
  "last_closed_session cal t =
     try_bind (sessions_closed_by cal t) (\<lambda>closed. Inr (if closed = [] then None else Some (last closed)))"

definition session_on :: "exchange_calendar \<Rightarrow> date \<Rightarrow> market_session option" where
  "session_on cal d = List.find (\<lambda>s. session_date s = d) (sessions cal)"

definition next_session_after :: "exchange_calendar \<Rightarrow> date \<Rightarrow> market_session option" where
  "next_session_after cal d = List.find (\<lambda>s. session_date s > d) (sessions cal)"

subsection \<open>Schedule firing\<close>

datatype schedule = ScheduleDaily | ScheduleWeekly | ScheduleMonthly

fun period_key :: "schedule \<Rightarrow> date \<Rightarrow> int \<times> int" where
  "period_key ScheduleWeekly d = iso_year_week d"
| "period_key _ d = (year d, month d)"

definition scheduled_sessions :: "schedule \<Rightarrow> exchange_calendar \<Rightarrow> date list" where
  "scheduled_sessions sched cal =
     (let dates = session_dates cal in
      case sched of
        ScheduleDaily \<Rightarrow> dates
      | _ \<Rightarrow> map ((!) dates) (filter (\<lambda>i. i + 1 = length dates
               \<or> period_key sched (dates ! (i + 1)) \<noteq> period_key sched (dates ! i)) [0..<length dates]))"

definition schedule_fires :: "schedule \<Rightarrow> date \<Rightarrow> exchange_calendar \<Rightarrow> bool" where
  "schedule_fires sched d cal =
     (case session_on cal d of
        None \<Rightarrow> False
      | Some _ \<Rightarrow> (case sched of ScheduleDaily \<Rightarrow> True | _ \<Rightarrow> d \<in> set (scheduled_sessions sched cal)))"

subsection \<open>The calendar invariant\<close>

definition session_ok :: "market_session \<Rightarrow> bool" where
  "session_ok s \<longleftrightarrow> date_ok (session_date s) \<and> open_at s < close_at s"

definition session_before :: "market_session \<Rightarrow> market_session \<Rightarrow> bool" where
  "session_before a b \<longleftrightarrow> session_date a < session_date b \<and> close_at a \<le> open_at b"

definition cal_ok :: "exchange_calendar \<Rightarrow> bool" where
  "cal_ok cal \<longleftrightarrow> (\<forall>s \<in> set (sessions cal). session_ok s) \<and> sorted_wrt session_before (sessions cal)"

lemma mk_market_session_Inr:
  "mk_market_session d o' c = Inr s \<longleftrightarrow>
     (\<exists>op off cl off'. o' = Aware op off \<and> c = Aware cl off' \<and> op < cl \<and>
        s = \<lparr>session_date = d, open_at = op, close_at = cl\<rparr>)"
  by (auto simp: mk_market_session_def require_aware_utc_def res_simps split: datetime.splits if_splits)

lemma mk_market_session_ok [wf_intros]: "date_ok d \<Longrightarrow> mk_market_session d o' c = Inr s \<Longrightarrow> session_ok s"
  by (auto simp: mk_market_session_Inr session_ok_def)

lemma session_before_trans:
  "session_ok b \<Longrightarrow> session_before a b \<Longrightarrow> session_before b c \<Longrightarrow> session_before a c"
  by (auto simp: session_before_def session_ok_def)

lemma check_sessions_Some:
  "(\<forall>s \<in> set (p # ss). session_ok s) \<Longrightarrow>
   check_sessions (Some p) ss = Inr () \<longleftrightarrow> sorted_wrt session_before (p # ss)"
proof (induction ss arbitrary: p)
  case (Cons s ss)
  have "check_sessions (Some p) (s # ss) = Inr () \<longleftrightarrow> session_before p s \<and> check_sessions (Some s) ss = Inr ()"
    by (auto simp: session_before_def)
  also have "\<dots> \<longleftrightarrow> session_before p s \<and> sorted_wrt session_before (s # ss)"
    using Cons.IH[of s] Cons.prems by simp
  also have "\<dots> \<longleftrightarrow> sorted_wrt session_before (p # s # ss)"
    using Cons.prems session_before_trans[of s p] by auto
  finally show ?case .
qed simp

lemma check_sessions_None:
  "(\<forall>s \<in> set ss. session_ok s) \<Longrightarrow> check_sessions None ss = Inr () \<longleftrightarrow> sorted_wrt session_before ss"
  by (cases ss) (simp_all add: check_sessions_Some del: sorted_wrt.simps(2))

lemma cal_ok_dates [wf_dests]: "cal_ok cal \<Longrightarrow> sorted_wrt (<) (session_dates cal)"
  unfolding cal_ok_def session_dates_def sorted_wrt_map
  by (elim conjE, rule sorted_wrt_mono_rel[rotated], assumption) (simp add: session_before_def)

lemma cal_ok_dates_distinct [wf_dests]: "cal_ok cal \<Longrightarrow> distinct (session_dates cal)"
  using cal_ok_dates strict_sorted_iff by blast

lemma cal_ok_closes: "cal_ok cal \<Longrightarrow> sorted_wrt (\<lambda>a b. close_at a < close_at b) (sessions cal)"
  unfolding cal_ok_def
  by (elim conjE, rule sorted_wrt_mono_rel[rotated], assumption) (fastforce simp: session_before_def session_ok_def)

lemma filter_prefix_take:
  "sorted_wrt (\<lambda>a b. f a < f b) xs \<Longrightarrow>
   filter (\<lambda>x. f x \<le> c) xs = take (length (filter (\<lambda>x. f x \<le> c) xs)) xs"
  for f :: "'a \<Rightarrow> 'b::linorder"
proof (induction xs)
  case (Cons x xs)
  show ?case
  proof (cases "f x \<le> c")
    case False
    then have "filter (\<lambda>x. f x \<le> c) xs = []" using Cons.prems by (auto simp: filter_empty_conv)
    then show ?thesis using False by simp
  qed (use Cons in simp)
qed simp

lemma find_Some_first:
  "List.find P xs = Some x \<Longrightarrow> x \<in> set xs \<and> P x"
  by (auto simp: find_Some_iff)

lemma find_first_sorted:
  fixes f :: "'a \<Rightarrow> 'b::linorder"
  assumes "sorted_wrt (\<lambda>a b. f a < f b) xs" "List.find (\<lambda>x. d < f x) xs = Some x"
  shows "\<forall>y \<in> set xs. d < f y \<longrightarrow> f x \<le> f y"
  using assms
  by (induction xs) (auto split: if_splits intro: less_imp_le)

lemma session_on_Some:
  assumes "cal_ok cal" "s \<in> set (sessions cal)" shows "session_on cal (session_date s) = Some s"
proof -
  have "inj_on session_date (set (sessions cal))"
    using cal_ok_dates_distinct[OF assms(1)] by (simp add: session_dates_def distinct_map)
  then show ?thesis using assms(2)
    by (cases "session_on cal (session_date s)")
      (auto simp: session_on_def find_None_iff dest!: find_Some_first dest: inj_onD)
qed

lemma next_session_after_Some:
  assumes "cal_ok cal" "next_session_after cal d = Some s"
  shows "s \<in> set (sessions cal)" "d < session_date s"
    "\<And>t. t \<in> set (sessions cal) \<Longrightarrow> d < session_date t \<Longrightarrow> session_date s \<le> session_date t"
proof -
  have s: "sorted_wrt (\<lambda>a b. session_date a < session_date b) (sessions cal)"
    using cal_ok_dates[OF assms(1)] by (simp add: session_dates_def sorted_wrt_map)
  show "s \<in> set (sessions cal)" "d < session_date s"
    using find_Some_first assms(2) unfolding next_session_after_def by fast+
  show "\<And>t. t \<in> set (sessions cal) \<Longrightarrow> d < session_date t \<Longrightarrow> session_date s \<le> session_date t"
    using find_first_sorted[OF s assms(2)[unfolded next_session_after_def]] by blast
qed

lemma next_session_after_None:
  "next_session_after cal d = None \<longleftrightarrow> (\<forall>s \<in> set (sessions cal). session_date s \<le> d)"
  by (auto simp: next_session_after_def find_None_iff not_less)

subsection \<open>One firing per period\<close>

text \<open>A period occupies consecutive dates: its key does not change and come back.\<close>

lemma period_key_convex:
  assumes "date_ok a" "date_ok b" "date_ok c" "a \<le> b" "b \<le> c" "period_key sched a = period_key sched c"
  shows "period_key sched b = period_key sched c"
proof (cases sched)
  case ScheduleWeekly
  then show ?thesis
    using assms monday_index_mono[OF assms(1,2,4)] monday_index_mono[OF assms(2,3,5)]
    by (auto simp: iso_year_week_eq_iff)
qed (use assms in \<open>cases a; cases b; cases c; auto\<close>)+

lemma group_ends_set:
  fixes ds :: "'a::linorder list"
  assumes "sorted_wrt (<) ds"
    and convex: "\<And>a b c. a \<in> set ds \<Longrightarrow> b \<in> set ds \<Longrightarrow> c \<in> set ds \<Longrightarrow> a \<le> b \<Longrightarrow> b \<le> c \<Longrightarrow> k a = k c \<Longrightarrow> k b = k c"
  shows "set (map ((!) ds) (filter (\<lambda>i. i + 1 = length ds \<or> k (ds ! (i + 1)) \<noteq> k (ds ! i)) [0..<length ds])) =
    {d \<in> set ds. \<forall>e \<in> set ds. d < e \<longrightarrow> k e \<noteq> k d}" (is "?L = ?R")
proof (rule set_eqI)
  fix d
  have nth: "ds ! i < ds ! j \<longleftrightarrow> i < j" if "i < length ds" "j < length ds" for i j
    using assms(1) that sorted_wrt_nth_less[of "(<)" ds] by (metis less_asym' linorder_less_linear)
  have "d \<in> ?L \<longleftrightarrow> (\<exists>i < length ds. d = ds ! i \<and> (i + 1 = length ds \<or> k (ds ! (i + 1)) \<noteq> k (ds ! i)))"
    by (simp only: set_map set_filter set_upt image_iff mem_Collect_eq Bex_def atLeastLessThan_iff) blast
  also have "\<dots> \<longleftrightarrow> (\<exists>i < length ds. d = ds ! i \<and> (\<forall>j < length ds. i < j \<longrightarrow> k (ds ! j) \<noteq> k (ds ! i)))"
  proof (intro ex_cong conj_cong refl iffI)
    fix i assume i: "i < length ds" "d = ds ! i"
      and e: "i + 1 = length ds \<or> k (ds ! (i + 1)) \<noteq> k (ds ! i)"
    show "\<forall>j < length ds. i < j \<longrightarrow> k (ds ! j) \<noteq> k (ds ! i)"
    proof (intro allI impI notI)
      fix j assume j: "j < length ds" "i < j" "k (ds ! j) = k (ds ! i)"
      have "k (ds ! (i + 1)) = k (ds ! j)"
        by (rule convex[of "ds ! i"])
          (use i j nth[of i "i + 1"] nth[of "i + 1" j] in \<open>auto simp: le_less\<close>, metis Suc_lessI)
      then show False using e j by auto
    qed
  qed auto
  also have "\<dots> \<longleftrightarrow> d \<in> ?R"
  proof
    assume "\<exists>i < length ds. d = ds ! i \<and> (\<forall>j < length ds. i < j \<longrightarrow> k (ds ! j) \<noteq> k (ds ! i))"
    then show "d \<in> ?R" by (auto simp: in_set_conv_nth nth)
  next
    assume R: "d \<in> ?R"
    then obtain i where i: "i < length ds" "d = ds ! i" by (auto simp: in_set_conv_nth)
    moreover have "\<forall>j < length ds. i < j \<longrightarrow> k (ds ! j) \<noteq> k (ds ! i)"
      using R i nth by (metis (mono_tags, lifting) mem_Collect_eq nth_mem)
    ultimately show "\<exists>i < length ds. d = ds ! i \<and> (\<forall>j < length ds. i < j \<longrightarrow> k (ds ! j) \<noteq> k (ds ! i))" by blast
  qed
  finally show "d \<in> ?L \<longleftrightarrow> d \<in> ?R" .
qed

lemma group_ends_sorted:
  fixes ds :: "'a::linorder list"
  assumes "sorted_wrt (<) ds"
  shows "sorted_wrt (<) (map ((!) ds) (filter P [0..<length ds]))"
proof -
  have "sorted_wrt (<) (filter P [0..<length ds])" by (rule sorted_wrt_filter) simp
  then have "sorted_wrt (\<lambda>i j. ds ! i < ds ! j) (filter P [0..<length ds])"
    by (rule sorted_wrt_mono_rel[rotated]) (auto intro: sorted_wrt_nth_less[OF assms])
  then show ?thesis by (simp add: sorted_wrt_map)
qed

lemma cal_ok_date_ok: "cal_ok cal \<Longrightarrow> d \<in> set (session_dates cal) \<Longrightarrow> date_ok d"
  by (auto simp: cal_ok_def session_dates_def session_ok_def)

lemma scheduled_sessions_set:
  assumes "cal_ok cal"
  shows "set (scheduled_sessions sched cal) = {d \<in> set (session_dates cal).
     sched \<noteq> ScheduleDaily \<longrightarrow> (\<forall>e \<in> set (session_dates cal). d < e \<longrightarrow> period_key sched e \<noteq> period_key sched d)}"
proof (cases "sched = ScheduleDaily")
  case False
  let ?ds = "session_dates cal"
  have "scheduled_sessions sched cal = map ((!) ?ds) (filter (\<lambda>i. i + 1 = length ?ds
      \<or> period_key sched (?ds ! (i + 1)) \<noteq> period_key sched (?ds ! i)) [0..<length ?ds])"
    using False by (cases sched) (simp_all only: scheduled_sessions_def Let_def schedule.case simp_thms)
  moreover have "set \<dots> = {d \<in> set ?ds. \<forall>e \<in> set ?ds. d < e \<longrightarrow> period_key sched e \<noteq> period_key sched d}"
    by (rule group_ends_set[OF cal_ok_dates[OF assms], of "period_key sched"])
      (blast intro: period_key_convex cal_ok_date_ok[OF assms])
  ultimately show ?thesis using False by simp
qed (simp add: scheduled_sessions_def)

lemma scheduled_sessions_sorted: "cal_ok cal \<Longrightarrow> sorted_wrt (<) (scheduled_sessions sched cal)"
  using cal_ok_dates[of cal] by (cases sched) (simp_all add: scheduled_sessions_def Let_def group_ends_sorted)

end
