(* ===== verification/Pyfloat.thy ===== *)
theory Pyfloat
  imports Prelude "HOL-Library.Log_Nat" "HOL-Library.Code_Target_Numeral"
begin

section \<open>Python's \<open>float\<close>: IEEE 754 binary64 with rounding to nearest even\<close>

text \<open>
  A \<open>float\<close> is a rational (\<open>Fin\<close>), an infinity or a NaN; every arithmetic
  operation computes the exact rational result and rounds it with \<open>fl\<close>, so the model has
  the overflow, underflow and rounding of the code. The sign of zero and the payload of a NaN
  are not represented: no comparison of the program can see them.
  Scaling by \<open>2 ^ 1074\<close> turns every binary64 number into an integer; with
  \<open>k\<close> the bit length of the scaled integer part, a result keeps the upper 53 bits.
\<close>

datatype pyfloat = Fin rat | PInf | NInf | NaN

subsection \<open>Rounding\<close>

definition round_half_even :: "rat \<Rightarrow> int" where
  "round_half_even y =
     (let f = \<lfloor>y\<rfloor>; d = y - of_int f
      in if d < 1/2 then f else if d > 1/2 then f + 1 else if even f then f else f + 1)"

definition round_shift :: "rat \<Rightarrow> nat" where
  "round_shift y = floorlog 2 (nat \<lfloor>y\<rfloor>) - 53"

definition round53 :: "rat \<Rightarrow> rat" where
  "round53 y = of_int (round_half_even (y / 2 ^ round_shift y)) * 2 ^ round_shift y"

definition sub_scale :: rat where
  "sub_scale = 2 ^ 1074"

definition float_limit :: rat where
  "float_limit = 2 ^ 1024"

definition fl_pos :: "rat \<Rightarrow> pyfloat" where
  "fl_pos x = (let r = round53 (x * sub_scale) / sub_scale in if r < float_limit then Fin r else PInf)"

fun fneg :: "pyfloat \<Rightarrow> pyfloat" where
  "fneg (Fin x) = Fin (- x)"
| "fneg PInf = NInf"
| "fneg NInf = PInf"
| "fneg NaN = NaN"

definition fl :: "rat \<Rightarrow> pyfloat" where
  "fl x = (if x < 0 then fneg (fl_pos (- x)) else fl_pos x)"

subsection \<open>Arithmetic and comparison\<close>

instantiation pyfloat :: "{zero, one, plus, minus, times, uminus, abs, ord}"
begin

definition zero_pyfloat :: pyfloat where "0 = Fin 0"

definition one_pyfloat :: pyfloat where "1 = Fin 1"

definition uminus_pyfloat :: "pyfloat \<Rightarrow> pyfloat" where "- a = fneg a"

fun plus_pyfloat :: "pyfloat \<Rightarrow> pyfloat \<Rightarrow> pyfloat" where
  "Fin x + Fin y = fl (x + y)"
| "NaN + b = NaN"
| "a + NaN = NaN"
| "PInf + NInf = NaN"
| "NInf + PInf = NaN"
| "PInf + b = PInf"
| "a + PInf = PInf"
| "NInf + b = NInf"
| "a + NInf = NInf"

definition minus_pyfloat :: "pyfloat \<Rightarrow> pyfloat \<Rightarrow> pyfloat" where "a - b = a + fneg b"

definition inf_times :: "bool \<Rightarrow> rat \<Rightarrow> pyfloat" where
  "inf_times pos x = (if x = 0 then NaN else if (0 < x) = pos then PInf else NInf)"

fun times_pyfloat :: "pyfloat \<Rightarrow> pyfloat \<Rightarrow> pyfloat" where
  "Fin x * Fin y = fl (x * y)"
| "NaN * b = NaN"
| "a * NaN = NaN"
| "PInf * Fin y = inf_times True y"
| "Fin x * PInf = inf_times True x"
| "NInf * Fin y = inf_times False y"
| "Fin x * NInf = inf_times False x"
| "PInf * NInf = NInf"
| "NInf * PInf = NInf"
| "PInf * PInf = PInf"
| "NInf * NInf = PInf"

fun abs_pyfloat :: "pyfloat \<Rightarrow> pyfloat" where
  "abs (Fin x) = Fin \<bar>x\<bar>"
| "abs NaN = NaN"
| "abs PInf = PInf"
| "abs NInf = PInf"

fun less_eq_pyfloat :: "pyfloat \<Rightarrow> pyfloat \<Rightarrow> bool" where
  "Fin x \<le> Fin y \<longleftrightarrow> x \<le> y"
| "NaN \<le> b \<longleftrightarrow> False"
| "a \<le> NaN \<longleftrightarrow> False"
| "NInf \<le> b \<longleftrightarrow> True"
| "a \<le> PInf \<longleftrightarrow> True"
| "PInf \<le> Fin y \<longleftrightarrow> False"
| "PInf \<le> NInf \<longleftrightarrow> False"
| "Fin x \<le> NInf \<longleftrightarrow> False"

fun less_pyfloat :: "pyfloat \<Rightarrow> pyfloat \<Rightarrow> bool" where
  "Fin x < Fin y \<longleftrightarrow> x < y"
| "NaN < b \<longleftrightarrow> False"
| "a < NaN \<longleftrightarrow> False"
| "NInf < NInf \<longleftrightarrow> False"
| "NInf < b \<longleftrightarrow> True"
| "PInf < b \<longleftrightarrow> False"
| "Fin x < PInf \<longleftrightarrow> True"
| "Fin x < NInf \<longleftrightarrow> False"

instance ..

end

text \<open>\<open>==\<close> on floats (false on NaN) and \<open>math.isfinite\<close>.\<close>

definition feq :: "pyfloat \<Rightarrow> pyfloat \<Rightarrow> bool" where
  "feq a b \<longleftrightarrow> a = b \<and> a \<noteq> NaN"

fun isfinite :: "pyfloat \<Rightarrow> bool" where
  "isfinite (Fin _) = True"
| "isfinite _ = False"

text \<open>\<open>a / b\<close> raises on a zero divisor. \<open>fdiv\<close> is the quotient for a divisor known
  not to be zero; \<open>py_div\<close> is the operator.\<close>

fun fdiv :: "pyfloat \<Rightarrow> pyfloat \<Rightarrow> pyfloat" where
  "fdiv (Fin x) (Fin y) = fl (x / y)"
| "fdiv NaN b = NaN"
| "fdiv a NaN = NaN"
| "fdiv (Fin x) PInf = Fin 0"
| "fdiv (Fin x) NInf = Fin 0"
| "fdiv PInf (Fin y) = (if y < 0 then NInf else PInf)"
| "fdiv NInf (Fin y) = (if y < 0 then PInf else NInf)"
| "fdiv PInf b = NaN"
| "fdiv NInf b = NaN"

definition py_div :: "pyfloat \<Rightarrow> pyfloat \<Rightarrow> pyfloat res" where
  "py_div a b = (if feq b 0 then Inl ZeroDivisionError else Inr (fdiv a b))"

text \<open>\<open>min(a, b)\<close> and \<open>max(a, b)\<close> keep the first argument unless the second is
  strictly better.\<close>

definition py_min :: "pyfloat \<Rightarrow> pyfloat \<Rightarrow> pyfloat" where
  "py_min a b = (if b < a then b else a)"

definition py_max :: "pyfloat \<Rightarrow> pyfloat \<Rightarrow> pyfloat" where
  "py_max a b = (if a < b then b else a)"

text \<open>
  \<open>sum(xs)\<close> over floats: since Python 3.12 the compensated (Neumaier) sum, with the
  running error \<open>c\<close> added at the end unless the total is not finite. \<open>sum([])\<close> is the
  integer 0, equal to \<open>0.0\<close> in every use.
\<close>

fun comp_sum :: "pyfloat \<Rightarrow> pyfloat \<Rightarrow> pyfloat list \<Rightarrow> pyfloat" where
  "comp_sum s c [] = (if \<not> feq c 0 \<and> isfinite c then s + c else s)"
| "comp_sum s c (x # xs) =
     (let t = s + x;
          c' = (if \<bar>x\<bar> \<le> \<bar>s\<bar> then c + ((s - t) + x) else c + ((x - t) + s))
      in comp_sum t c' xs)"

fun py_sum :: "pyfloat list \<Rightarrow> pyfloat" where
  "py_sum [] = 0"
| "py_sum (x # xs) = comp_sum (0 + x) 0 xs"

text \<open>\<open>float(n)\<close> of an integer; \<open>OverflowError\<close> beyond the range.\<close>

definition float_of_int :: "int \<Rightarrow> pyfloat res" where
  "float_of_int n = (case fl (of_int n) of
     Fin x \<Rightarrow> Inr (Fin x) | _ \<Rightarrow> Inl (OverflowError ''int too large to convert to float''))"

text \<open>The double nearest to 1e-9, the tolerance the program uses throughout.\<close>

definition float_1e9 :: pyfloat where
  "float_1e9 = Fin (4835703278458517 / 2 ^ 82)"

subsection \<open>Numbers of dynamic type and \<open>repr\<close>\<close>

text \<open>
  A value whose Python type is checked at run time: \<open>PyOther\<close> is any value that is neither
  a bool, an int nor a float, with the name of its type. \<open>True\<close> is not a number to the
  program's guards although Python makes \<open>bool\<close> a subclass of \<open>int\<close>.
\<close>

datatype pynum = PyBool bool | PyInt int | PyFloat pyfloat | PyOther string

fun type_name :: "pynum \<Rightarrow> string" where
  "type_name (PyBool _) = ''bool''"
| "type_name (PyInt _) = ''int''"
| "type_name (PyFloat _) = ''float''"
| "type_name (PyOther t) = t"

text \<open>\<open>repr(x)\<close>: the fewest digits that round back to \<open>x\<close>, in positional notation
  for decimal exponents from -4 to 15.\<close>

definition pow10 :: "int \<Rightarrow> rat" where
  "pow10 k = (if 0 \<le> k then 10 ^ nat k else 1 / 10 ^ nat (- k))"

definition dec_exponent :: "rat \<Rightarrow> int" where
  "dec_exponent x = (case List.find (\<lambda>k. x < pow10 (k + 1)) [-330..309] of Some k \<Rightarrow> k | None \<Rightarrow> 309)"

definition shortest_digits :: "rat \<Rightarrow> int \<times> int" where
  "shortest_digits x =
     (let e = dec_exponent x;
          cand = (\<lambda>n. round_half_even (x / pow10 (e - n + 1)));
          n = (case List.find (\<lambda>n. fl (of_int (cand n) * pow10 (e - n + 1)) = Fin x) [1..17] of
                 Some n \<Rightarrow> n | None \<Rightarrow> 17)
      in if cand n = 10 ^ nat n then (1, e + 1) else (cand n, e))"

definition repr_positive :: "rat \<Rightarrow> string" where
  "repr_positive x =
     (let (m, e) = shortest_digits x; ds = dec_int m; n = int (length ds) in
      if -4 \<le> e \<and> e < 16 then
        (if e < 0 then ''0.'' @ replicate (nat (- e - 1)) (CHR ''0'') @ ds
         else if n - 1 \<le> e then ds @ replicate (nat (e - n + 1)) (CHR ''0'') @ ''.0''
         else take (nat (e + 1)) ds @ ''.'' @ drop (nat (e + 1)) ds)
      else (if n = 1 then ds else take 1 ds @ ''.'' @ drop 1 ds) @ ''e''
        @ (if e < 0 then ''-'' else ''+'') @ (if \<bar>e\<bar> < 10 then ''0'' else []) @ dec_int \<bar>e\<bar>)"

fun repr_float :: "pyfloat \<Rightarrow> string" where
  "repr_float (Fin x) =
     (if x = 0 then ''0.0'' else if x < 0 then ''-'' @ repr_positive (- x) else repr_positive x)"
| "repr_float PInf = ''inf''"
| "repr_float NInf = ''-inf''"
| "repr_float NaN = ''nan''"

text \<open>
  \<open>float(x)\<close> of a float is \<open>x\<close>. The model's type contains every rational, so there
  \<open>to_double\<close> takes the nearest double: the identity on the values a program can hold
  (\<open>is_double\<close>), and a value that went through a constructor is one of them.
\<close>

definition to_double :: "pyfloat \<Rightarrow> pyfloat" where
  "to_double x = (case x of Fin r \<Rightarrow> fl r | _ \<Rightarrow> x)"

definition is_double :: "pyfloat \<Rightarrow> bool" where
  "is_double x \<longleftrightarrow> to_double x = x"

text \<open>A number checked by \<open>isinstance\<close> and converted by \<open>float(value)\<close>.\<close>

fun as_float :: "pynum \<Rightarrow> exn \<Rightarrow> pyfloat res" where
  "as_float (PyInt i) e = float_of_int i"
| "as_float (PyFloat x) e = Inr (to_double x)"
| "as_float _ e = Inl e"

fun repr_pynum :: "pynum \<Rightarrow> string" where
  "repr_pynum (PyBool b) = (if b then ''True'' else ''False'')"
| "repr_pynum (PyInt i) = dec_int i"
| "repr_pynum (PyFloat x) = repr_float x"
| "repr_pynum (PyOther t) = ''<'' @ t @ ''>''"

text \<open>What every price of the program satisfies: a positive finite double.\<close>

definition valid_price :: "pyfloat \<Rightarrow> bool" where
  "valid_price p \<longleftrightarrow> isfinite p \<and> 0 < p \<and> is_double p"

subsection \<open>Laws of rounding\<close>

text \<open>Scaled numbers: the error of one rounding, monotonicity, exactness on 53 bits.\<close>

lemma rhe_err: "\<bar>of_int (round_half_even y) - y\<bar> \<le> 1/2"
proof -
  have "of_int \<lfloor>y\<rfloor> \<le> y" "y < of_int \<lfloor>y\<rfloor> + 1" by linarith+
  then show ?thesis unfolding round_half_even_def Let_def by (auto simp: abs_le_iff)
qed

lemma rhe_of_int [simp]: "round_half_even (of_int n) = n"
  by (simp add: round_half_even_def Let_def)

lemma rhe_between: "\<lfloor>y\<rfloor> \<le> round_half_even y" "round_half_even y \<le> \<lfloor>y\<rfloor> + 1"
  by (auto simp: round_half_even_def Let_def)

lemma rhe_mono: "y \<le> z \<Longrightarrow> round_half_even y \<le> round_half_even z"
proof (cases "\<lfloor>y\<rfloor> = \<lfloor>z\<rfloor>")
  case True
  assume "y \<le> z"
  with True show ?thesis by (auto simp: round_half_even_def Let_def)
next
  case False
  assume "y \<le> z"
  then have "\<lfloor>y\<rfloor> + 1 \<le> \<lfloor>z\<rfloor>" using False floor_mono[of y z] by linarith
  then show ?thesis using rhe_between[of y] rhe_between[of z] by linarith
qed

lemma round_shift_upper: "0 \<le> y \<Longrightarrow> y < 2 ^ (53 + round_shift y)"
proof -
  assume "0 \<le> y"
  let ?n = "nat \<lfloor>y\<rfloor>"
  have "?n < 2 ^ floorlog 2 ?n"
    by (cases "?n = 0") (use floorlog_bounds[of ?n 2] in \<open>auto simp: floorlog_def\<close>)
  also have "\<dots> \<le> 2 ^ (53 + round_shift y)"
    by (rule power_increasing) (auto simp: round_shift_def)
  finally have "int ?n < 2 ^ (53 + round_shift y)" by (metis of_nat_less_iff of_nat_numeral of_nat_power)
  then have "\<lfloor>y\<rfloor> < 2 ^ (53 + round_shift y)" using \<open>0 \<le> y\<close> by simp
  then have "y < of_int (2 ^ (53 + round_shift y))" by (simp only: floor_less_iff)
  then show ?thesis by simp
qed

lemma round_shift_lower: "0 < round_shift y \<Longrightarrow> 2 ^ (52 + round_shift y) \<le> y"
proof -
  assume s: "0 < round_shift y"
  let ?n = "nat \<lfloor>y\<rfloor>"
  have k: "floorlog 2 ?n = 53 + round_shift y" using s by (simp add: round_shift_def)
  then have "0 < ?n" by (intro gr0I) (simp add: floorlog_def)
  then have "2 ^ (floorlog 2 ?n - 1) \<le> ?n" using floorlog_bounds[of ?n 2] by simp
  then have "(2::nat) ^ (52 + round_shift y) \<le> ?n" using k by simp
  then have "(2::int) ^ (52 + round_shift y) \<le> int ?n"
    by (metis of_nat_le_iff of_nat_numeral of_nat_power)
  then have "(2::int) ^ (52 + round_shift y) \<le> \<lfloor>y\<rfloor>" using \<open>0 < ?n\<close> by simp
  then have "of_int (2 ^ (52 + round_shift y)) \<le> y" by (simp only: le_floor_iff)
  then show ?thesis by simp
qed

lemma round_shift_mono: "0 \<le> y \<Longrightarrow> y \<le> z \<Longrightarrow> round_shift y \<le> round_shift z"
proof (rule ccontr)
  assume a: "0 \<le> y" "y \<le> z" "\<not> round_shift y \<le> round_shift z"
  then have "(2::rat) ^ (52 + round_shift y) \<le> y" by (intro round_shift_lower) simp
  moreover have "z < 2 ^ (53 + round_shift z)" using a by (intro round_shift_upper) simp
  moreover have "(2::rat) ^ (53 + round_shift z) \<le> 2 ^ (52 + round_shift y)"
    using a(3) by (intro power_increasing) auto
  ultimately show False using a(2) by linarith
qed

lemma round53_upper: "0 \<le> y \<Longrightarrow> round53 y \<le> 2 ^ (53 + round_shift y)"
proof -
  assume "0 \<le> y"
  then have "y / 2 ^ round_shift y \<le> of_int (2 ^ 53)"
    using round_shift_upper[of y] by (simp add: field_simps power_add)
  from rhe_mono[OF this] have "round_half_even (y / 2 ^ round_shift y) \<le> 2 ^ 53" by (simp only: rhe_of_int)
  then have "of_int (round_half_even (y / 2 ^ round_shift y)) \<le> (of_int (2 ^ 53) :: rat)" by (simp only: of_int_le_iff)
  then show ?thesis by (simp add: round53_def power_add)
qed

lemma round53_lower: "0 < round_shift y \<Longrightarrow> 2 ^ (52 + round_shift y) \<le> round53 y"
proof -
  assume s: "0 < round_shift y"
  have "of_int (2 ^ 52) \<le> y / 2 ^ round_shift y"
    using round_shift_lower[OF s] by (simp add: field_simps power_add)
  from rhe_mono[OF this] have "2 ^ 52 \<le> round_half_even (y / 2 ^ round_shift y)" by (simp only: rhe_of_int)
  then have "(of_int (2 ^ 52) :: rat) \<le> of_int (round_half_even (y / 2 ^ round_shift y))" by (simp only: of_int_le_iff)
  then show ?thesis by (simp add: round53_def power_add)
qed

lemma round53_mono: "0 \<le> y \<Longrightarrow> y \<le> z \<Longrightarrow> round53 y \<le> round53 z"
proof (cases "round_shift y = round_shift z")
  case True
  assume "0 \<le> y" "y \<le> z"
  then have "y / 2 ^ round_shift z \<le> z / 2 ^ round_shift z" by (simp add: divide_right_mono)
  from rhe_mono[OF this] show ?thesis by (simp add: round53_def True)
next
  case False
  assume a: "0 \<le> y" "y \<le> z"
  then have lt: "round_shift y < round_shift z" using round_shift_mono[of y z] False by simp
  have "round53 y \<le> 2 ^ (53 + round_shift y)" by (rule round53_upper[OF a(1)])
  also have "\<dots> \<le> 2 ^ (52 + round_shift z)" using lt by (intro power_increasing) auto
  also have "\<dots> \<le> round53 z" using lt by (intro round53_lower) simp
  finally show ?thesis .
qed

lemma round53_exact:
  assumes "y = of_nat m * 2 ^ t" "m \<le> 2 ^ 53"
  shows "round53 y = y"
proof -
  let ?s = "round_shift y"
  have int: "\<exists>n::int. y / 2 ^ ?s = of_int n"
  proof (cases "?s \<le> t")
    case True
    then have "y / 2 ^ ?s = of_int (int m * 2 ^ (t - ?s))"
      using assms(1) True by (simp add: field_simps flip: power_add)
    then show ?thesis by blast
  next
    case False
    then have "2 ^ (52 + ?s) \<le> y" by (intro round_shift_lower) simp
    moreover have "y \<le> 2 ^ (53 + t)"
    proof -
      have "(of_nat m :: rat) \<le> of_nat (2 ^ 53)" using assms(2) by (simp only: of_nat_le_iff)
      then show ?thesis using assms(1) by (simp add: power_add)
    qed
    ultimately have "(2::rat) ^ (52 + ?s) \<le> 2 ^ (53 + t)" by linarith
    then have "52 + ?s \<le> 53 + t" by (simp only: power_increasing_iff one_less_numeral_iff semiring_norm)
    then have s: "?s = Suc t" using False by simp
    have "(2::rat) ^ (53 + t) \<le> of_nat m * 2 ^ t"
      using \<open>2 ^ (52 + ?s) \<le> y\<close> assms(1) s by (simp add: power_add)
    then have "(of_nat (2 ^ 53) :: rat) \<le> of_nat m" by (simp add: power_add)
    then have "m = 2 ^ 53" using assms(2) by (metis le_antisym of_nat_le_iff)
    then have "y / 2 ^ ?s = of_int (2 ^ 52)" using assms(1) s by (simp add: field_simps)
    then show ?thesis by blast
  qed
  then obtain n :: int where n: "y / 2 ^ ?s = of_int n" by blast
  then have "round53 y = of_int n * 2 ^ ?s" by (simp only: round53_def rhe_of_int)
  also have "\<dots> = y" using n by (simp add: field_simps)
  finally show ?thesis .
qed

lemma round53_0 [simp]: "round53 0 = 0"
  using round53_exact[of 0 0 0] by simp

lemma round53_nonneg: "0 \<le> y \<Longrightarrow> 0 \<le> round53 y"
  using round53_mono[of 0 y] by simp

lemma round53_err: "0 \<le> y \<Longrightarrow> \<bar>round53 y - y\<bar> \<le> max (1/2) (y / 2 ^ 53)"
proof -
  assume y: "0 \<le> y"
  let ?s = "round_shift y"
  have "\<bar>round53 y - y\<bar> = \<bar>of_int (round_half_even (y / 2 ^ ?s)) - y / 2 ^ ?s\<bar> * 2 ^ ?s"
  proof -
    have "round53 y - y = (of_int (round_half_even (y / 2 ^ ?s)) - y / 2 ^ ?s) * 2 ^ ?s"
      by (simp add: round53_def left_diff_distrib)
    then show ?thesis by (simp add: abs_mult)
  qed
  also have "\<dots> \<le> 1/2 * 2 ^ ?s" by (intro mult_right_mono rhe_err) simp
  also have "\<dots> \<le> max (1/2) (y / 2 ^ 53)"
  proof (cases "?s = 0")
    case False
    then have "2 ^ (52 + ?s) \<le> y" by (intro round_shift_lower) simp
    then show ?thesis by (simp add: power_add field_simps max_def)
  qed (simp add: max_def)
  finally show ?thesis .
qed

lemma round53_form: "0 \<le> y \<Longrightarrow> \<exists>m t. round53 y = of_nat m * 2 ^ t \<and> m \<le> 2 ^ 53"
proof -
  assume y: "0 \<le> y"
  let ?s = "round_shift y" and ?n = "round_half_even (y / 2 ^ round_shift y)"
  have n0: "0 \<le> ?n"
    using rhe_mono[of 0 "y / 2 ^ ?s"] rhe_of_int[of 0] y by simp
  have "of_int ?n * 2 ^ ?s \<le> (2::rat) ^ (53 + ?s)" using round53_upper[OF y] by (simp add: round53_def)
  then have "(of_int ?n :: rat) \<le> of_int (2 ^ 53)" by (simp add: power_add)
  then have "?n \<le> 2 ^ 53" by (simp only: of_int_le_iff)
  then have "nat ?n \<le> 2 ^ 53" by (simp add: nat_le_iff)
  moreover have "round53 y = of_nat (nat ?n) * 2 ^ ?s" using n0 by (simp add: round53_def)
  ultimately show ?thesis by blast
qed

text \<open>The rounding function on rationals.\<close>

lemma sub_scale_pos [simp]: "0 < sub_scale" "0 \<le> sub_scale" "sub_scale \<noteq> 0"
  by (simp_all add: sub_scale_def)

lemma sub_scale_split: "k \<le> 1074 \<Longrightarrow> sub_scale = 2 ^ (1074 - k) * 2 ^ k"
  unfolding sub_scale_def power_add[symmetric] by simp

lemma float_limit_pos [simp]: "0 < float_limit" "\<not> float_limit \<le> 0"
  by (simp_all add: float_limit_def)

lemma float_limit_gt: "k < 1024 \<Longrightarrow> 2 ^ k < float_limit"
  unfolding float_limit_def by (rule power_strict_increasing) auto

lemma fl_pos_cases: "0 \<le> x \<Longrightarrow> (\<exists>r. fl_pos x = Fin r \<and> 0 \<le> r) \<or> fl_pos x = PInf"
  by (auto simp: fl_pos_def Let_def round53_nonneg)

lemma fl_not_NaN [simp]: "fl x \<noteq> NaN"
  using fl_pos_cases[of x] fl_pos_cases[of "- x"] by (cases "x < 0") (auto simp: fl_def)

lemma fl_0 [simp]: "fl 0 = Fin 0"
  by (simp add: fl_def fl_pos_def)

lemma fl_uminus: "fl (- x) = fneg (fl x)"
proof (cases "x = 0")
  case False
  have [simp]: "fneg (fneg a) = a" for a by (cases a) auto
  show ?thesis using False by (auto simp: fl_def)
qed simp

lemma fl_nonneg_cases:
  assumes "0 \<le> x" obtains r where "fl x = Fin r" "0 \<le> r" | "fl x = PInf"
  using fl_pos_cases[OF assms] assms that by (auto simp: fl_def)

lemma fl_nonneg: "0 \<le> x \<Longrightarrow> fl x = Fin r \<Longrightarrow> 0 \<le> r"
  by (auto elim: fl_nonneg_cases)

lemma fl_nonneg_not_NInf: "0 \<le> x \<Longrightarrow> fl x \<noteq> NInf"
  by (auto elim: fl_nonneg_cases)

lemma fl_pos_mono: "0 \<le> x \<Longrightarrow> x \<le> y \<Longrightarrow> fl_pos x \<le> fl_pos y"
proof -
  assume a: "0 \<le> x" "x \<le> y"
  have "round53 (x * sub_scale) \<le> round53 (y * sub_scale)"
    by (rule round53_mono) (use a in \<open>simp_all add: mult_right_mono\<close>)
  then have "round53 (x * sub_scale) / sub_scale \<le> round53 (y * sub_scale) / sub_scale"
    by (rule divide_right_mono) simp
  then show ?thesis by (auto simp: fl_pos_def Let_def)
qed

lemma fneg_le_iff: "fneg a \<le> fneg b \<longleftrightarrow> b \<le> a"
  by (cases a; cases b) auto

lemma fl_mono: "x \<le> y \<Longrightarrow> fl x \<le> fl y"
proof -
  assume le: "x \<le> y"
  consider "0 \<le> x" | "x < 0" "0 \<le> y" | "y < 0" using le by linarith
  then show ?thesis
  proof cases
    case 1 then show ?thesis using le fl_pos_mono by (simp add: fl_def)
  next
    case 2
    then show ?thesis using fl_pos_cases[of "- x"] fl_pos_cases[of y] by (auto simp: fl_def)
  next
    case 3 then show ?thesis using le fl_pos_mono[of "- y" "- x"] by (simp add: fl_def fneg_le_iff)
  qed
qed

lemma fl_mono_Fin: "x \<le> y \<Longrightarrow> fl x = Fin r \<Longrightarrow> fl y = Fin s \<Longrightarrow> r \<le> s"
  using fl_mono[of x y] by simp

lemma fl_pos_exact:
  assumes "x * sub_scale = of_nat m * 2 ^ t" "m \<le> 2 ^ 53" "x < float_limit"
  shows "fl_pos x = Fin x"
proof -
  have "round53 (x * sub_scale) = x * sub_scale" by (rule round53_exact[OF assms(1,2)])
  then show ?thesis using assms(3) by (simp add: fl_pos_def)
qed

lemma fl_dyadic:
  assumes "\<bar>n\<bar> \<le> 2 ^ 53" "k \<le> 1074"
  shows "fl (of_int n / 2 ^ k) = Fin (of_int n / 2 ^ k)"
proof -
  have pos: "fl_pos (of_nat m / 2 ^ k) = Fin (of_nat m / 2 ^ k)" if "m \<le> 2 ^ 53" for m
  proof (rule fl_pos_exact[where t = "1074 - k" and m = m])
    show "of_nat m / 2 ^ k * sub_scale = of_nat m * (2::rat) ^ (1074 - k)"
      by (subst sub_scale_split[OF assms(2)]) simp
    have "(of_nat m :: rat) \<le> of_nat (2 ^ 53)" using that by (simp only: of_nat_le_iff)
    moreover have "of_nat m / 2 ^ k \<le> (of_nat m / 1 :: rat)" by (rule divide_left_mono) auto
    ultimately have "of_nat m / 2 ^ k \<le> (2::rat) ^ 53" by simp
    also have "\<dots> < float_limit" by (rule float_limit_gt) simp
    finally show "of_nat m / 2 ^ k < float_limit" .
  qed (fact that)
  show ?thesis
  proof (cases "n < 0")
    case True
    then have "fl_pos (of_nat (nat (- n)) / 2 ^ k) = Fin (of_nat (nat (- n)) / 2 ^ k)"
      using assms(1) by (intro pos) simp
    then show ?thesis using True by (simp add: fl_def divide_less_0_iff)
  next
    case False
    then have "fl_pos (of_nat (nat n) / 2 ^ k) = Fin (of_nat (nat n) / 2 ^ k)"
      using assms(1) by (intro pos) simp
    then show ?thesis using False by (simp add: fl_def divide_less_0_iff)
  qed
qed

lemma fl_of_int: "\<bar>n\<bar> \<le> 2 ^ 53 \<Longrightarrow> fl (of_int n) = Fin (of_int n)"
  using fl_dyadic[of n 0] by simp

lemma fl_numeral [simp]: "(numeral n :: int) \<le> 9007199254740992 \<Longrightarrow> fl (numeral n) = Fin (numeral n)"
  using fl_of_int[of "numeral n"] by simp

lemma fl_one [simp]: "fl 1 = Fin 1"
  using fl_of_int[of 1] by simp

lemma fl_neg_numeral [simp]:
  "(numeral n :: int) \<le> 9007199254740992 \<Longrightarrow> fl (- numeral n) = Fin (- numeral n)"
  "fl (- 1) = Fin (- 1)"
  by (simp_all add: fl_uminus)

lemma dvd_power_of_2: "d dvd 2 ^ n \<Longrightarrow> \<exists>k\<le>n. d = 2 ^ k" for d :: nat
proof (induction n arbitrary: d)
  case (Suc n)
  show ?case
  proof (cases "even d")
    case True
    then obtain d' where d: "d = 2 * d'" by (elim evenE)
    with Suc.prems have "d' dvd 2 ^ n" by simp
    from Suc.IH[OF this] d show ?thesis by (metis Suc_le_mono power_Suc)
  next
    case False
    then have "coprime d 2" by simp
    with Suc.prems have "d dvd 2 ^ n" by (simp add: coprime_dvd_mult_right_iff)
    from Suc.IH[OF this] show ?thesis by (metis le_SucI)
  qed
qed auto

lemma fl_frac:
  assumes "(numeral d :: nat) dvd 2 ^ 60" "\<bar>n\<bar> \<le> 2 ^ 53"
  shows "fl (of_int n / numeral d) = Fin (of_int n / numeral d)"
proof -
  obtain k where k: "(numeral d :: nat) = 2 ^ k" "k \<le> 60"
    using dvd_power_of_2[OF assms(1)] by blast
  then have "(numeral d :: rat) = 2 ^ k" by (metis of_nat_numeral of_nat_power)
  then show ?thesis using fl_dyadic[OF assms(2), of k] k(2) by simp
qed

lemma fl_frac_numeral [simp]:
  assumes "(1152921504606846976 :: nat) mod numeral d = 0" "(numeral n :: int) \<le> 9007199254740992"
  shows "fl (numeral n / numeral d) = Fin (numeral n / numeral d)"
    and "fl (- (numeral n / numeral d)) = Fin (- (numeral n / numeral d))"
  using fl_frac[of d "numeral n"] assms by (simp_all add: fl_uminus dvd_eq_mod_eq_0)

lemma fl_frac_1 [simp]:
  assumes "(1152921504606846976 :: nat) mod numeral d = 0"
  shows "fl (1 / numeral d) = Fin (1 / numeral d)"
    and "fl (- (1 / numeral d)) = Fin (- (1 / numeral d))"
  using fl_frac[of d 1] assms by (simp_all add: fl_uminus dvd_eq_mod_eq_0)

lemma fl_err:
  assumes "fl x = Fin r" shows "\<bar>r - x\<bar> \<le> max (1 / (2 * sub_scale)) (\<bar>x\<bar> / 2 ^ 53)"
proof -
  have pos: "\<bar>r - x\<bar> \<le> max (1 / (2 * sub_scale)) (\<bar>x\<bar> / 2 ^ 53)" if "0 \<le> x" "fl_pos x = Fin r" for x r
  proof -
    have r: "r = round53 (x * sub_scale) / sub_scale"
      using that(2) by (auto simp: fl_pos_def Let_def split: if_splits)
    have "\<bar>round53 (x * sub_scale) - x * sub_scale\<bar> \<le> max (1/2) (x * sub_scale / 2 ^ 53)"
      using that(1) by (intro round53_err) simp
    then have "\<bar>round53 (x * sub_scale) - x * sub_scale\<bar> / sub_scale \<le> max (1/2) (x * sub_scale / 2 ^ 53) / sub_scale"
      by (rule divide_right_mono) simp
    moreover have "\<bar>round53 (x * sub_scale) - x * sub_scale\<bar> / sub_scale = \<bar>r - x\<bar>"
    proof -
      have "r - x = (round53 (x * sub_scale) - x * sub_scale) / sub_scale" by (simp add: r diff_divide_distrib)
      then show ?thesis by (simp only: abs_divide) simp
    qed
    moreover have "max (1/2) (x * sub_scale / 2 ^ 53) / sub_scale = max (1 / (2 * sub_scale)) (\<bar>x\<bar> / (2::rat) ^ 53)"
      using that(1) by (simp add: max_divide_distrib_right)
    ultimately show ?thesis by simp
  qed
  show ?thesis
  proof (cases "x < 0")
    case True
    then have "fl_pos (- x) = Fin (- r)" using assms by (cases "fl_pos (- x)") (auto simp: fl_def)
    with pos[of "- x" "- r"] True show ?thesis by (simp add: abs_minus_commute)
  qed (use assms pos in \<open>simp add: fl_def\<close>)
qed

lemma fl_idem:
  assumes "fl x = Fin r" shows "fl r = Fin r"
proof -
  have pos: "fl r = Fin r" if x: "0 \<le> x" and e: "fl_pos x = Fin r" for x r
  proof -
    have r: "r = round53 (x * sub_scale) / sub_scale" "r < float_limit"
      using e by (auto simp: fl_pos_def Let_def split: if_splits)
    obtain m t where "round53 (x * sub_scale) = of_nat m * 2 ^ t" "m \<le> 2 ^ 53"
      using round53_form[of "x * sub_scale"] x by auto
    then have "fl_pos r = Fin r" using r by (intro fl_pos_exact[of _ m t]) simp_all
    moreover have "0 \<le> r" using fl_pos_cases[OF x] e by auto
    ultimately show ?thesis by (simp add: fl_def)
  qed
  show ?thesis
  proof (cases "x < 0")
    case True
    then have "fl_pos (- x) = Fin (- r)" using assms by (cases "fl_pos (- x)") (auto simp: fl_def)
    with pos[of "- x" "- r"] True have "fl (- r) = Fin (- r)" by simp
    then show ?thesis using fl_uminus[of "- r"] by simp
  next
    case False
    then show ?thesis using assms pos[of x r] by (simp add: fl_def[of x])
  qed
qed

subsection \<open>Laws of the operators\<close>

declare zero_pyfloat_def [simp] one_pyfloat_def [simp] minus_pyfloat_def [simp]
  uminus_pyfloat_def [simp]

lemma isfinite_iff: "isfinite a \<longleftrightarrow> (\<exists>x. a = Fin x)"
  by (cases a) auto

lemma isfiniteE [elim!]: "isfinite a \<Longrightarrow> (\<And>x. a = Fin x \<Longrightarrow> P) \<Longrightarrow> P"
  by (cases a) auto

lemma pf_refl: "a \<le> a \<longleftrightarrow> a \<noteq> NaN" for a :: pyfloat
  by (cases a) auto

lemma pf_le_trans: "a \<le> b \<Longrightarrow> b \<le> c \<Longrightarrow> a \<le> c" for a b c :: pyfloat
  by (cases a; cases b; cases c) auto

lemma pf_less_imp_le: "a < b \<Longrightarrow> a \<le> b" for a b :: pyfloat
  by (cases a; cases b) auto

lemma pf_le_less_trans: "a \<le> b \<Longrightarrow> b < c \<Longrightarrow> a < c" for a b c :: pyfloat
  by (cases a; cases b; cases c) auto

lemma pf_less_le_trans: "a < b \<Longrightarrow> b \<le> c \<Longrightarrow> a < c" for a b c :: pyfloat
  by (cases a; cases b; cases c) auto

lemma pf_not_less: "a \<noteq> NaN \<Longrightarrow> b \<noteq> NaN \<Longrightarrow> \<not> a < b \<longleftrightarrow> b \<le> a" for a b :: pyfloat
  by (cases a; cases b) auto

lemma pf_not_le: "a \<noteq> NaN \<Longrightarrow> b \<noteq> NaN \<Longrightarrow> \<not> a \<le> b \<longleftrightarrow> b < a" for a b :: pyfloat
  by (cases a; cases b) auto

lemma pf_le_notNaN: "a \<le> b \<Longrightarrow> a \<noteq> NaN \<and> b \<noteq> NaN" for a b :: pyfloat
  by (cases a; cases b) auto

lemma pf_less_notNaN: "a < b \<Longrightarrow> a \<noteq> NaN \<and> b \<noteq> NaN" for a b :: pyfloat
  by (cases a; cases b) auto

lemma fl_ge_0: "0 \<le> x \<Longrightarrow> 0 \<le> fl x"
  using fl_mono[of 0 x] by simp

lemma pf_add_nonneg: "0 \<le> a \<Longrightarrow> 0 \<le> b \<Longrightarrow> 0 \<le> a + b" for a b :: pyfloat
  by (cases a; cases b) (auto intro!: fl_ge_0[simplified])

lemma pf_sub_nonneg: "b \<le> a \<Longrightarrow> isfinite a \<Longrightarrow> isfinite b \<Longrightarrow> 0 \<le> a - b" for a b :: pyfloat
  by (auto intro!: fl_ge_0[simplified])

lemma pf_mult_nonneg: "isfinite a \<Longrightarrow> isfinite b \<Longrightarrow> 0 \<le> a \<Longrightarrow> 0 \<le> b \<Longrightarrow> 0 \<le> a * b" for a b :: pyfloat
  by (auto intro!: fl_ge_0[simplified])

lemma pf_div_nonneg: "isfinite a \<Longrightarrow> isfinite b \<Longrightarrow> 0 \<le> a \<Longrightarrow> 0 < b \<Longrightarrow> 0 \<le> fdiv a b"
  by (auto intro!: fl_ge_0[simplified])

lemma pf_add_zero: "fl x = Fin x \<Longrightarrow> Fin x + 0 = Fin x" "fl x = Fin x \<Longrightarrow> 0 + Fin x = Fin x"
  by simp_all

lemma py_max_ge: "a \<noteq> NaN \<Longrightarrow> b \<noteq> NaN \<Longrightarrow> a \<le> py_max a b \<and> b \<le> py_max a b"
  by (cases a; cases b) (auto simp: py_max_def)

lemma py_min_le: "a \<noteq> NaN \<Longrightarrow> b \<noteq> NaN \<Longrightarrow> py_min a b \<le> a \<and> py_min a b \<le> b"
  by (cases a; cases b) (auto simp: py_min_def)

lemma py_min_cases: "py_min a b = a \<or> py_min a b = b" and py_max_cases: "py_max a b = a \<or> py_max a b = b"
  by (auto simp: py_min_def py_max_def)

lemma is_double_Fin: "is_double (Fin r) \<longleftrightarrow> fl r = Fin r"
  by (simp add: is_double_def to_double_def)

lemma is_double_fl [simp]: "is_double (fl x)"
  by (cases "fl x") (auto simp: is_double_def to_double_def dest: fl_idem)

lemma is_double_inf [simp]: "is_double PInf" "is_double NInf" "is_double NaN"
  by (simp_all add: is_double_def to_double_def)

lemma to_double_double [simp]: "is_double (to_double x)"
  by (cases x) (simp_all add: to_double_def)

lemma to_double_id: "is_double x \<Longrightarrow> to_double x = x"
  by (simp add: is_double_def)

lemma is_double_add [simp]: "is_double (a + b)" for a b :: pyfloat
  by (cases a; cases b) simp_all

lemma is_double_mult [simp]: "is_double (a * b)" for a b :: pyfloat
  by (cases a; cases b) (simp_all add: inf_times_def)

lemma is_double_sub [simp]: "is_double (a - b)" for a b :: pyfloat
  by (simp del: minus_pyfloat_def add: minus_pyfloat_def[abs_def])

lemma is_double_fdiv [simp]: "is_double (fdiv a b)"
  by (cases a; cases b) (simp_all add: is_double_Fin)

lemma as_float_double: "as_float v e = Inr x \<Longrightarrow> is_double x"
  by (cases v) (auto simp: float_of_int_def is_double_Fin split: pyfloat.splits dest: fl_idem)

text \<open>A certificate for one rounding: the 53-bit significand and its exponent.\<close>

lemma round_shift_eq:
  assumes "2 ^ (52 + s) \<le> y" "y < 2 ^ (53 + s)"
  shows "round_shift y = s"
proof (rule antisym)
  have y: "0 \<le> y" using assms(1) by (meson order_trans zero_le_numeral zero_le_power)
  have "(2::rat) ^ (52 + s) < 2 ^ (53 + round_shift y)" using round_shift_upper[OF y] assms(1) by linarith
  then have "52 + s < 53 + round_shift y" by (rule power_less_imp_less_exp[rotated]) simp
  then show "s \<le> round_shift y" by simp
  show "round_shift y \<le> s"
  proof (rule ccontr)
    assume n: "\<not> round_shift y \<le> s"
    then have "2 ^ (52 + round_shift y) \<le> y" by (intro round_shift_lower) simp
    then have "(2::rat) ^ (52 + round_shift y) < 2 ^ (53 + s)" using assms(2) by linarith
    then have "52 + round_shift y < 53 + s" by (rule power_less_imp_less_exp[rotated]) simp
    then show False using n by simp
  qed
qed

lemma rhe_near: "\<bar>y - of_int m\<bar> < 1/2 \<Longrightarrow> round_half_even y = m"
proof -
  assume a: "\<bar>y - of_int m\<bar> < 1/2"
  have "\<bar>of_int (round_half_even y) - y\<bar> \<le> 1/2" by (rule rhe_err)
  then have "of_int (round_half_even y) < of_int m + (1::rat)" "of_int m < of_int (round_half_even y) + (1::rat)"
    using a by linarith+
  then show ?thesis by linarith
qed

subsection \<open>Evaluating one rounding\<close>

text \<open>
  The defining equation of \<open>fl\<close> scales by \<open>2 ^ 1074\<close>, too much for symbolic evaluation.
  The code equation below keeps exact results, rounds a quotient of integers at the window
  of 53 bits it falls in, and leaves what is outside (subnormal or huge) to the definition.
\<close>

definition rhe_quot :: "int \<Rightarrow> int \<Rightarrow> int" where
  "rhe_quot a q = (let d = a div q; r = a mod q
     in if 2 * r < q then d else if q < 2 * r then d + 1 else if even d then d else d + 1)"

lemma rhe_quot: "0 < q \<Longrightarrow> round_half_even (of_int a / of_int q) = rhe_quot a q"
proof -
  assume q: "0 < q"
  have fl: "\<lfloor>of_int a / (of_int q :: rat)\<rfloor> = a div q" by (rule floor_divide_of_int_eq)
  have "of_int a = of_int q * of_int (a div q) + (of_int (a mod q) :: rat)"
    by (metis mult_div_mod_eq of_int_add of_int_mult)
  then have d: "of_int a / of_int q - of_int (a div q) = (of_int (a mod q) / of_int q :: rat)"
    using q by (simp add: field_simps)
  have "(of_int (a mod q) / of_int q < (1/2 :: rat)) \<longleftrightarrow> (of_int (2 * (a mod q)) :: rat) < of_int q"
    using q by (simp add: field_simps)
  moreover have "((1/2 :: rat) < of_int (a mod q) / of_int q) \<longleftrightarrow> (of_int q :: rat) < of_int (2 * (a mod q))"
    using q by (simp add: field_simps)
  ultimately show ?thesis unfolding round_half_even_def rhe_quot_def Let_def fl d
    by (simp only: of_int_less_iff)
qed

lemma fl_window:
  assumes "2 ^ 52 \<le> x * 2 ^ k" "x * 2 ^ k < 2 ^ 53" "k \<le> 1074"
  shows "fl x = Fin (of_int (round_half_even (x * 2 ^ k)) / 2 ^ k)"
proof -
  let ?y = "x * sub_scale" and ?s = "1074 - k" and ?m = "round_half_even (x * 2 ^ k)"
  have y: "?y = x * 2 ^ k * 2 ^ ?s" by (subst sub_scale_split[OF assms(3)]) simp
  have s: "round_shift ?y = ?s" using assms(1,2) by (intro round_shift_eq) (simp_all add: y power_add)
  have "round53 ?y = of_int ?m * 2 ^ ?s" by (simp add: round53_def s) (simp add: y)
  then have r: "round53 ?y / sub_scale = of_int ?m / 2 ^ k" by (simp add: sub_scale_split[OF assms(3)])
  have "?m \<le> 2 ^ 53"
    using rhe_mono[of "x * 2 ^ k" "of_int (2 ^ 53)"] assms(2) by (simp only: rhe_of_int) simp
  then have "of_int ?m \<le> (of_int (2 ^ 53) :: rat)" by (simp only: of_int_le_iff)
  then have "of_int ?m / 2 ^ k \<le> (2::rat) ^ 53 / 1" by (intro frac_le) auto
  also have "\<dots> < float_limit" using float_limit_gt[of 53] by simp
  finally have "fl_pos x = Fin (of_int ?m / 2 ^ k)" by (simp add: fl_pos_def r)
  moreover have "0 < x"
  proof -
    have "0 < x * 2 ^ k" using assms(1) by (rule less_le_trans[rotated]) simp
    then show ?thesis by (simp add: zero_less_mult_iff)
  qed
  ultimately show ?thesis by (simp add: fl_def)
qed

lemma fl_certificate:
  assumes "2 ^ 52 \<le> x * 2 ^ k" "x * 2 ^ k < 2 ^ 53" "\<bar>x * 2 ^ k - of_int m\<bar> < 1/2" "k \<le> 1074"
  shows "fl x = Fin (of_int m / 2 ^ k)"
  using fl_window[OF assms(1,2,4)] rhe_near[OF assms(3)] by simp

definition fl_slow :: "rat \<Rightarrow> pyfloat" where
  "fl_slow x = fl x"

lemma fl_slow_code [code]: "fl_slow x = (if x < 0 then fneg (fl_pos (- x)) else fl_pos x)"
  by (simp add: fl_slow_def fl_def)

definition fl_at :: "int \<Rightarrow> int \<Rightarrow> nat \<Rightarrow> pyfloat" where
  "fl_at p q k =
     (let a = p * 2 ^ k
      in if 2 ^ 52 * q \<le> a \<and> a < 2 ^ 53 * q \<and> k \<le> 1074 then Fin (of_int (rhe_quot a q) / of_int (2 ^ k))
         else fl_slow (of_int p / of_int q))"

definition fl_quot :: "int \<Rightarrow> int \<Rightarrow> pyfloat" where
  "fl_quot p q = (let k = nat (53 + bitlen q - bitlen p) in fl_at p q (if p * 2 ^ k < 2 ^ 53 * q then k else k - 1))"

lemma fl_at: "0 < q \<Longrightarrow> fl_at p q k = fl (of_int p / of_int q)"
proof (cases "2 ^ 52 * q \<le> p * 2 ^ k \<and> p * 2 ^ k < 2 ^ 53 * q \<and> k \<le> 1074")
  case True
  assume q: "0 < q"
  have e: "of_int p / of_int q * (2::rat) ^ k = of_int (p * 2 ^ k) / of_int q" by simp
  have "(of_int (2 ^ 52 * q) :: rat) \<le> of_int (p * 2 ^ k)" "(of_int (p * 2 ^ k) :: rat) < of_int (2 ^ 53 * q)"
    using True by (simp_all only: of_int_le_iff of_int_less_iff)
  then have "2 ^ 52 \<le> of_int p / of_int q * (2::rat) ^ k" "of_int p / of_int q * (2::rat) ^ k < 2 ^ 53"
    using q by (simp_all add: divide_simps)
  from fl_window[OF this] show ?thesis using True rhe_quot[OF q, of "p * 2 ^ k"] by (simp add: fl_at_def)
qed (auto simp: fl_at_def fl_slow_def Let_def)

lemma fl_quot: "0 < q \<Longrightarrow> fl_quot p q = fl (of_int p / of_int q)"
  by (simp add: fl_quot_def Let_def fl_at)

lemma fl_code [code]:
  "fl x = (case quotient_of x of (p, q) \<Rightarrow>
     if \<bar>p\<bar> \<le> 9007199254740992 \<and> 1152921504606846976 mod q = 0 then Fin x
     else if p < 0 then fneg (fl_quot (- p) q) else fl_quot p q)"
proof -
  obtain p q where q: "quotient_of x = (p, q)" by fastforce
  then have x: "x = of_int p / of_int q" and pos: "0 < q" using quotient_of_div quotient_of_denom_pos by blast+
  have "fl x = Fin x" if "\<bar>p\<bar> \<le> 9007199254740992" "1152921504606846976 mod q = 0"
  proof -
    have "nat q dvd 2 ^ 60"
    proof -
      have "q dvd 2 ^ 60" using that(2) by (simp add: dvd_eq_mod_eq_0)
      then have "int (nat q) dvd int (2 ^ 60)" using pos by simp
      then show ?thesis by (simp only: int_dvd_int_iff)
    qed
    then obtain k where "nat q = 2 ^ k" "k \<le> 60" using dvd_power_of_2 by blast
    moreover from this have "of_int q = (2::rat) ^ k" using pos by (metis int_nat_eq less_imp_le of_int_of_nat_eq of_nat_numeral of_nat_power)
    ultimately show ?thesis using fl_dyadic[of p k] that(1) x by simp
  qed
  moreover have "fl x = (if p < 0 then fneg (fl_quot (- p) q) else fl_quot p q)"
    using fl_quot[OF pos] fl_uminus[of "- x"] x by simp
  ultimately show ?thesis by (simp add: q)
qed

lemma float_1e9_nearest: "fl (1 / 10 ^ 9) = float_1e9"
  using fl_certificate[of "1 / 10 ^ 9" 82 4835703278458517] by (simp add: float_1e9_def)


end
