(* ===== verification/MarketData.thy ===== *)
theory MarketData
  imports Calendar Pyfloat
begin

section \<open>The market dataset, the as-of view and the incremental cursor\<close>

text \<open>
  \<open>quantize/market/data.py\<close>. A dataset pairs a calendar with the observations of each
  asset, every price with the instant from which it may be read; \<open>as_of\<close> cuts the dataset
  at an instant. The cursor answers the engine's three point queries incrementally: it keeps
  the arrivals sorted by availability and absorbs those up to the newest instant asked for.
  A read of the cursor changes it, so each query returns the answer and the new cursor.
\<close>

subsection \<open>Observations and datasets\<close>

definition require_positive_finite :: "pynum \<Rightarrow> string \<Rightarrow> pyfloat res" where
  "require_positive_finite value label =
     try_bind (as_float value (ValueError (label @ '' must be a number''))) (\<lambda>v.
       if \<not> isfinite v \<or> v \<le> 0
       then Inl (ValueError (label @ '' must be finite and positive, got '' @ repr_float v))
       else Inr v)"

record price_observation =
  obs_date :: date
  open_price :: pyfloat
  close_price :: pyfloat
  open_available_at :: instant
  close_available_at :: instant

definition mk_price_observation ::
    "date \<Rightarrow> pynum \<Rightarrow> pynum \<Rightarrow> datetime \<Rightarrow> datetime \<Rightarrow> price_observation res" where
  "mk_price_observation d op cl oa ca =
     try_bind (require_positive_finite op ''open_price'') (\<lambda>op'.
     try_bind (require_positive_finite cl ''close_price'') (\<lambda>cl'.
     try_bind (require_aware_utc oa ''open_available_at'') (\<lambda>oa'.
     try_bind (require_aware_utc ca ''close_available_at'') (\<lambda>ca'.
       Inr \<lparr>obs_date = d, open_price = op', close_price = cl',
            open_available_at = oa', close_available_at = ca'\<rparr>))))"

type_synonym observations = "(string \<times> price_observation list) list"

record market_data_set =
  calendar :: exchange_calendar
  observations :: observations

text \<open>The scan of one asset's series against the calendar's sessions by date.\<close>

fun check_series ::
    "exchange_calendar \<Rightarrow> string \<Rightarrow> date option \<Rightarrow> price_observation list \<Rightarrow> unit res" where
  "check_series cal asset previous [] = Inr ()"
| "check_series cal asset previous (ob # obs) =
     (case session_on cal (obs_date ob) of
        None \<Rightarrow> Inl (ValueError (''asset '' @ repr_str asset @ '' has an observation on ''
                  @ isoformat (obs_date ob) @ '', which is not a calendar session''))
      | Some session \<Rightarrow>
          if (case previous of None \<Rightarrow> False | Some p \<Rightarrow> \<not> p < obs_date ob)
          then Inl (ValueError (''asset '' @ repr_str asset @ '' observations must be strictly increasing''))
          else if open_available_at ob < open_at session
          then Inl (ValueError (''asset '' @ repr_str asset @ '' open on '' @ isoformat (obs_date ob)
                  @ '' would be available before the session opens''))
          else if close_available_at ob < close_at session
          then Inl (ValueError (''asset '' @ repr_str asset @ '' close on '' @ isoformat (obs_date ob)
                  @ '' would be available before the session closes''))
          else check_series cal asset (Some (obs_date ob)) obs)"

fun check_assets :: "exchange_calendar \<Rightarrow> observations \<Rightarrow> unit res" where
  "check_assets cal [] = Inr ()"
| "check_assets cal ((asset, series) # rest) =
     (if asset = [] then Inl (ValueError ''asset identifiers must be non-empty'')
      else try_bind (check_series cal asset None series) (\<lambda>_. check_assets cal rest))"

definition mk_market_data_set :: "exchange_calendar \<Rightarrow> observations \<Rightarrow> market_data_set res" where
  "mk_market_data_set cal obs =
     (if sessions cal = [] then Inl (ValueError ''a market dataset must contain at least one session'')
      else let normalized = sort_key fst obs in
        try_bind (check_assets cal normalized) (\<lambda>_.
          Inr \<lparr>calendar = cal, observations = normalized\<rparr>))"

definition ds_assets :: "market_data_set \<Rightarrow> string list" where
  "ds_assets ds = map fst (observations ds)"

subsection \<open>The availability-gated view\<close>

type_synonym history = "(date \<times> pyfloat) list"

record data_view =
  view_instant :: instant
  view_sessions :: "date list"
  view_closes :: "(string \<times> history) list"
  view_opens :: "(string \<times> history) list"

definition visible_closes :: "instant \<Rightarrow> price_observation list \<Rightarrow> history" where
  "visible_closes cutoff series =
     map (\<lambda>ob. (obs_date ob, close_price ob)) (filter (\<lambda>ob. close_available_at ob \<le> cutoff) series)"

definition visible_opens :: "instant \<Rightarrow> price_observation list \<Rightarrow> history" where
  "visible_opens cutoff series =
     map (\<lambda>ob. (obs_date ob, open_price ob)) (filter (\<lambda>ob. open_available_at ob \<le> cutoff) series)"

definition as_of_utc :: "market_data_set \<Rightarrow> instant \<Rightarrow> data_view" where
  "as_of_utc ds cutoff =
     \<lparr>view_instant = cutoff,
      view_sessions = map session_date (closed_by (calendar ds) cutoff),
      view_closes = map (\<lambda>(a, series). (a, visible_closes cutoff series)) (observations ds),
      view_opens = map (\<lambda>(a, series). (a, visible_opens cutoff series)) (observations ds)\<rparr>"

definition as_of :: "market_data_set \<Rightarrow> datetime \<Rightarrow> data_view res" where
  "as_of ds t = try_bind (require_aware_utc t ''instant'') (\<lambda>cutoff. Inr (as_of_utc ds cutoff))"

definition latest_session_date :: "data_view \<Rightarrow> date option" where
  "latest_session_date v = (if view_sessions v = [] then None else Some (last (view_sessions v)))"

definition view_assets :: "data_view \<Rightarrow> string list" where
  "view_assets v = map fst (view_closes v)"

definition close_history :: "data_view \<Rightarrow> string \<Rightarrow> history" where
  "close_history v asset = (case map_of (view_closes v) asset of Some series \<Rightarrow> series | None \<Rightarrow> [])"

definition view_open_price :: "data_view \<Rightarrow> string \<Rightarrow> date \<Rightarrow> pyfloat option" where
  "view_open_price v asset d =
     (case map_of (view_opens v) asset of Some series \<Rightarrow> map_of series d | None \<Rightarrow> None)"

subsection \<open>The cursor\<close>

type_synonym arrival = "instant \<times> string \<times> date \<times> pyfloat"

record cursor =
  cur_dataset :: market_data_set
  close_arrivals :: "arrival list"
  open_arrivals :: "arrival list"
  close_cursor :: nat
  open_cursor :: nat
  cur_latest :: "string \<rightharpoonup> date \<times> pyfloat"
  cur_opens :: "string \<rightharpoonup> (date \<rightharpoonup> pyfloat)"
  high_water :: "instant option"

text \<open>Arrivals sort as tuples; an asset has one observation per date, so the instant, the
  asset and the date decide.\<close>

definition arrival_key :: "arrival \<Rightarrow> instant \<times> string \<times> date" where
  "arrival_key = (\<lambda>(t, a, d, p). (t, a, d))"

definition all_arrivals ::
    "(price_observation \<Rightarrow> instant) \<Rightarrow> (price_observation \<Rightarrow> pyfloat) \<Rightarrow> market_data_set \<Rightarrow> arrival list" where
  "all_arrivals avail price ds =
     concat (map (\<lambda>(a, series). map (\<lambda>ob. (avail ob, a, obs_date ob, price ob)) series) (observations ds))"

definition new_cursor :: "market_data_set \<Rightarrow> cursor" where
  "new_cursor ds =
     \<lparr>cur_dataset = ds,
      close_arrivals = sort_key arrival_key (all_arrivals close_available_at close_price ds),
      open_arrivals = sort_key arrival_key (all_arrivals open_available_at open_price ds),
      close_cursor = 0, open_cursor = 0,
      cur_latest = Map.empty, cur_opens = Map.empty, high_water = None\<rparr>"

definition put_close :: "arrival \<Rightarrow> (string \<rightharpoonup> date \<times> pyfloat) \<Rightarrow> (string \<rightharpoonup> date \<times> pyfloat)" where
  "put_close arr m = (case arr of (t, a, d, p) \<Rightarrow>
     (case m a of
        None \<Rightarrow> m(a \<mapsto> (d, p))
      | Some latest \<Rightarrow> if d > fst latest then m(a \<mapsto> (d, p)) else m))"

definition put_open ::
    "arrival \<Rightarrow> (string \<rightharpoonup> (date \<rightharpoonup> pyfloat)) \<Rightarrow> (string \<rightharpoonup> (date \<rightharpoonup> pyfloat))" where
  "put_open arr m = (case arr of (t, a, d, p) \<Rightarrow>
     m(a \<mapsto> (case m a of None \<Rightarrow> [d \<mapsto> p] | Some by_date \<Rightarrow> by_date(d \<mapsto> p))))"

text \<open>The \<open>while\<close> loop of \<open>_advance\<close> over the arrivals from the cursor on.\<close>

fun absorb :: "(arrival \<Rightarrow> 'm \<Rightarrow> 'm) \<Rightarrow> instant \<Rightarrow> nat \<Rightarrow> arrival list \<Rightarrow> 'm \<Rightarrow> nat \<times> 'm" where
  "absorb put cutoff index [] m = (index, m)"
| "absorb put cutoff index (arr # rest) m =
     (if fst arr \<le> cutoff then absorb put cutoff (index + 1) rest (put arr m) else (index, m))"

definition advance :: "cursor \<Rightarrow> instant \<Rightarrow> cursor" where
  "advance cur cutoff =
     (let (ci, latest) = absorb put_close cutoff (close_cursor cur)
                           (drop (close_cursor cur) (close_arrivals cur)) (cur_latest cur);
          (oi, opens) = absorb put_open cutoff (open_cursor cur)
                           (drop (open_cursor cur) (open_arrivals cur)) (cur_opens cur)
      in cur\<lparr>high_water := Some cutoff, cur_latest := latest, close_cursor := ci,
             cur_opens := opens, open_cursor := oi\<rparr>)"

definition is_backward :: "cursor \<Rightarrow> instant \<Rightarrow> bool" where
  "is_backward cur cutoff = (case high_water cur of None \<Rightarrow> False | Some h \<Rightarrow> cutoff < h)"

definition latest_close :: "cursor \<Rightarrow> string \<Rightarrow> instant \<Rightarrow> (date \<times> pyfloat) option \<times> cursor" where
  "latest_close cur asset cutoff =
     (if is_backward cur cutoff
      then let h = close_history (as_of_utc (cur_dataset cur) cutoff) asset
           in (if h = [] then None else Some (last h), cur)
      else let cur' = advance cur cutoff in (cur_latest cur' asset, cur'))"

definition session_close :: "cursor \<Rightarrow> string \<Rightarrow> date \<Rightarrow> instant \<Rightarrow> pyfloat option \<times> cursor" where
  "session_close cur asset d cutoff =
     (let (latest, cur') = latest_close cur asset cutoff
      in (case latest of Some (d', p) \<Rightarrow> if d' = d then Some p else None | None \<Rightarrow> None, cur'))"

definition cursor_open_price :: "cursor \<Rightarrow> string \<Rightarrow> date \<Rightarrow> instant \<Rightarrow> pyfloat option \<times> cursor" where
  "cursor_open_price cur asset d cutoff =
     (if is_backward cur cutoff
      then (view_open_price (as_of_utc (cur_dataset cur) cutoff) asset d, cur)
      else let cur' = advance cur cutoff
           in (case cur_opens cur' asset of None \<Rightarrow> None | Some by_date \<Rightarrow> by_date d, cur'))"

subsection \<open>The dataset invariant\<close>

definition obs_ok :: "exchange_calendar \<Rightarrow> price_observation \<Rightarrow> bool" where
  "obs_ok cal ob \<longleftrightarrow> valid_price (open_price ob) \<and> valid_price (close_price ob) \<and>
     (\<exists>s. session_on cal (obs_date ob) = Some s \<and>
        open_at s \<le> open_available_at ob \<and> close_at s \<le> close_available_at ob)"

definition obs_prices_ok :: "price_observation \<Rightarrow> bool" where
  "obs_prices_ok ob \<longleftrightarrow> valid_price (open_price ob) \<and> valid_price (close_price ob)"

definition series_ok :: "exchange_calendar \<Rightarrow> price_observation list \<Rightarrow> bool" where
  "series_ok cal series \<longleftrightarrow>
     (\<forall>ob \<in> set series. obs_ok cal ob) \<and> sorted_wrt (<) (map obs_date series)"

definition ds_ok :: "market_data_set \<Rightarrow> bool" where
  "ds_ok ds \<longleftrightarrow> cal_ok (calendar ds) \<and> sessions (calendar ds) \<noteq> [] \<and>
     sorted_wrt (<) (ds_assets ds) \<and>
     (\<forall>(a, series) \<in> set (observations ds). a \<noteq> [] \<and> series_ok (calendar ds) series)"

lemma require_positive_finite_ok: "require_positive_finite v l = Inr p \<Longrightarrow> valid_price p"
  by (auto simp: require_positive_finite_def res_simps valid_price_def isfinite_iff as_float_double split: if_splits)

lemma mk_price_observation_ok [wf_intros]: "mk_price_observation d op cl oa ca = Inr ob \<Longrightarrow> obs_prices_ok ob"
  by (auto simp: mk_price_observation_def res_simps obs_prices_ok_def dest!: require_positive_finite_ok)

lemma check_series_Inr:
  assumes "\<forall>ob \<in> set series. obs_prices_ok ob" "check_series cal a prev series = Inr ()"
  shows "series_ok cal series \<and> (\<forall>p. prev = Some p \<longrightarrow> (\<forall>ob \<in> set series. p < obs_date ob))"
  using assms
proof (induction series arbitrary: prev)
  case (Cons ob obs)
  then obtain s where s: "session_on cal (obs_date ob) = Some s" "open_at s \<le> open_available_at ob"
      "close_at s \<le> close_available_at ob" "\<And>p. prev = Some p \<Longrightarrow> p < obs_date ob"
    and rest: "check_series cal a (Some (obs_date ob)) obs = Inr ()"
    by (auto simp: not_less split: option.splits if_splits)
  from Cons.IH[OF _ rest] Cons.prems(1)
  have "series_ok cal obs" "\<forall>ob' \<in> set obs. obs_date ob < obs_date ob'" by auto
  then show ?case using s Cons.prems(1)
    by (fastforce simp: series_ok_def obs_ok_def obs_prices_ok_def)
qed (simp add: series_ok_def)

lemma check_assets_Inr:
  "check_assets cal obs = Inr () \<Longrightarrow> (\<forall>(a, series) \<in> set obs. \<forall>ob \<in> set series. obs_prices_ok ob) \<Longrightarrow>
   \<forall>(a, series) \<in> set obs. a \<noteq> [] \<and> series_ok cal series"
  by (induction cal obs rule: check_assets.induct)
    (auto simp: res_simps dest: check_series_Inr split: if_splits)

lemma mk_market_data_set_ok [wf_intros]:
  assumes "mk_market_data_set cal obs = Inr ds" "cal_ok cal" "distinct (map fst obs)"
    and "\<And>a series ob. (a, series) \<in> set obs \<Longrightarrow> ob \<in> set series \<Longrightarrow> obs_prices_ok ob"
  shows "ds_ok ds"
proof -
  from assms(1) have ds: "ds = \<lparr>calendar = cal, observations = sort_key fst obs\<rparr>" "sessions cal \<noteq> []"
    and chk: "check_assets cal (sort_key fst obs) = Inr ()"
    by (auto simp: mk_market_data_set_def Let_def res_simps split: if_splits)
  have "distinct (map fst (sort_key fst obs))"
    using assms(3) by (metis distinct_map distinct_sort set_sort)
  then have "sorted_wrt (<) (map fst (sort_key fst obs))" by (intro sorted_distinct_strict) simp_all
  moreover have "\<forall>(a, series) \<in> set (sort_key fst obs). a \<noteq> [] \<and> series_ok cal series"
    by (rule check_assets_Inr[OF chk]) (use assms(4) in auto)
  ultimately show ?thesis using ds assms(2) by (auto simp: ds_ok_def ds_assets_def)
qed

subsection \<open>The cursor answers what the view shows\<close>

lemma close_history_as_of:
  "close_history (as_of_utc ds t) a =
     (case map_of (observations ds) a of Some series \<Rightarrow> visible_closes t series | None \<Rightarrow> [])"
  by (simp add: close_history_def as_of_utc_def map_of_map split: option.split)

lemma view_open_price_as_of:
  "view_open_price (as_of_utc ds t) a d =
     (case map_of (observations ds) a of Some series \<Rightarrow> map_of (visible_opens t series) d | None \<Rightarrow> None)"
  by (simp add: view_open_price_def as_of_utc_def map_of_map split: option.split)

lemma absorb_eq:
  "absorb put t idx xs m =
     (idx + length (takeWhile (\<lambda>arr. fst arr \<le> t) xs), fold put (takeWhile (\<lambda>arr. fst arr \<le> t) xs) m)"
  by (induction put t idx xs m rule: absorb.induct) auto

definition arrived :: "instant \<Rightarrow> arrival list \<Rightarrow> arrival list" where
  "arrived t xs = takeWhile (\<lambda>arr. fst arr \<le> t) xs"

lemma takeWhile_extend:
  "(\<And>x. P x \<Longrightarrow> Q x) \<Longrightarrow>
   takeWhile Q xs = takeWhile P xs @ takeWhile Q (drop (length (takeWhile P xs)) xs)"
  by (induction xs) auto

lemma arrived_extend: "h \<le> t \<Longrightarrow>
  arrived t xs = arrived h xs @ arrived t (drop (length (arrived h xs)) xs)"
  unfolding arrived_def by (rule takeWhile_extend) simp

lemma arrived_set:
  "sorted_wrt (\<lambda>a b. fst a \<le> fst b) xs \<Longrightarrow> set (arrived t xs) = {arr \<in> set xs. fst arr \<le> t}"
  unfolding arrived_def by (induction xs) auto

lemma sort_arrivals_fst: "sorted_wrt (\<lambda>a b. fst a \<le> fst b) (sort_key arrival_key xs)"
proof -
  have "sorted_wrt (\<lambda>a b. arrival_key a \<le> arrival_key b) (sort_key arrival_key xs)"
    using sorted_sort_key[of arrival_key xs] by (simp add: sorted_wrt_map)
  then show ?thesis by (rule sorted_wrt_mono_rel[rotated]) (auto simp: arrival_key_def)
qed

lemma fold_put_close:
  "(case fold put_close xs Map.empty a of
      None \<Rightarrow> \<forall>(t, a', d, p) \<in> set xs. a' \<noteq> a
    | Some (d, p) \<Rightarrow> (\<exists>t. (t, a, d, p) \<in> set xs) \<and> (\<forall>(t, a', d', p') \<in> set xs. a' = a \<longrightarrow> d' \<le> d))"
proof (induction xs rule: rev_induct)
  case (snoc arr xs)
  obtain t a' d p where arr: "arr = (t, a', d, p)" by (cases arr)
  define m0 where "m0 = fold put_close xs Map.empty"
  have m: "fold put_close (xs @ [arr]) Map.empty = put_close arr m0" by (simp add: m0_def)
  note IH = snoc[folded m0_def]
  show ?case
  proof (cases "a' = a")
    case False
    then have "put_close arr m0 a = m0 a" by (simp add: put_close_def arr split: option.split)
    with IH False show ?thesis unfolding m by (auto simp: arr split: option.splits)
  next
    case True
    show ?thesis
    proof (cases "m0 a")
      case None
      with IH True show ?thesis unfolding m by (auto simp: arr put_close_def)
    next
      case (Some dp)
      obtain d1 p1 where dp: "dp = (d1, p1)" by (cases dp)
      have ex: "\<exists>t. (t, a, d1, p1) \<in> set xs" and max: "\<And>t' d' p'. (t', a, d', p') \<in> set xs \<Longrightarrow> d' \<le> d1"
        using IH Some by (auto simp: dp)
      show ?thesis
      proof (cases "d1 < d")
        case True
        then have "put_close arr m0 a = Some (d, p)" using Some \<open>a' = a\<close> by (simp add: put_close_def arr dp)
        moreover have "d' \<le> d" if "(t', a, d', p') \<in> set xs" for t' d' p'
          using max[OF that] True by simp
        ultimately show ?thesis using \<open>a' = a\<close> unfolding m by (auto simp: arr)
      next
        case False
        then have "put_close arr m0 a = Some (d1, p1)" using Some \<open>a' = a\<close> by (simp add: put_close_def arr dp)
        then show ?thesis using \<open>a' = a\<close> ex max False unfolding m by (auto simp: arr)
      qed
    qed
  qed
qed simp

definition opens_at :: "(string \<rightharpoonup> (date \<rightharpoonup> pyfloat)) \<Rightarrow> string \<Rightarrow> date \<Rightarrow> pyfloat option" where
  "opens_at m a d = (case m a of None \<Rightarrow> None | Some by_date \<Rightarrow> by_date d)"

lemma fold_put_open:
  "(case opens_at (fold put_open xs Map.empty) a d of
      None \<Rightarrow> \<forall>(t, a', d', p) \<in> set xs. \<not> (a' = a \<and> d' = d)
    | Some p \<Rightarrow> \<exists>t. (t, a, d, p) \<in> set xs)"
proof (induction xs rule: rev_induct)
  case (snoc arr xs)
  obtain t a' d' p where arr: "arr = (t, a', d', p)" by (cases arr)
  have "opens_at (put_open arr m) a d = (if a' = a \<and> d' = d then Some p else opens_at m a d)" for m
    by (auto simp: opens_at_def put_open_def arr split: option.split)
  then show ?case using snoc by (auto simp: arr split: option.splits)
qed (simp add: opens_at_def)

lemma ds_ok_map_of:
  assumes "ds_ok ds"
  shows "(a, series) \<in> set (observations ds) \<longleftrightarrow> map_of (observations ds) a = Some series"
proof -
  have "distinct (map fst (observations ds))"
    using assms strict_sorted_iff by (auto simp: ds_ok_def ds_assets_def)
  then show ?thesis by (auto dest: map_of_SomeD)
qed

lemma ds_ok_series: "ds_ok ds \<Longrightarrow> map_of (observations ds) a = Some series \<Longrightarrow> series_ok (calendar ds) series"
  by (auto simp: ds_ok_def dest!: map_of_SomeD)

lemma all_arrivals_iff:
  assumes "ds_ok ds"
  shows "(t, a, d, p) \<in> set (all_arrivals avail price ds) \<longleftrightarrow>
    (\<exists>series ob. map_of (observations ds) a = Some series \<and> ob \<in> set series \<and>
       t = avail ob \<and> d = obs_date ob \<and> p = price ob)"
  by (auto simp: all_arrivals_def ds_ok_map_of[OF assms, symmetric])
    (metis (no_types, lifting) imageI case_prod_conv ds_ok_map_of[OF assms])?

lemma series_dates_inj:
  "series_ok cal series \<Longrightarrow> ob \<in> set series \<Longrightarrow> ob' \<in> set series \<Longrightarrow> obs_date ob = obs_date ob' \<Longrightarrow> ob = ob'"
  unfolding series_ok_def strict_sorted_iff by (auto simp: distinct_map dest: inj_onD)

lemma visible_closes_sorted: "series_ok cal series \<Longrightarrow> sorted_wrt (<) (map fst (visible_closes t series))"
  unfolding series_ok_def visible_closes_def
  by (simp add: comp_def sorted_wrt_map sorted_wrt_filter)

lemma visible_opens_sorted: "series_ok cal series \<Longrightarrow> sorted_wrt (<) (map fst (visible_opens t series))"
  unfolding series_ok_def visible_opens_def
  by (simp add: comp_def sorted_wrt_map sorted_wrt_filter)

lemma last_is_max:
  "sorted_wrt (<) (map fst xs) \<Longrightarrow> xs \<noteq> [] \<Longrightarrow> x \<in> set xs \<Longrightarrow> fst x \<le> fst (last xs)"
  for xs :: "('a::linorder \<times> 'b) list"
  by (induction xs rule: rev_induct) (auto simp: sorted_wrt_append intro: less_imp_le)

lemma latest_close_answer:
  fixes ds t a
  assumes ds: "ds_ok ds"
  defines "m \<equiv> fold put_close (arrived t (sort_key arrival_key (all_arrivals close_available_at close_price ds))) Map.empty"
  shows "m a = (let h = close_history (as_of_utc ds t) a in if h = [] then None else Some (last h))"
proof -
  let ?arr = "arrived t (sort_key arrival_key (all_arrivals close_available_at close_price ds))"
  have mem: "(t', a, d, p) \<in> set ?arr \<longleftrightarrow> (\<exists>series ob. map_of (observations ds) a = Some series \<and>
      ob \<in> set series \<and> t' = close_available_at ob \<and> d = obs_date ob \<and> p = close_price ob \<and> t' \<le> t)" for t' d p
    by (auto simp: arrived_set[OF sort_arrivals_fst] all_arrivals_iff[OF ds])
  show ?thesis
  proof (cases "map_of (observations ds) a")
    case None
    then have "m a = None" using fold_put_close[of ?arr a] mem
      by (auto simp: m_def split: option.splits)
    then show ?thesis using None by (simp add: close_history_as_of)
  next
    case (Some series)
    note ok = ds_ok_series[OF ds Some]
    let ?h = "visible_closes t series"
    have hist: "close_history (as_of_utc ds t) a = ?h" using Some by (simp add: close_history_as_of)
    have vis: "(d, p) \<in> set ?h \<longleftrightarrow> (\<exists>t'. (t', a, d, p) \<in> set ?arr)" for d p
      unfolding mem using Some by (auto simp: visible_closes_def)
    show ?thesis
    proof (cases "?h = []")
      case True
      then have "m a = None" using fold_put_close[of ?arr a] vis
        by (fastforce simp: m_def split: option.splits)
      then show ?thesis using True by (simp add: hist)
    next
      case False
      obtain d0 p0 where l: "last ?h = (d0, p0)" by fastforce
      then have in_h: "(d0, p0) \<in> set ?h" using False last_in_set by metis
      then obtain d p where m: "m a = Some (d, p)"
        using fold_put_close[of ?arr a] vis by (fastforce simp: m_def split: option.splits)
      then have dp: "(d, p) \<in> set ?h" and max: "\<And>d' p'. (d', p') \<in> set ?h \<Longrightarrow> d' \<le> d"
        using fold_put_close[of ?arr a] vis by (fastforce simp: m_def)+
      have "d = d0" using last_is_max[OF visible_closes_sorted[OF ok] False dp] max[OF in_h] l by simp
      moreover have "distinct (map fst ?h)" using visible_closes_sorted[OF ok] strict_sorted_iff by blast
      ultimately have "p = p0" using dp in_h by (metis eq_key_imp_eq_value)
      then show ?thesis using m l False \<open>d = d0\<close> by (simp add: hist)
    qed
  qed
qed

lemma open_price_answer:
  assumes ds: "ds_ok ds"
  shows "opens_at (fold put_open (arrived t (sort_key arrival_key (all_arrivals open_available_at open_price ds))) Map.empty) a d
    = view_open_price (as_of_utc ds t) a d"
proof -
  let ?arr = "arrived t (sort_key arrival_key (all_arrivals open_available_at open_price ds))"
  let ?r = "opens_at (fold put_open ?arr Map.empty) a d"
  have mem: "(t', a, d, p) \<in> set ?arr \<longleftrightarrow> (\<exists>series ob. map_of (observations ds) a = Some series \<and>
      ob \<in> set series \<and> t' = open_available_at ob \<and> d = obs_date ob \<and> p = open_price ob \<and> t' \<le> t)" for t' p
    by (auto simp: arrived_set[OF sort_arrivals_fst] all_arrivals_iff[OF ds])
  show ?thesis
  proof (cases "map_of (observations ds) a")
    case None
    then have "?r = None" using fold_put_open[of ?arr a d] mem by (auto split: option.splits)
    then show ?thesis using None by (simp add: view_open_price_as_of)
  next
    case (Some series)
    note srt = visible_opens_sorted[OF ds_ok_series[OF ds Some], of t]
    then have dist: "distinct (map fst (visible_opens t series))" using strict_sorted_iff by blast
    have vis: "(d, p) \<in> set (visible_opens t series) \<longleftrightarrow> (\<exists>t'. (t', a, d, p) \<in> set ?arr)" for p
      unfolding mem using Some by (auto simp: visible_opens_def)
    have "?r = map_of (visible_opens t series) d"
    proof (cases ?r)
      case None
      then show ?thesis using fold_put_open[of ?arr a d] vis
        by (cases "map_of (visible_opens t series) d") (fastforce dest: map_of_SomeD)+
    next
      case (Some p)
      then have "(d, p) \<in> set (visible_opens t series)" using fold_put_open[of ?arr a d] vis by simp
      then show ?thesis using Some map_of_is_SomeI[OF dist] by simp
    qed
    then show ?thesis using Some by (simp add: view_open_price_as_of)
  qed
qed

definition cursor_ok :: "market_data_set \<Rightarrow> cursor \<Rightarrow> bool" where
  "cursor_ok ds cur \<longleftrightarrow> ds_ok ds \<and> cur_dataset cur = ds \<and>
     close_arrivals cur = sort_key arrival_key (all_arrivals close_available_at close_price ds) \<and>
     open_arrivals cur = sort_key arrival_key (all_arrivals open_available_at open_price ds) \<and>
     (case high_water cur of
        None \<Rightarrow> close_cursor cur = 0 \<and> open_cursor cur = 0 \<and> cur_latest cur = Map.empty \<and> cur_opens cur = Map.empty
      | Some h \<Rightarrow> close_cursor cur = length (arrived h (close_arrivals cur)) \<and>
          open_cursor cur = length (arrived h (open_arrivals cur)) \<and>
          cur_latest cur = fold put_close (arrived h (close_arrivals cur)) Map.empty \<and>
          cur_opens cur = fold put_open (arrived h (open_arrivals cur)) Map.empty)"

lemma new_cursor_ok [wf_intros]: "ds_ok ds \<Longrightarrow> cursor_ok ds (new_cursor ds)"
  by (simp add: cursor_ok_def new_cursor_def)

lemma absorb_arrived:
  "absorb put t idx xs m = (idx + length (arrived t xs), fold put (arrived t xs) m)"
  by (simp add: absorb_eq arrived_def)

lemma advance_state:
  assumes "cursor_ok ds cur" "\<not> is_backward cur t"
  shows "high_water (advance cur t) = Some t" "cursor_ok ds (advance cur t)"
    "cur_latest (advance cur t) = fold put_close (arrived t (close_arrivals cur)) Map.empty"
    "cur_opens (advance cur t) = fold put_open (arrived t (open_arrivals cur)) Map.empty"
proof -
  have len: "h \<le> t \<Longrightarrow> length (arrived h xs) + length (arrived t (drop (length (arrived h xs)) xs)) = length (arrived t xs)" for h xs
    using arrived_extend[of h t xs] by (metis length_append)
  have fold: "h \<le> t \<Longrightarrow> fold put (arrived t (drop (length (arrived h xs)) xs)) (fold put (arrived h xs) m) = fold put (arrived t xs) m"
    for h xs and put :: "arrival \<Rightarrow> 'm \<Rightarrow> 'm" and m
    using arrived_extend[of h t xs] by (metis fold_append comp_apply)
  note d = cursor_ok_def advance_def absorb_arrived Let_def is_backward_def
  show "high_water (advance cur t) = Some t" by (simp add: d)
  show "cur_latest (advance cur t) = fold put_close (arrived t (close_arrivals cur)) Map.empty"
    "cur_opens (advance cur t) = fold put_open (arrived t (open_arrivals cur)) Map.empty"
    using assms by (cases "high_water cur"; simp add: d fold)+
  then show "cursor_ok ds (advance cur t)"
    using assms by (cases "high_water cur") (simp_all add: d fold len)
qed

lemma latest_close_as_of:
  assumes "cursor_ok ds cur"
  shows "fst (latest_close cur a t) =
      (let h = close_history (as_of_utc ds t) a in if h = [] then None else Some (last h))"
    "cursor_ok ds (snd (latest_close cur a t))"
proof -
  have ds: "ds_ok ds" and arr: "close_arrivals cur = sort_key arrival_key (all_arrivals close_available_at close_price ds)"
    using assms by (auto simp: cursor_ok_def)
  show "fst (latest_close cur a t) =
      (let h = close_history (as_of_utc ds t) a in if h = [] then None else Some (last h))"
    using assms advance_state(3)[OF assms] latest_close_answer[OF ds, of t a]
    by (cases "is_backward cur t") (simp_all add: latest_close_def Let_def arr, simp add: cursor_ok_def)
  show "cursor_ok ds (snd (latest_close cur a t))"
    using assms advance_state(2)[OF assms] by (simp add: latest_close_def Let_def)
qed

lemma session_close_as_of:
  assumes "cursor_ok ds cur"
  shows "fst (session_close cur a d t) =
      (let h = close_history (as_of_utc ds t) a in if h \<noteq> [] \<and> fst (last h) = d then Some (snd (last h)) else None)"
    "cursor_ok ds (snd (session_close cur a d t))"
  using latest_close_as_of[OF assms, of a t]
  by (auto simp: session_close_def Let_def case_prod_beta split: option.splits)

lemma cursor_open_price_as_of:
  assumes "cursor_ok ds cur"
  shows "fst (cursor_open_price cur a d t) = view_open_price (as_of_utc ds t) a d"
    "cursor_ok ds (snd (cursor_open_price cur a d t))"
proof -
  have ds: "ds_ok ds" and arr: "open_arrivals cur = sort_key arrival_key (all_arrivals open_available_at open_price ds)"
    using assms by (auto simp: cursor_ok_def)
  show "fst (cursor_open_price cur a d t) = view_open_price (as_of_utc ds t) a d"
    using assms advance_state(4)[OF assms] open_price_answer[OF ds, of t a d]
    by (cases "is_backward cur t") (simp_all add: cursor_open_price_def Let_def arr opens_at_def, simp add: cursor_ok_def)
  show "cursor_ok ds (snd (cursor_open_price cur a d t))"
    using assms advance_state(2)[OF assms] by (simp add: cursor_open_price_def Let_def)
qed

subsection \<open>Runs of queries\<close>

text \<open>The engine's reads as a sequence of queries, answered by one cursor or, the
  reference, each by a fresh view.\<close>

datatype query =
    LatestClose string instant
  | SessionClose string date instant
  | OpenPrice string date instant

fun view_answer :: "market_data_set \<Rightarrow> query \<Rightarrow> (date option \<times> pyfloat) option" where
  "view_answer ds (LatestClose a t) =
     (let h = close_history (as_of_utc ds t) a
      in if h = [] then None else Some (Some (fst (last h)), snd (last h)))"
| "view_answer ds (SessionClose a d t) =
     (let h = close_history (as_of_utc ds t) a
      in if h \<noteq> [] \<and> fst (last h) = d then Some (None, snd (last h)) else None)"
| "view_answer ds (OpenPrice a d t) = map_option (Pair None) (view_open_price (as_of_utc ds t) a d)"

fun cursor_answer :: "cursor \<Rightarrow> query \<Rightarrow> (date option \<times> pyfloat) option \<times> cursor" where
  "cursor_answer cur (LatestClose a t) =
     map_prod (map_option (\<lambda>(d, p). (Some d, p))) id (latest_close cur a t)"
| "cursor_answer cur (SessionClose a d t) = map_prod (map_option (Pair None)) id (session_close cur a d t)"
| "cursor_answer cur (OpenPrice a d t) = map_prod (map_option (Pair None)) id (cursor_open_price cur a d t)"

fun cursor_run :: "cursor \<Rightarrow> query list \<Rightarrow> (date option \<times> pyfloat) option list" where
  "cursor_run cur [] = []"
| "cursor_run cur (q # qs) = (let (r, cur') = cursor_answer cur q in r # cursor_run cur' qs)"

lemma cursor_answer_view:
  assumes "cursor_ok ds cur"
  shows "fst (cursor_answer cur q) = view_answer ds q" "cursor_ok ds (snd (cursor_answer cur q))"
  using assms
  by (cases q; auto simp: Let_def latest_close_as_of session_close_as_of cursor_open_price_as_of
      split: prod.split)+

lemma cursor_run_view: "cursor_ok ds cur \<Longrightarrow> cursor_run cur qs = map (view_answer ds) qs"
  by (induction qs arbitrary: cur) (use cursor_answer_view in \<open>auto simp: case_prod_beta Let_def\<close>)

subsection \<open>No look-ahead\<close>

text \<open>Two datasets agree up to an instant when they differ at most in prices that only
  become available later.\<close>

definition obs_agree :: "instant \<Rightarrow> price_observation \<Rightarrow> price_observation \<Rightarrow> bool" where
  "obs_agree t x y \<longleftrightarrow> obs_date x = obs_date y \<and>
     open_available_at x = open_available_at y \<and> close_available_at x = close_available_at y \<and>
     (open_available_at x \<le> t \<longrightarrow> open_price x = open_price y) \<and>
     (close_available_at x \<le> t \<longrightarrow> close_price x = close_price y)"

definition agree_until :: "instant \<Rightarrow> market_data_set \<Rightarrow> market_data_set \<Rightarrow> bool" where
  "agree_until t ds ds' \<longleftrightarrow> calendar ds = calendar ds' \<and>
     list_all2 (\<lambda>(a, xs) (b, ys). a = b \<and> list_all2 (obs_agree t) xs ys) (observations ds) (observations ds')"

lemma visible_agree:
  assumes "list_all2 (obs_agree t) xs ys" "t' \<le> t"
  shows "visible_closes t' xs = visible_closes t' ys" "visible_opens t' xs = visible_opens t' ys"
  using assms(1) assms(2)
  by (induction rule: list_all2_induct) (auto simp: visible_closes_def visible_opens_def obs_agree_def)

lemma map_eq_list_all2: "list_all2 (\<lambda>x y. f x = g y) xs ys \<Longrightarrow> map f xs = map g ys"
  by (induction rule: list_all2_induct) auto

lemma as_of_agree: "agree_until t ds ds' \<Longrightarrow> t' \<le> t \<Longrightarrow> as_of_utc ds t' = as_of_utc ds' t'"
  unfolding agree_until_def as_of_utc_def
  by (auto intro!: map_eq_list_all2 elim!: list_all2_mono simp: visible_agree)

subsection \<open>Interface: the source of opening prices\<close>

text \<open>What a fill may rely on when it reads opens: reads keep the source usable, return valid
  prices, and do not change what later reads of the same source answer.\<close>

locale open_price_source =
  fixes src_ok :: "'s \<Rightarrow> bool"
    and src_open :: "'s \<Rightarrow> string \<Rightarrow> date \<Rightarrow> pyfloat option \<times> 's"
  assumes read_ok: "src_ok s \<Longrightarrow> src_ok (snd (src_open s a d))"
    and read_valid: "src_ok s \<Longrightarrow> fst (src_open s a d) = Some p \<Longrightarrow> valid_price p"
    and read_stable: "src_ok s \<Longrightarrow> fst (src_open (snd (src_open s a d)) a' d') = fst (src_open s a' d')"

definition view_source :: "data_view \<Rightarrow> string \<Rightarrow> date \<Rightarrow> pyfloat option \<times> data_view" where
  "view_source v a d = (view_open_price v a d, v)"

definition view_ok :: "data_view \<Rightarrow> bool" where
  "view_ok v \<longleftrightarrow> (\<exists>ds t. ds_ok ds \<and> v = as_of_utc ds t)"

text \<open>\<open>_OpenPricesAt\<close>: the cursor with the instant of the fill.\<close>

fun open_prices_at :: "cursor \<times> instant \<Rightarrow> string \<Rightarrow> date \<Rightarrow> pyfloat option \<times> (cursor \<times> instant)" where
  "open_prices_at (cur, t) a d = map_prod id (\<lambda>cur'. (cur', t)) (cursor_open_price cur a d t)"

definition cursor_source_ok :: "cursor \<times> instant \<Rightarrow> bool" where
  "cursor_source_ok s \<longleftrightarrow> (\<exists>ds. cursor_ok ds (fst s))"

lemma ds_ok_prices:
  "ds_ok ds \<Longrightarrow> map_of (observations ds) a = Some series \<Longrightarrow> ob \<in> set series \<Longrightarrow>
   valid_price (open_price ob) \<and> valid_price (close_price ob)"
  using ds_ok_series[of ds a series] by (auto simp: series_ok_def obs_ok_def)

lemma view_open_price_valid: "ds_ok ds \<Longrightarrow> view_open_price (as_of_utc ds t) a d = Some p \<Longrightarrow> valid_price p"
  unfolding view_open_price_as_of
  by (cases "map_of (observations ds) a") (auto simp: visible_opens_def dest!: map_of_SomeD[of "visible_opens _ _", unfolded visible_opens_def] dest: ds_ok_prices)

lemma close_history_valid:
  "ds_ok ds \<Longrightarrow> (d, p) \<in> set (close_history (as_of_utc ds t) a) \<Longrightarrow> valid_price p"
  unfolding close_history_as_of
  by (cases "map_of (observations ds) a") (auto simp: visible_closes_def dest: ds_ok_prices)

interpretation view_feed: open_price_source view_ok view_source
  by unfold_locales (auto simp: view_source_def view_ok_def intro: view_open_price_valid)

interpretation cursor_feed: open_price_source cursor_source_ok open_prices_at
proof
  fix s :: "cursor \<times> instant" and a d a' d' p
  obtain cur t where s: "s = (cur, t)" by (cases s)
  assume "cursor_source_ok s"
  then obtain ds where ok: "cursor_ok ds cur" by (auto simp: cursor_source_ok_def s)
  then have ds: "ds_ok ds" by (simp add: cursor_ok_def)
  note q = cursor_open_price_as_of[OF ok]
  show "cursor_source_ok (snd (open_prices_at s a d))"
    using q(2) by (auto simp: cursor_source_ok_def s)
  show "fst (open_prices_at s a d) = Some p \<Longrightarrow> valid_price p"
    using q(1) view_open_price_valid[OF ds] by (simp add: s)
  show "fst (open_prices_at (snd (open_prices_at s a d)) a' d') = fst (open_prices_at s a' d')"
    using q cursor_open_price_as_of(1)[OF q(2)] by (simp add: s)
qed

end
