(* ===== verification/Trading.thy ===== *)
theory Trading
  imports Pyfloat Dates
begin

section \<open>Diagnostics, portfolio state, orders and fills\<close>

text \<open>
  \<open>quantize/runtime/diagnostics.py\<close>, \<open>quantize/engine/state.py\<close>,
  \<open>quantize/engine/orders.py\<close> and the codes of \<open>quantize/engine/errors.py\<close>. The
  constructors take numbers of dynamic type (\<open>pynum\<close>) and check what the code checks; an
  asset identifier is a string, so only its emptiness is left to check.
\<close>

subsection \<open>Runtime diagnostics\<close>

record runtime_diagnostic =
  diag_code :: string
  diag_message :: string
  diag_path :: "string list"
  diag_subject :: "string option"

definition diag_key :: "runtime_diagnostic \<Rightarrow> string list \<times> string \<times> string \<times> string" where
  "diag_key d = (diag_path d, diag_code d, (case diag_subject d of None \<Rightarrow> [] | Some s \<Rightarrow> s), diag_message d)"

definition sort_runtime_diagnostics :: "runtime_diagnostic list \<Rightarrow> runtime_diagnostic list" where
  "sort_runtime_diagnostics ds = sort_key diag_key ds"

abbreviation run_diag :: "string \<Rightarrow> string \<Rightarrow> string \<Rightarrow> runtime_diagnostic" where
  "run_diag code message subject \<equiv>
     \<lparr>diag_code = code, diag_message = message, diag_path = [], diag_subject = Some subject\<rparr>"

lemma sort_runtime_diagnostics_Nil [simp]: "sort_runtime_diagnostics ds = [] \<longleftrightarrow> ds = []"
  unfolding sort_runtime_diagnostics_def by (metis set_sort set_empty)

lemma sort_runtime_diagnostics_set [simp]: "set (sort_runtime_diagnostics ds) = set ds"
  by (simp add: sort_runtime_diagnostics_def)

subsection \<open>The portfolio state\<close>

definition finite_nonnegative :: "pynum \<Rightarrow> string \<Rightarrow> pyfloat res" where
  "finite_nonnegative value label =
     try_bind (as_float value (ValueError (label @ '' must be a number, got '' @ type_name value))) (\<lambda>number.
       if \<not> isfinite number then Inl (ValueError (label @ '' must be finite''))
       else if number < 0 then Inl (ValueError (label @ '' must be >= 0, got '' @ repr_float number))
       else Inr number)"

type_synonym positions = "(string \<times> pyfloat) list"

record portfolio_state =
  cash :: pyfloat
  positions :: positions

fun norm_positions :: "string option \<Rightarrow> (string \<times> pynum) list \<Rightarrow> positions res" where
  "norm_positions previous [] = Inr []"
| "norm_positions previous ((asset, raw) # rest) =
     (if asset = [] then Inl (ValueError ''position assets must be non-empty identifiers'')
      else if previous = Some asset then Inl (ValueError (''duplicate position for asset '' @ repr_str asset))
      else try_bind (finite_nonnegative raw (''quantity of '' @ repr_str asset)) (\<lambda>quantity.
           try_bind (norm_positions (Some asset) rest) (\<lambda>ps.
             Inr (if quantity > 0 then (asset, quantity) # ps else ps))))"

definition mk_portfolio_state :: "pynum \<Rightarrow> (string \<times> pynum) list \<Rightarrow> portfolio_state res" where
  "mk_portfolio_state c ps =
     try_bind (finite_nonnegative c ''cash'') (\<lambda>c'.
     try_bind (norm_positions None (sort_key fst ps)) (\<lambda>ps'.
       Inr \<lparr>cash = c', positions = ps'\<rparr>))"

text \<open>A positions dict handed back to the constructor: \<open>tuple(positions.items())\<close>.\<close>

fun float_items :: "positions \<Rightarrow> (string \<times> pynum) list" where
  "float_items [] = []"
| "float_items ((asset, q) # ps) = (asset, PyFloat q) # float_items ps"

definition quantity_of :: "portfolio_state \<Rightarrow> string \<Rightarrow> pyfloat" where
  "quantity_of s asset = (case map_of (positions s) asset of Some q \<Rightarrow> q | None \<Rightarrow> 0)"

definition held_assets :: "portfolio_state \<Rightarrow> string list" where
  "held_assets s = map fst (positions s)"

definition union_assets :: "portfolio_state \<Rightarrow> string list \<Rightarrow> string list" where
  "union_assets s targeted = sorted_list_of_set (set (held_assets s) \<union> set targeted)"

definition state_ok :: "portfolio_state \<Rightarrow> bool" where
  "state_ok s \<longleftrightarrow> isfinite (cash s) \<and> 0 \<le> cash s \<and> is_double (cash s) \<and>
     sorted_wrt (<) (held_assets s) \<and>
     (\<forall>(a, q) \<in> set (positions s). a \<noteq> [] \<and> isfinite q \<and> 0 < q \<and> is_double q)"

lemma finite_nonnegative_Inr:
  "finite_nonnegative v l = Inr x \<Longrightarrow> isfinite x \<and> 0 \<le> x \<and> is_double x"
  by (auto simp: finite_nonnegative_def res_simps isfinite_iff as_float_double split: if_splits)

lemma norm_positions_Inr:
  assumes "norm_positions prev ps = Inr qs" "sorted (map fst ps)"
    and "\<And>p. prev = Some p \<Longrightarrow> \<forall>(a, r) \<in> set ps. p \<le> a"
  shows "sorted_wrt (<) (map fst qs) \<and> set (map fst qs) \<subseteq> set (map fst ps) \<and>
    (\<forall>(a, q) \<in> set qs. a \<noteq> [] \<and> isfinite q \<and> 0 < q \<and> is_double q) \<and>
    (\<forall>p. prev = Some p \<longrightarrow> (\<forall>(a, q) \<in> set qs. p < a))"
  using assms
proof (induction prev ps arbitrary: qs rule: norm_positions.induct)
  case (2 prev asset raw rest)
  then obtain q ps where q: "finite_nonnegative raw (''quantity of '' @ repr_str asset) = Inr q"
    and ps: "norm_positions (Some asset) rest = Inr ps" "asset \<noteq> []" "prev \<noteq> Some asset"
    and qs: "qs = (if q > 0 then (asset, q) # ps else ps)"
    by (auto simp: res_simps split: if_splits)
  have IH: "sorted_wrt (<) (map fst ps) \<and> set (map fst ps) \<subseteq> set (map fst rest) \<and>
    (\<forall>(a, q) \<in> set ps. a \<noteq> [] \<and> isfinite q \<and> 0 < q \<and> is_double q) \<and>
    (\<forall>p. Some asset = Some p \<longrightarrow> (\<forall>(a, q) \<in> set ps. p < a))"
    by (rule "2.IH") (use 2 ps q in auto)
  have lt: "p < asset" if "prev = Some p" for p
    using "2.prems"(3)[OF that] ps(3) that by (auto simp: le_less)
  show ?case
    using IH lt ps(2) finite_nonnegative_Inr[OF q] unfolding qs
    by (auto 0 4 dest: less_trans)
qed simp

lemma mk_portfolio_state_ok [wf_intros]:
  assumes "mk_portfolio_state c ps = Inr s" shows "state_ok s"
proof -
  from assms obtain c' ps' where c: "finite_nonnegative c ''cash'' = Inr c'"
    and ps: "norm_positions None (sort_key fst ps) = Inr ps'" and s: "s = \<lparr>cash = c', positions = ps'\<rparr>"
    by (auto simp: mk_portfolio_state_def res_simps)
  show ?thesis
    using finite_nonnegative_Inr[OF c] norm_positions_Inr[OF ps] by (auto simp: state_ok_def held_assets_def s)
qed

lemma state_ok_quantity:
  assumes "state_ok s"
  shows "isfinite (quantity_of s a)" "0 \<le> quantity_of s a" "is_double (quantity_of s a)"
    "0 < quantity_of s a \<longleftrightarrow> a \<in> set (held_assets s)"
proof -
  have "isfinite (quantity_of s a) \<and> 0 \<le> quantity_of s a \<and> is_double (quantity_of s a) \<and>
    (0 < quantity_of s a \<longleftrightarrow> a \<in> set (held_assets s))"
  proof (cases "map_of (positions s) a")
    case None
    then have "a \<notin> set (held_assets s)" by (simp add: held_assets_def map_of_eq_None_iff)
    then show ?thesis using None by (simp add: quantity_of_def is_double_Fin)
  next
    case (Some q)
    then have "(a, q) \<in> set (positions s)" by (rule map_of_SomeD)
    then have "isfinite q \<and> 0 < q \<and> is_double q" "a \<in> set (held_assets s)"
      using assms by (auto simp: state_ok_def held_assets_def intro: rev_image_eqI)
    then show ?thesis using Some by (auto simp: quantity_of_def pf_less_imp_le)
  qed
  then show "isfinite (quantity_of s a)" "0 \<le> quantity_of s a" "is_double (quantity_of s a)"
    "0 < quantity_of s a \<longleftrightarrow> a \<in> set (held_assets s)" by auto
qed

subsection \<open>Orders and fills\<close>

datatype side = Buy | Sell

fun side_str :: "side \<Rightarrow> string" where
  "side_str Buy = ''buy''"
| "side_str Sell = ''sell''"

record order =
  ord_side :: side
  ord_asset :: string
  ord_quantity :: pyfloat

definition mk_order :: "side \<Rightarrow> string \<Rightarrow> pynum \<Rightarrow> order res" where
  "mk_order sd asset quantity =
     (if asset = [] then Inl (ValueError ''asset must be a non-empty identifier'')
      else
        let bad = ValueError (''quantity must be a finite number > 0, got '' @ repr_pynum quantity) in
        try_bind (as_float quantity bad) (\<lambda>q.
          if \<not> isfinite q \<or> q \<le> 0 then Inl bad
          else Inr \<lparr>ord_side = sd, ord_asset = asset, ord_quantity = q\<rparr>))"

definition order_ok :: "order \<Rightarrow> bool" where
  "order_ok ord \<longleftrightarrow> ord_asset ord \<noteq> [] \<and> isfinite (ord_quantity ord) \<and> 0 < ord_quantity ord \<and>
     is_double (ord_quantity ord)"

lemma mk_order_ok [wf_intros]: "mk_order sd a q = Inr ord \<Longrightarrow> order_ok ord"
  by (auto simp: mk_order_def Let_def res_simps order_ok_def isfinite_iff as_float_double split: if_splits)

record fill =
  fill_side :: side
  fill_asset :: string
  fill_quantity :: pyfloat
  fill_price :: pyfloat
  fill_cost :: pyfloat
  fill_cash_delta :: pyfloat
  fill_scaled :: bool

fun check_finite :: "(string \<times> pyfloat) list \<Rightarrow> unit res" where
  "check_finite [] = Inr ()"
| "check_finite ((label, v) # rest) =
     (if \<not> isfinite v then Inl (ValueError (label @ '' must be a finite number, got '' @ repr_float v))
      else check_finite rest)"

definition mk_fill ::
    "side \<Rightarrow> string \<Rightarrow> pyfloat \<Rightarrow> pyfloat \<Rightarrow> pyfloat \<Rightarrow> pyfloat \<Rightarrow> bool \<Rightarrow> fill res" where
  "mk_fill sd asset quantity price cost cash_delta scaled =
     try_bind (check_finite [(''quantity'', quantity), (''price'', price), (''cost'', cost),
                             (''cash_delta'', cash_delta)]) (\<lambda>_.
       if quantity < 0 \<or> price \<le> 0 \<or> cost < 0
       then Inl (ValueError ''fill quantity must be >= 0, price > 0, cost >= 0'')
       else Inr \<lparr>fill_side = sd, fill_asset = asset, fill_quantity = quantity, fill_price = price,
                 fill_cost = cost, fill_cash_delta = cash_delta, fill_scaled = scaled\<rparr>)"

lemma mk_fill_Inr [res_simps]:
  "mk_fill sd a q p c d sc = Inr f \<longleftrightarrow>
     isfinite q \<and> isfinite p \<and> isfinite c \<and> isfinite d \<and> \<not> (q < 0 \<or> p \<le> 0 \<or> c < 0) \<and>
     f = \<lparr>fill_side = sd, fill_asset = a, fill_quantity = q, fill_price = p, fill_cost = c,
          fill_cash_delta = d, fill_scaled = sc\<rparr>"
  by (auto simp: mk_fill_def)

end
