(* ===== verification/Fixtures.thy ===== *)
theory Fixtures
  imports MarketData Trading
begin

section \<open>A small market\<close>

text \<open>
  The concrete market on which the properties are instantiated: three sessions across a
  weekend, two assets with prices on each. It is built by the program's own constructors, so
  its well-formedness is a consequence of their checks. An instant counts the minutes from the
  first midnight; every session opens half past nine and closes at four.
\<close>

definition fx_session :: "date \<Rightarrow> int \<Rightarrow> market_session" where
  "fx_session d t = \<lparr>session_date = d, open_at = t + 570, close_at = t + 960\<rparr>"

definition fx_thu :: date where "fx_thu = Date 2024 1 4"
definition fx_fri :: date where "fx_fri = Date 2024 1 5"
definition fx_mon :: date where "fx_mon = Date 2024 1 8"

definition fx_calendar :: exchange_calendar where
  "fx_calendar = \<lparr>exchange = ''XNYS'', cal_timezone = ''America/New_York'',
     sessions = [fx_session fx_thu 0, fx_session fx_fri 1440, fx_session fx_mon 5760]\<rparr>"

definition fx_obs :: "date \<Rightarrow> int \<Rightarrow> pyfloat \<Rightarrow> pyfloat \<Rightarrow> price_observation" where
  "fx_obs d t op cl = \<lparr>obs_date = d, open_price = op, close_price = cl,
     open_available_at = t + 570, close_available_at = t + 960\<rparr>"

definition fx_data :: market_data_set where
  "fx_data = \<lparr>calendar = fx_calendar, observations =
     [(''A'', [fx_obs fx_thu 0 (Fin 10) (Fin 11), fx_obs fx_fri 1440 (Fin 12) (Fin 13), fx_obs fx_mon 5760 (Fin 12) (Fin 14)]),
      (''B'', [fx_obs fx_thu 0 (Fin 20) (Fin 21), fx_obs fx_fri 1440 (Fin 22) (Fin 20), fx_obs fx_mon 5760 (Fin 25) (Fin 24)])]\<rparr>"

lemmas fx_defs = fx_session_def fx_thu_def fx_fri_def fx_mon_def fx_calendar_def fx_obs_def fx_data_def

lemma fx_calendar_ok: "cal_ok fx_calendar"
  by (simp add: cal_ok_def fx_defs session_ok_def session_before_def days_in_month_def)

lemma fx_data_ok: "ds_ok fx_data"
proof (rule mk_market_data_set_ok)
  show "mk_market_data_set fx_calendar (observations fx_data) = Inr fx_data"
    by (simp add: mk_market_data_set_def fx_defs session_on_def)
  show "\<And>a series ob. (a, series) \<in> set (observations fx_data) \<Longrightarrow> ob \<in> set series \<Longrightarrow> obs_prices_ok ob"
    by (auto simp: fx_defs obs_prices_ok_def valid_price_def is_double_Fin)
qed (simp_all add: fx_calendar_ok fx_data_def)

text \<open>A portfolio and two orders against it: a covered sell, and a buy the cash cannot cover.\<close>

definition fx_state :: portfolio_state where
  "fx_state = \<lparr>cash = Fin 1000, positions = [(''A'', Fin 5)]\<rparr>"

definition fx_orders :: "order list" where
  "fx_orders = [\<lparr>ord_side = Buy, ord_asset = ''B'', ord_quantity = Fin 64\<rparr>,
                \<lparr>ord_side = Sell, ord_asset = ''A'', ord_quantity = Fin 2\<rparr>]"

lemma fx_state_ok: "state_ok fx_state"
  by (simp add: state_ok_def fx_state_def held_assets_def is_double_Fin)

lemma fx_orders_ok: "\<forall>ord \<in> set fx_orders. order_ok ord"
  by (simp add: fx_orders_def order_ok_def is_double_Fin)

lemma fx_source_ok: "cursor_source_ok (new_cursor fx_data, t)"
  using new_cursor_ok[OF fx_data_ok] by (auto simp: cursor_source_ok_def)

end
