(* ===== verification/Values.thy ===== *)
theory Values
  imports Trading
begin

section \<open>Typed runtime values\<close>

text \<open>
  \<open>quantize/runtime/values.py\<close> with the port types of \<open>quantize/schema/types.py\<close>. The
  five kinds of value that flow over an edge, each with the constructor that checks and
  canonicalises it. Assets and dates are typed, so of the checks on them emptiness, duplicates
  and order remain; numbers are of dynamic type (\<open>pynum\<close>) on the way in and floats or
  bools once stored. When an asset occurs twice in a cross section the code raises, after
  ordering the two raw values; the model raises without ordering them.
\<close>

subsection \<open>Port types\<close>

datatype scalar_dtype = NumberS | IntegerS | BooleanS
datatype cross_dtype = NumberX | BooleanX

datatype port_type =
    ScalarType scalar_dtype
  | AssetSetType
  | CrossSectionType cross_dtype
  | TimeSeriesType
  | PortfolioTargetsType

fun render_port_type :: "port_type \<Rightarrow> string" where
  "render_port_type (ScalarType NumberS) = ''Scalar[Number]''"
| "render_port_type (ScalarType IntegerS) = ''Scalar[Integer]''"
| "render_port_type (ScalarType BooleanS) = ''Scalar[Boolean]''"
| "render_port_type AssetSetType = ''AssetSet''"
| "render_port_type (CrossSectionType NumberX) = ''CrossSection[Number]''"
| "render_port_type (CrossSectionType BooleanX) = ''CrossSection[Boolean]''"
| "render_port_type TimeSeriesType = ''TimeSeries[Number]''"
| "render_port_type PortfolioTargetsType = ''PortfolioTargets''"

lemma render_port_type_inj: "render_port_type t = render_port_type u \<longleftrightarrow> t = u"
  by (cases t rule: render_port_type.cases; cases u rule: render_port_type.cases) auto

subsection \<open>Assets and numbers\<close>

definition weight_tolerance :: pyfloat where
  "weight_tolerance = float_1e9"

definition canonical_assets :: "string list \<Rightarrow> string \<Rightarrow> string list res" where
  "canonical_assets assets label =
     (let ordered = sort assets in
      if [] \<in> set ordered then Inl (ValueError (label @ '' must contain non-empty asset identifiers''))
      else case adjacent_dup ordered of
        Some a \<Rightarrow> Inl (ValueError (label @ '' contains duplicate asset '' @ repr_str a))
      | None \<Rightarrow> Inr ordered)"

definition finite_number :: "pynum \<Rightarrow> string \<Rightarrow> pyfloat res" where
  "finite_number value label =
     try_bind (as_float value (ValueError (label @ '' must be a number, got '' @ type_name value))) (\<lambda>number.
       if isfinite number then Inr number
       else Inl (ValueError (label @ '' must be finite (no NaN/Infinity)'')))"

definition assets_ok :: "string list \<Rightarrow> bool" where
  "assets_ok assets \<longleftrightarrow> sorted_wrt (<) assets \<and> [] \<notin> set assets"

definition number_ok :: "pyfloat \<Rightarrow> bool" where
  "number_ok x \<longleftrightarrow> isfinite x \<and> is_double x"

lemma canonical_assets_Inr:
  "canonical_assets assets label = Inr xs \<longleftrightarrow> xs = sort assets \<and> assets_ok xs"
  using adjacent_dup_None_iff[of "sort assets"]
  by (auto simp: canonical_assets_def Let_def assets_ok_def strict_sorted_iff split: option.splits)

lemma assets_ok_distinct: "assets_ok xs \<Longrightarrow> sorted xs \<and> distinct xs"
  by (simp add: assets_ok_def strict_sorted_iff)

lemma canonical_assets_idem: "assets_ok xs \<Longrightarrow> canonical_assets xs label = Inr xs"
  by (simp add: canonical_assets_Inr sorted_sort_id assets_ok_distinct)

lemma finite_number_ok: "finite_number v label = Inr x \<Longrightarrow> number_ok x"
  by (auto simp: finite_number_def res_simps number_ok_def as_float_double split: if_splits)

lemma finite_number_id: "number_ok x \<Longrightarrow> finite_number (PyFloat x) label = Inr x"
  by (auto simp: finite_number_def number_ok_def to_double_id)

subsection \<open>Scalars and cross sections\<close>

datatype scalar = NumberScalar pyfloat | IntegerScalar int | BooleanScalar bool

fun mk_scalar :: "scalar_dtype \<Rightarrow> pynum \<Rightarrow> scalar res" where
  "mk_scalar BooleanS value = (case value of PyBool b \<Rightarrow> Inr (BooleanScalar b)
     | _ \<Rightarrow> Inl (ValueError ''Scalar[Boolean] requires a bool value''))"
| "mk_scalar IntegerS value = (case value of PyInt i \<Rightarrow> Inr (IntegerScalar i)
     | _ \<Rightarrow> Inl (ValueError ''Scalar[Integer] requires an int value''))"
| "mk_scalar NumberS value = try_bind (finite_number value ''Scalar[Number] value'') (\<lambda>x. Inr (NumberScalar x))"

fun dtype_of_scalar :: "scalar \<Rightarrow> scalar_dtype" where
  "dtype_of_scalar (NumberScalar _) = NumberS"
| "dtype_of_scalar (IntegerScalar _) = IntegerS"
| "dtype_of_scalar (BooleanScalar _) = BooleanS"

record cross_section =
  cs_dtype :: cross_dtype
  cs_domain :: "string list"
  cs_values :: "(string \<times> pynum) list"

definition cell_value :: "cross_dtype \<Rightarrow> string \<Rightarrow> pynum \<Rightarrow> pynum res" where
  "cell_value dtype asset raw = (case dtype of
     BooleanX \<Rightarrow> (case raw of PyBool b \<Rightarrow> Inr raw
       | _ \<Rightarrow> Inl (ValueError (''CrossSection[Boolean] value for '' @ repr_str asset @ '' must be a bool'')))
   | NumberX \<Rightarrow> try_bind (finite_number raw (''CrossSection value for '' @ repr_str asset)) (\<lambda>x. Inr (PyFloat x)))"

fun norm_cells :: "cross_dtype \<Rightarrow> string set \<Rightarrow> (string \<times> pynum) list \<Rightarrow> (string \<times> pynum) list res" where
  "norm_cells dtype allowed [] = Inr []"
| "norm_cells dtype allowed ((asset, raw) # rest) =
     (if asset \<notin> allowed
      then Inl (ValueError (''CrossSection value for '' @ repr_str asset @ '' is outside its domain''))
      else try_bind (cell_value dtype asset raw) (\<lambda>v.
           try_bind (norm_cells dtype allowed rest) (\<lambda>vs. Inr ((asset, v) # vs))))"

definition mk_cross_section ::
    "cross_dtype \<Rightarrow> string list \<Rightarrow> (string \<times> pynum) list \<Rightarrow> cross_section res" where
  "mk_cross_section dtype raw_domain vals =
     try_bind (canonical_assets raw_domain ''CrossSection domain'') (\<lambda>domain.
     try_bind (norm_cells dtype (set domain) (sort_key fst vals)) (\<lambda>cells.
       case adjacent_dup (map fst cells) of
         Some a \<Rightarrow> Inl (ValueError (''CrossSection has duplicate values for asset '' @ repr_str a))
       | None \<Rightarrow> Inr \<lparr>cs_dtype = dtype, cs_domain = domain, cs_values = cells\<rparr>))"

definition cs_numbers :: "string list \<Rightarrow> (string \<times> pynum) list \<Rightarrow> cross_section res" where
  "cs_numbers raw_domain vals = mk_cross_section NumberX raw_domain vals"

definition cs_booleans :: "string list \<Rightarrow> (string \<times> pynum) list \<Rightarrow> cross_section res" where
  "cs_booleans raw_domain vals = mk_cross_section BooleanX raw_domain vals"

definition present_assets :: "cross_section \<Rightarrow> string list" where
  "present_assets cs = map fst (cs_values cs)"

definition missing_assets :: "cross_section \<Rightarrow> string list" where
  "missing_assets cs = filter (\<lambda>a. a \<notin> set (present_assets cs)) (cs_domain cs)"

definition cell_ok :: "cross_dtype \<Rightarrow> pynum \<Rightarrow> bool" where
  "cell_ok dtype v = (case v of PyFloat x \<Rightarrow> dtype = NumberX \<and> number_ok x | PyBool b \<Rightarrow> dtype = BooleanX | _ \<Rightarrow> False)"

definition cross_ok :: "cross_section \<Rightarrow> bool" where
  "cross_ok cs \<longleftrightarrow> assets_ok (cs_domain cs) \<and> assets_ok (present_assets cs) \<and>
     set (present_assets cs) \<subseteq> set (cs_domain cs) \<and> (\<forall>(a, v) \<in> set (cs_values cs). cell_ok (cs_dtype cs) v)"

lemma norm_cells_Inr:
  "norm_cells dtype allowed vals = Inr cells \<Longrightarrow> map fst cells = map fst vals \<and> fst ` set cells \<subseteq> allowed \<and>
   (\<forall>(a, v) \<in> set cells. cell_ok dtype v)"
proof (induction dtype allowed vals arbitrary: cells rule: norm_cells.induct)
  case (2 dtype allowed asset raw rest)
  then obtain v vs where v: "cell_value dtype asset raw = Inr v" "norm_cells dtype allowed rest = Inr vs"
    "asset \<in> allowed" "cells = (asset, v) # vs" by (auto simp: res_simps split: if_splits)
  have "cell_ok dtype v" using v(1)
    by (auto simp: cell_value_def cell_ok_def res_simps split: cross_dtype.splits pynum.splits dest: finite_number_ok)
  with "2.IH"[OF _ v(2)] v show ?case by auto
qed simp

lemma mk_cross_section_ok [wf_intros]:
  assumes "mk_cross_section dtype allowed vals = Inr cs"
  shows "cross_ok cs" "cs_dtype cs = dtype" "cs_domain cs = sort allowed" "present_assets cs = sort (map fst vals)"
proof -
  from assms obtain domain cells where d: "canonical_assets allowed ''CrossSection domain'' = Inr domain"
    and c: "norm_cells dtype (set domain) (sort_key fst vals) = Inr cells" and n: "adjacent_dup (map fst cells) = None"
    and cs: "cs = \<lparr>cs_dtype = dtype, cs_domain = domain, cs_values = cells\<rparr>"
    by (auto simp: mk_cross_section_def res_simps split: option.splits)
  note c' = norm_cells_Inr[OF c]
  have keys: "map fst cells = sort (map fst vals)" using c' by (simp add: map_sort_key_fst)
  have strict: "sorted_wrt (<) (map fst cells)" using n c' by (auto simp: strict_sorted_iff adjacent_dup_None_iff)
  show "cs_dtype cs = dtype" "cs_domain cs = sort allowed" "present_assets cs = sort (map fst vals)"
    using d keys by (simp_all add: cs present_assets_def canonical_assets_Inr)
  have dom: "assets_ok domain" using d unfolding canonical_assets_Inr by blast
  have sub: "set (map fst cells) \<subseteq> set domain" using conjunct1[OF conjunct2[OF c']] by simp
  then have "[] \<notin> set (map fst cells)" using dom unfolding assets_ok_def by blast
  then show "cross_ok cs"
    using strict dom sub c' by (simp add: cs cross_ok_def present_assets_def assets_ok_def del: set_map)
qed

subsection \<open>Time series\<close>

type_synonym raw_history = "(date \<times> pynum) list"
type_synonym history_points = "(date \<times> pyfloat) list"
type_synonym time_series = "(string \<times> history_points) list"

fun norm_history :: "string \<Rightarrow> date option \<Rightarrow> raw_history \<Rightarrow> history_points res" where
  "norm_history asset previous [] = Inr []"
| "norm_history asset previous ((at_day, raw) # rest) =
     (if (case previous of None \<Rightarrow> False | Some p \<Rightarrow> \<not> p < at_day)
      then Inl (ValueError (''TimeSeries dates for '' @ repr_str asset @ '' must be strictly increasing''))
      else try_bind (finite_number raw (''TimeSeries value for '' @ repr_str asset)) (\<lambda>x.
           try_bind (norm_history asset (Some at_day) rest) (\<lambda>h. Inr ((at_day, x) # h))))"

definition mk_time_series :: "(string \<times> raw_history) list \<Rightarrow> time_series res" where
  "mk_time_series series =
     try_bind (canonical_assets (map fst series) ''TimeSeries domain'') (\<lambda>assets.
       traverse (\<lambda>asset. try_bind (norm_history asset None (the (map_of series asset))) (\<lambda>h. Inr (asset, h))) assets)"

text \<open>Histories read verbatim from a view: only the domain is canonicalised.\<close>

definition from_view_history :: "(string \<times> history_points) list \<Rightarrow> time_series res" where
  "from_view_history series =
     try_bind (canonical_assets (map fst series) ''TimeSeries domain'') (\<lambda>assets.
       Inr (map (\<lambda>asset. (asset, the (map_of series asset))) assets))"

definition ts_history :: "time_series \<Rightarrow> string \<Rightarrow> history_points res" where
  "ts_history ts asset = (case map_of ts asset of None \<Rightarrow> Inl (KeyError (repr_str asset)) | Some h \<Rightarrow> Inr h)"

definition ts_assets :: "time_series \<Rightarrow> string list" where
  "ts_assets ts = map fst ts"

definition history_ok :: "history_points \<Rightarrow> bool" where
  "history_ok h \<longleftrightarrow> sorted_wrt (<) (map fst h) \<and> (\<forall>(d, x) \<in> set h. number_ok x)"

definition series_value_ok :: "time_series \<Rightarrow> bool" where
  "series_value_ok ts \<longleftrightarrow> assets_ok (ts_assets ts) \<and> (\<forall>(a, h) \<in> set ts. history_ok h)"

lemma norm_history_Inr:
  "norm_history asset prev raws = Inr h \<Longrightarrow> history_ok h \<and> map fst h = map fst raws \<and>
   (\<forall>p. prev = Some p \<longrightarrow> (\<forall>d \<in> set (map fst h). p < d))"
proof (induction asset prev raws arbitrary: h rule: norm_history.induct)
  case (2 asset prev at_day raw rest)
  then obtain x h' where h: "finite_number raw (''TimeSeries value for '' @ repr_str asset) = Inr x"
    "norm_history asset (Some at_day) rest = Inr h'" "h = (at_day, x) # h'" "\<And>p. prev = Some p \<Longrightarrow> p < at_day"
    by (auto simp: res_simps split: if_splits option.splits)
  have "\<not> (case prev of None \<Rightarrow> False | Some p \<Rightarrow> \<not> p < at_day)" using h(4) by (cases prev) auto
  from "2.IH"[OF this h(2)]
  have "history_ok h' \<and> map fst h' = map fst rest \<and> (\<forall>d \<in> set (map fst h'). at_day < d)" by metis
  moreover from this have "\<forall>d \<in> set (map fst rest). at_day < d" by metis
  ultimately show ?case using h finite_number_ok[OF h(1)] by (auto simp: history_ok_def dest: less_trans)
qed (simp add: history_ok_def)

lemma traverse_pair_fst:
  "traverse (\<lambda>a. try_bind (f a) (\<lambda>h. Inr (a, h))) as = Inr ys \<Longrightarrow>
   map fst ys = as \<and> (\<forall>(a, h) \<in> set ys. f a = Inr h)"
  by (induction as arbitrary: ys) (auto simp: try_bind_Inr)

lemma mk_time_series_ok [wf_intros]:
  assumes "mk_time_series series = Inr ts"
  shows "series_value_ok ts" "ts_assets ts = sort (map fst series)"
proof -
  from assms have a: "assets_ok (sort (map fst series))"
    and t: "traverse (\<lambda>asset. try_bind (norm_history asset None (the (map_of series asset))) (\<lambda>h. Inr (asset, h)))
      (sort (map fst series)) = Inr ts"
    by (auto simp: mk_time_series_def canonical_assets_Inr try_bind_Inr)
  note t' = traverse_pair_fst[OF t]
  then show "ts_assets ts = sort (map fst series)" by (simp add: ts_assets_def)
  show "series_value_ok ts"
    using a t' by (auto simp: series_value_ok_def ts_assets_def dest!: norm_history_Inr)
qed

subsection \<open>Portfolio targets\<close>

text \<open>The sum of the weights as the constructor accumulates it, left to right from \<open>0.0\<close>.\<close>

fun norm_weights :: "(string \<times> pynum) list \<Rightarrow> pyfloat \<Rightarrow> ((string \<times> pyfloat) list \<times> pyfloat) res" where
  "norm_weights [] acc = Inr ([], acc)"
| "norm_weights ((asset, raw) # rest) acc =
     try_bind (finite_number raw (''weight for '' @ repr_str asset)) (\<lambda>weight.
       if weight < 0
       then Inl (ValueError (''weight for '' @ repr_str asset @ '' must be >= 0, got '' @ repr_float weight))
       else try_bind (norm_weights rest (acc + weight)) (\<lambda>(ws, t). Inr ((asset, weight) # ws, t)))"

type_synonym targets = "(string \<times> pyfloat) list"

definition mk_targets :: "(string \<times> pynum) list \<Rightarrow> targets res" where
  "mk_targets raws =
     try_bind (canonical_assets (map fst raws) ''PortfolioTargets'') (\<lambda>_.
     try_bind (norm_weights (sort_key fst raws) 0) (\<lambda>(ws, acc).
       if acc > 1 + weight_tolerance
       then Inl (ValueError (''portfolio weights sum to '' @ repr_float acc @ '', exceeding 1''))
       else Inr ws))"

definition invested_weight :: "targets \<Rightarrow> pyfloat" where
  "invested_weight ws = py_sum (map snd ws)"

definition cash_weight :: "targets \<Rightarrow> pyfloat" where
  "cash_weight ws = py_max 0 (1 - invested_weight ws)"

definition fold_sum :: "pyfloat list \<Rightarrow> pyfloat" where
  "fold_sum xs = foldl (+) 0 xs"

definition targets_ok :: "targets \<Rightarrow> bool" where
  "targets_ok ws \<longleftrightarrow> assets_ok (map fst ws) \<and> (\<forall>(a, w) \<in> set ws. number_ok w \<and> 0 \<le> w) \<and>
     \<not> fold_sum (map snd ws) > 1 + weight_tolerance"

lemma norm_weights_Inr:
  "norm_weights raws t = Inr (ws, t') \<Longrightarrow> map fst ws = map fst raws \<and>
   (\<forall>(a, w) \<in> set ws. number_ok w \<and> 0 \<le> w) \<and> t' = foldl (+) t (map snd ws)"
proof (induction raws t arbitrary: ws rule: norm_weights.induct)
  case (2 asset raw rest acc)
  then obtain w vs where w: "finite_number raw (''weight for '' @ repr_str asset) = Inr w" "\<not> w < 0"
    "norm_weights rest (acc + w) = Inr (vs, t')" "ws = (asset, w) # vs"
    by (auto simp: res_simps split: if_splits)
  have "number_ok w" using finite_number_ok[OF w(1)] .
  moreover have "0 \<le> w" using w(2) \<open>number_ok w\<close> by (auto simp: number_ok_def)
  ultimately show ?case using "2.IH"[OF w(2,3)] w(4) by auto
qed simp

lemma mk_targets_ok [wf_intros]:
  assumes "mk_targets raws = Inr ws"
  shows "targets_ok ws" "map fst ws = sort (map fst raws)"
proof -
  from assms obtain acc where a: "assets_ok (sort (map fst raws))"
    and w: "norm_weights (sort_key fst raws) 0 = Inr (ws, acc)" and t: "\<not> acc > 1 + weight_tolerance"
    by (auto simp: mk_targets_def canonical_assets_Inr res_simps split: if_splits)
  note w' = norm_weights_Inr[OF w]
  then show keys: "map fst ws = sort (map fst raws)" by (simp add: map_sort_key_fst)
  show "targets_ok ws" using a w' t keys by (auto simp: targets_ok_def fold_sum_def)
qed

subsection \<open>Runtime values\<close>

datatype runtime_value =
    ScalarV scalar
  | AssetSetV "string list"
  | CrossSectionV cross_section
  | TimeSeriesV time_series
  | TargetsV targets

fun port_type_of :: "runtime_value \<Rightarrow> port_type" where
  "port_type_of (ScalarV s) = ScalarType (dtype_of_scalar s)"
| "port_type_of (AssetSetV _) = AssetSetType"
| "port_type_of (CrossSectionV cs) = CrossSectionType (cs_dtype cs)"
| "port_type_of (TimeSeriesV _) = TimeSeriesType"
| "port_type_of (TargetsV _) = PortfolioTargetsType"

definition scalar_ok :: "scalar \<Rightarrow> bool" where
  "scalar_ok s \<longleftrightarrow> (case s of NumberScalar x \<Rightarrow> number_ok x | _ \<Rightarrow> True)"

fun value_ok :: "runtime_value \<Rightarrow> bool" where
  "value_ok (ScalarV s) \<longleftrightarrow> scalar_ok s"
| "value_ok (AssetSetV assets) \<longleftrightarrow> assets_ok assets"
| "value_ok (CrossSectionV cs) \<longleftrightarrow> cross_ok cs"
| "value_ok (TimeSeriesV ts) \<longleftrightarrow> series_value_ok ts"
| "value_ok (TargetsV ws) \<longleftrightarrow> targets_ok ws"

lemma mk_scalar_ok [wf_intros]:
  "mk_scalar dtype v = Inr s \<Longrightarrow> scalar_ok s \<and> dtype_of_scalar s = dtype"
  by (cases dtype) (auto simp: scalar_ok_def res_simps split: pynum.splits dest: finite_number_ok)

end
