(* ===== verification/Schema.thy ===== *)
theory Schema
  imports Values Calendar
begin

section \<open>The strategy document\<close>

text \<open>
  \<open>quantize/schema/\<close> with \<open>quantize/compatibility.py\<close>: portable JSON values, identifier
  patterns, nodes, edges, component definitions and the strategy document, as the parsed models
  hold them. The library that parses a document is not part of the repository; what it enforces
  on a field is the predicate \<open>..._fields_ok\<close> of the record. A canonical UUID and a time
  stamp are opaque.
\<close>

subsection \<open>Portable JSON\<close>

text \<open>A Python value offered as JSON; \<open>JOther\<close> is a value of any other type, by type name.
  The keys of an object are strings.\<close>

datatype json =
    JNull
  | JBool bool
  | JInt int
  | JFloat pyfloat
  | JStr string
  | JList "json list"
  | JObj "(string \<times> json) list"
  | JOther string

type_synonym json_object = "(string \<times> json) list"

definition js_max_safe_int :: int where
  "js_max_safe_int = 2 ^ 53 - 1"

fun check_portable_json :: "json \<Rightarrow> json res" and check_portable_items :: "json list \<Rightarrow> json list res"
  and check_portable_fields :: "json_object \<Rightarrow> unit res" where
  "check_portable_json JNull = Inr JNull"
| "check_portable_json (JBool b) = Inr (JBool b)"
| "check_portable_json (JStr s) = Inr (JStr s)"
| "check_portable_json (JInt i) =
     (if - js_max_safe_int \<le> i \<and> i \<le> js_max_safe_int then Inr (JInt i)
      else Inl (ValueError (''integer '' @ dec_int i @ '' is outside the JS-safe range [-(2^53-1), 2^53-1]; carry large magnitudes as strings'')))"
| "check_portable_json (JFloat x) =
     (if isfinite x then Inr (JFloat x) else Inl (ValueError ''NaN and Infinity are not portable JSON''))"
| "check_portable_json (JList xs) = try_bind (check_portable_items xs) (\<lambda>ys. Inr (JList ys))"
| "check_portable_json (JObj kvs) = try_bind (check_portable_fields kvs) (\<lambda>_. Inr (JObj kvs))"
| "check_portable_json (JOther t) = Inl (ValueError (t @ '' is not a portable JSON value''))"
| "check_portable_items [] = Inr []"
| "check_portable_items (x # xs) =
     try_bind (check_portable_json x) (\<lambda>y. try_bind (check_portable_items xs) (\<lambda>ys. Inr (y # ys)))"
| "check_portable_fields [] = Inr ()"
| "check_portable_fields ((k, v) # kvs) =
     try_bind (check_portable_json v) (\<lambda>_. check_portable_fields kvs)"

definition json_object_ok :: "json_object \<Rightarrow> bool" where
  "json_object_ok kvs \<longleftrightarrow> (case check_portable_fields kvs of Inr _ \<Rightarrow> True | Inl _ \<Rightarrow> False)"

text \<open>The values that pass: every integer inside the safe range and every float finite, at any
  depth. The check is the identity on them.\<close>

fun portable :: "json \<Rightarrow> bool" where
  "portable (JInt i) \<longleftrightarrow> \<bar>i\<bar> \<le> js_max_safe_int"
| "portable (JFloat x) \<longleftrightarrow> isfinite x"
| "portable (JList xs) \<longleftrightarrow> (\<forall>x \<in> set xs. portable x)"
| "portable (JObj kvs) \<longleftrightarrow> (\<forall>kv \<in> set kvs. portable (snd kv))"
| "portable (JOther t) \<longleftrightarrow> False"
| "portable _ \<longleftrightarrow> True"

lemma check_portable_Inr:
  "check_portable_json v = Inr w \<longleftrightarrow> w = v \<and> portable v"
  "check_portable_items xs = Inr ys \<longleftrightarrow> ys = xs \<and> (\<forall>x \<in> set xs. portable x)"
  "check_portable_fields kvs = Inr u \<longleftrightarrow> (\<forall>kv \<in> set kvs. portable (snd kv))"
  by (induction v and xs and kvs arbitrary: w and ys and u
      rule: check_portable_json_check_portable_items_check_portable_fields.induct)
    (auto simp: try_bind_Inr abs_le_iff)

lemma json_object_ok_iff [simp]: "json_object_ok kvs \<longleftrightarrow> (\<forall>kv \<in> set kvs. portable (snd kv))"
  using check_portable_Inr(3)[of kvs "()"] by (auto simp: json_object_ok_def split: sum.splits)

fun json_type_name :: "json \<Rightarrow> string" where
  "json_type_name JNull = ''NoneType''"
| "json_type_name (JBool _) = ''bool''"
| "json_type_name (JInt _) = ''int''"
| "json_type_name (JFloat _) = ''float''"
| "json_type_name (JStr _) = ''str''"
| "json_type_name (JList _) = ''list''"
| "json_type_name (JObj _) = ''dict''"
| "json_type_name (JOther t) = t"

subsection \<open>Identifiers and versions\<close>

definition is_lower :: "char \<Rightarrow> bool" where
  "is_lower c \<longleftrightarrow> (let n = of_char c :: nat in 97 \<le> n \<and> n \<le> 122)"

definition is_digit :: "char \<Rightarrow> bool" where
  "is_digit c \<longleftrightarrow> (let n = of_char c :: nat in 48 \<le> n \<and> n \<le> 57)"

definition is_upper :: "char \<Rightarrow> bool" where
  "is_upper c \<longleftrightarrow> (let n = of_char c :: nat in 65 \<le> n \<and> n \<le> 90)"

definition is_ident :: "string \<Rightarrow> bool" where
  "is_ident s \<longleftrightarrow> s \<noteq> [] \<and> list_all (\<lambda>c. is_lower c \<or> is_upper c \<or> is_digit c \<or> c = CHR ''_'') s"

text \<open>\<open>s.split(".")\<close>\<close>

fun split_dots :: "string \<Rightarrow> string list" where
  "split_dots [] = [[]]"
| "split_dots (c # cs) =
     (if c = CHR ''.'' then [] # split_dots cs
      else case split_dots cs of [] \<Rightarrow> [[c]] | p # ps \<Rightarrow> (c # p) # ps)"

definition is_type_segment :: "string \<Rightarrow> bool" where
  "is_type_segment s \<longleftrightarrow> (case s of [] \<Rightarrow> False
     | c # cs \<Rightarrow> is_lower c \<and> list_all (\<lambda>d. is_lower d \<or> is_digit d \<or> d = CHR ''_'') cs)"

definition is_registered_type_id :: "string \<Rightarrow> bool" where
  "is_registered_type_id s \<longleftrightarrow> 2 \<le> length (split_dots s) \<and> list_all is_type_segment (split_dots s)"

definition is_type_id :: "string \<Rightarrow> bool" where
  "is_type_id s \<longleftrightarrow> s = ''component'' \<or> is_registered_type_id s"

definition is_numeral :: "string \<Rightarrow> bool" where
  "is_numeral s \<longleftrightarrow> s \<noteq> [] \<and> list_all is_digit s"

definition is_semver :: "string \<Rightarrow> bool" where
  "is_semver s \<longleftrightarrow> length (split_dots s) = 3 \<and> list_all is_numeral (split_dots s)"

lemma component_not_registered: "\<not> is_registered_type_id ''component''"
  by (simp add: is_registered_type_id_def)

text \<open>A number of a document: an integer or a float, finite, never a bool.\<close>

definition to_finite_number :: "json \<Rightarrow> pyfloat res" where
  "to_finite_number v = (case v of
     JBool _ \<Rightarrow> Inl (ValueError ''a boolean is not a valid number'')
   | JInt i \<Rightarrow> float_of_int i
   | JFloat x \<Rightarrow> if isfinite x then Inr (to_double x)
       else Inl (ValueError ''number must be finite (no NaN/Infinity)'')
   | _ \<Rightarrow> Inl (ValueError ''must be a finite JSON number''))"

subsection \<open>Nodes and edges\<close>

datatype node_instance =
    RegisteredNode (node_id: string) (node_type_id: string) (node_type_version: string)
      (node_params: json_object) (node_ui: "json_object option") (node_extensions: "json_object option")
  | ComponentRefNode (node_id: string) (node_ref: string)
      (node_params: json_object) (node_ui: "json_object option") (node_extensions: "json_object option")

fun node_tag :: "string option \<Rightarrow> string" where
  "node_tag type_id = (if type_id = Some ''component'' then ''component'' else ''registered'')"

definition optional_object_ok :: "json_object option \<Rightarrow> bool" where
  "optional_object_ok v \<longleftrightarrow> (case v of None \<Rightarrow> True | Some kvs \<Rightarrow> json_object_ok kvs)"

fun node_fields_ok :: "node_instance \<Rightarrow> bool" where
  "node_fields_ok (RegisteredNode i t v ps ui ext) \<longleftrightarrow>
     is_ident i \<and> is_registered_type_id t \<and> is_semver v \<and> json_object_ok ps \<and>
     optional_object_ok ui \<and> optional_object_ok ext"
| "node_fields_ok (ComponentRefNode i r ps ui ext) \<longleftrightarrow>
     is_ident i \<and> is_ident r \<and> json_object_ok ps \<and> optional_object_ok ui \<and> optional_object_ok ext"

record edge =
  edge_from :: "string \<times> string"
  edge_to :: "string \<times> string"

definition edge_fields_ok :: "edge \<Rightarrow> bool" where
  "edge_fields_ok e \<longleftrightarrow> is_ident (fst (edge_from e)) \<and> is_ident (snd (edge_from e)) \<and>
     is_ident (fst (edge_to e)) \<and> is_ident (snd (edge_to e))"

subsection \<open>Components\<close>

datatype visibility = PrivateV | UnlistedReadonly | UnlistedDuplicable

record 'f provenance =
  prov_owner :: string
  prov_creator :: string
  prov_contributors :: "string list"
  prov_forked_from :: "'f option"
  prov_visibility :: visibility
  prov_duplicable :: bool
  prov_created_at :: instant

type_synonym component_fork = "string \<times> string"
type_synonym strategy_fork = "string \<times> int"

record component_ref =
  ref_id :: string
  ref_component_id :: string
  ref_version :: string

record exposed_port =
  ep_name :: string
  ep_type :: port_type
  ep_maps_to :: "string \<times> string"

record exposed_param =
  ex_name :: string
  ex_binds_to :: "string \<times> string"
  ex_schema :: json_object

record graph =
  graph_nodes :: "node_instance list"
  graph_edges :: "edge list"

record component_definition =
  cd_component_id :: string
  cd_version :: string
  cd_schema_version :: string
  cd_name :: string
  cd_description :: "string option"
  cd_component_refs :: "component_ref list"
  cd_graph :: graph
  cd_exposed_inputs :: "exposed_port list"
  cd_exposed_outputs :: "exposed_port list"
  cd_exposed_params :: "exposed_param list"
  cd_provenance :: "component_fork provenance"
  cd_extensions :: "json_object option"

definition ref_fields_ok :: "component_ref \<Rightarrow> bool" where
  "ref_fields_ok r \<longleftrightarrow> is_ident (ref_id r) \<and> is_semver (ref_version r)"

definition exposed_port_fields_ok :: "exposed_port \<Rightarrow> bool" where
  "exposed_port_fields_ok p \<longleftrightarrow> ep_name p \<noteq> [] \<and> is_ident (fst (ep_maps_to p)) \<and> is_ident (snd (ep_maps_to p))"

definition exposed_param_fields_ok :: "exposed_param \<Rightarrow> bool" where
  "exposed_param_fields_ok p \<longleftrightarrow> ex_name p \<noteq> [] \<and> is_ident (fst (ex_binds_to p)) \<and> json_object_ok (ex_schema p)"

definition definition_fields_ok :: "component_definition \<Rightarrow> bool" where
  "definition_fields_ok d \<longleftrightarrow>
     is_semver (cd_version d) \<and> is_semver (cd_schema_version d) \<and> cd_name d \<noteq> [] \<and>
     list_all ref_fields_ok (cd_component_refs d) \<and>
     list_all node_fields_ok (graph_nodes (cd_graph d)) \<and> list_all edge_fields_ok (graph_edges (cd_graph d)) \<and>
     list_all exposed_port_fields_ok (cd_exposed_inputs d) \<and>
     list_all exposed_port_fields_ok (cd_exposed_outputs d) \<and>
     list_all exposed_param_fields_ok (cd_exposed_params d) \<and> optional_object_ok (cd_extensions d)"

subsection \<open>The strategy document\<close>

text \<open>The one execution policy of the version: the signal at the close is filled at the next
  session's open, positions are valued at the close, and costs are proportional.\<close>

record strategy_document =
  sd_schema_version :: string
  sd_id :: string
  sd_version :: int
  sd_name :: string
  sd_description :: "string option"
  sd_provenance :: "strategy_fork provenance"
  sd_bps :: pyfloat
  sd_schedule :: schedule
  sd_nodes :: "node_instance list"
  sd_edges :: "edge list"
  sd_component_refs :: "component_ref list"
  sd_extensions :: "json_object option"

definition document_fields_ok :: "strategy_document \<Rightarrow> bool" where
  "document_fields_ok d \<longleftrightarrow>
     is_semver (sd_schema_version d) \<and> 1 \<le> sd_version d \<and> sd_name d \<noteq> [] \<and>
     isfinite (sd_bps d) \<and> 0 \<le> sd_bps d \<and>
     list_all node_fields_ok (sd_nodes d) \<and> list_all edge_fields_ok (sd_edges d) \<and>
     list_all ref_fields_ok (sd_component_refs d) \<and> optional_object_ok (sd_extensions d)"

definition current_schema_version :: string where
  "current_schema_version = ''0.1.0''"

definition supported_schema_versions :: "string list" where
  "supported_schema_versions = sort [current_schema_version]"

definition is_supported_schema_version :: "string \<Rightarrow> bool" where
  "is_supported_schema_version version \<longleftrightarrow> version \<in> set supported_schema_versions"

subsection \<open>Port-type compatibility\<close>

definition is_compatible :: "port_type \<Rightarrow> port_type \<Rightarrow> bool" where
  "is_compatible source destination \<longleftrightarrow>
     (if source = destination then True
      else (case source of ScalarType d \<Rightarrow> d = IntegerS | _ \<Rightarrow> False) \<and>
           (case destination of ScalarType d \<Rightarrow> d = NumberS | _ \<Rightarrow> False))"

lemma is_compatible_iff:
  "is_compatible s d \<longleftrightarrow> s = d \<or> s = ScalarType IntegerS \<and> d = ScalarType NumberS"
  by (auto simp: is_compatible_def split: port_type.splits)

lemma is_compatible_refl [simp]: "is_compatible t t"
  by (simp add: is_compatible_iff)

lemma is_compatible_antisym: "is_compatible s d \<Longrightarrow> is_compatible d s \<Longrightarrow> s = d"
  by (auto simp: is_compatible_iff)

lemma is_compatible_trans: "is_compatible s t \<Longrightarrow> is_compatible t d \<Longrightarrow> is_compatible s d"
  by (auto simp: is_compatible_iff)

subsection \<open>Component identities\<close>

datatype component_key = ComponentKey (key_component_id: string) (key_version: string)

instantiation component_key :: linorder
begin

definition less_eq_component_key :: "component_key \<Rightarrow> component_key \<Rightarrow> bool" where
  "k \<le> k' \<longleftrightarrow> (key_component_id k, key_version k) \<le> (key_component_id k', key_version k')"

definition less_component_key :: "component_key \<Rightarrow> component_key \<Rightarrow> bool" where
  "k < k' \<longleftrightarrow> (key_component_id k, key_version k) < (key_component_id k', key_version k')"

instance
  by standard
    (auto simp: less_eq_component_key_def less_component_key_def less_eq_prod_def less_prod_def
      intro: component_key.expand)

end

definition key_str :: "component_key \<Rightarrow> string" where
  "key_str k = key_component_id k @ ''@'' @ key_version k"

definition key_repr :: "component_key \<Rightarrow> string" where
  "key_repr k = ''ComponentKey(component_id='' @ repr_str (key_component_id k) @ '', version='' @ repr_str (key_version k) @ '')''"

definition definition_key :: "component_definition \<Rightarrow> component_key" where
  "definition_key d = ComponentKey (cd_component_id d) (cd_version d)"

definition ref_key :: "component_ref \<Rightarrow> component_key" where
  "ref_key r = ComponentKey (ref_component_id r) (ref_version r)"

end
