(* ===== verification/CycleSearch.thy ===== *)
theory CycleSearch
  imports Prelude
begin

section \<open>Finding a cycle\<close>

text \<open>
  The depth-first search of \<open>quantize/validation/structural.py\<close> (\<open>_find_cycle\<close>): three
  colours, nodes in sorted order, an explicit stack. The lemmas show that on a closed adjacency
  map it reports a cycle exactly when there is one.
\<close>

text \<open>
  The adjacency map is a dict from a node to its neighbours. The stack pairs each node of the
  current path, the deepest first, with the neighbours its iterator has not yet produced. A
  neighbour that is no key of the map raises a \<open>KeyError\<close> in the code: \<open>UnknownNeighbour\<close>.
\<close>

datatype colour = White | Grey | Black

datatype 'a search_result = Acyclic | Cycle "'a list" | UnknownNeighbour 'a

type_synonym 'a adjacency = "('a \<times> 'a list) list"

definition neighbours :: "'a adjacency \<Rightarrow> 'a \<Rightarrow> 'a list" where
  "neighbours adj n = (case map_of adj n of Some ms \<Rightarrow> ms | None \<Rightarrow> [])"

definition white_keys :: "('a \<times> colour) list \<Rightarrow> 'a set" where
  "white_keys col = {k \<in> fst ` set col. map_of col k = Some White}"

lemma white_keys_finite [simp]: "finite (white_keys col)"
  by (simp add: white_keys_def)

lemma white_keys_iff: "k \<in> white_keys col \<longleftrightarrow> map_of col k = Some White"
  by (auto simp: white_keys_def dest: map_of_SomeD intro: rev_image_eqI)

lemma white_keys_update:
  "white_keys (AList.update n c col) = (if c = White then insert n (white_keys col) else white_keys col - {n})"
  by (auto simp: white_keys_iff update_conv' set_eq_iff)

text \<open>The node path of the stack, from the root of the search down.\<close>

definition stack_path :: "('a \<times> 'a list) list \<Rightarrow> 'a list" where
  "stack_path st = rev (map fst st)"

function dfs :: "'a adjacency \<Rightarrow> ('a \<times> colour) list \<Rightarrow> ('a \<times> 'a list) list \<Rightarrow> 'a search_result \<times> ('a \<times> colour) list" where
  "dfs adj col [] = (Acyclic, col)"
| "dfs adj col ((n, []) # st) = dfs adj (AList.update n Black col) st"
| "dfs adj col ((n, m # ms) # st) =
     (case map_of col m of
        None \<Rightarrow> (UnknownNeighbour m, col)
      | Some Grey \<Rightarrow> (Cycle (dropWhile (\<lambda>k. k \<noteq> m) (stack_path ((n, m # ms) # st)) @ [m]), col)
      | Some White \<Rightarrow> dfs adj (AList.update m Grey col) ((m, neighbours adj m) # (n, ms) # st)
      | Some Black \<Rightarrow> dfs adj col ((n, ms) # st))"
  by pat_completeness auto

termination
proof (relation "measures [\<lambda>(adj, col, st). card (white_keys col), \<lambda>(adj, col, st). \<Sum>(n, ms)\<leftarrow>st. Suc (length ms)]")
  fix adj :: "'a adjacency" and col :: "('a \<times> colour) list" and n m :: 'a and ms :: "'a list" and st :: "('a \<times> 'a list) list"
  show "((adj, AList.update n Black col, st), adj, col, (n, []) # st)
      \<in> measures [\<lambda>(adj, col, st). card (white_keys col), \<lambda>(adj, col, st). \<Sum>(n, ms)\<leftarrow>st. Suc (length ms)]"
    using card_mono[of "white_keys col" "white_keys col - {n}"] by (auto simp: white_keys_update)
  show "((adj, AList.update m Grey col, (m, neighbours adj m) # (n, ms) # st), adj, col, (n, m # ms) # st)
      \<in> measures [\<lambda>(adj, col, st). card (white_keys col), \<lambda>(adj, col, st). \<Sum>(n, ms)\<leftarrow>st. Suc (length ms)]"
    if "map_of col m = Some c" "c = White" for c
    using that card_Diff1_less[of "white_keys col" m] by (auto simp: white_keys_update white_keys_iff)
qed auto

fun search_roots :: "'a adjacency \<Rightarrow> ('a \<times> colour) list \<Rightarrow> 'a list \<Rightarrow> 'a search_result" where
  "search_roots adj col [] = Acyclic"
| "search_roots adj col (r # rs) =
     (if map_of col r \<noteq> Some White then search_roots adj col rs
      else case dfs adj (AList.update r Grey col) [(r, neighbours adj r)] of
        (Acyclic, col') \<Rightarrow> search_roots adj col' rs
      | (result, _) \<Rightarrow> result)"

definition find_cycle :: "'a::linorder adjacency \<Rightarrow> 'a search_result" where
  "find_cycle adj = search_roots adj (map (\<lambda>(k, _). (k, White)) adj) (sort (map fst adj))"

text \<open>A closed adjacency map and its edges; what a reported cycle is.\<close>

definition adj_closed :: "'a adjacency \<Rightarrow> bool" where
  "adj_closed adj \<longleftrightarrow> (\<forall>(n, ms) \<in> set adj. set ms \<subseteq> fst ` set adj)"

definition adj_edges :: "'a adjacency \<Rightarrow> ('a \<times> 'a) set" where
  "adj_edges adj = {(n, m). m \<in> set (neighbours adj n)}"

definition is_cycle :: "('a \<times> 'a) set \<Rightarrow> 'a list \<Rightarrow> bool" where
  "is_cycle E c \<longleftrightarrow> 2 \<le> length c \<and> hd c = last c \<and> distinct (tl c) \<and> successively (\<lambda>x y. (x, y) \<in> E) c"

lemma neighbours_known: "adj_closed adj \<Longrightarrow> m \<in> set (neighbours adj n) \<Longrightarrow> m \<in> fst ` set adj"
  unfolding adj_closed_def neighbours_def by (cases "map_of adj n") (auto dest!: map_of_SomeD)

lemma neighbours_source: "m \<in> set (neighbours adj n) \<Longrightarrow> n \<in> fst ` set adj"
  by (metis empty_iff empty_set map_of_eq_None_iff neighbours_def option.case(1))

lemma successively_trancl:
  "successively (\<lambda>x y. (x, y) \<in> E) (x # xs) \<Longrightarrow> xs \<noteq> [] \<Longrightarrow> (x, last xs) \<in> E\<^sup>+"
proof (induction xs arbitrary: x)
  case (Cons y ys)
  show ?case
  proof (cases "ys = []")
    case False
    then have "(y, last ys) \<in> E\<^sup>+" using Cons by auto
    then show ?thesis using Cons.prems False by (auto intro: trancl_into_trancl2)
  qed (use Cons.prems in auto)
qed simp

lemma is_cycle_not_acyclic: "is_cycle E c \<Longrightarrow> \<not> acyclic E"
  by (cases c) (auto simp: is_cycle_def acyclic_def dest!: successively_trancl split: if_splits)

subsubsection \<open>The invariant of the search\<close>

definition coloured :: "('a \<times> colour) list \<Rightarrow> colour \<Rightarrow> 'a set" where
  "coloured col c = {k. map_of col k = Some c}"

text \<open>Of the neighbours of a node on the stack, those already produced are finished, except
  the one the search went down into, which is the node above.\<close>

fun frames_ok :: "'a adjacency \<Rightarrow> 'a set \<Rightarrow> 'a set \<Rightarrow> ('a \<times> 'a list) list \<Rightarrow> bool" where
  "frames_ok adj B child [] \<longleftrightarrow> True"
| "frames_ok adj B child ((n, ms) # st) \<longleftrightarrow>
     set ms \<subseteq> set (neighbours adj n) \<and> set (neighbours adj n) \<subseteq> B \<union> set ms \<union> child \<and>
     child \<subseteq> set (neighbours adj n) \<and> frames_ok adj B {n} st"

definition dfs_inv :: "'a adjacency \<Rightarrow> ('a \<times> colour) list \<Rightarrow> ('a \<times> 'a list) list \<Rightarrow> bool" where
  "dfs_inv adj col st \<longleftrightarrow>
     distinct (map fst st) \<and> set (map fst st) = coloured col Grey \<and>
     frames_ok adj (coloured col Black) {} st \<and>
     adj_edges adj `` coloured col Black \<subseteq> coloured col Black \<and>
     acyclic (Restr (adj_edges adj) (coloured col Black))"

lemma coloured_update:
  "coloured (AList.update n c col) d = (if c = d then insert n (coloured col d) else coloured col d - {n})"
  by (auto simp: coloured_def update_conv')

lemma frames_ok_mono: "frames_ok adj B a st \<Longrightarrow> B \<subseteq> B' \<Longrightarrow> frames_ok adj B' a st"
  by (induction adj B a st rule: frames_ok.induct) auto

lemma frames_ok_pop: "frames_ok adj B {n} st \<Longrightarrow> frames_ok adj (insert n B) {} st"
  by (cases st) (auto dest: frames_ok_mono[where B' = "insert n B"])

lemma acyclic_add_sink:
  assumes "acyclic (Restr E B)" "E `` B \<subseteq> B" "E `` {n} \<subseteq> B" "n \<notin> B"
  shows "acyclic (Restr E (insert n B))"
proof (rule acyclicI, rule allI, rule notI)
  fix x assume c: "(x, x) \<in> (Restr E (insert n B))\<^sup>+"
  have into: "(y, z) \<in> Restr E (insert n B) \<Longrightarrow> z \<in> B" for y z using assms(2,3) by auto
  have down: "(w, z) \<in> (Restr E B)\<^sup>+" if "(w, z) \<in> Restr E (insert n B)" "w \<in> B" for w z
    using that assms(2) by (intro r_into_trancl) auto
  have "z \<in> B \<and> (y \<in> B \<longrightarrow> (y, z) \<in> (Restr E B)\<^sup>+)" if "(y, z) \<in> (Restr E (insert n B))\<^sup>+" for y z
    using that
  proof (induction rule: trancl_induct)
    case (base z) then show ?case using into[OF base] down[OF base] by simp
  next
    case (step w z)
    then show ?case using into[OF step(2)] down[OF step(2)] by (auto intro: trancl_trans)
  qed
  with c assms(1) show False by (auto simp: acyclic_def)
qed

lemma dropWhile_neq: "m \<in> set xs \<Longrightarrow> \<exists>ys. dropWhile (\<lambda>k. k \<noteq> m) xs = m # ys \<and> (\<exists>zs. xs = zs @ m # ys)"
proof -
  assume "m \<in> set xs"
  then obtain zs ys where xs: "xs = zs @ m # ys" "m \<notin> set zs" by (meson split_list_first)
  then have "dropWhile (\<lambda>k. k \<noteq> m) xs = m # ys" by (auto simp: dropWhile_append)
  with xs show ?thesis by blast
qed

lemma frames_ok_path:
  "frames_ok adj B {} ((n, ms) # st) \<Longrightarrow> successively (\<lambda>x y. (x, y) \<in> adj_edges adj) (rev (map fst ((n, ms) # st)))"
proof -
  have "frames_ok adj B {k} st \<Longrightarrow> successively (\<lambda>x y. (y, x) \<in> adj_edges adj) (k # map fst st)" for k st
  proof (induction st arbitrary: k)
    case (Cons f st) then show ?case by (cases f) (auto simp: adj_edges_def)
  qed simp
  from this[of n st] show "successively (\<lambda>x y. (x, y) \<in> adj_edges adj) (rev (map fst ((n, ms) # st)))"
    if "frames_ok adj B {} ((n, ms) # st)"
    using that unfolding successively_rev by simp
qed

lemma back_edge_cycle:
  assumes "dfs_inv adj col ((n, m # ms) # st)" "map_of col m = Some Grey"
  shows "is_cycle (adj_edges adj) (dropWhile (\<lambda>k. k \<noteq> m) (stack_path ((n, m # ms) # st)) @ [m])"
proof -
  let ?p = "stack_path ((n, m # ms) # st)"
  have "m \<in> set ?p" using assms by (auto simp: dfs_inv_def coloured_def stack_path_def)
  from dropWhile_neq[OF this] obtain ys zs where d: "dropWhile (\<lambda>k. k \<noteq> m) ?p = m # ys" and p: "?p = zs @ m # ys" by auto
  have path: "successively (\<lambda>x y. (x, y) \<in> adj_edges adj) ?p"
    using frames_ok_path[of adj "coloured col Black" n "m # ms" st] assms(1)
    by (simp add: dfs_inv_def stack_path_def)
  have dist: "distinct ?p" using assms(1) by (auto simp: dfs_inv_def stack_path_def)
  have last: "last (m # ys) = n" using p by (metis append_is_Nil_conv last_appendR last_rev list.distinct(1) list.map(2) fst_conv list.sel(1) stack_path_def)
  have "(n, m) \<in> adj_edges adj" using assms(1) by (auto simp: dfs_inv_def adj_edges_def)
  moreover have "successively (\<lambda>x y. (x, y) \<in> adj_edges adj) (m # ys)"
    using path unfolding p by (simp add: successively_append_iff)
  ultimately have "successively (\<lambda>x y. (x, y) \<in> adj_edges adj) ((m # ys) @ [m])"
    using last by (simp only: successively_append_iff) simp
  then show ?thesis
    using dist unfolding d unfolding p by (auto simp: is_cycle_def successively_append_iff)
qed

lemma dfs_inv_pop:
  assumes "dfs_inv adj col ((n, []) # st)"
  shows "dfs_inv adj (AList.update n Black col) st"
proof -
  let ?B = "coloured col Black"
  have "n \<in> coloured col Grey" using assms by (auto simp: dfs_inv_def)
  then have n: "n \<notin> ?B" "n \<notin> set (map fst st)" "adj_edges adj `` {n} \<subseteq> ?B"
    using assms by (auto simp: dfs_inv_def adj_edges_def) (auto simp: coloured_def)
  have "acyclic (Restr (adj_edges adj) (insert n ?B))"
    using assms n by (intro acyclic_add_sink) (auto simp: dfs_inv_def)
  moreover have "frames_ok adj (insert n ?B) {} st"
    using assms by (auto simp: dfs_inv_def intro: frames_ok_pop)
  moreover have "adj_edges adj `` insert n ?B \<subseteq> insert n ?B" using assms n(3) by (auto simp: dfs_inv_def)
  ultimately show ?thesis using assms n(2) by (auto simp: dfs_inv_def coloured_update)
qed

lemma dfs_inv_descend:
  assumes "dfs_inv adj col ((n, m # ms) # st)" "map_of col m = Some White"
  shows "dfs_inv adj (AList.update m Grey col) ((m, neighbours adj m) # (n, ms) # st)"
proof -
  have "m \<notin> coloured col Grey" "m \<notin> coloured col Black" using assms(2) by (auto simp: coloured_def)
  then show ?thesis using assms(1) by (auto simp: dfs_inv_def coloured_update)
qed

lemma dfs_inv_skip:
  "dfs_inv adj col ((n, m # ms) # st) \<Longrightarrow> map_of col m = Some Black \<Longrightarrow> dfs_inv adj col ((n, ms) # st)"
  by (auto simp: dfs_inv_def coloured_def)

text \<open>What one root's search leaves behind: a genuine cycle, or an empty stack with the same
  keys, no fewer of them coloured.\<close>

fun dfs_post :: "'a adjacency \<Rightarrow> 'a set \<Rightarrow> 'a set \<Rightarrow> 'a search_result \<times> ('a \<times> colour) list \<Rightarrow> bool" where
  "dfs_post adj K W (Cycle c, _) \<longleftrightarrow> is_cycle (adj_edges adj) c"
| "dfs_post adj K W (Acyclic, col) \<longleftrightarrow> dfs_inv adj col [] \<and> fst ` set col = K \<and> white_keys col \<subseteq> W"
| "dfs_post adj K W (UnknownNeighbour _, _) \<longleftrightarrow> False"

lemma dfs_post_mono: "dfs_post adj K W r \<Longrightarrow> W \<subseteq> W' \<Longrightarrow> dfs_post adj K W' r"
  by (induction adj K W r rule: dfs_post.induct) auto

lemma dfs_correct:
  assumes "dfs_inv adj col st" "adj_closed adj" "fst ` set col = fst ` set adj"
  shows "dfs_post adj (fst ` set adj) (white_keys col) (dfs adj col st)"
  using assms
proof (induction adj col st rule: dfs.induct)
  case (2 adj col n st)
  have "map_of col n = Some Grey" using 2(2) by (auto simp: dfs_inv_def coloured_def)
  then have n: "n \<in> fst ` set col" by (metis map_of_eq_None_iff option.distinct(1))
  then have keys: "fst ` set (AList.update n Black col) = fst ` set adj" using 2(4) by (simp add: dom_update insert_absorb)
  show ?case using dfs_post_mono[OF 2(1)[OF dfs_inv_pop[OF 2(2)] 2(3) keys]] by (auto simp: white_keys_update)
next
  case (3 adj col n m ms st)
  have m: "m \<in> fst ` set col"
    using 3(3,5) neighbours_known[OF 3(4), of m n] by (auto simp: dfs_inv_def)
  then obtain c where c: "map_of col m = Some c" by (metis map_of_eq_None_iff not_None_eq)
  have keys: "fst ` set (AList.update m Grey col) = fst ` set adj" using m 3(5) by (simp add: dom_update insert_absorb)
  show ?case
  proof (cases c)
    case White
    have inv: "dfs_inv adj (AList.update m Grey col) ((m, neighbours adj m) # (n, ms) # st)"
      using dfs_inv_descend[OF 3(3)] c White by simp
    show ?thesis using dfs_post_mono[OF 3(1)[OF c White inv 3(4) keys]] c White by (auto simp: white_keys_update)
  next
    case Grey
    then show ?thesis using back_edge_cycle[OF 3(3)] c by simp
  next
    case Black
    have inv: "dfs_inv adj col ((n, ms) # st)" using dfs_inv_skip[OF 3(3)] c Black by simp
    show ?thesis using 3(2)[OF c Black inv 3(4,5)] c Black by simp
  qed
qed simp

lemma search_roots_correct:
  assumes "dfs_inv adj col []" "adj_closed adj" "fst ` set col = fst ` set adj"
    "white_keys col \<subseteq> set rs" "set rs \<subseteq> fst ` set adj"
  shows "case search_roots adj col rs of
      Cycle c \<Rightarrow> is_cycle (adj_edges adj) c
    | Acyclic \<Rightarrow> acyclic (adj_edges adj)
    | UnknownNeighbour _ \<Rightarrow> False"
  using assms
proof (induction adj col rs rule: search_roots.induct)
  case (1 adj col)
  have grey: "coloured col Grey = {}" using 1(1) by (simp add: dfs_inv_def)
  have "k \<in> coloured col Black" if "k \<in> fst ` set adj" for k
  proof -
    from that 1(3) obtain c where "map_of col k = Some c" by (metis map_of_eq_None_iff not_None_eq)
    then show ?thesis using grey 1(4) by (cases c) (auto simp: coloured_def white_keys_iff set_eq_iff)
  qed
  moreover have "adj_edges adj \<subseteq> fst ` set adj \<times> fst ` set adj"
    using neighbours_known[OF 1(2)] neighbours_source by (auto simp: adj_edges_def)
  ultimately have "Restr (adj_edges adj) (coloured col Black) = adj_edges adj" by blast
  then show ?case using 1(1) by (simp add: dfs_inv_def)
next
  case (2 adj col r rs)
  show ?case
  proof (cases "map_of col r = Some White")
    case False
    then have "white_keys col \<subseteq> set rs" using 2(6) by (auto simp: white_keys_iff)
    then show ?thesis using 2(1)[OF False 2(3-5)] 2(7) False by simp
  next
    case True
    let ?col = "AList.update r Grey col"
    have inv: "dfs_inv adj ?col [(r, neighbours adj r)]"
      using 2(3) True by (auto simp: dfs_inv_def coloured_update) (auto simp: coloured_def)
    have keys: "fst ` set ?col = fst ` set adj" using 2(5,7) by (auto simp: dom_update)
    obtain x col' where d: "dfs adj ?col [(r, neighbours adj r)] = (x, col')" by fastforce
    note dc = dfs_correct[OF inv 2(4) keys, unfolded d]
    show ?thesis
    proof (cases x)
      case Acyclic
      with dc have i: "dfs_inv adj col' []" "fst ` set col' = fst ` set adj" "white_keys col' \<subseteq> white_keys ?col"
        using keys by auto
      have "white_keys col' \<subseteq> set rs" using i(3) 2(6) by (auto simp: white_keys_update)
      from 2(2)[OF _ d[symmetric] Acyclic i(1) 2(4) i(2) this] show ?thesis using True d Acyclic 2(7) by simp
    qed (use dc True d in auto)
  qed
qed

text \<open>The search finds a cycle exactly when the graph has one, and what it reports is one.\<close>

lemma find_cycle_correct:
  assumes "adj_closed adj"
  shows "case find_cycle adj of
      Cycle c \<Rightarrow> is_cycle (adj_edges adj) c
    | Acyclic \<Rightarrow> acyclic (adj_edges adj)
    | UnknownNeighbour _ \<Rightarrow> False"
proof -
  let ?col = "map (\<lambda>(k, _). (k, White)) adj"
  have col: "map_of ?col k = (if k \<in> fst ` set adj then Some White else None)" for k
    by (induction adj) (auto split: if_splits)
  have keys: "fst ` set ?col = fst ` set adj" by (simp add: image_image case_prod_beta)
  have "coloured ?col Grey = {}" "coloured ?col Black = {}" using col by (auto simp: coloured_def split: if_splits)
  then have inv: "dfs_inv adj ?col []" by (simp add: dfs_inv_def acyclic_def)
  have white: "white_keys ?col = fst ` set adj" using col unfolding set_eq_iff white_keys_iff by simp
  show ?thesis unfolding find_cycle_def
    by (rule search_roots_correct[OF inv assms keys]) (simp_all only: white set_sort set_map order_refl)
qed

lemma find_cycle_iff:
  assumes "adj_closed adj"
  shows "find_cycle adj = Acyclic \<longleftrightarrow> acyclic (adj_edges adj)"
    and "find_cycle adj \<noteq> UnknownNeighbour k"
  using find_cycle_correct[OF assms] is_cycle_not_acyclic by (auto split: search_result.splits)

end
