(* ===== verification/Structural.thy ===== *)
theory Structural
  imports Schema CycleSearch
begin

section \<open>Structural validation\<close>

text \<open>
  \<open>quantize/validation/structural.py\<close> with \<open>diagnostics.py\<close> and \<open>errors.py\<close>: the
  checks of a node and edge graph, of a strategy document, of one component definition and of a
  set of definitions. The lemmas show that each validator accepts exactly the well-formed
  documents.
\<close>

subsection \<open>Located diagnostics\<close>

datatype loc_elem = LocInt nat | LocStr string

text \<open>Structural errors and semantic diagnostics have the same shape.\<close>

record located_diagnostic =
  ld_code :: string
  ld_message :: string
  ld_loc :: "loc_elem list"
  ld_subject :: "string option"

abbreviation located :: "string \<Rightarrow> string \<Rightarrow> loc_elem list \<Rightarrow> string \<Rightarrow> located_diagnostic" where
  "located code message path subject \<equiv>
     \<lparr>ld_code = code, ld_message = message, ld_loc = path, ld_subject = Some subject\<rparr>"

fun loc_rank :: "loc_elem \<Rightarrow> nat \<times> nat \<times> string" where
  "loc_rank (LocInt n) = (0, n, [])"
| "loc_rank (LocStr s) = (1, 0, s)"

definition diagnostic_sort_key :: "located_diagnostic \<Rightarrow> (nat \<times> nat \<times> string) list \<times> string \<times> string" where
  "diagnostic_sort_key d =
     (map loc_rank (ld_loc d), ld_code d, (case ld_subject d of None \<Rightarrow> [] | Some s \<Rightarrow> s))"

definition sort_diagnostics :: "located_diagnostic list \<Rightarrow> located_diagnostic list" where
  "sort_diagnostics items = sort_key diagnostic_sort_key items"

lemma sort_diagnostics_Nil [simp]: "sort_diagnostics ds = [] \<longleftrightarrow> ds = []"
  unfolding sort_diagnostics_def by (metis set_sort set_empty)

lemma sort_diagnostics_set [simp]: "set (sort_diagnostics ds) = set ds"
  by (simp add: sort_diagnostics_def)

record structural_validation =
  sv_ok :: bool
  sv_errors :: "located_diagnostic list"

record component_set_validation =
  csv_ok :: bool
  csv_errors :: "located_diagnostic list"
  csv_unresolved :: "component_key list"

subsection \<open>Graphs\<close>

abbreviation edge_source :: "edge \<Rightarrow> string" where "edge_source e \<equiv> fst (edge_from e)"
abbreviation edge_target :: "edge \<Rightarrow> string" where "edge_target e \<equiv> fst (edge_to e)"

text \<open>Flag each repeat occurrence of a key at its own index.\<close>

fun repeat_errors :: "(nat \<Rightarrow> 'k \<Rightarrow> located_diagnostic) \<Rightarrow> nat \<Rightarrow> 'k list \<Rightarrow> 'k list \<Rightarrow> located_diagnostic list" where
  "repeat_errors err i seen [] = []"
| "repeat_errors err i seen (k # ks) =
     (if k \<in> set seen then [err i k] else []) @ repeat_errors err (Suc i) (k # seen) ks"

definition duplicate_node_errors :: "loc_elem list \<Rightarrow> node_instance list \<Rightarrow> located_diagnostic list" where
  "duplicate_node_errors base nodes =
     repeat_errors (\<lambda>i k. located ''duplicate_node_id'' (''duplicate node id '' @ repr_str k)
       (base @ [LocStr ''nodes'', LocInt i]) k) 0 [] (map node_id nodes)"

fun ref_errors :: "string list \<Rightarrow> loc_elem list \<Rightarrow> nat \<times> node_instance \<Rightarrow> located_diagnostic list" where
  "ref_errors declared base (i, ComponentRefNode n r ps ui ext) =
     (if r \<in> set declared then []
      else [located ''unknown_component_ref''
        (''component node '' @ repr_str n @ '' references undeclared ref '' @ repr_str r)
        (base @ [LocStr ''nodes'', LocInt i]) r])"
| "ref_errors declared base (i, RegisteredNode n t v ps ui ext) = []"

definition endpoint_errors :: "string list \<Rightarrow> loc_elem list \<Rightarrow> nat \<times> edge \<Rightarrow> located_diagnostic list" where
  "endpoint_errors existing base = (\<lambda>(i, e).
     (if edge_source e \<in> set existing then []
      else [located ''edge_endpoint_unknown_node'' (''edge source references unknown node '' @ repr_str (edge_source e))
        (base @ [LocStr ''edges'', LocInt i, LocStr ''from'']) (edge_source e)]) @
     (if edge_target e \<in> set existing then []
      else [located ''edge_endpoint_unknown_node'' (''edge destination references unknown node '' @ repr_str (edge_target e))
        (base @ [LocStr ''edges'', LocInt i, LocStr ''to'']) (edge_target e)]) @
     (if edge_source e = edge_target e
      then [located ''self_edge'' (''node '' @ repr_str (edge_source e) @ '' has an edge to itself'')
        (base @ [LocStr ''edges'', LocInt i]) (edge_source e)]
      else []))"

text \<open>Only well-formed, non-self edges contribute to the adjacency map.\<close>

definition graph_adjacency :: "string list \<Rightarrow> edge list \<Rightarrow> string adjacency" where
  "graph_adjacency existing edges =
     map (\<lambda>n. (n, sort (map edge_target (filter (\<lambda>e. edge_source e = n \<and>
       edge_target e \<in> set existing \<and> edge_source e \<noteq> edge_target e) edges)))) (remdups existing)"

definition graph_cycle_errors :: "loc_elem list \<Rightarrow> string adjacency \<Rightarrow> located_diagnostic list" where
  "graph_cycle_errors base adj = (case find_cycle adj of
     Cycle c \<Rightarrow> [located ''graph_cycle'' (''graph contains a cycle: '' @ join_str '' -> '' c)
       (base @ [LocStr ''nodes'']) (hd c)]
   | _ \<Rightarrow> [])"

definition validate_graph ::
    "node_instance list \<Rightarrow> edge list \<Rightarrow> string list \<Rightarrow> loc_elem list \<Rightarrow> located_diagnostic list" where
  "validate_graph nodes edges declared base =
     duplicate_node_errors base nodes @
     concat (map (ref_errors declared base) (enumerate 0 nodes)) @
     concat (map (endpoint_errors (map node_id nodes) base) (enumerate 0 edges)) @
     graph_cycle_errors base (graph_adjacency (map node_id nodes) edges)"

definition duplicate_ref_id_errors :: "component_ref list \<Rightarrow> loc_elem list \<Rightarrow> located_diagnostic list" where
  "duplicate_ref_id_errors refs base =
     repeat_errors (\<lambda>i k. located ''duplicate_ref_id'' (''duplicate component_refs id '' @ repr_str k)
       (base @ [LocStr ''component_refs'', LocInt i]) k) 0 [] (map ref_id refs)"

definition schema_version_errors :: "string \<Rightarrow> located_diagnostic list" where
  "schema_version_errors version =
     (if is_supported_schema_version version then []
      else [located ''unsupported_schema_version''
        (''schema_version '' @ repr_str version @ '' is not supported (supported: ''
          @ join_str '', '' supported_schema_versions @ '')'')
        [LocStr ''schema_version''] version])"

subsection \<open>Documents\<close>

definition structural_result :: "located_diagnostic list \<Rightarrow> structural_validation" where
  "structural_result errors =
     (let ordered = sort_diagnostics errors in \<lparr>sv_ok = (ordered = []), sv_errors = ordered\<rparr>)"

definition validate_strategy_document :: "strategy_document \<Rightarrow> structural_validation" where
  "validate_strategy_document doc =
     structural_result (schema_version_errors (sd_schema_version doc) @
       duplicate_ref_id_errors (sd_component_refs doc) [] @
       validate_graph (sd_nodes doc) (sd_edges doc) (map ref_id (sd_component_refs doc)) [])"

definition direct_recursion_errors :: "component_key \<Rightarrow> component_ref list \<Rightarrow> located_diagnostic list" where
  "direct_recursion_errors own refs =
     concat (map (\<lambda>(i, r). if ref_key r = own
       then [located ''component_direct_recursion'' (''component '' @ key_str own @ '' references itself'')
         [LocStr ''component_refs'', LocInt i] (key_str own)] else []) (enumerate 0 refs))"

definition validate_component_definition :: "component_definition \<Rightarrow> structural_validation" where
  "validate_component_definition d =
     structural_result (schema_version_errors (cd_schema_version d) @
       duplicate_ref_id_errors (cd_component_refs d) [] @
       direct_recursion_errors (definition_key d) (cd_component_refs d) @
       validate_graph (graph_nodes (cd_graph d)) (graph_edges (cd_graph d)) (map ref_id (cd_component_refs d))
         [LocStr ''implementation'', LocStr ''graph''])"

subsection \<open>Component sets\<close>

definition duplicate_definition_errors :: "component_definition list \<Rightarrow> located_diagnostic list" where
  "duplicate_definition_errors defs =
     repeat_errors (\<lambda>i k. located ''duplicate_component_definition''
       (''component '' @ key_str k @ '' supplied more than once'')
       [LocStr ''definitions'', LocInt i] (key_str k)) 0 [] (map definition_key defs)"

text \<open>One diagnostic per identity that pins itself, at its first occurrence.\<close>

fun self_reference_errors :: "component_key list \<Rightarrow> component_definition list \<Rightarrow> located_diagnostic list" where
  "self_reference_errors flagged [] = []"
| "self_reference_errors flagged (d # ds) =
     (let k = definition_key d in
      if k \<in> set (map ref_key (cd_component_refs d)) \<and> k \<notin> set flagged
      then located ''component_direct_recursion'' (''component '' @ key_str k @ '' references itself'')
        [LocStr ''definitions''] (key_str k) # self_reference_errors (k # flagged) ds
      else self_reference_errors flagged ds)"

definition set_refs :: "component_definition list \<Rightarrow> (component_key \<times> component_key) list" where
  "set_refs defs = concat (map (\<lambda>d. map (\<lambda>r. (definition_key d, ref_key r)) (cd_component_refs d)) defs)"

definition set_adjacency :: "component_definition list \<Rightarrow> component_key adjacency" where
  "set_adjacency defs = (let supplied = map definition_key defs in
     map (\<lambda>k. (k, sort (remdups (map snd (filter (\<lambda>(a, b). a = k \<and> b \<noteq> a \<and> b \<in> set supplied) (set_refs defs))))))
       (remdups supplied))"

definition unresolved_refs :: "component_definition list \<Rightarrow> component_key list" where
  "unresolved_refs defs =
     sort (remdups (filter (\<lambda>b. b \<notin> set (map definition_key defs)) (map snd (set_refs defs))))"

definition component_cycle_errors :: "component_key adjacency \<Rightarrow> located_diagnostic list" where
  "component_cycle_errors adj = (case find_cycle adj of
     Cycle c \<Rightarrow> [located ''component_cycle'' (''component dependency cycle: '' @ join_str '' -> '' (map key_str c))
       [LocStr ''definitions''] (key_str (hd c))]
   | _ \<Rightarrow> [])"

definition validate_component_set :: "component_definition list \<Rightarrow> component_set_validation" where
  "validate_component_set defs =
     (let ordered = sort_diagnostics (duplicate_definition_errors defs @ self_reference_errors [] defs @
        component_cycle_errors (set_adjacency defs))
      in \<lparr>csv_ok = (ordered = []), csv_errors = ordered, csv_unresolved = unresolved_refs defs\<rparr>)"

subsection \<open>What the validators accept\<close>

lemma repeat_errors_Nil: "repeat_errors err i seen ks = [] \<longleftrightarrow> distinct ks \<and> set ks \<inter> set seen = {}"
  by (induction err i seen ks rule: repeat_errors.induct) auto

text \<open>A sound graph: distinct node ids, declared references, known endpoints, and no cycle,
  a self edge being one.\<close>

definition edge_relation :: "edge list \<Rightarrow> (string \<times> string) set" where
  "edge_relation edges = (\<lambda>e. (edge_source e, edge_target e)) ` set edges"

definition graph_sound :: "node_instance list \<Rightarrow> edge list \<Rightarrow> string set \<Rightarrow> bool" where
  "graph_sound nodes edges declared \<longleftrightarrow>
     distinct (map node_id nodes) \<and>
     (\<forall>n \<in> set nodes. case n of ComponentRefNode _ r _ _ _ \<Rightarrow> r \<in> declared | _ \<Rightarrow> True) \<and>
     edge_relation edges \<subseteq> node_id ` set nodes \<times> node_id ` set nodes \<and>
     acyclic (edge_relation edges)"

lemma map_of_graph: "map_of (map (\<lambda>n. (n, f n)) ns) k = (if k \<in> set ns then Some (f k) else None)"
  by (induction ns) auto

lemma graph_adjacency_closed: "adj_closed (graph_adjacency existing edges)"
  by (auto simp: adj_closed_def graph_adjacency_def image_image)

lemma graph_adjacency_edges:
  "adj_edges (graph_adjacency existing edges) =
     {(a, b). (a, b) \<in> edge_relation edges \<and> a \<in> set existing \<and> b \<in> set existing \<and> a \<noteq> b}"
  by (auto simp: adj_edges_def graph_adjacency_def neighbours_def map_of_graph edge_relation_def
      intro: rev_image_eqI split: if_splits)

lemma graph_cycle_errors_Nil:
  "adj_closed adj \<Longrightarrow> graph_cycle_errors base adj = [] \<longleftrightarrow> acyclic (adj_edges adj)"
  using find_cycle_iff[of adj] by (auto simp: graph_cycle_errors_def split: search_result.splits)

lemma endpoint_errors_Nil:
  "endpoint_errors existing base (i, e) = [] \<longleftrightarrow>
     edge_source e \<in> set existing \<and> edge_target e \<in> set existing \<and> edge_source e \<noteq> edge_target e"
  by (auto simp: endpoint_errors_def)

lemma concat_enumerate_Nil:
  "concat (map f (enumerate i xs)) = [] \<longleftrightarrow> (\<forall>j < length xs. f (i + j, xs ! j) = [])"
  by (auto simp: in_set_enumerate_eq concat_eq_Nil_conv set_conv_nth nth_enumerate_eq)

lemma ref_errors_Nil:
  "ref_errors declared base (i, n) = [] \<longleftrightarrow>
     (case n of ComponentRefNode _ r _ _ _ \<Rightarrow> r \<in> set declared | _ \<Rightarrow> True)"
  by (cases n) auto

lemma acyclic_no_self: "acyclic E \<Longrightarrow> (a, a) \<notin> E"
  by (auto simp: acyclic_def)

lemma validate_graph_Nil:
  "validate_graph nodes edges declared base = [] \<longleftrightarrow> graph_sound nodes edges (set declared)"
proof -
  let ?ex = "map node_id nodes" and ?E = "edge_relation edges"
  have ends: "concat (map (endpoint_errors ?ex base) (enumerate 0 edges)) = [] \<longleftrightarrow>
      ?E \<subseteq> set ?ex \<times> set ?ex \<and> (\<forall>a. (a, a) \<notin> ?E)"
    unfolding concat_enumerate_Nil endpoint_errors_Nil edge_relation_def
    by (auto simp: all_set_conv_all_nth[symmetric] set_conv_nth)
  have refs: "concat (map (ref_errors declared base) (enumerate 0 nodes)) = [] \<longleftrightarrow>
      (\<forall>n \<in> set nodes. case n of ComponentRefNode _ r _ _ _ \<Rightarrow> r \<in> set declared | _ \<Rightarrow> True)"
    unfolding concat_enumerate_Nil ref_errors_Nil by (simp add: all_set_conv_all_nth)
  have same: "adj_edges (graph_adjacency ?ex edges) = ?E"
    if "?E \<subseteq> set ?ex \<times> set ?ex" "\<forall>a. (a, a) \<notin> ?E"
    using that unfolding graph_adjacency_edges by blast
  have cyc: "?E \<subseteq> set ?ex \<times> set ?ex \<and> (\<forall>a. (a, a) \<notin> ?E) \<and> acyclic (adj_edges (graph_adjacency ?ex edges)) \<longleftrightarrow>
      ?E \<subseteq> set ?ex \<times> set ?ex \<and> acyclic ?E"
    using same acyclic_no_self[of ?E] by metis
  have dup: "duplicate_node_errors base nodes = [] \<longleftrightarrow> distinct ?ex"
    by (simp add: duplicate_node_errors_def repeat_errors_Nil)
  have "validate_graph nodes edges declared base = [] \<longleftrightarrow> distinct ?ex \<and>
      (\<forall>n \<in> set nodes. case n of ComponentRefNode _ r _ _ _ \<Rightarrow> r \<in> set declared | _ \<Rightarrow> True) \<and>
      (?E \<subseteq> set ?ex \<times> set ?ex \<and> (\<forall>a. (a, a) \<notin> ?E) \<and> acyclic (adj_edges (graph_adjacency ?ex edges)))"
    unfolding validate_graph_def append_is_Nil_conv ends refs dup graph_cycle_errors_Nil[OF graph_adjacency_closed]
    by (simp only: conj_assoc)
  then show ?thesis unfolding cyc by (simp only: graph_sound_def set_map)
qed

definition document_sound :: "strategy_document \<Rightarrow> bool" where
  "document_sound doc \<longleftrightarrow>
     is_supported_schema_version (sd_schema_version doc) \<and>
     distinct (map ref_id (sd_component_refs doc)) \<and>
     graph_sound (sd_nodes doc) (sd_edges doc) (ref_id ` set (sd_component_refs doc))"

lemma validate_strategy_document_ok:
  "sv_ok (validate_strategy_document doc) \<longleftrightarrow> document_sound doc"
  "sv_errors (validate_strategy_document doc) = [] \<longleftrightarrow> document_sound doc"
  by (simp_all add: validate_strategy_document_def structural_result_def validate_graph_Nil document_sound_def
      schema_version_errors_def duplicate_ref_id_errors_def repeat_errors_Nil)

definition definition_sound :: "component_definition \<Rightarrow> bool" where
  "definition_sound d \<longleftrightarrow>
     is_supported_schema_version (cd_schema_version d) \<and>
     distinct (map ref_id (cd_component_refs d)) \<and>
     definition_key d \<notin> ref_key ` set (cd_component_refs d) \<and>
     graph_sound (graph_nodes (cd_graph d)) (graph_edges (cd_graph d)) (ref_id ` set (cd_component_refs d))"

lemma direct_recursion_errors_Nil: "direct_recursion_errors own refs = [] \<longleftrightarrow> own \<notin> ref_key ` set refs"
  unfolding direct_recursion_errors_def concat_enumerate_Nil
  by (auto simp: image_iff split: if_splits) (metis in_set_conv_nth)

lemma validate_component_definition_ok:
  "sv_ok (validate_component_definition d) \<longleftrightarrow> definition_sound d"
  "sv_errors (validate_component_definition d) = [] \<longleftrightarrow> definition_sound d"
  by (simp_all add: validate_component_definition_def structural_result_def validate_graph_Nil definition_sound_def
      schema_version_errors_def duplicate_ref_id_errors_def repeat_errors_Nil direct_recursion_errors_Nil)

text \<open>The dependency relation of a set of definitions, within the set.\<close>

definition set_dependency :: "component_definition list \<Rightarrow> (component_key \<times> component_key) set" where
  "set_dependency defs =
     {(a, b) \<in> set (set_refs defs). b \<in> definition_key ` set defs}"

lemma set_refs_source: "(a, b) \<in> set (set_refs defs) \<Longrightarrow> a \<in> definition_key ` set defs"
  by (auto simp: set_refs_def)

lemma set_adjacency_closed: "adj_closed (set_adjacency defs)"
  by (auto simp: adj_closed_def set_adjacency_def Let_def image_image)

lemma set_map_snd_filter: "b \<in> set (map snd (filter (\<lambda>(x, y). x = k \<and> Q x y) xs)) \<longleftrightarrow> (k, b) \<in> set xs \<and> Q k b"
  by force

lemma set_adjacency_edges:
  "adj_edges (set_adjacency defs) = {(a, b) \<in> set_dependency defs. a \<noteq> b}"
proof -
  have "m \<in> set (neighbours (set_adjacency defs) n) \<longleftrightarrow>
      n \<in> definition_key ` set defs \<and> (n, m) \<in> set (set_refs defs) \<and> m \<noteq> n \<and> m \<in> definition_key ` set defs" for n m
    by (simp add: set_adjacency_def neighbours_def map_of_graph Let_def set_map_snd_filter del: set_map)
      (simp add: set_map)
  then show ?thesis by (auto simp: adj_edges_def set_dependency_def dest: set_refs_source)
qed

lemma self_reference_errors_Nil:
  "self_reference_errors flagged defs = [] \<longleftrightarrow>
     (\<forall>k. (k, k) \<in> set (set_refs defs) \<longrightarrow> k \<in> set flagged)"
proof (induction flagged defs rule: self_reference_errors.induct)
  case (2 flagged d ds)
  have split: "(\<forall>k. (k, k) \<in> set (set_refs (d # ds)) \<longrightarrow> k \<in> set F) \<longleftrightarrow>
      (definition_key d \<in> set (map ref_key (cd_component_refs d)) \<longrightarrow> definition_key d \<in> set F) \<and>
      (\<forall>k. (k, k) \<in> set (set_refs ds) \<longrightarrow> k \<in> set F)" for F
    by (auto simp: set_refs_def)
  show ?case unfolding split using 2[OF refl] by (auto simp: Let_def)
qed (simp add: set_refs_def)

lemma component_cycle_errors_Nil:
  "adj_closed adj \<Longrightarrow> component_cycle_errors adj = [] \<longleftrightarrow> acyclic (adj_edges adj)"
  using find_cycle_iff[of adj] by (auto simp: component_cycle_errors_def split: search_result.splits)

lemma validate_component_set_ok:
  "csv_ok (validate_component_set defs) \<longleftrightarrow>
     distinct (map definition_key defs) \<and> acyclic (set_dependency defs)"
proof -
  have "(\<forall>k. (k, k) \<notin> set (set_refs defs)) \<longleftrightarrow> (\<forall>k. (k, k) \<notin> set_dependency defs)"
    by (auto simp: set_dependency_def dest: set_refs_source)
  moreover have "{(a, b) \<in> set_dependency defs. a \<noteq> b} = set_dependency defs" if "\<forall>k. (k, k) \<notin> set_dependency defs"
    using that by auto
  ultimately show ?thesis
    using acyclic_no_self[of "set_dependency defs"]
    by (auto simp: validate_component_set_def Let_def duplicate_definition_errors_def repeat_errors_Nil
        self_reference_errors_Nil component_cycle_errors_Nil[OF set_adjacency_closed] set_adjacency_edges)
qed

lemma validate_component_set_unresolved:
  "set (csv_unresolved (validate_component_set defs)) = snd ` set (set_refs defs) - definition_key ` set defs"
  "sorted (csv_unresolved (validate_component_set defs))" "distinct (csv_unresolved (validate_component_set defs))"
  by (auto simp: validate_component_set_def Let_def unresolved_refs_def)

end
