(* ===== verification/Tracing.thy ===== *)
theory Tracing
  imports Structural
begin

section \<open>Schemas and traces\<close>

text \<open>
  \<open>quantize/registry/schema_spec.py\<close> and \<open>quantize/tracing/\<close>: the validated JSON schema,
  the trace event, the recorder and its sinks, the payload contracts, the validation of a
  trace and its tree. The JSON Schema library itself is not part of the repository: a value
  of \<open>schema_lib\<close> stands for it, its check of a schema and the issues it reports.
  Pydantic's wording of a rejected event is not modelled, only that it rejects.
\<close>

subsection \<open>JSON schemas\<close>

record schema_issue =
  issue_path :: "loc_elem list"
  issue_json_path :: string
  issue_message :: string

record schema_lib =
  lib_check_schema :: "json_object \<Rightarrow> exn option"
  lib_iter_errors :: "json_object \<Rightarrow> json \<Rightarrow> schema_issue list"

definition reference_keywords :: "string list" where
  "reference_keywords = [''$ref'', ''$dynamicRef'', ''$recursiveRef'']"

fun reject_references :: "json \<Rightarrow> unit res" and reject_items :: "json list \<Rightarrow> unit res"
  and reject_fields :: "json_object \<Rightarrow> unit res" where
  "reject_references (JObj kvs) = reject_fields kvs"
| "reject_references (JList xs) = reject_items xs"
| "reject_references _ = Inr ()"
| "reject_items [] = Inr ()"
| "reject_items (x # xs) = try_bind (reject_references x) (\<lambda>_. reject_items xs)"
| "reject_fields [] = Inr ()"
| "reject_fields ((k, v) # kvs) =
     (if k \<in> set reference_keywords
      then Inl (ValueError (''JSON Schema references ('' @ k @ '') are unsupported in v0; descriptor schemas must be self-contained''))
      else try_bind (reject_references v) (\<lambda>_. reject_fields kvs))"

definition mk_json_schema :: "schema_lib \<Rightarrow> json_object \<Rightarrow> json_object res" where
  "mk_json_schema lib schema =
     (if \<not> json_object_ok schema then Inl (ValidationError ''not portable JSON'')
      else try_bind (reject_fields schema) (\<lambda>_.
        case lib_check_schema lib schema of Some e \<Rightarrow> Inl e | None \<Rightarrow> Inr schema))"

definition schema_errors :: "schema_lib \<Rightarrow> json_object \<Rightarrow> json \<Rightarrow> schema_issue list" where
  "schema_errors lib schema v =
     sort_key (\<lambda>e. (issue_json_path e, issue_message e)) (lib_iter_errors lib schema v)"

lemma schema_errors_Nil [simp]: "schema_errors lib schema v = [] \<longleftrightarrow> lib_iter_errors lib schema v = []"
  unfolding schema_errors_def by (metis set_sort set_empty)

lemma mk_json_schema_Inr: "mk_json_schema lib schema = Inr s \<Longrightarrow> s = schema \<and> json_object_ok schema"
  by (auto simp: mk_json_schema_def res_simps split: if_splits option.splits)

subsection \<open>Trace events and the recorder\<close>

record trace_event =
  te_run_id :: string
  te_timestamp :: instant
  te_node_id :: string
  te_component_path :: "string list"
  te_event_type :: string
  te_payload :: json_object

definition mk_trace_event ::
    "string \<Rightarrow> instant \<Rightarrow> string \<Rightarrow> string list \<Rightarrow> string \<Rightarrow> json_object \<Rightarrow> trace_event res" where
  "mk_trace_event run ts n path ty payload =
     (if is_ident n \<and> list_all is_ident path \<and> ty \<noteq> [] \<and> json_object_ok payload
      then Inr \<lparr>te_run_id = run, te_timestamp = ts, te_node_id = n, te_component_path = path,
                te_event_type = ty, te_payload = payload\<rparr>
      else Inl (ValidationError ''TraceEvent''))"

definition event_ok :: "trace_event \<Rightarrow> bool" where
  "event_ok e \<longleftrightarrow> is_ident (te_node_id e) \<and> list_all is_ident (te_component_path e) \<and>
     te_event_type e \<noteq> [] \<and> json_object_ok (te_payload e)"

record trace_recorder =
  rec_run_id :: string
  rec_timestamp :: instant
  rec_enabled :: bool
  rec_events :: "trace_event list"

definition new_recorder :: "string \<Rightarrow> instant \<Rightarrow> bool \<Rightarrow> trace_recorder" where
  "new_recorder run ts enabled = \<lparr>rec_run_id = run, rec_timestamp = ts, rec_enabled = enabled, rec_events = []\<rparr>"

definition emit_at ::
    "instant \<Rightarrow> string \<Rightarrow> string list \<Rightarrow> string \<Rightarrow> json_object \<Rightarrow> trace_recorder \<Rightarrow> unit res \<times> trace_recorder" where
  "emit_at ts n path ty payload r =
     (if \<not> rec_enabled r then (Inr (), r)
      else case mk_trace_event (rec_run_id r) ts n path ty payload of
        Inl e \<Rightarrow> (Inl e, r)
      | Inr ev \<Rightarrow> (Inr (), r\<lparr>rec_events := rec_events r @ [ev]\<rparr>))"

definition emit ::
    "string \<Rightarrow> string list \<Rightarrow> string \<Rightarrow> json_object \<Rightarrow> trace_recorder \<Rightarrow> unit res \<times> trace_recorder" where
  "emit n path ty payload r = emit_at (rec_timestamp r) n path ty payload r"

definition engine_event_prefix :: string where
  "engine_event_prefix = ''engine.''"

definition engine_node_id :: string where
  "engine_node_id = ''engine''"

definition starts_with :: "string \<Rightarrow> string \<Rightarrow> bool" where
  "starts_with s p \<longleftrightarrow> take (length p) s = p"

text \<open>A sink bound to a node's identity refuses the namespace of the engine.\<close>

definition sink_for ::
    "string \<Rightarrow> string list \<Rightarrow> string \<Rightarrow> json_object \<Rightarrow> trace_recorder \<Rightarrow> unit res \<times> trace_recorder" where
  "sink_for n path ty payload r =
     (if starts_with ty engine_event_prefix
      then (Inl (ValueError (''event type '' @ repr_str ty
        @ '' is in the reserved engine namespace and cannot be emitted through a node trace sink'')), r)
      else emit n path ty payload r)"

lemma mk_trace_event_Inr:
  "mk_trace_event run ts n path ty payload = Inr e \<Longrightarrow> event_ok e \<and> te_run_id e = run \<and> te_timestamp e = ts \<and>
     te_node_id e = n \<and> te_component_path e = path \<and> te_event_type e = ty \<and> te_payload e = payload"
  by (auto simp: mk_trace_event_def event_ok_def split: if_splits)

text \<open>What the recorder holds: well-formed events of the run, and through a sink never one of
  the engine's namespace. Disabled, it holds nothing.\<close>

definition recorder_ok :: "trace_recorder \<Rightarrow> bool" where
  "recorder_ok r \<longleftrightarrow> (\<forall>e \<in> set (rec_events r). event_ok e \<and> te_run_id e = rec_run_id r) \<and>
     (rec_enabled r \<or> rec_events r = [])"

definition node_recorder_ok :: "trace_recorder \<Rightarrow> bool" where
  "node_recorder_ok r \<longleftrightarrow> recorder_ok r \<and>
     (\<forall>e \<in> set (rec_events r). te_timestamp e = rec_timestamp r \<and> \<not> starts_with (te_event_type e) engine_event_prefix)"

lemma new_recorder_ok: "node_recorder_ok (new_recorder run ts en)"
  by (simp add: node_recorder_ok_def recorder_ok_def new_recorder_def)

definition same_recorder :: "trace_recorder \<Rightarrow> trace_recorder \<Rightarrow> bool" where
  "same_recorder r r' \<longleftrightarrow> rec_run_id r' = rec_run_id r \<and> rec_timestamp r' = rec_timestamp r \<and>
     rec_enabled r' = rec_enabled r \<and> (\<exists>es. rec_events r' = rec_events r @ es)"

lemma same_recorder_refl [simp]: "same_recorder r r"
  by (simp add: same_recorder_def)

lemma same_recorder_trans: "same_recorder r r' \<Longrightarrow> same_recorder r' r'' \<Longrightarrow> same_recorder r r''"
  by (auto simp: same_recorder_def)

lemma emit_at_ok:
  "emit_at ts n path ty payload r = (x, r') \<Longrightarrow> recorder_ok r \<Longrightarrow> recorder_ok r' \<and> same_recorder r r'"
  by (auto simp: emit_at_def recorder_ok_def same_recorder_def dest: mk_trace_event_Inr split: if_splits sum.splits)

lemma sink_for_ok:
  "sink_for n path ty payload r = (x, r') \<Longrightarrow> node_recorder_ok r \<Longrightarrow> node_recorder_ok r' \<and> same_recorder r r'"
  by (auto simp: sink_for_def emit_def emit_at_def node_recorder_ok_def recorder_ok_def same_recorder_def
      dest: mk_trace_event_Inr split: if_splits sum.splits)

subsection \<open>Payload contracts\<close>

definition versioned_payload_schema :: "nat \<Rightarrow> json_object \<Rightarrow> string list \<Rightarrow> json_object" where
  "versioned_payload_schema version props required =
     [(''type'', JStr ''object''),
      (''properties'', JObj (foldl (\<lambda>acc (k, v). AList.update k v acc) [(''v'', JObj [(''const'', JInt (int version))])] props)),
      (''required'', JList (map JStr (''v'' # required))),
      (''additionalProperties'', JBool False)]"

record trace_event_spec =
  tes_event_type :: string
  tes_version :: nat
  tes_schema :: json_object

definition mk_trace_event_spec :: "schema_lib \<Rightarrow> string \<Rightarrow> nat \<Rightarrow> json_object \<Rightarrow> trace_event_spec res" where
  "mk_trace_event_spec lib ty version schema =
     (if ty = [] then Inl (ValueError ''event_type must be non-empty'')
      else if version < 1 then Inl (ValueError ''version must be >= 1'')
      else try_bind (mk_json_schema lib schema) (\<lambda>s.
        Inr \<lparr>tes_event_type = ty, tes_version = version, tes_schema = s\<rparr>))"

definition trace_event_spec_of ::
    "schema_lib \<Rightarrow> string \<Rightarrow> nat \<Rightarrow> json_object \<Rightarrow> string list \<Rightarrow> trace_event_spec res" where
  "trace_event_spec_of lib ty version props required =
     mk_trace_event_spec lib ty version (versioned_payload_schema version props required)"

definition nonempty_string_schema :: json where
  "nonempty_string_schema = JObj [(''type'', JStr ''string''), (''minLength'', JInt 1)]"

definition number_schema :: json where
  "number_schema = JObj [(''type'', JStr ''number'')]"

definition asset_list_schema :: json where
  "asset_list_schema = JObj [(''type'', JStr ''array''), (''items'', nonempty_string_schema)]"

definition pair_list :: "json \<Rightarrow> json" where
  "pair_list second = JObj [(''type'', JStr ''array''),
     (''items'', JObj [(''type'', JStr ''array''),
        (''prefixItems'', JList [nonempty_string_schema, second]),
        (''minItems'', JInt 2), (''maxItems'', JInt 2), (''items'', JBool False)])]"

definition combined_trace_schema :: "schema_lib \<Rightarrow> trace_event_spec list \<Rightarrow> json_object option res" where
  "combined_trace_schema lib specs =
     (if specs = [] then Inr None
      else try_bind (mk_json_schema lib [(''oneOf'', JList (map (\<lambda>s. JObj (tes_schema s)) specs))]) (\<lambda>s. Inr (Some s)))"

text \<open>Merging the declared contracts: a redeclared event type must agree.\<close>

fun add_trace_specs ::
    "string \<Rightarrow> trace_event_spec list \<Rightarrow> (string \<times> trace_event_spec) list \<Rightarrow> (string \<times> trace_event_spec) list res" where
  "add_trace_specs source [] specs = Inr specs"
| "add_trace_specs source (s # batch) specs =
     (if (case map_of specs (tes_event_type s) of None \<Rightarrow> False | Some old \<Rightarrow> tes_schema old \<noteq> tes_schema s)
      then Inl (ValueError (''conflicting trace spec for '' @ repr_str (tes_event_type s) @ '' declared by '' @ source))
      else add_trace_specs source batch (AList.update (tes_event_type s) s specs))"

definition event_violations ::
    "schema_lib \<Rightarrow> (string \<times> trace_event_spec) list \<Rightarrow> nat \<times> trace_event \<Rightarrow> string list" where
  "event_violations lib specs = (\<lambda>(i, e).
     let context = ''event['' @ dec_nat i @ ''] '' @ repr_str (te_event_type e) @ '' from '' @ repr_str (te_node_id e) in
     (if starts_with (te_event_type e) engine_event_prefix \<and>
         (te_node_id e \<noteq> engine_node_id \<or> te_component_path e \<noteq> [])
      then [context @ '': the '' @ repr_str engine_event_prefix @ '' event-type namespace is reserved for node_id=''
        @ repr_str engine_node_id @ '' at component_path=()'']
      else []) @
     (case map_of specs (te_event_type e) of
        None \<Rightarrow> [context @ '': undeclared event type'']
      | Some s \<Rightarrow> map (\<lambda>issue. context @ '': '' @ issue_json_path issue @ '': '' @ issue_message issue)
          (schema_errors lib (tes_schema s) (JObj (te_payload e)))))"

definition validate_trace :: "schema_lib \<Rightarrow> trace_event list \<Rightarrow> (string \<times> trace_event_spec) list \<Rightarrow> string list" where
  "validate_trace lib events specs = concat (map (event_violations lib specs) (enumerate 0 events))"

lemma enumerate_snd_mem: "e \<in> set es \<Longrightarrow> \<exists>i. (i, e) \<in> set (enumerate k es)"
  by (metis enumerate_eq_zip in_set_conv_nth in_set_impl_in_set_zip2 length_upt diff_add_inverse)

lemma validate_trace_conformant:
  assumes "validate_trace lib events specs = []" "e \<in> set events"
  shows "\<exists>s. map_of specs (te_event_type e) = Some s \<and> lib_iter_errors lib (tes_schema s) (JObj (te_payload e)) = []"
    and "starts_with (te_event_type e) engine_event_prefix \<Longrightarrow> te_node_id e = engine_node_id \<and> te_component_path e = []"
proof -
  from enumerate_snd_mem[OF assms(2)] obtain i where "(i, e) \<in> set (enumerate 0 events)" by blast
  with assms(1) have "event_violations lib specs (i, e) = []" by (auto simp: validate_trace_def concat_eq_Nil_conv)
  then show "\<exists>s. map_of specs (te_event_type e) = Some s \<and> lib_iter_errors lib (tes_schema s) (JObj (te_payload e)) = []"
    "starts_with (te_event_type e) engine_event_prefix \<Longrightarrow> te_node_id e = engine_node_id \<and> te_component_path e = []"
    by (auto simp: event_violations_def Let_def split: option.splits if_splits)
qed

subsection \<open>The trace tree\<close>

datatype origin = NodeOrigin | EngineOrigin

datatype trace_node =
  TraceNode (tn_node_id: string) (tn_path: "string list") (tn_origin: origin)
    (tn_events: "trace_event list") (tn_children: "trace_node list")

record trace_tree =
  tt_run_id :: string
  tt_instant :: instant
  tt_roots :: "trace_node list"

definition is_engine_event :: "trace_event \<Rightarrow> bool" where
  "is_engine_event e \<longleftrightarrow> starts_with (te_event_type e) engine_event_prefix"

text \<open>A level of the tree is a dict from identity to node, in insertion order.\<close>

fun at_node :: "string list \<Rightarrow> string \<Rightarrow> (trace_node \<Rightarrow> trace_node) \<Rightarrow> trace_node list \<Rightarrow> trace_node list" where
  "at_node path i f [] = [f (TraceNode i path NodeOrigin [] [])]"
| "at_node path i f (n # ns) =
     (if tn_path n = path \<and> tn_node_id n = i then f n # ns else n # at_node path i f ns)"

fun push_event :: "trace_event \<Rightarrow> trace_node \<Rightarrow> trace_node" where
  "push_event e (TraceNode i p og es cs) = TraceNode i p og (es @ [e]) cs"

fun on_children :: "(trace_node list \<Rightarrow> trace_node list) \<Rightarrow> trace_node \<Rightarrow> trace_node" where
  "on_children f (TraceNode i p og es cs) = TraceNode i p og es (f cs)"

fun add_event :: "string list \<Rightarrow> string list \<Rightarrow> trace_event \<Rightarrow> trace_node list \<Rightarrow> trace_node list" where
  "add_event parent [] e level = at_node parent (te_node_id e) (push_event e) level"
| "add_event parent (i # is) e level =
     at_node parent i (on_children (add_event (parent @ [i]) is e)) level"

definition instant_tree :: "string \<Rightarrow> instant \<Rightarrow> trace_event list \<Rightarrow> trace_tree" where
  "instant_tree run t events =
     (let nodes = foldl (\<lambda>lv e. add_event [] (te_component_path e) e lv) [] (filter (\<lambda>e. \<not> is_engine_event e) events);
          engine = filter is_engine_event events
      in \<lparr>tt_run_id = run, tt_instant = t,
          tt_roots = nodes @ (if engine = [] then [] else [TraceNode engine_node_id [] EngineOrigin engine []])\<rparr>)"

definition repr_strs :: "string list \<Rightarrow> string" where
  "repr_strs xs = ''['' @ join_str '', '' (map repr_str xs) @ '']''"

definition build_trace_trees :: "trace_event list \<Rightarrow> trace_tree list res" where
  "build_trace_trees events =
     (case events of [] \<Rightarrow> Inr []
      | e # _ \<Rightarrow>
        let runs = sort (remdups (map te_run_id events)) in
        if length runs \<noteq> 1 then Inl (ValueError (''events span multiple runs: '' @ repr_strs runs))
        else Inr (map (\<lambda>t. instant_tree (te_run_id e) t (filter (\<lambda>x. te_timestamp x = t) events))
          (sort (remdups (map te_timestamp events)))))"

text \<open>No event is lost or duplicated, and each stands at the node of its identity.\<close>

fun node_flat :: "trace_node \<Rightarrow> trace_event list" where
  "node_flat (TraceNode i p og es cs) = es @ concat (map node_flat cs)"

abbreviation flat :: "trace_node list \<Rightarrow> trace_event list" where
  "flat ns \<equiv> concat (map node_flat ns)"

lemma at_node_count:
  assumes "\<And>n. count_list (node_flat (f n)) x = count_list (node_flat n) x + k"
  shows "count_list (flat (at_node path i f ns)) x = count_list (flat ns) x + k"
  using assms by (induction ns) auto

lemma add_event_count:
  "count_list (flat (add_event parent is e level)) x = count_list (flat level) x + (if e = x then 1 else 0)"
proof (induction parent "is" e level rule: add_event.induct)
  case (1 parent e level)
  show ?case by (simp only: add_event.simps, rule at_node_count) (case_tac n, simp)
next
  case (2 parent i "is" e level)
  show ?case
  proof (simp only: add_event.simps, rule at_node_count)
    fix n show "count_list (node_flat (on_children (add_event (parent @ [i]) is e) n)) x =
      count_list (node_flat n) x + (if e = x then 1 else 0)"
      using 2 by (cases n) simp
  qed
qed

lemma fold_add_event_count:
  "count_list (flat (foldl (\<lambda>lv e. add_event [] (te_component_path e) e lv) level events)) x =
     count_list (flat level) x + count_list events x"
  by (induction events arbitrary: level) (auto simp: add_event_count)

lemma count_list_filter_split: "count_list (filter P xs) x + count_list (filter (\<lambda>y. \<not> P y) xs) x = count_list xs x"
  by (induction xs) auto

lemma instant_tree_count: "count_list (flat (tt_roots (instant_tree run t events))) x = count_list events x"
proof -
  have "count_list (flat (if es = [] then [] else [TraceNode engine_node_id [] EngineOrigin es []])) x = count_list es x" for es
    by simp
  then show ?thesis
    using count_list_filter_split[of is_engine_event events x]
    by (simp add: instant_tree_def Let_def fold_add_event_count)
qed

fun node_placed :: "trace_node \<Rightarrow> bool" where
  "node_placed (TraceNode i p og es cs) \<longleftrightarrow>
     (\<forall>e \<in> set es. (te_node_id e, te_component_path e) = (i, p)) \<and>
     (\<forall>c \<in> set cs. tn_path c = p @ [i] \<and> node_placed c)"

lemma at_node_placed:
  assumes "\<forall>n \<in> set ns. tn_path n = path \<and> node_placed n"
    and "\<And>n. tn_path n = path \<Longrightarrow> tn_node_id n = i \<Longrightarrow> node_placed n \<Longrightarrow> tn_path (f n) = path \<and> node_placed (f n)"
  shows "\<forall>n \<in> set (at_node path i f ns). tn_path n = path \<and> node_placed n"
  using assms by (induction ns) auto

lemma add_event_placed:
  assumes "te_component_path e = parent @ is" "\<forall>n \<in> set level. tn_path n = parent \<and> node_placed n"
  shows "\<forall>n \<in> set (add_event parent is e level). tn_path n = parent \<and> node_placed n"
  using assms
proof (induction parent "is" e level rule: add_event.induct)
  case (1 parent e level)
  show ?case
  proof (simp only: add_event.simps, rule at_node_placed[OF 1(2)])
    fix n assume n: "tn_path n = parent" "tn_node_id n = te_node_id e" "node_placed n"
    show "tn_path (push_event e n) = parent \<and> node_placed (push_event e n)" using n 1(1) by (cases n) auto
  qed
next
  case (2 parent i "is" e level)
  show ?case
  proof (simp only: add_event.simps, rule at_node_placed[OF 2(3)])
    fix n assume n: "tn_path n = parent" "tn_node_id n = i" "node_placed n"
    show "tn_path (on_children (add_event (parent @ [i]) is e) n) = parent \<and>
        node_placed (on_children (add_event (parent @ [i]) is e) n)"
      using n 2(1)[of "tn_children n"] 2(2) by (cases n) auto
  qed
qed

lemma fold_add_event_placed:
  "\<forall>n \<in> set level. tn_path n = [] \<and> node_placed n \<Longrightarrow>
   \<forall>n \<in> set (foldl (\<lambda>lv e. add_event [] (te_component_path e) e lv) level events). tn_path n = [] \<and> node_placed n"
proof (induction events arbitrary: level)
  case (Cons e es)
  show ?case using Cons.IH[OF add_event_placed[OF _ Cons.prems]] by simp
qed simp

lemma instant_tree_placed:
  assumes "n \<in> set (tt_roots (instant_tree run t events))" "tn_origin n = NodeOrigin"
  shows "tn_path n = [] \<and> node_placed n"
  using assms fold_add_event_placed[of "[]" "filter (\<lambda>e. \<not> is_engine_event e) events"]
  by (auto simp: instant_tree_def Let_def split: if_splits)

end
