(* ===== verification/Registry.thy ===== *)
theory Registry
  imports Tracing MarketData
begin

section \<open>The registry and the implementation catalog\<close>

text \<open>
  \<open>quantize/registry/descriptor.py\<close>, \<open>registry.py\<close> and \<open>quantize/runtime/binding.py\<close>: node
  descriptors, exact-version resolution, executable bindings and the evaluation memo. The prose
  of a descriptor (descriptions, summaries, formulas, help texts) is not modelled; of the
  documentation block the documented parameter names are, since the constructor checks them.
  A node's \<open>evaluate\<close> acts on the run's recorder and memo, its only mutable surroundings.
\<close>

subsection \<open>Descriptors\<close>

record input_port_spec =
  ip_name :: string
  ip_type :: port_type
  ip_required :: bool

record output_port_spec =
  op_name :: string
  op_type :: port_type

record node_metadata =
  md_display_name :: string
  md_category :: string
  md_doc_parameters :: "string list option"

record node_descriptor =
  nd_type_id :: string
  nd_type_version :: string
  nd_inputs :: "input_port_spec list"
  nd_outputs :: "output_port_spec list"
  nd_metadata :: node_metadata
  nd_parameter_schema :: "json_object option"
  nd_trace_schema :: "json_object option"
  nd_trace_events :: "trace_event_spec list"

fun first_repeat :: "string list \<Rightarrow> string list \<Rightarrow> string option" where
  "first_repeat seen [] = None"
| "first_repeat seen (x # xs) = (if x \<in> set seen then Some x else first_repeat (x # seen) xs)"

lemma first_repeat_None: "first_repeat seen xs = None \<longleftrightarrow> distinct xs \<and> set xs \<inter> set seen = {}"
  by (induction seen xs rule: first_repeat.induct) auto

definition check_port_names :: "string \<Rightarrow> string list \<Rightarrow> unit res" where
  "check_port_names kind names = (case first_repeat [] names of
     Some n \<Rightarrow> Inl (ValueError (''duplicate '' @ kind @ '' port name '' @ repr_str n))
   | None \<Rightarrow> Inr ())"

definition reject_duplicate_port_names :: "node_descriptor \<Rightarrow> unit res" where
  "reject_duplicate_port_names d =
     try_bind (check_port_names ''input'' (map ip_name (nd_inputs d))) (\<lambda>_.
       check_port_names ''output'' (map op_name (nd_outputs d)))"

definition schema_properties :: "json_object option \<Rightarrow> string list" where
  "schema_properties schema = (case schema of None \<Rightarrow> []
     | Some doc \<Rightarrow> (case map_of doc ''properties'' of Some (JObj ps) \<Rightarrow> map fst ps | _ \<Rightarrow> []))"

definition reject_orphan_param_docs :: "node_descriptor \<Rightarrow> unit res" where
  "reject_orphan_param_docs d = (case md_doc_parameters (nd_metadata d) of None \<Rightarrow> Inr ()
     | Some ps \<Rightarrow>
       let orphans = sort (remdups (filter (\<lambda>p. p \<notin> set (schema_properties (nd_parameter_schema d))) ps)) in
       if orphans \<noteq> []
       then Inl (ValueError (''doc.parameters '' @ repr_strs orphans @ '' are not properties of the parameter schema''))
       else Inr ())"

definition mk_node_descriptor :: "node_descriptor \<Rightarrow> node_descriptor res" where
  "mk_node_descriptor d =
     (if \<not> (is_registered_type_id (nd_type_id d) \<and> is_semver (nd_type_version d) \<and>
            list_all is_ident (map ip_name (nd_inputs d)) \<and> list_all is_ident (map op_name (nd_outputs d)))
      then Inl (ValidationError ''NodeDescriptor'')
      else try_bind (reject_duplicate_port_names d) (\<lambda>_. try_bind (reject_orphan_param_docs d) (\<lambda>_. Inr d)))"

definition descriptor_ok :: "node_descriptor \<Rightarrow> bool" where
  "descriptor_ok d \<longleftrightarrow> is_registered_type_id (nd_type_id d) \<and> is_semver (nd_type_version d) \<and>
     distinct (map ip_name (nd_inputs d)) \<and> distinct (map op_name (nd_outputs d)) \<and>
     (\<forall>ps. md_doc_parameters (nd_metadata d) = Some ps \<longrightarrow> set ps \<subseteq> set (schema_properties (nd_parameter_schema d)))"

lemma sort_remdups_Nil: "sort (remdups xs) = [] \<longleftrightarrow> xs = []"
  by (metis set_empty set_remdups set_sort)

lemma mk_node_descriptor_ok: "mk_node_descriptor d = Inr d' \<Longrightarrow> d' = d \<and> descriptor_ok d"
  by (auto simp: mk_node_descriptor_def descriptor_ok_def res_simps reject_duplicate_port_names_def check_port_names_def
      first_repeat_None reject_orphan_param_docs_def Let_def sort_remdups_Nil filter_empty_conv
      split: if_splits option.splits)

subsection \<open>Resolution\<close>

text \<open>Display order of versions: the dotted integers numerically, anything else after them.\<close>

fun numeral_value :: "nat \<Rightarrow> string \<Rightarrow> nat" where
  "numeral_value acc [] = acc"
| "numeral_value acc (c # cs) = numeral_value (10 * acc + (of_char c - 48)) cs"

definition semantic_version_sort_key :: "string \<Rightarrow> nat \<times> nat list \<times> string" where
  "semantic_version_sort_key version =
     (let parts = split_dots version in
      if list_all is_numeral parts then (0, map (numeral_value 0) parts, version) else (1, [], version))"

datatype resolution_status = ResolvedOk | UnknownType | VersionUnavailable

record 'a resolution =
  rs_status :: resolution_status
  rs_found :: "'a option"
  rs_available :: "string list"

type_synonym node_resolution = "node_descriptor resolution"

text \<open>The check the constructor of a \<open>NodeResolution\<close> makes.\<close>

definition check_node_resolution :: "node_resolution \<Rightarrow> unit res" where
  "check_node_resolution r = (case rs_status r of
     ResolvedOk \<Rightarrow> if rs_found r = None \<or> rs_available r \<noteq> []
       then Inl (ValueError ''OK resolution must carry a descriptor and no available_versions'') else Inr ()
   | UnknownType \<Rightarrow> if rs_found r \<noteq> None \<or> rs_available r \<noteq> []
       then Inl (ValueError ''UNKNOWN_TYPE resolution must have no descriptor and no versions'') else Inr ()
   | VersionUnavailable \<Rightarrow>
       if rs_found r \<noteq> None then Inl (ValueError ''VERSION_UNAVAILABLE resolution must have no descriptor'')
       else if rs_available r = []
       then Inl (ValueError ''VERSION_UNAVAILABLE resolution must report >=1 available version'')
       else if rs_available r \<noteq> sort_key semantic_version_sort_key (rs_available r)
       then Inl (ValueError ''available_versions must be in semantic version order'') else Inr ())"

definition resolution_ok :: "'a \<Rightarrow> 'a resolution" where
  "resolution_ok d = \<lparr>rs_status = ResolvedOk, rs_found = Some d, rs_available = []\<rparr>"

definition resolution_unknown :: "'a resolution" where
  "resolution_unknown = \<lparr>rs_status = UnknownType, rs_found = None, rs_available = []\<rparr>"

definition resolution_unavailable :: "string list \<Rightarrow> 'a resolution" where
  "resolution_unavailable versions =
     \<lparr>rs_status = VersionUnavailable, rs_found = None,
      rs_available = sort_key semantic_version_sort_key versions\<rparr>"

type_synonym type_key = "string \<times> string"
type_synonym 'a keyed = "(type_key \<times> 'a) list"

definition available_versions :: "'a keyed \<Rightarrow> string \<Rightarrow> string list" where
  "available_versions by_key t =
     sort_key semantic_version_sort_key (map snd (filter (\<lambda>(tid, _). tid = t) (map fst by_key)))"

definition resolve_exact :: "'a keyed \<Rightarrow> string \<Rightarrow> string \<Rightarrow> 'a resolution" where
  "resolve_exact by_key t v = (case map_of by_key (t, v) of
     Some d \<Rightarrow> resolution_ok d
   | None \<Rightarrow> let versions = available_versions by_key t in
       if versions = [] then resolution_unknown else resolution_unavailable versions)"

type_synonym node_registry = "node_descriptor keyed"

definition descriptor_key :: "node_descriptor \<Rightarrow> type_key" where
  "descriptor_key d = (nd_type_id d, nd_type_version d)"

definition register_descriptor :: "node_descriptor \<Rightarrow> node_registry \<Rightarrow> node_registry res" where
  "register_descriptor d reg =
     (if map_of reg (descriptor_key d) \<noteq> None then Inl (DuplicateRegistrationError (nd_type_id d) (nd_type_version d))
      else Inr (reg @ [(descriptor_key d, d)]))"

definition resolve_node :: "node_registry \<Rightarrow> string \<Rightarrow> string \<Rightarrow> node_resolution" where
  "resolve_node reg t v = resolve_exact reg t v"

definition registry_contains :: "node_registry \<Rightarrow> string \<Rightarrow> string \<Rightarrow> bool" where
  "registry_contains reg t v \<longleftrightarrow> map_of reg (t, v) \<noteq> None"

definition sorted_values :: "'a keyed \<Rightarrow> 'a list" where
  "sorted_values by_key = map snd (sort_key fst by_key)"

definition registry_descriptors :: "node_registry \<Rightarrow> node_descriptor list" where
  "registry_descriptors reg = sorted_values reg"

definition registry_ok :: "node_registry \<Rightarrow> bool" where
  "registry_ok reg \<longleftrightarrow> distinct (map fst reg) \<and> (\<forall>(k, d) \<in> set reg. k = descriptor_key d)"

lemma registry_empty_ok [simp]: "registry_ok []"
  by (simp add: registry_ok_def)

lemma register_descriptor_ok:
  "register_descriptor d reg = Inr reg' \<Longrightarrow> registry_ok reg \<Longrightarrow> registry_ok reg'"
  by (auto simp: register_descriptor_def registry_ok_def map_of_eq_None_iff split: if_splits)

lemma sort_key_idem [simp]: "sort_key f (sort_key f xs) = sort_key f xs"
  by (simp add: sort_key_id_if_sorted)

lemma resolve_node_passes: "check_node_resolution (resolve_node reg t v) = Inr ()"
  by (simp add: resolve_node_def resolve_exact_def check_node_resolution_def resolution_ok_def resolution_unknown_def
      resolution_unavailable_def available_versions_def Let_def split: option.splits resolution_status.splits)

text \<open>Resolution is exact: never the latest version, a range or a fallback.\<close>

lemma resolve_exact_found:
  "map_of m (t, v) = Some d \<Longrightarrow> resolve_exact m t v = resolution_ok d"
  by (simp add: resolve_exact_def)

lemma resolve_exact_missing:
  "map_of m (t, v) = None \<Longrightarrow> resolve_exact m t v =
     (if available_versions m t = [] then resolution_unknown else resolution_unavailable (available_versions m t))"
  by (simp add: resolve_exact_def Let_def)

lemma available_versions_set: "set (available_versions m t) = {w. (t, w) \<in> fst ` set m}"
  by (force simp: available_versions_def)

lemmas resolution_defs = resolution_ok_def resolution_unknown_def resolution_unavailable_def

lemma resolve_exact_ok: "rs_status (resolve_exact m t v) = ResolvedOk \<longleftrightarrow> map_of m (t, v) \<noteq> None"
  by (cases "map_of m (t, v)") (simp_all add: resolve_exact_found resolve_exact_missing resolution_defs)

lemma resolve_exact_value: "rs_found (resolve_exact m t v) = map_of m (t, v)"
  by (cases "map_of m (t, v)") (simp_all add: resolve_exact_found resolve_exact_missing resolution_defs)

lemma resolve_exact_versions:
  "set (rs_available (resolve_exact m t v)) = (if map_of m (t, v) = None then {w. (t, w) \<in> fst ` set m} else {})"
  using available_versions_set[of m t]
  by (cases "map_of m (t, v)") (auto simp: resolve_exact_found resolve_exact_missing resolution_defs)

lemma resolve_exact_unknown:
  "rs_status (resolve_exact m t v) = UnknownType \<longleftrightarrow> (\<forall>w. (t, w) \<notin> fst ` set m)"
proof (cases "map_of m (t, v)")
  case None
  have "available_versions m t = [] \<longleftrightarrow> (\<forall>w. (t, w) \<notin> fst ` set m)"
    unfolding set_empty[symmetric] available_versions_set by (simp only: Collect_empty_eq)
  then show ?thesis using None by (simp add: resolve_exact_missing resolution_defs)
next
  case (Some d)
  then have "(t, v) \<in> fst ` set m" by (metis map_of_eq_None_iff option.distinct(1))
  then show ?thesis using Some by (auto simp: resolve_exact_found resolution_defs)
qed

subsection \<open>The memo\<close>

type_synonym memo_key = "string \<times> string list \<times> string"
type_synonym memo_slot = "(date \<times> pyfloat) list"

record evaluation_memo =
  memo_slots :: "(memo_key \<times> memo_slot) list"
  memo_high_water :: "instant option"

definition new_memo :: evaluation_memo where
  "new_memo = \<lparr>memo_slots = [], memo_high_water = None\<rparr>"

definition assert_monotonic :: "instant \<Rightarrow> evaluation_memo \<Rightarrow> unit res \<times> evaluation_memo" where
  "assert_monotonic t m =
     (if (case memo_high_water m of None \<Rightarrow> False | Some h \<Rightarrow> t < h)
      then (Inl (ValueError ''EvaluationMemo requires non-decreasing evaluation instants''), m)
      else (Inr (), m\<lparr>memo_high_water := Some t\<rparr>))"

definition memo_slot :: "memo_key \<Rightarrow> evaluation_memo \<Rightarrow> memo_slot \<times> evaluation_memo" where
  "memo_slot key m = (case map_of (memo_slots m) key of
     Some s \<Rightarrow> (s, m) | None \<Rightarrow> ([], m\<lparr>memo_slots := memo_slots m @ [(key, [])]\<rparr>))"

definition memo_is_empty :: "evaluation_memo \<Rightarrow> bool" where
  "memo_is_empty m \<longleftrightarrow> memo_slots m = []"

definition memo_store :: "memo_key \<Rightarrow> date \<Rightarrow> pyfloat \<Rightarrow> evaluation_memo \<Rightarrow> evaluation_memo" where
  "memo_store key d x m = m\<lparr>memo_slots := AList.update key (AList.update d x (fst (memo_slot key m))) (memo_slots m)\<rparr>"

subsection \<open>Executable bindings\<close>

text \<open>A run's mutable surroundings, and computations that may raise inside them.\<close>

record run_state =
  run_recorder :: trace_recorder
  run_memo :: "evaluation_memo option"

type_synonym 'a act = "run_state \<Rightarrow> 'a res \<times> run_state"

definition act_return :: "'a \<Rightarrow> 'a act" where
  "act_return x = (\<lambda>s. (Inr x, s))"

definition act_lift :: "'a res \<Rightarrow> 'a act" where
  "act_lift r = (\<lambda>s. (r, s))"

definition act_bind :: "'a act \<Rightarrow> ('a \<Rightarrow> 'b act) \<Rightarrow> 'b act" where
  "act_bind m f = (\<lambda>s. case m s of (Inl e, s') \<Rightarrow> (Inl e, s') | (Inr x, s') \<Rightarrow> f x s')"

fun act_map :: "('a \<Rightarrow> 'b act) \<Rightarrow> 'a list \<Rightarrow> 'b list act" where
  "act_map f [] = act_return []"
| "act_map f (x # xs) = act_bind (f x) (\<lambda>y. act_bind (act_map f xs) (\<lambda>ys. act_return (y # ys)))"

type_synonym named_values = "(string \<times> runtime_value) list"

record node_invocation =
  inv_node_id :: string
  inv_component_path :: "string list"
  inv_params :: json_object
  inv_inputs :: named_values
  inv_view :: data_view

text \<open>\<open>invocation.trace(event_type, payload)\<close>\<close>

definition trace :: "node_invocation \<Rightarrow> string \<Rightarrow> json_object \<Rightarrow> unit act" where
  "trace iv ty payload = (\<lambda>s.
     case sink_for (inv_node_id iv) (inv_component_path iv) ty payload (run_recorder s) of
       (r, rec') \<Rightarrow> (r, s\<lparr>run_recorder := rec'\<rparr>))"

record node_implementation =
  ni_descriptor :: node_descriptor
  ni_evaluate :: "node_invocation \<Rightarrow> named_values act"
  ni_warmup :: "json_object \<Rightarrow> int res"

definition no_warmup :: "json_object \<Rightarrow> int res" where
  "no_warmup params = Inr 0"

record implementation_catalog =
  ic_bindings :: "node_implementation keyed"
  ic_descriptors :: node_registry

definition new_catalog :: implementation_catalog where
  "new_catalog = \<lparr>ic_bindings = [], ic_descriptors = []\<rparr>"

definition register_implementation ::
    "node_implementation \<Rightarrow> implementation_catalog \<Rightarrow> implementation_catalog res" where
  "register_implementation ni c =
     (let key = descriptor_key (ni_descriptor ni) in
      if map_of (ic_bindings c) key \<noteq> None then Inl (DuplicateRegistrationError (fst key) (snd key))
      else try_bind (register_descriptor (ni_descriptor ni) (ic_descriptors c)) (\<lambda>ds.
        Inr \<lparr>ic_bindings = ic_bindings c @ [(key, ni)], ic_descriptors = ds\<rparr>))"

fun register_all :: "node_implementation list \<Rightarrow> implementation_catalog \<Rightarrow> implementation_catalog res" where
  "register_all [] c = Inr c"
| "register_all (ni # nis) c = try_bind (register_implementation ni c) (register_all nis)"

definition resolve_implementation ::
    "implementation_catalog \<Rightarrow> string \<Rightarrow> string \<Rightarrow> node_implementation resolution" where
  "resolve_implementation c t v = resolve_exact (ic_bindings c) t v"

definition catalog_contains :: "implementation_catalog \<Rightarrow> string \<Rightarrow> string \<Rightarrow> bool" where
  "catalog_contains c t v \<longleftrightarrow> map_of (ic_bindings c) (t, v) \<noteq> None"

definition catalog_implementations :: "implementation_catalog \<Rightarrow> node_implementation list" where
  "catalog_implementations c = sorted_values (ic_bindings c)"

text \<open>The read-only registry a validator is handed.\<close>

type_synonym registry_view = "string \<Rightarrow> string \<Rightarrow> node_resolution"

definition descriptor_registry :: "implementation_catalog \<Rightarrow> registry_view" where
  "descriptor_registry c = resolve_node (ic_descriptors c)"

text \<open>The catalog's invariant: the two maps are in lockstep, so semantic validation and
  execution never disagree about a node type.\<close>

definition catalog_ok :: "implementation_catalog \<Rightarrow> bool" where
  "catalog_ok c \<longleftrightarrow> registry_ok (ic_descriptors c) \<and>
     ic_descriptors c = map (\<lambda>(k, ni). (k, ni_descriptor ni)) (ic_bindings c)"

lemma new_catalog_ok: "catalog_ok new_catalog"
  by (simp add: catalog_ok_def new_catalog_def)

lemma register_implementation_ok:
  "register_implementation ni c = Inr c' \<Longrightarrow> catalog_ok c \<Longrightarrow> catalog_ok c'"
  by (auto simp: register_implementation_def catalog_ok_def res_simps Let_def register_descriptor_ok
      split: if_splits) (auto simp: register_descriptor_def split: if_splits)

lemma register_all_ok: "register_all nis c = Inr c' \<Longrightarrow> catalog_ok c \<Longrightarrow> catalog_ok c'"
  by (induction nis arbitrary: c) (auto simp: res_simps dest: register_implementation_ok)

lemma map_of_map_snd: "map_of (map (\<lambda>(k, x). (k, f x)) m) k = map_option f (map_of m k)"
  by (induction m) auto

lemma catalog_lockstep:
  assumes "catalog_ok c"
  shows "rs_status (resolve_implementation c t v) = rs_status (descriptor_registry c t v)"
    and "map_option ni_descriptor (rs_found (resolve_implementation c t v)) = rs_found (descriptor_registry c t v)"
    and "rs_available (resolve_implementation c t v) = rs_available (descriptor_registry c t v)"
proof -
  have keys: "map fst (ic_descriptors c) = map fst (ic_bindings c)"
    and look: "map_of (ic_descriptors c) k = map_option ni_descriptor (map_of (ic_bindings c) k)" for k
    using assms by (auto simp: catalog_ok_def map_of_map_snd)
  have versions: "available_versions (ic_descriptors c) t = available_versions (ic_bindings c) t"
    by (simp add: available_versions_def keys)
  show "rs_status (resolve_implementation c t v) = rs_status (descriptor_registry c t v)"
    "map_option ni_descriptor (rs_found (resolve_implementation c t v)) = rs_found (descriptor_registry c t v)"
    "rs_available (resolve_implementation c t v) = rs_available (descriptor_registry c t v)"
    by (simp_all add: resolve_implementation_def descriptor_registry_def resolve_node_def resolve_exact_def look versions
        resolution_defs Let_def split: option.splits)
qed

lemma catalog_binding_key:
  "catalog_ok c \<Longrightarrow> map_of (ic_bindings c) (t, v) = Some ni \<Longrightarrow> descriptor_key (ni_descriptor ni) = (t, v)"
  by (auto simp: catalog_ok_def registry_ok_def dest!: map_of_SomeD) force

end
