(* ===== verification/Semantic.thy ===== *)
theory Semantic
  imports Registry
begin

section \<open>Semantic validation\<close>

text \<open>
  \<open>quantize/validation/semantic.py\<close>: the registered nodes of a structurally valid document are
  resolved, the ports its edges name are looked up and compared, required inputs must be
  connected and parameters must satisfy the declared schema. A port table is a dict from node
  to a dict from port to type.
\<close>

type_synonym port_table = "(string \<times> port_type) list"
type_synonym node_ports = "(string \<times> port_table) list"

definition port_of :: "node_ports \<Rightarrow> string \<times> string \<Rightarrow> port_type option" where
  "port_of tables pt = (case map_of tables (fst pt) of None \<Rightarrow> None | Some ports \<Rightarrow> map_of ports (snd pt))"

definition output_table :: "node_descriptor \<Rightarrow> port_table" where
  "output_table d = dict_of (map (\<lambda>p. (op_name p, op_type p)) (nd_outputs d))"

definition input_table :: "node_descriptor \<Rightarrow> port_table" where
  "input_table d = dict_of (map (\<lambda>p. (ip_name p, ip_type p)) (nd_inputs d))"

definition resolution_errors :: "registry_view \<Rightarrow> nat \<times> node_instance \<Rightarrow> located_diagnostic list" where
  "resolution_errors view = (\<lambda>(i, n). case n of
     ComponentRefNode _ _ _ _ _ \<Rightarrow> []
   | RegisteredNode _ t v _ _ _ \<Rightarrow>
       (case rs_status (view t v) of
          ResolvedOk \<Rightarrow> []
        | UnknownType \<Rightarrow> [located ''unknown_node_type'' (''node type '' @ repr_str t @ '' is not registered'')
            [LocStr ''nodes'', LocInt i] t]
        | VersionUnavailable \<Rightarrow> [located ''node_version_unavailable''
            (''node type '' @ repr_str t @ '' has no version '' @ repr_str v @ '' (available: ''
              @ join_str '', '' (rs_available (view t v)) @ '')'')
            [LocStr ''nodes'', LocInt i] t]))"

text \<open>\<open>resolved\<close>: the descriptors of the resolved nodes, by node id.\<close>

fun resolved_nodes :: "registry_view \<Rightarrow> node_instance list \<Rightarrow> (string \<times> node_descriptor) list \<Rightarrow> (string \<times> node_descriptor) list" where
  "resolved_nodes view [] acc = acc"
| "resolved_nodes view (ComponentRefNode _ _ _ _ _ # ns) acc = resolved_nodes view ns acc"
| "resolved_nodes view (RegisteredNode i t v _ _ _ # ns) acc =
     (case (rs_status (view t v), rs_found (view t v)) of
        (ResolvedOk, Some d) \<Rightarrow> resolved_nodes view ns (AList.update i d acc)
      | _ \<Rightarrow> resolved_nodes view ns acc)"

definition port_errors :: "node_ports \<Rightarrow> node_ports \<Rightarrow> nat \<times> edge \<Rightarrow> located_diagnostic list" where
  "port_errors outs ins = (\<lambda>(i, e).
     let (src, src_port) = edge_from e; (dst, dst_port) = edge_to e in
     (if map_of outs src \<noteq> None \<and> port_of outs (src, src_port) = None
      then [located ''unknown_output_port'' (''node '' @ repr_str src @ '' has no output port '' @ repr_str src_port)
        [LocStr ''edges'', LocInt i, LocStr ''from''] src_port] else []) @
     (if map_of ins dst \<noteq> None \<and> port_of ins (dst, dst_port) = None
      then [located ''unknown_input_port'' (''node '' @ repr_str dst @ '' has no input port '' @ repr_str dst_port)
        [LocStr ''edges'', LocInt i, LocStr ''to''] dst_port] else []) @
     (case (port_of outs (src, src_port), port_of ins (dst, dst_port)) of
        (Some s, Some t) \<Rightarrow> if is_compatible s t then []
          else [located ''incompatible_port_types''
            (''port type '' @ render_port_type s @ '' from '' @ repr_str src @ ''.'' @ repr_str src_port
              @ '' is not compatible with '' @ render_port_type t @ '' at '' @ repr_str dst @ ''.'' @ repr_str dst_port)
            [LocStr ''edges'', LocInt i] dst_port]
      | _ \<Rightarrow> []))"

definition connectivity_errors ::
    "(string \<times> node_descriptor) list \<Rightarrow> edge list \<Rightarrow> nat \<times> node_instance \<Rightarrow> located_diagnostic list" where
  "connectivity_errors resolved edges = (\<lambda>(i, n). case map_of resolved (node_id n) of
     None \<Rightarrow> []
   | Some d \<Rightarrow> map (\<lambda>p. located ''required_input_unconnected''
         (''required input '' @ repr_str (ip_name p) @ '' of node '' @ repr_str (node_id n) @ '' is not connected'')
         [LocStr ''nodes'', LocInt i] (ip_name p))
       (filter (\<lambda>p. ip_required p \<and> (node_id n, ip_name p) \<notin> set (map edge_to edges)) (nd_inputs d)))"

definition parameter_errors ::
    "schema_lib \<Rightarrow> (string \<times> node_descriptor) list \<Rightarrow> nat \<times> node_instance \<Rightarrow> located_diagnostic list" where
  "parameter_errors lib resolved = (\<lambda>(i, n). case map_of resolved (node_id n) of
     None \<Rightarrow> []
   | Some d \<Rightarrow> (case nd_parameter_schema d of
       None \<Rightarrow> []
     | Some schema \<Rightarrow> map (\<lambda>issue. located ''invalid_parameters''
           (issue_json_path issue @ '': '' @ issue_message issue)
           ([LocStr ''nodes'', LocInt i, LocStr ''params''] @ issue_path issue) (node_id n))
         (schema_errors lib schema (JObj (node_params n)))))"

record semantic_validation =
  sem_ok :: bool
  sem_diagnostics :: "located_diagnostic list"

definition validate_strategy_semantics ::
    "schema_lib \<Rightarrow> strategy_document \<Rightarrow> registry_view \<Rightarrow> semantic_validation" where
  "validate_strategy_semantics lib doc view =
     (let resolved = resolved_nodes view (sd_nodes doc) [];
          outs = map (\<lambda>(i, d). (i, output_table d)) resolved;
          ins = map (\<lambda>(i, d). (i, input_table d)) resolved;
          diagnostics =
            concat (map (resolution_errors view) (enumerate 0 (sd_nodes doc))) @
            concat (map (port_errors outs ins) (enumerate 0 (sd_edges doc))) @
            concat (map (connectivity_errors resolved (sd_edges doc)) (enumerate 0 (sd_nodes doc))) @
            concat (map (parameter_errors lib resolved) (enumerate 0 (sd_nodes doc)))
      in \<lparr>sem_ok = (diagnostics = []), sem_diagnostics = sort_diagnostics diagnostics\<rparr>)"

subsection \<open>What the validator accepts\<close>

text \<open>A registry view that answers as \<open>resolve\<close> does: a descriptor exactly with status OK.\<close>

definition view_consistent :: "registry_view \<Rightarrow> bool" where
  "view_consistent view \<longleftrightarrow> (\<forall>t v. rs_status (view t v) = ResolvedOk \<longleftrightarrow> rs_found (view t v) \<noteq> None)"

lemma descriptor_registry_consistent: "view_consistent (descriptor_registry c)"
  by (simp add: view_consistent_def descriptor_registry_def resolve_node_def resolve_exact_ok resolve_exact_value)

fun node_descriptor_of :: "registry_view \<Rightarrow> node_instance \<Rightarrow> node_descriptor option" where
  "node_descriptor_of view (RegisteredNode _ t v _ _ _) =
     (if rs_status (view t v) = ResolvedOk then rs_found (view t v) else None)"
| "node_descriptor_of view (ComponentRefNode _ _ _ _ _) = None"

lemma resolved_nodes_Cons:
  "resolved_nodes view (n # ns) acc = resolved_nodes view ns
     (case node_descriptor_of view n of None \<Rightarrow> acc | Some d \<Rightarrow> AList.update (node_id n) d acc)"
proof (cases n)
  case (RegisteredNode i t v ps ui ext)
  then show ?thesis by (cases "rs_status (view t v)"; cases "rs_found (view t v)") simp_all
qed simp

lemma resolved_nodes_other:
  "i \<notin> set (map node_id ns) \<Longrightarrow> map_of (resolved_nodes view ns acc) i = map_of acc i"
proof (induction ns arbitrary: acc)
  case (Cons n ns)
  then show ?case unfolding resolved_nodes_Cons
    by (cases "node_descriptor_of view n") (auto simp: update_conv')
qed simp

lemma resolved_nodes_here:
  assumes "distinct (map node_id ns)" "n \<in> set ns" "map_of acc (node_id n) = None"
  shows "map_of (resolved_nodes view ns acc) (node_id n) = node_descriptor_of view n"
  using assms
proof (induction ns arbitrary: acc)
  case (Cons m ns)
  show ?case
  proof (cases "n = m")
    case True
    then have "node_id n \<notin> set (map node_id ns)" using Cons.prems(1) by simp
    then show ?thesis unfolding resolved_nodes_Cons using resolved_nodes_other True Cons.prems(3)
      by (cases "node_descriptor_of view m") (simp_all add: update_conv')
  next
    case False
    then have n: "n \<in> set ns" using Cons.prems(2) by simp
    then have "node_id n \<in> node_id ` set ns" by (rule imageI)
    then have neq: "node_id n \<noteq> node_id m" using Cons.prems(1) by auto
    show ?thesis unfolding resolved_nodes_Cons using Cons.IH[OF _ n] Cons.prems(1,3) neq
      by (cases "node_descriptor_of view m") (simp_all add: update_conv')
  qed
qed simp

lemma resolved_nodes_of_node:
  "distinct (map node_id ns) \<Longrightarrow> n \<in> set ns \<Longrightarrow>
   map_of (resolved_nodes view ns []) (node_id n) = node_descriptor_of view n"
  by (rule resolved_nodes_here) simp_all

definition edge_typed :: "node_ports \<Rightarrow> node_ports \<Rightarrow> edge \<Rightarrow> bool" where
  "edge_typed outs ins e \<longleftrightarrow>
     (map_of outs (fst (edge_from e)) \<noteq> None \<longrightarrow> port_of outs (edge_from e) \<noteq> None) \<and>
     (map_of ins (fst (edge_to e)) \<noteq> None \<longrightarrow> port_of ins (edge_to e) \<noteq> None) \<and>
     (\<forall>s t. port_of outs (edge_from e) = Some s \<longrightarrow> port_of ins (edge_to e) = Some t \<longrightarrow> is_compatible s t)"

lemma port_errors_Nil: "port_errors outs ins (i, e) = [] \<longleftrightarrow> edge_typed outs ins e"
  by (auto simp: port_errors_def edge_typed_def Let_def split: prod.splits option.splits)

text \<open>Well-typed documents: every registered node resolves, every edge between resolved nodes
  joins existing ports of compatible types, required inputs are connected, and parameters
  satisfy their schema.\<close>

definition document_typed :: "schema_lib \<Rightarrow> strategy_document \<Rightarrow> registry_view \<Rightarrow> bool" where
  "document_typed lib doc view \<longleftrightarrow>
     (\<forall>n \<in> set (sd_nodes doc). case n of ComponentRefNode _ _ _ _ _ \<Rightarrow> True
        | RegisteredNode _ t v _ _ _ \<Rightarrow> rs_status (view t v) = ResolvedOk) \<and>
     (\<forall>e \<in> set (sd_edges doc).
        edge_typed (map (\<lambda>(i, d). (i, output_table d)) (resolved_nodes view (sd_nodes doc) []))
          (map (\<lambda>(i, d). (i, input_table d)) (resolved_nodes view (sd_nodes doc) [])) e) \<and>
     (\<forall>n \<in> set (sd_nodes doc). \<forall>d. node_descriptor_of view n = Some d \<longrightarrow>
        (\<forall>p \<in> set (nd_inputs d). ip_required p \<longrightarrow> (node_id n, ip_name p) \<in> edge_to ` set (sd_edges doc)) \<and>
        (\<forall>schema. nd_parameter_schema d = Some schema \<longrightarrow> lib_iter_errors lib schema (JObj (node_params n)) = []))"

lemma concat_enumerate_all:
  assumes "\<And>i x. x \<in> set xs \<Longrightarrow> f (i, x) = [] \<longleftrightarrow> P x"
  shows "concat (map f (enumerate 0 xs)) = [] \<longleftrightarrow> (\<forall>x \<in> set xs. P x)"
  unfolding concat_enumerate_Nil using assms by (auto simp: all_set_conv_all_nth)

lemma validate_strategy_semantics_ok:
  assumes "view_consistent view" "distinct (map node_id (sd_nodes doc))"
  shows "sem_ok (validate_strategy_semantics lib doc view) \<longleftrightarrow> document_typed lib doc view"
    and "sem_diagnostics (validate_strategy_semantics lib doc view) = [] \<longleftrightarrow> document_typed lib doc view"
proof -
  let ?ns = "sd_nodes doc" and ?es = "sd_edges doc"
  let ?res = "resolved_nodes view ?ns []"
  have r: "concat (map (resolution_errors view) (enumerate 0 ?ns)) = [] \<longleftrightarrow>
      (\<forall>n \<in> set ?ns. case n of ComponentRefNode _ _ _ _ _ \<Rightarrow> True
        | RegisteredNode _ t v _ _ _ \<Rightarrow> rs_status (view t v) = ResolvedOk)"
    by (rule concat_enumerate_all) (auto simp: resolution_errors_def split: node_instance.splits resolution_status.splits)
  have p: "concat (map (port_errors outs ins) (enumerate 0 ?es)) = [] \<longleftrightarrow> (\<forall>e \<in> set ?es. edge_typed outs ins e)" for outs ins
    by (rule concat_enumerate_all) (rule port_errors_Nil)
  have c: "concat (map (connectivity_errors ?res ?es) (enumerate 0 ?ns)) = [] \<longleftrightarrow>
      (\<forall>n \<in> set ?ns. \<forall>d. node_descriptor_of view n = Some d \<longrightarrow>
        (\<forall>p \<in> set (nd_inputs d). ip_required p \<longrightarrow> (node_id n, ip_name p) \<in> edge_to ` set ?es))"
    by (rule concat_enumerate_all)
      (simp add: connectivity_errors_def resolved_nodes_of_node[OF assms(2)] filter_empty_conv split: option.splits)
  have q: "concat (map (parameter_errors lib ?res) (enumerate 0 ?ns)) = [] \<longleftrightarrow>
      (\<forall>n \<in> set ?ns. \<forall>d. node_descriptor_of view n = Some d \<longrightarrow>
        (\<forall>schema. nd_parameter_schema d = Some schema \<longrightarrow> lib_iter_errors lib schema (JObj (node_params n)) = []))"
    by (rule concat_enumerate_all)
      (auto simp: parameter_errors_def resolved_nodes_of_node[OF assms(2)] split: option.splits)
  show "sem_ok (validate_strategy_semantics lib doc view) \<longleftrightarrow> document_typed lib doc view"
    unfolding validate_strategy_semantics_def Let_def semantic_validation.select_convs append_is_Nil_conv r p c q
      document_typed_def by blast
  then show "sem_diagnostics (validate_strategy_semantics lib doc view) = [] \<longleftrightarrow> document_typed lib doc view"
    by (simp add: validate_strategy_semantics_def Let_def)
qed

end
