(* ===== verification/Resolve.thy ===== *)
theory Resolve
  imports Semantic Trading
begin

section \<open>Component resolution\<close>

text \<open>
  \<open>quantize/components/resolve.py\<close>: the pinned closure is fetched breadth first, its
  definitions pass three gates, and each component node of the document becomes an instance
  tree with its effective parameters. The recursion of the instantiation is bounded by fuel,
  one more than the number of definitions fetched; running out of it is the code's
  \<open>RecursionError\<close>, which the acyclicity established by the first gate excludes. A dict keyed
  by identity or by node id is an association list.
\<close>

subsection \<open>Catalog and identities\<close>

type_synonym component_catalog = "(component_key \<times> component_definition) list"

fun add_definitions :: "component_definition list \<Rightarrow> component_catalog \<Rightarrow> component_catalog res" where
  "add_definitions [] c = Inr c"
| "add_definitions (d # ds) c =
     (if map_of c (definition_key d) \<noteq> None
      then Inl (ValueError (''component '' @ key_str (definition_key d) @ '' supplied more than once''))
      else add_definitions ds (c @ [(definition_key d, d)]))"

definition mk_component_catalog :: "component_definition list \<Rightarrow> component_catalog res" where
  "mk_component_catalog ds = add_definitions ds []"

definition component_catalog_ok :: "component_catalog \<Rightarrow> bool" where
  "component_catalog_ok c \<longleftrightarrow> distinct (map fst c) \<and> (\<forall>(k, d) \<in> set c. k = definition_key d)"

definition require_component_catalog ::
    "component_catalog option \<Rightarrow> component_ref list \<Rightarrow> component_catalog res" where
  "require_component_catalog components refs = (case components of
     Some c \<Rightarrow> Inr c
   | None \<Rightarrow> if refs \<noteq> []
       then Inl (ValueError ''document pins components; pass an explicit ComponentCatalog (empty is allowed)'')
       else Inr [])"

datatype component_instance =
  ComponentInstance (ci_instance_id: string) (ci_path: "string list") (ci_definition: component_definition)
    (ci_effective_params: "(string \<times> json_object) list") (ci_children: "(string \<times> component_instance) list")

record resolved_strategy =
  rst_ok :: bool
  rst_diagnostics :: "runtime_diagnostic list"
  rst_instances :: "(string \<times> component_instance) list"

record port_tables =
  pt_outputs :: node_ports
  pt_inputs :: node_ports

definition find_ref_key :: "string \<Rightarrow> component_ref list \<Rightarrow> component_key option" where
  "find_ref_key ref refs = map_option ref_key (find (\<lambda>r. ref_id r = ref) refs)"

definition ref_key_for :: "string \<Rightarrow> string \<Rightarrow> component_ref list \<Rightarrow> component_key res" where
  "ref_key_for nid ref refs = (case find_ref_key ref refs of
     None \<Rightarrow> Inl (ValueError (''component node '' @ repr_str nid @ '' has undeclared ref '' @ repr_str ref))
   | Some k \<Rightarrow> Inr k)"

subsection \<open>Port tables and wiring\<close>

definition exposed_table :: "exposed_port list \<Rightarrow> port_table" where
  "exposed_table ps = dict_of (map (\<lambda>p. (ep_name p, ep_type p)) ps)"

fun add_node_tables ::
    "registry_view \<Rightarrow> (string \<times> component_definition) list \<Rightarrow> node_instance \<Rightarrow> port_tables \<Rightarrow> port_tables" where
  "add_node_tables view defs (RegisteredNode i t v _ _ _) tables =
     (case (rs_status (view t v), rs_found (view t v)) of
        (ResolvedOk, Some d) \<Rightarrow>
          \<lparr>pt_outputs = AList.update i (output_table d) (pt_outputs tables),
           pt_inputs = AList.update i (input_table d) (pt_inputs tables)\<rparr>
      | _ \<Rightarrow> tables)"
| "add_node_tables view defs (ComponentRefNode i _ _ _ _) tables =
     (case map_of defs i of
        None \<Rightarrow> tables
      | Some d \<Rightarrow>
          \<lparr>pt_outputs = AList.update i (exposed_table (cd_exposed_outputs d)) (pt_outputs tables),
           pt_inputs = AList.update i (exposed_table (cd_exposed_inputs d)) (pt_inputs tables)\<rparr>)"

definition build_port_tables ::
    "node_instance list \<Rightarrow> registry_view \<Rightarrow> (string \<times> component_definition) list \<Rightarrow> port_tables" where
  "build_port_tables nodes view defs =
     foldl (\<lambda>tables n. add_node_tables view defs n tables) \<lparr>pt_outputs = [], pt_inputs = []\<rparr> nodes"

fun repeated_targets :: "(string \<times> string) list \<Rightarrow> (string \<times> string) list \<Rightarrow> (string \<times> string) list" where
  "repeated_targets seen [] = []"
| "repeated_targets seen (t # ts) = (if t \<in> set seen then [t] else []) @ repeated_targets (t # seen) ts"

definition duplicate_input_edges :: "edge list \<Rightarrow> (string \<times> string) list" where
  "duplicate_input_edges edges = sort (remdups (repeated_targets [] (map edge_to edges)))"

definition edge_wiring_errors :: "port_tables \<Rightarrow> string \<Rightarrow> edge \<Rightarrow> runtime_diagnostic list" where
  "edge_wiring_errors tables context_text e =
     (let (src, src_port) = edge_from e; (dst, dst_port) = edge_to e;
          s = port_of (pt_outputs tables) (edge_from e); t = port_of (pt_inputs tables) (edge_to e) in
     (if map_of (pt_outputs tables) src \<noteq> None \<and> s = None
      then [run_diag ''unknown_output_port''
        (context_text @ '': node '' @ repr_str src @ '' has no output port '' @ repr_str src_port) src_port] else []) @
     (if map_of (pt_inputs tables) dst \<noteq> None \<and> t = None
      then [run_diag ''unknown_input_port''
        (context_text @ '': node '' @ repr_str dst @ '' has no input port '' @ repr_str dst_port) dst_port] else []) @
     (case (s, t) of
        (Some a, Some b) \<Rightarrow> if is_compatible a b then []
          else [run_diag ''incompatible_port_types''
            (context_text @ '': edge '' @ repr_str src @ ''.'' @ repr_str src_port @ '' -> '' @ repr_str dst @ ''.''
              @ repr_str dst_port @ '' connects incompatible port types'') dst_port]
      | _ \<Rightarrow> []))"

fun component_input_errors ::
    "port_tables \<Rightarrow> (string \<times> string) list \<Rightarrow> string \<Rightarrow> node_instance \<Rightarrow> runtime_diagnostic list" where
  "component_input_errors tables linked context_text (RegisteredNode _ _ _ _ _ _) = []"
| "component_input_errors tables linked context_text (ComponentRefNode i _ _ _ _) =
     (case map_of (pt_inputs tables) i of
        None \<Rightarrow> []
      | Some ports \<Rightarrow> map (\<lambda>p. run_diag ''required_input_unconnected''
          (context_text @ '': exposed input '' @ repr_str p @ '' of component node '' @ repr_str i @ '' is not connected'') p)
          (filter (\<lambda>p. (i, p) \<notin> set linked) (map fst ports)))"

definition check_graph_wiring ::
    "node_instance list \<Rightarrow> edge list \<Rightarrow> port_tables \<Rightarrow> (string \<times> string) list \<Rightarrow> string \<Rightarrow> runtime_diagnostic list" where
  "check_graph_wiring nodes edges tables externally_fed context_text =
     map (\<lambda>(n, port). run_diag ''ambiguous_input''
       (context_text @ '': input '' @ repr_str port @ '' of node '' @ repr_str n @ '' has more than one incoming edge'') n)
       (duplicate_input_edges edges) @
     concat (map (edge_wiring_errors tables context_text) edges) @
     concat (map (component_input_errors tables (externally_fed @ map edge_to edges) context_text) nodes)"

fun registered_input_errors ::
    "registry_view \<Rightarrow> (string \<times> string) list \<Rightarrow> string \<Rightarrow> node_instance \<Rightarrow> runtime_diagnostic list" where
  "registered_input_errors view linked context_text (ComponentRefNode _ _ _ _ _) = []"
| "registered_input_errors view linked context_text (RegisteredNode i t v _ _ _) =
     (case (rs_status (view t v), rs_found (view t v)) of
        (ResolvedOk, Some d) \<Rightarrow> map (\<lambda>p. run_diag ''required_input_unconnected''
          (context_text @ '': required input '' @ repr_str (ip_name p) @ '' of node '' @ repr_str i @ '' is not connected'')
          (ip_name p))
          (filter (\<lambda>p. ip_required p \<and> (i, ip_name p) \<notin> set linked) (nd_inputs d))
      | _ \<Rightarrow> [])"

definition check_required_registered_inputs ::
    "node_instance list \<Rightarrow> edge list \<Rightarrow> registry_view \<Rightarrow> (string \<times> string) list \<Rightarrow> string \<Rightarrow> runtime_diagnostic list" where
  "check_required_registered_inputs nodes edges view externally_fed context_text =
     concat (map (registered_input_errors view (map edge_to edges @ externally_fed) context_text) nodes)"

subsection \<open>The checks of one definition\<close>

fun internal_type_errors :: "registry_view \<Rightarrow> string \<Rightarrow> node_instance \<Rightarrow> runtime_diagnostic list" where
  "internal_type_errors view context_text (ComponentRefNode _ _ _ _ _) = []"
| "internal_type_errors view context_text (RegisteredNode i t v _ _ _) =
     (case rs_status (view t v) of
        UnknownType \<Rightarrow> [run_diag ''unknown_node_type''
          (context_text @ '': internal node '' @ repr_str i @ '' has unregistered type '' @ repr_str t) t]
      | VersionUnavailable \<Rightarrow> [run_diag ''node_version_unavailable''
          (context_text @ '': internal node '' @ repr_str i @ '' pins unavailable version '' @ repr_str v @ '' of '' @ repr_str t) t]
      | ResolvedOk \<Rightarrow> [])"

fun nested_definitions ::
    "component_catalog \<Rightarrow> component_ref list \<Rightarrow> node_instance list \<Rightarrow> (string \<times> component_definition) list
     \<Rightarrow> (string \<times> component_definition) list res" where
  "nested_definitions fetched refs [] acc = Inr acc"
| "nested_definitions fetched refs (RegisteredNode _ _ _ _ _ _ # ns) acc = nested_definitions fetched refs ns acc"
| "nested_definitions fetched refs (ComponentRefNode i r _ _ _ # ns) acc =
     try_bind (ref_key_for i r refs) (\<lambda>k.
       nested_definitions fetched refs ns
         (case map_of fetched k of Some d \<Rightarrow> AList.update i d acc | None \<Rightarrow> acc))"

fun duplicate_name_errors :: "string \<Rightarrow> string \<Rightarrow> string \<Rightarrow> string list \<Rightarrow> string list \<Rightarrow> runtime_diagnostic list" where
  "duplicate_name_errors context_text label code seen [] = []"
| "duplicate_name_errors context_text label code seen (n # ns) =
     (if n \<in> set seen then [run_diag code (context_text @ '': duplicate '' @ label @ '' '' @ repr_str n) n] else []) @
     duplicate_name_errors context_text label code (n # seen) ns"

fun exposed_input_errors ::
    "string \<Rightarrow> node_ports \<Rightarrow> (string \<times> string) list \<Rightarrow> (string \<times> string) list \<Rightarrow> exposed_port list \<Rightarrow> runtime_diagnostic list" where
  "exposed_input_errors context_text ins edge_targets fed [] = []"
| "exposed_input_errors context_text ins edge_targets fed (p # ps) =
     (let target = ep_maps_to p; at_text = repr_str (fst target) @ ''.'' @ repr_str (snd target) in
      case port_of ins target of
        None \<Rightarrow> run_diag ''exposed_port_target_missing''
          (context_text @ '': exposed input '' @ repr_str (ep_name p) @ '' maps to unknown internal input '' @ at_text) (ep_name p)
          # exposed_input_errors context_text ins edge_targets fed ps
      | Some t \<Rightarrow>
          (if is_compatible (ep_type p) t then []
           else [run_diag ''exposed_port_type_incompatible''
             (context_text @ '': exposed input '' @ repr_str (ep_name p) @ '' is not type-compatible with internal input '' @ at_text)
             (ep_name p)]) @
          (if target \<in> set fed \<or> target \<in> set edge_targets
           then [run_diag ''ambiguous_input''
             (context_text @ '': internal input '' @ at_text @ '' is fed by more than one exposed input or internal edge'') (ep_name p)]
           else []) @
          exposed_input_errors context_text ins edge_targets (target # fed) ps)"

definition exposed_output_error :: "string \<Rightarrow> node_ports \<Rightarrow> exposed_port \<Rightarrow> runtime_diagnostic list" where
  "exposed_output_error context_text outs p =
     (let target = ep_maps_to p; at_text = repr_str (fst target) @ ''.'' @ repr_str (snd target) in
      case port_of outs target of
        None \<Rightarrow> [run_diag ''exposed_port_target_missing''
          (context_text @ '': exposed output '' @ repr_str (ep_name p) @ '' maps to unknown internal output '' @ at_text) (ep_name p)]
      | Some t \<Rightarrow> if is_compatible t (ep_type p) then []
          else [run_diag ''exposed_port_type_incompatible''
            (context_text @ '': exposed output '' @ repr_str (ep_name p) @ '' is not type-compatible with internal output '' @ at_text)
            (ep_name p)])"

definition exposed_param_errors ::
    "schema_lib \<Rightarrow> string \<Rightarrow> string list \<Rightarrow> (string \<times> component_definition) list \<Rightarrow> exposed_param \<Rightarrow> runtime_diagnostic list" where
  "exposed_param_errors lib context_text internal_ids nested p =
     (let (target, param) = ex_binds_to p in
      if target \<notin> set internal_ids
      then [run_diag ''exposed_param_target_missing''
        (context_text @ '': exposed param '' @ repr_str (ex_name p) @ '' binds to unknown internal node '' @ repr_str target) (ex_name p)]
      else
        (case map_of nested target of
           Some d \<Rightarrow> if param \<in> ex_name ` set (cd_exposed_params d) then []
             else [run_diag ''exposed_param_target_missing''
               (context_text @ '': exposed param '' @ repr_str (ex_name p) @ '' binds to '' @ repr_str target @ ''.''
                 @ repr_str param @ '', which is not an exposed param of that component'') (ex_name p)]
         | None \<Rightarrow> []) @
        (case mk_json_schema lib (ex_schema p) of
           Inl _ \<Rightarrow> [run_diag ''exposed_param_schema_invalid''
             (context_text @ '': exposed param '' @ repr_str (ex_name p) @ '' declares an invalid JSON Schema'') (ex_name p)]
         | Inr _ \<Rightarrow> []))"

definition check_definition ::
    "schema_lib \<Rightarrow> component_definition \<Rightarrow> registry_view \<Rightarrow> component_catalog \<Rightarrow> runtime_diagnostic list res" where
  "check_definition lib d view fetched =
     (let context_text = ''component '' @ key_str (definition_key d);
          nodes = graph_nodes (cd_graph d); edges = graph_edges (cd_graph d);
          fed = map ep_maps_to (cd_exposed_inputs d) in
      try_bind (nested_definitions fetched (cd_component_refs d) nodes []) (\<lambda>nested.
      let tables = build_port_tables nodes view nested in
      Inr (concat (map (internal_type_errors view context_text) nodes) @
        duplicate_name_errors context_text ''exposed input'' ''duplicate_exposed_port'' [] (map ep_name (cd_exposed_inputs d)) @
        duplicate_name_errors context_text ''exposed output'' ''duplicate_exposed_port'' [] (map ep_name (cd_exposed_outputs d)) @
        duplicate_name_errors context_text ''exposed param'' ''duplicate_exposed_param'' [] (map ex_name (cd_exposed_params d)) @
        exposed_input_errors context_text (pt_inputs tables) (map edge_to edges) [] (cd_exposed_inputs d) @
        concat (map (exposed_output_error context_text (pt_outputs tables)) (cd_exposed_outputs d)) @
        concat (map (exposed_param_errors lib context_text (map node_id nodes) nested) (cd_exposed_params d)) @
        check_graph_wiring nodes edges tables fed context_text @
        check_required_registered_inputs nodes edges view fed context_text)))"

subsection \<open>Instantiation\<close>

abbreviation run_diag_at :: "string \<Rightarrow> string \<Rightarrow> string list \<Rightarrow> string \<Rightarrow> runtime_diagnostic" where
  "run_diag_at code message path subject \<equiv>
     \<lparr>diag_code = code, diag_message = message, diag_path = path, diag_subject = Some subject\<rparr>"

type_synonym params_by_node = "(string \<times> json_object) list"

fun effective_param_errors ::
    "schema_lib \<Rightarrow> registry_view \<Rightarrow> string list \<Rightarrow> params_by_node \<Rightarrow> node_instance \<Rightarrow> runtime_diagnostic list" where
  "effective_param_errors lib view path effective (ComponentRefNode _ _ _ _ _) = []"
| "effective_param_errors lib view path effective (RegisteredNode i t v _ _ _) =
     (case (rs_status (view t v), rs_found (view t v)) of
        (ResolvedOk, Some d) \<Rightarrow> (case nd_parameter_schema d of
            None \<Rightarrow> []
          | Some schema \<Rightarrow> map (\<lambda>issue. run_diag_at ''invalid_parameters''
              (''effective params of internal node '' @ repr_str i @ '': '' @ issue_json_path issue @ '': '' @ issue_message issue)
              (path @ [i]) i) (schema_errors lib schema (JObj (dict_get effective i []))))
      | _ \<Rightarrow> [])"

definition validate_effective_params ::
    "schema_lib \<Rightarrow> component_definition \<Rightarrow> params_by_node \<Rightarrow> registry_view \<Rightarrow> string list \<Rightarrow> runtime_diagnostic list" where
  "validate_effective_params lib d effective view path =
     concat (map (effective_param_errors lib view path effective) (graph_nodes (cd_graph d)))"

definition exposed_by_name :: "component_definition \<Rightarrow> (string \<times> exposed_param) list" where
  "exposed_by_name d = dict_of (map (\<lambda>p. (ex_name p, p)) (cd_exposed_params d))"

definition authored_params :: "component_definition \<Rightarrow> params_by_node" where
  "authored_params d = dict_of (map (\<lambda>n. (node_id n, node_params n)) (graph_nodes (cd_graph d)))"

definition unknown_param_errors :: "component_definition \<Rightarrow> string list \<Rightarrow> json_object \<Rightarrow> runtime_diagnostic list" where
  "unknown_param_errors d path provided =
     map (\<lambda>n. run_diag_at ''unknown_component_param''
       (''param '' @ repr_str n @ '' is not an exposed param of component '' @ key_str (definition_key d)) path n)
       (filter (\<lambda>n. map_of (exposed_by_name d) n = None) (sort (map fst provided)))"

fun override_params ::
    "schema_lib \<Rightarrow> component_definition \<Rightarrow> string list \<Rightarrow> json_object \<Rightarrow> string list \<Rightarrow> params_by_node
     \<Rightarrow> params_by_node \<times> runtime_diagnostic list" where
  "override_params lib d path provided [] effective = (effective, [])"
| "override_params lib d path provided (n # ns) effective =
     (case map_of (exposed_by_name d) n of
        None \<Rightarrow> override_params lib d path provided ns effective
      | Some p \<Rightarrow>
          let v = dict_get provided n JNull in
          if (case mk_json_schema lib (ex_schema p) of Inl _ \<Rightarrow> False | Inr schema \<Rightarrow> schema_errors lib schema v \<noteq> [])
          then (case override_params lib d path provided ns effective of (eff, ds) \<Rightarrow>
            (eff, run_diag_at ''invalid_component_param''
              (''param '' @ repr_str n @ '' does not satisfy the exposed param schema of component '' @ key_str (definition_key d))
              path n # ds))
          else
            let (target, param) = ex_binds_to p in
            override_params lib d path provided ns
              (case map_of effective target of
                 Some old \<Rightarrow> AList.update target (AList.update param v old) effective
               | None \<Rightarrow> effective))"

fun child_instances ::
    "(string \<Rightarrow> json_object \<Rightarrow> component_definition \<Rightarrow> string list \<Rightarrow> (component_instance \<times> runtime_diagnostic list) res)
     \<Rightarrow> component_definition \<Rightarrow> string list \<Rightarrow> component_catalog \<Rightarrow> params_by_node \<Rightarrow> node_instance list
     \<Rightarrow> (string \<times> component_instance) list \<Rightarrow> ((string \<times> component_instance) list \<times> runtime_diagnostic list) res" where
  "child_instances inst d path fetched effective [] acc = Inr (acc, [])"
| "child_instances inst d path fetched effective (RegisteredNode _ _ _ _ _ _ # ns) acc =
     child_instances inst d path fetched effective ns acc"
| "child_instances inst d path fetched effective (ComponentRefNode i r _ _ _ # ns) acc =
     try_bind (ref_key_for i r (cd_component_refs d)) (\<lambda>k.
       case map_of fetched k of
         None \<Rightarrow> child_instances inst d path fetched effective ns acc
       | Some nested \<Rightarrow>
           try_bind (inst i (dict_get effective i []) nested (path @ [i])) (\<lambda>(c, ds).
           try_bind (child_instances inst d path fetched effective ns (AList.update i c acc)) (\<lambda>(cs, ds').
             Inr (cs, ds @ ds'))))"

fun instantiate ::
    "nat \<Rightarrow> schema_lib \<Rightarrow> component_catalog \<Rightarrow> registry_view \<Rightarrow> string \<Rightarrow> json_object \<Rightarrow> component_definition \<Rightarrow> string list
     \<Rightarrow> (component_instance \<times> runtime_diagnostic list) res" where
  "instantiate 0 lib fetched view iid provided d path = Inl RecursionError"
| "instantiate (Suc fuel) lib fetched view iid provided d path =
     (let (effective, invalid) = override_params lib d path provided (sort (map fst provided)) (authored_params d) in
      try_bind (child_instances (instantiate fuel lib fetched view) d path fetched effective (graph_nodes (cd_graph d)) [])
        (\<lambda>(children, ds).
          Inr (ComponentInstance iid path d effective children,
            unknown_param_errors d path provided @ invalid @ validate_effective_params lib d effective view path @ ds)))"

subsection \<open>The closure and the gates\<close>

definition sorted_ref_keys :: "component_ref list \<Rightarrow> component_key list" where
  "sorted_ref_keys refs = sort (map ref_key refs)"

definition unavailable_diag :: "component_key \<Rightarrow> runtime_diagnostic" where
  "unavailable_diag k = run_diag ''component_definition_unavailable''
     (''component definition '' @ key_str k @ '' is not available'') (key_str k)"

function fetch_loop ::
    "component_catalog \<Rightarrow> component_catalog \<Rightarrow> component_key list \<Rightarrow> component_key list
     \<Rightarrow> component_catalog \<times> component_key list" where
  "fetch_loop catalog fetched missing [] = (fetched, missing)"
| "fetch_loop catalog fetched missing (k # queue) =
     (if map_of fetched k \<noteq> None \<or> k \<in> set missing then fetch_loop catalog fetched missing queue
      else case map_of catalog k of
        None \<Rightarrow> fetch_loop catalog fetched (missing @ [k]) queue
      | Some d \<Rightarrow> fetch_loop catalog (fetched @ [(k, d)]) missing (queue @ sorted_ref_keys (cd_component_refs d)))"
  by pat_completeness auto

termination
proof (relation "measures [\<lambda>(catalog, fetched, missing, queue). card (fst ` set catalog - fst ` set fetched),
    \<lambda>(catalog, fetched, missing, queue). length queue]")
  fix catalog fetched :: component_catalog and missing queue :: "component_key list" and k and d
  assume k: "\<not> (map_of fetched k \<noteq> None \<or> k \<in> set missing)" "map_of catalog k = Some d"
  then have "k \<notin> fst ` set fetched" "k \<in> fst ` set catalog"
    by (simp add: map_of_eq_None_iff, metis k(2) map_of_eq_None_iff option.distinct(1))
  then have "fst ` set catalog - fst ` set (fetched @ [(k, d)]) \<subset> fst ` set catalog - fst ` set fetched"
    unfolding set_append image_Un by (simp only: list.set image_insert image_empty fst_conv) blast
  then have "card (fst ` set catalog - fst ` set (fetched @ [(k, d)])) < card (fst ` set catalog - fst ` set fetched)"
    by (intro psubset_card_mono) simp_all
  then show "((catalog, fetched @ [(k, d)], missing, queue @ sorted_ref_keys (cd_component_refs d)), catalog, fetched, missing, k # queue)
    \<in> measures [\<lambda>(catalog, fetched, missing, queue). card (fst ` set catalog - fst ` set fetched),
      \<lambda>(catalog, fetched, missing, queue). length queue]"
    by simp
qed auto

definition fetch_definition_closure ::
    "component_catalog \<Rightarrow> component_ref list \<Rightarrow> component_catalog \<Rightarrow> component_catalog \<times> runtime_diagnostic list" where
  "fetch_definition_closure seed refs catalog =
     (case fetch_loop catalog seed [] (sorted_ref_keys refs) of
        (fetched, missing) \<Rightarrow> (fetched, map unavailable_diag missing))"

definition set_diagnostics :: "component_definition list \<Rightarrow> runtime_diagnostic list" where
  "set_diagnostics ds = map (\<lambda>e. \<lparr>diag_code = ld_code e, diag_message = ld_message e, diag_path = [], diag_subject = ld_subject e\<rparr>)
     (csv_errors (validate_component_set ds))"

definition invalid_definition_diags :: "component_definition \<Rightarrow> runtime_diagnostic list" where
  "invalid_definition_diags d = map (\<lambda>e. run_diag ''component_definition_invalid''
     (''component '' @ key_str (definition_key d) @ '': '' @ ld_code e @ '': '' @ ld_message e) (key_str (definition_key d)))
     (sv_errors (validate_component_definition d))"

definition run_definition_gates ::
    "schema_lib \<Rightarrow> component_definition list \<Rightarrow> registry_view \<Rightarrow> component_catalog \<Rightarrow> runtime_diagnostic list
     \<Rightarrow> runtime_diagnostic list res" where
  "run_definition_gates lib ordered view fetched diagnostics =
     (let ds = diagnostics @ set_diagnostics ordered @ concat (map invalid_definition_diags ordered) in
      if ds \<noteq> [] then Inr ds
      else try_bind (traverse (\<lambda>d. check_definition lib d view fetched) ordered) (\<lambda>dss. Inr (concat dss)))"

fun instantiate_nodes ::
    "nat \<Rightarrow> schema_lib \<Rightarrow> component_catalog \<Rightarrow> registry_view \<Rightarrow> component_ref list \<Rightarrow> node_instance list
     \<Rightarrow> (string \<times> component_instance) list \<Rightarrow> ((string \<times> component_instance) list \<times> runtime_diagnostic list) res" where
  "instantiate_nodes fuel lib fetched view refs [] acc = Inr (acc, [])"
| "instantiate_nodes fuel lib fetched view refs (RegisteredNode _ _ _ _ _ _ # ns) acc =
     instantiate_nodes fuel lib fetched view refs ns acc"
| "instantiate_nodes fuel lib fetched view refs (ComponentRefNode i r ps _ _ # ns) acc =
     try_bind (ref_key_for i r refs) (\<lambda>k.
       case map_of fetched k of
         None \<Rightarrow> Inl (KeyError (key_repr k))
       | Some d \<Rightarrow>
           try_bind (instantiate fuel lib fetched view i ps d [i]) (\<lambda>(c, ds).
           try_bind (instantiate_nodes fuel lib fetched view refs ns (AList.update i c acc)) (\<lambda>(cs, ds').
             Inr (cs, ds @ ds'))))"

definition ordered_definitions :: "component_catalog \<Rightarrow> component_definition list" where
  "ordered_definitions fetched = map snd (sort_key fst fetched)"

definition resolve_strategy_components ::
    "schema_lib \<Rightarrow> strategy_document \<Rightarrow> component_catalog \<Rightarrow> registry_view \<Rightarrow> resolved_strategy res" where
  "resolve_strategy_components lib doc catalog view =
     (let (fetched, unavailable) = fetch_definition_closure [] (sd_component_refs doc) catalog in
      try_bind (run_definition_gates lib (ordered_definitions fetched) view fetched unavailable) (\<lambda>gate.
      try_bind (if gate \<noteq> [] then Inr ([], [])
                else instantiate_nodes (Suc (length fetched)) lib fetched view (sd_component_refs doc) (sd_nodes doc) [])
        (\<lambda>(instances, ds).
          let ordered = sort_runtime_diagnostics (gate @ ds) in
          Inr \<lparr>rst_ok = (ordered = []), rst_diagnostics = ordered, rst_instances = instances\<rparr>)))"

definition diagnose_component_definition ::
    "schema_lib \<Rightarrow> component_definition \<Rightarrow> component_catalog \<Rightarrow> registry_view \<Rightarrow> runtime_diagnostic list res" where
  "diagnose_component_definition lib d catalog view =
     (let own = definition_key d;
          (fetched, unavailable) = fetch_definition_closure [(own, d)] (cd_component_refs d) catalog in
      try_bind (run_definition_gates lib
          (d # map snd (filter (\<lambda>(k, _). k \<noteq> own) (sort_key fst fetched))) view fetched unavailable)
        (\<lambda>ds. Inr (sort_runtime_diagnostics ds)))"

subsection \<open>The closure is the reachable definitions\<close>

definition pins :: "component_definition \<Rightarrow> component_key set" where
  "pins d = ref_key ` set (cd_component_refs d)"

definition catalog_dependency :: "component_catalog \<Rightarrow> (component_key \<times> component_key) set" where
  "catalog_dependency c = {(k, k'). \<exists>d. map_of c k = Some d \<and> k' \<in> pins d}"

definition reachable_keys :: "component_catalog \<Rightarrow> component_key set \<Rightarrow> component_key set" where
  "reachable_keys c roots = (catalog_dependency c)\<^sup>* `` roots"

lemma sorted_ref_keys_set: "set (sorted_ref_keys (cd_component_refs d)) = pins d"
  by (simp add: sorted_ref_keys_def pins_def)

definition fetch_inv ::
    "component_catalog \<Rightarrow> component_catalog \<Rightarrow> component_key set \<Rightarrow> component_catalog \<Rightarrow> component_key list
     \<Rightarrow> component_key set \<Rightarrow> bool" where
  "fetch_inv catalog seed roots fetched missing queue \<longleftrightarrow>
     (\<forall>k d. (k, d) \<in> set fetched \<longrightarrow> (k, d) \<in> set seed \<or> map_of catalog k = Some d \<and> k \<in> reachable_keys catalog roots \<and>
        pins d \<subseteq> fst ` set fetched \<union> set missing \<union> queue) \<and>
     distinct (map fst fetched) \<and> distinct missing \<and>
     (\<forall>k \<in> set missing. map_of catalog k = None \<and> k \<in> reachable_keys catalog roots \<and> k \<notin> fst ` set fetched) \<and>
     queue \<subseteq> reachable_keys catalog roots \<and>
     roots \<subseteq> fst ` set fetched \<union> set missing \<union> queue"

lemma reachable_step:
  "k \<in> reachable_keys c roots \<Longrightarrow> map_of c k = Some d \<Longrightarrow> pins d \<subseteq> reachable_keys c roots"
  by (auto simp: reachable_keys_def catalog_dependency_def intro: rtrancl_into_rtrancl)

lemma fetch_loop_inv:
  "fetch_inv catalog seed roots fetched missing (set queue) \<Longrightarrow>
   fetch_loop catalog fetched missing queue = (fetched', missing') \<Longrightarrow>
   fetch_inv catalog seed roots fetched' missing' {}"
proof (induction catalog fetched missing queue rule: fetch_loop.induct)
  case (2 catalog fetched missing k queue)
  consider (seen) "map_of fetched k \<noteq> None \<or> k \<in> set missing"
    | (absent) "\<not> (map_of fetched k \<noteq> None \<or> k \<in> set missing)" "map_of catalog k = None"
    | (found) d where "\<not> (map_of fetched k \<noteq> None \<or> k \<in> set missing)" "map_of catalog k = Some d"
    by fastforce
  then show ?case
  proof cases
    case seen
    then have "k \<in> fst ` set fetched \<union> set missing" by (auto simp: map_of_eq_None_iff)
    then have "fetch_inv catalog seed roots fetched missing (set queue)"
    proof -
      have "fst ` set fetched \<union> set missing \<union> set (k # queue) = fst ` set fetched \<union> set missing \<union> set queue"
        using \<open>k \<in> fst ` set fetched \<union> set missing\<close> by (auto simp only: list.set)
      then show ?thesis using 2(4) unfolding fetch_inv_def by (simp only:) simp
    qed
    then show ?thesis using 2(1)[OF seen] 2(5) seen by simp
  next
    case absent
    then have "fetch_inv catalog seed roots fetched (missing @ [k]) (set queue)"
    proof -
      have "fst ` set fetched \<union> set missing \<union> set (k # queue) = fst ` set fetched \<union> set (missing @ [k]) \<union> set queue"
        by (simp only: list.set set_append) blast
      then show ?thesis using 2(4) absent unfolding fetch_inv_def by (simp only:) (auto simp: map_of_eq_None_iff)
    qed
    then show ?thesis using 2(2)[OF absent] 2(5) absent by simp
  next
    case found
    have fresh: "k \<notin> fst ` set fetched" "k \<notin> set missing" using found(1) by (simp_all add: map_of_eq_None_iff)
    have k: "k \<in> reachable_keys catalog roots" using 2(4) by (auto simp: fetch_inv_def)
    have "fetch_inv catalog seed roots (fetched @ [(k, d)]) missing (set (queue @ sorted_ref_keys (cd_component_refs d)))"
    proof -
      have old: "\<forall>k' d'. (k', d') \<in> set fetched \<longrightarrow> (k', d') \<in> set seed \<or> map_of catalog k' = Some d' \<and>
          k' \<in> reachable_keys catalog roots \<and> pins d' \<subseteq> fst ` set fetched \<union> set missing \<union> set (k # queue)"
        using 2(4) unfolding fetch_inv_def by blast
      have sub: "fst ` set fetched \<union> set missing \<union> set (k # queue) \<subseteq>
          fst ` set (fetched @ [(k, d)]) \<union> set missing \<union> set (queue @ sorted_ref_keys (cd_component_refs d))" by auto
      have here: "pins d \<subseteq> fst ` set (fetched @ [(k, d)]) \<union> set missing \<union> set (queue @ sorted_ref_keys (cd_component_refs d))"
        by (auto simp: sorted_ref_keys_set)
      have "\<forall>k' d'. (k', d') \<in> set (fetched @ [(k, d)]) \<longrightarrow> (k', d') \<in> set seed \<or> map_of catalog k' = Some d' \<and>
          k' \<in> reachable_keys catalog roots \<and>
          pins d' \<subseteq> fst ` set (fetched @ [(k, d)]) \<union> set missing \<union> set (queue @ sorted_ref_keys (cd_component_refs d))"
      proof (intro allI impI)
        fix k' d' assume "(k', d') \<in> set (fetched @ [(k, d)])"
        then consider "(k', d') \<in> set fetched" | "k' = k" "d' = d" by auto
        then show "(k', d') \<in> set seed \<or> map_of catalog k' = Some d' \<and> k' \<in> reachable_keys catalog roots \<and>
          pins d' \<subseteq> fst ` set (fetched @ [(k, d)]) \<union> set missing \<union> set (queue @ sorted_ref_keys (cd_component_refs d))"
          using old sub here found(2) k by cases (meson order_trans, simp)
      qed
      moreover have "distinct (map fst (fetched @ [(k, d)]))" "distinct missing" using 2(4) fresh by (auto simp: fetch_inv_def)
      moreover have "\<forall>k' \<in> set missing. map_of catalog k' = None \<and> k' \<in> reachable_keys catalog roots \<and>
          k' \<notin> fst ` set (fetched @ [(k, d)])" using 2(4) fresh(2) unfolding fetch_inv_def by auto
      moreover have "set (queue @ sorted_ref_keys (cd_component_refs d)) \<subseteq> reachable_keys catalog roots"
        using 2(4) reachable_step[OF k found(2)] by (auto simp: fetch_inv_def sorted_ref_keys_set)
      moreover have "roots \<subseteq> fst ` set (fetched @ [(k, d)]) \<union> set missing \<union> set (queue @ sorted_ref_keys (cd_component_refs d))"
        using 2(4) unfolding fetch_inv_def by auto
      ultimately show ?thesis unfolding fetch_inv_def by blast
    qed
    then show ?thesis using 2(3)[OF found] 2(5) found by simp
  qed
qed auto

lemma fetch_closure_correct:
  assumes "fetch_loop catalog [] [] (sorted_ref_keys refs) = (fetched, missing)"
  shows "set missing = {k \<in> reachable_keys catalog (ref_key ` set refs). map_of catalog k = None}"
    and "fst ` set fetched = {k \<in> reachable_keys catalog (ref_key ` set refs). map_of catalog k \<noteq> None}"
    and "\<And>k d. (k, d) \<in> set fetched \<Longrightarrow> map_of catalog k = Some d"
    and "\<And>k d. (k, d) \<in> set fetched \<Longrightarrow> pins d \<subseteq> fst ` set fetched \<union> set missing"
    and "distinct (map fst fetched)" "distinct missing"
proof -
  let ?R = "reachable_keys catalog (ref_key ` set refs)"
  have roots: "ref_key ` set refs \<subseteq> ?R" by (auto simp: reachable_keys_def)
  have "fetch_inv catalog [] (ref_key ` set refs) [] [] (set (sorted_ref_keys refs))"
    using roots by (simp add: fetch_inv_def sorted_ref_keys_def)
  from fetch_loop_inv[OF this assms]
  have inv: "\<forall>k d. (k, d) \<in> set fetched \<longrightarrow> map_of catalog k = Some d \<and> k \<in> ?R \<and> pins d \<subseteq> fst ` set fetched \<union> set missing"
    "distinct (map fst fetched)" "distinct missing" "\<forall>k \<in> set missing. map_of catalog k = None \<and> k \<in> ?R"
    "ref_key ` set refs \<subseteq> fst ` set fetched \<union> set missing"
    unfolding fetch_inv_def by auto
  show "distinct (map fst fetched)" "distinct missing"
    "\<And>k d. (k, d) \<in> set fetched \<Longrightarrow> map_of catalog k = Some d"
    "\<And>k d. (k, d) \<in> set fetched \<Longrightarrow> pins d \<subseteq> fst ` set fetched \<union> set missing"
    using inv by auto
  have all: "k \<in> fst ` set fetched \<union> set missing" if "k \<in> ?R" for k
    using that unfolding reachable_keys_def
  proof (elim ImageE)
    fix r assume "(r, k) \<in> (catalog_dependency catalog)\<^sup>*" "r \<in> ref_key ` set refs"
    then show "k \<in> fst ` set fetched \<union> set missing"
    proof (induction rule: rtrancl_induct)
      case base then show ?case using inv(5) by blast
    next
      case (step y z)
      then obtain d where d: "map_of catalog y = Some d" "z \<in> pins d" by (auto simp: catalog_dependency_def)
      then have "y \<in> fst ` set fetched" using step inv(4) by auto
      then have "(y, d) \<in> set fetched" using inv(1) d(1) by fastforce
      then show ?case using inv(1) d(2) by fastforce
    qed
  qed
  show "set missing = {k \<in> ?R. map_of catalog k = None}" using all inv(1,4) by force
  show "fst ` set fetched = {k \<in> ?R. map_of catalog k \<noteq> None}" using all inv(1,4) by force
qed

subsection \<open>Instantiation over a sound closure\<close>

text \<open>What the gates establish of a fetched closure.\<close>

definition closure_sound :: "component_catalog \<Rightarrow> bool" where
  "closure_sound F \<longleftrightarrow> distinct (map fst F) \<and>
     (\<forall>k d. (k, d) \<in> set F \<longrightarrow> k = definition_key d \<and> definition_sound d \<and> pins d \<subseteq> fst ` set F) \<and>
     acyclic (catalog_dependency F)"

lemma closure_map_of: "closure_sound F \<Longrightarrow> (k, d) \<in> set F \<Longrightarrow> map_of F k = Some d"
  unfolding closure_sound_def by (elim conjE) (rule map_of_is_SomeI)

lemma closure_entry:
  assumes "closure_sound F" "(k, d) \<in> set F"
  shows "k = definition_key d" "definition_sound d" "pins d \<subseteq> fst ` set F"
  using assms unfolding closure_sound_def by blast+

lemma find_ref_key_declared:
  "r \<in> ref_id ` set refs \<Longrightarrow> \<exists>k. find_ref_key r refs = Some k \<and> k \<in> ref_key ` set refs"
proof -
  assume "r \<in> ref_id ` set refs"
  then have "find (\<lambda>y. ref_id y = r) refs \<noteq> None" by (auto simp: find_None_iff)
  then obtain x where "find (\<lambda>y. ref_id y = r) refs = Some x" by blast
  moreover from this have "x \<in> set refs" by (auto simp: find_Some_iff)
  ultimately show ?thesis by (auto simp: find_ref_key_def)
qed

lemma component_nodes_declared:
  "definition_sound d \<Longrightarrow> ComponentRefNode i r ps ui ext \<in> set (graph_nodes (cd_graph d)) \<Longrightarrow>
   r \<in> ref_id ` set (cd_component_refs d)"
  by (fastforce simp: definition_sound_def graph_sound_def)

lemma catalog_dependency_finite: "finite (catalog_dependency F)"
proof (rule finite_subset)
  show "catalog_dependency F \<subseteq> (\<Union>(k, d) \<in> set F. {k} \<times> pins d)"
    by (auto simp: catalog_dependency_def dest!: map_of_SomeD)
qed (auto simp: pins_def)

definition below :: "component_catalog \<Rightarrow> component_key \<Rightarrow> component_key set" where
  "below F k = (catalog_dependency F)\<^sup>+ `` {k}"

lemma below_keys:
  assumes "closure_sound F" shows "below F k \<subseteq> fst ` set F"
proof
  fix x assume "x \<in> below F k"
  then obtain y where "(y, x) \<in> catalog_dependency F" unfolding below_def by (meson Image_singleton_iff tranclE)
  then obtain d where "(y, d) \<in> set F" "x \<in> pins d" by (auto simp: catalog_dependency_def dest: map_of_SomeD)
  then show "x \<in> fst ` set F" using assms unfolding closure_sound_def by blast
qed

lemma below_child:
  assumes "closure_sound F" "map_of F k = Some d" "k' \<in> pins d"
  shows "card (below F k') < card (below F k)"
proof (rule psubset_card_mono)
  show "finite (below F k)" using below_keys[OF assms(1)] finite_subset by blast
  have e: "(k, k') \<in> catalog_dependency F" using assms(2,3) by (auto simp: catalog_dependency_def)
  have "k' \<notin> below F k'" using assms(1) by (auto simp: closure_sound_def acyclic_def below_def)
  moreover have "k' \<in> below F k" using e by (auto simp: below_def)
  moreover have "below F k' \<subseteq> below F k" using e by (auto simp: below_def intro: trancl_into_trancl2)
  ultimately show "below F k' \<subset> below F k" by blast
qed

lemma below_card:
  assumes "closure_sound F" "k \<in> fst ` set F" shows "card (below F k) < length F"
proof -
  have "k \<notin> below F k" using assms(1) by (auto simp: closure_sound_def acyclic_def below_def)
  then have "below F k \<subset> fst ` set F" using below_keys[OF assms(1)] assms(2) by blast
  then have "card (below F k) < card (fst ` set F)" by (intro psubset_card_mono) simp_all
  also have "card (fst ` set F) \<le> length F" by (metis card_length length_map list.set_map)
  finally show ?thesis .
qed

text \<open>An instance tree mirrors its definition: every component node of the body has the
  instance of the definition it pins, at its own path.\<close>

inductive instance_ok :: "component_catalog \<Rightarrow> component_instance \<Rightarrow> bool" for F where
  instance_okI: "map_of F (definition_key d) = Some d \<Longrightarrow>
    fst ` set eff = node_id ` set (graph_nodes (cd_graph d)) \<Longrightarrow>
    (\<And>i r ps ui ext. ComponentRefNode i r ps ui ext \<in> set (graph_nodes (cd_graph d)) \<Longrightarrow>
       \<exists>c. map_of ch i = Some c \<and> find_ref_key r (cd_component_refs d) = Some (definition_key (ci_definition c)) \<and>
         ci_path c = path @ [i] \<and> ci_instance_id c = i \<and> instance_ok F c) \<Longrightarrow>
    instance_ok F (ComponentInstance iid path d eff ch)"

lemma child_instances_other:
  "child_instances inst d path F eff ns acc = Inr (cs, ds) \<Longrightarrow>
   \<forall>n \<in> set ns. (case n of ComponentRefNode i' _ _ _ _ \<Rightarrow> i' \<noteq> i | _ \<Rightarrow> True) \<Longrightarrow> map_of cs i = map_of acc i"
proof (induction inst d path F eff ns acc arbitrary: ds rule: child_instances.induct)
  case (3 inst d path F eff i' r ps ui ext ns acc)
  then show ?case by (auto simp: res_simps update_conv' split: option.splits) blast+
qed auto

lemma override_params_keys:
  "override_params lib d path provided names eff = (eff', ds) \<Longrightarrow> fst ` set eff' = fst ` set eff"
proof (induction lib d path provided names eff arbitrary: eff' ds rule: override_params.induct)
  case (2 lib d path provided n ns eff)
  show ?case
  proof (cases "map_of (exposed_by_name d) n")
    case None then show ?thesis using 2(1) 2(4) by simp
  next
    case (Some p)
    show ?thesis
    proof (cases "case mk_json_schema lib (ex_schema p) of Inl _ \<Rightarrow> False | Inr schema \<Rightarrow> schema_errors lib schema (dict_get provided n JNull) \<noteq> []")
      case True
      then show ?thesis using 2(2)[OF Some refl True] 2(4) Some by (auto simp: Let_def split: prod.splits)
    next
      case False
      obtain t q where b: "ex_binds_to p = (t, q)" by fastforce
      show ?thesis
      proof (cases "map_of eff t")
        case None
        then show ?thesis using 2(3)[OF Some refl False b[symmetric] refl] 2(4) Some False b by (simp add: Let_def)
      next
        case (Some old)
        then have "t \<in> fst ` set eff" by (metis map_of_eq_None_iff option.distinct(1))
        then have "fst ` set (AList.update t x eff) = fst ` set eff" for x by (simp add: dom_update insert_absorb)
        then show ?thesis using 2(3)[OF \<open>map_of (exposed_by_name d) n = Some p\<close> refl False b[symmetric] refl] 2(4) \<open>map_of (exposed_by_name d) n = Some p\<close> False b Some
          by (simp add: Let_def)
      qed
    qed
  qed
qed simp

lemma authored_params_keys: "fst ` set (authored_params d) = node_id ` set (graph_nodes (cd_graph d))"
  by (simp add: authored_params_def dict_of_keys image_image)

lemma child_instances_total:
  assumes "\<And>i ps d' p. d' \<in> snd ` set F \<Longrightarrow> definition_key d' \<in> pins d \<Longrightarrow> \<exists>c ds. inst i ps d' p = Inr (c, ds) \<and> G d' i p c"
    and "closure_sound F" "(definition_key d, d) \<in> set F"
    and "set ns \<subseteq> set (graph_nodes (cd_graph d))" "distinct (map node_id ns)"
  shows "\<exists>cs ds. child_instances inst d path F eff ns acc = Inr (cs, ds) \<and>
    (\<forall>i r ps ui ext. ComponentRefNode i r ps ui ext \<in> set ns \<longrightarrow>
       (\<exists>c d'. map_of cs i = Some c \<and> find_ref_key r (cd_component_refs d) = Some (definition_key d') \<and>
          (definition_key d', d') \<in> set F \<and> G d' i (path @ [i]) c))"
  using assms(4,5)
proof (induction ns arbitrary: acc)
  case (Cons n ns)
  show ?case
  proof (cases n)
    case (RegisteredNode i t v ps ui ext)
    then show ?thesis using Cons.IH[of acc] Cons.prems by auto
  next
    case (ComponentRefNode i r ps ui ext)
    have sound: "definition_sound d" "pins d \<subseteq> fst ` set F" using assms(2,3) unfolding closure_sound_def by blast+
    have "r \<in> ref_id ` set (cd_component_refs d)"
      using component_nodes_declared[OF sound(1)] Cons.prems(1) ComponentRefNode by auto
    then obtain k where k: "find_ref_key r (cd_component_refs d) = Some k" "k \<in> pins d"
      using find_ref_key_declared unfolding pins_def by blast
    then obtain d' where "(k, d') \<in> set F" using sound(2) by auto
    then have d': "map_of F k = Some d'" "k = definition_key d'" "(definition_key d', d') \<in> set F"
      using assms(2) by (auto simp: closure_sound_def)
    obtain c ds where c: "inst i (dict_get eff i []) d' (path @ [i]) = Inr (c, ds)" "G d' i (path @ [i]) c"
      using assms(1)[of d' i "dict_get eff i []" "path @ [i]"] d' k(2) by force
    obtain cs ds' where cs: "child_instances inst d path F eff ns (AList.update i c acc) = Inr (cs, ds')"
      "\<forall>i r ps ui ext. ComponentRefNode i r ps ui ext \<in> set ns \<longrightarrow>
       (\<exists>c d'. map_of cs i = Some c \<and> find_ref_key r (cd_component_refs d) = Some (definition_key d') \<and>
          (definition_key d', d') \<in> set F \<and> G d' i (path @ [i]) c)"
      using Cons.IH[of "AList.update i c acc"] Cons.prems by auto
    have "\<forall>m \<in> set ns. (case m of ComponentRefNode i' _ _ _ _ \<Rightarrow> i' \<noteq> i | _ \<Rightarrow> True)"
      using Cons.prems(2) ComponentRefNode by (auto split: node_instance.splits) force
    from child_instances_other[OF cs(1) this] have "map_of cs i = Some c" by (simp add: update_conv')
    then have here: "\<exists>c d'. map_of cs i = Some c \<and> find_ref_key r (cd_component_refs d) = Some (definition_key d') \<and>
        (definition_key d', d') \<in> set F \<and> G d' i (path @ [i]) c" using k d' c(2) by blast
    have "child_instances inst d path F eff (n # ns) acc = Inr (cs, ds @ ds')"
      using cs(1) c(1) d'(1) k(1) ComponentRefNode by (simp add: ref_key_for_def)
    moreover have "\<forall>i r ps ui ext. ComponentRefNode i r ps ui ext \<in> set (n # ns) \<longrightarrow>
       (\<exists>c d'. map_of cs i = Some c \<and> find_ref_key r (cd_component_refs d) = Some (definition_key d') \<and>
          (definition_key d', d') \<in> set F \<and> G d' i (path @ [i]) c)"
      using cs(2) here ComponentRefNode unfolding list.set by blast
    ultimately show ?thesis by blast
  qed
qed auto

lemma instantiate_total:
  assumes "closure_sound F"
  shows "(definition_key d, d) \<in> set F \<Longrightarrow> card (below F (definition_key d)) < fuel \<Longrightarrow>
    \<exists>c ds. instantiate fuel lib F view iid provided d path = Inr (c, ds) \<and>
      instance_ok F c \<and> ci_definition c = d \<and> ci_path c = path \<and> ci_instance_id c = iid"
proof (induction fuel arbitrary: iid provided d path)
  case (Suc fuel)
  obtain eff inval where e: "override_params lib d path provided (sort (map fst provided)) (authored_params d) = (eff, inval)"
    by (meson surj_pair)
  have md: "map_of F (definition_key d) = Some d" using closure_map_of[OF assms Suc.prems(1)] .
  have sub: "\<exists>c ds. instantiate fuel lib F view i ps d' p = Inr (c, ds) \<and>
      (instance_ok F c \<and> ci_definition c = d' \<and> ci_path c = p \<and> ci_instance_id c = i)"
    if "d' \<in> snd ` set F" "definition_key d' \<in> pins d" for i ps d' p
  proof -
    from that(1) obtain k where "(k, d') \<in> set F" by auto
    then have "(definition_key d', d') \<in> set F" using closure_entry(1)[OF assms] by metis
    moreover have "card (below F (definition_key d')) < fuel"
      using below_child[OF assms md that(2)] Suc.prems(2) by simp
    ultimately show ?thesis using Suc.IH by blast
  qed
  have ids: "distinct (map node_id (graph_nodes (cd_graph d)))"
    using closure_entry(2)[OF assms Suc.prems(1)] by (simp add: definition_sound_def graph_sound_def)
  note total = child_instances_total[where inst = "instantiate fuel lib F view" and path = path and eff = eff and acc = "[]"
      and G = "\<lambda>d' i p c. instance_ok F c \<and> ci_definition c = d' \<and> ci_path c = p \<and> ci_instance_id c = i",
      OF _ assms Suc.prems(1) subset_refl ids]
  obtain cs ds where cs: "child_instances (instantiate fuel lib F view) d path F eff (graph_nodes (cd_graph d)) [] = Inr (cs, ds)"
    "\<forall>i r ps ui ext. ComponentRefNode i r ps ui ext \<in> set (graph_nodes (cd_graph d)) \<longrightarrow>
       (\<exists>c d'. map_of cs i = Some c \<and> find_ref_key r (cd_component_refs d) = Some (definition_key d') \<and>
          (definition_key d', d') \<in> set F \<and> instance_ok F c \<and> ci_definition c = d' \<and> ci_path c = path @ [i] \<and> ci_instance_id c = i)"
    using total[OF sub] by blast
  have "instance_ok F (ComponentInstance iid path d eff cs)"
  proof (rule instance_okI[OF md])
    show "fst ` set eff = node_id ` set (graph_nodes (cd_graph d))"
      using override_params_keys[OF e] authored_params_keys by simp
  qed (use cs(2) in metis)
  then show ?case using e cs(1) by simp
qed simp

subsection \<open>Resolution never raises on a sound document\<close>

definition refs_declared :: "component_ref list \<Rightarrow> node_instance list \<Rightarrow> bool" where
  "refs_declared refs ns \<longleftrightarrow> (\<forall>n \<in> set ns. case n of ComponentRefNode _ r _ _ _ \<Rightarrow> r \<in> ref_id ` set refs | _ \<Rightarrow> True)"

lemma graph_sound_declared: "graph_sound ns es (ref_id ` set refs) \<Longrightarrow> refs_declared refs ns"
  by (simp add: graph_sound_def refs_declared_def)

lemma refs_declared_key:
  "refs_declared refs (ComponentRefNode i r ps ui ext # ns) \<Longrightarrow>
   (\<exists>k. find_ref_key r refs = Some k \<and> k \<in> ref_key ` set refs) \<and> refs_declared refs ns"
  using find_ref_key_declared by (simp add: refs_declared_def)

lemma nested_definitions_total: "refs_declared refs ns \<Longrightarrow> \<exists>m. nested_definitions F refs ns acc = Inr m"
proof (induction F refs ns acc rule: nested_definitions.induct)
  case (3 F refs i r ps ui ext ns acc)
  obtain k where "find_ref_key r refs = Some k" using refs_declared_key[OF 3(2)] by blast
  then show ?case using 3(1)[of k] refs_declared_key[OF 3(2)] by (simp add: ref_key_for_def)
qed (auto simp: refs_declared_def)

lemma check_definition_total:
  assumes "definition_sound d" shows "\<exists>ds. check_definition lib d view F = Inr ds"
proof -
  have "refs_declared (cd_component_refs d) (graph_nodes (cd_graph d))"
    using assms graph_sound_declared by (auto simp: definition_sound_def)
  then obtain m where "nested_definitions F (cd_component_refs d) (graph_nodes (cd_graph d)) [] = Inr m"
    using nested_definitions_total by blast
  then show ?thesis by (simp add: check_definition_def Let_def)
qed

lemma traverse_total: "\<forall>x \<in> set xs. \<exists>y. f x = Inr y \<Longrightarrow> \<exists>ys. traverse f xs = Inr ys"
  by (induction xs) auto

lemma set_diagnostics_Nil: "set_diagnostics ds = [] \<longleftrightarrow> distinct (map definition_key ds) \<and> acyclic (set_dependency ds)"
proof -
  have "set_diagnostics ds = [] \<longleftrightarrow> csv_ok (validate_component_set ds)"
    by (simp add: set_diagnostics_def validate_component_set_def Let_def)
  then show ?thesis by (simp add: validate_component_set_ok)
qed

lemma invalid_definition_diags_Nil: "invalid_definition_diags d = [] \<longleftrightarrow> definition_sound d"
  by (simp add: invalid_definition_diags_def validate_component_definition_ok)

lemma run_definition_gates_total:
  "\<exists>ds. run_definition_gates lib ordered view F unavailable = Inr ds"
proof (cases "unavailable @ set_diagnostics ordered @ concat (map invalid_definition_diags ordered) = []")
  case True
  then have "\<forall>d \<in> set ordered. definition_sound d" by (auto simp: invalid_definition_diags_Nil)
  then show ?thesis
    using traverse_total[of ordered "\<lambda>d. check_definition lib d view F"] check_definition_total True
    by (auto simp: run_definition_gates_def Let_def)
qed (auto simp: run_definition_gates_def Let_def)

lemma run_definition_gates_Nil:
  assumes "run_definition_gates lib ordered view F unavailable = Inr []"
  shows "unavailable = []" "distinct (map definition_key ordered)" "acyclic (set_dependency ordered)"
    "\<And>d. d \<in> set ordered \<Longrightarrow> definition_sound d"
    "\<And>d. d \<in> set ordered \<Longrightarrow> check_definition lib d view F = Inr []"
proof -
  have nil: "unavailable @ set_diagnostics ordered @ concat (map invalid_definition_diags ordered) = []"
    using assms by (auto simp: run_definition_gates_def Let_def split: if_splits)
  then show "unavailable = []" "distinct (map definition_key ordered)" "acyclic (set_dependency ordered)"
    "\<And>d. d \<in> set ordered \<Longrightarrow> definition_sound d"
    by (auto simp: set_diagnostics_Nil invalid_definition_diags_Nil)
  obtain dss where d: "list_all2 (\<lambda>d ds. check_definition lib d view F = Inr ds) ordered dss" "concat dss = []"
    using assms nil by (auto simp: run_definition_gates_def Let_def try_bind_Inr traverse_Inr)
  show "check_definition lib d view F = Inr []" if "d \<in> set ordered" for d
    using list_all2_in_left[OF d(1) that] d(2) by auto
qed

lemma ordered_definitions_set: "set (ordered_definitions F) = snd ` set F"
  by (simp add: ordered_definitions_def)

lemma fetched_closure_sound:
  assumes "component_catalog_ok catalog" "fetch_loop catalog [] [] (sorted_ref_keys refs) = (F, [])"
    "acyclic (set_dependency (ordered_definitions F))" "\<And>d. d \<in> snd ` set F \<Longrightarrow> definition_sound d"
  shows "closure_sound F"
proof -
  note fc = fetch_closure_correct[OF assms(2)]
  have key: "k = definition_key d" if "(k, d) \<in> set F" for k d
    using fc(3)[OF that] assms(1) by (auto simp: component_catalog_ok_def dest!: map_of_SomeD)
  have pins: "pins d \<subseteq> fst ` set F" if "(k, d) \<in> set F" for k d using fc(4)[OF that] by simp
  have "catalog_dependency F \<subseteq> set_dependency (ordered_definitions F)"
  proof
    fix e assume "e \<in> catalog_dependency F"
    then obtain k k' d where e: "e = (k, k')" "map_of F k = Some d" "k' \<in> pins d" by (auto simp: catalog_dependency_def)
    then have kd: "(k, d) \<in> set F" by (simp add: map_of_SomeD)
    then have "d \<in> set (ordered_definitions F)" by (force simp: ordered_definitions_set)
    then have "(definition_key d, k') \<in> set (set_refs (ordered_definitions F))"
      using e(3) by (auto simp: set_refs_def pins_def)
    moreover have "k' \<in> definition_key ` set (ordered_definitions F)"
    proof -
      from pins[OF kd] e(3) obtain d' where "(k', d') \<in> set F" by auto
      then show ?thesis using key unfolding ordered_definitions_set by force
    qed
    ultimately show "e \<in> set_dependency (ordered_definitions F)"
      using key[OF kd] e(1) by (simp add: set_dependency_def)
  qed
  then have "acyclic (catalog_dependency F)" using assms(3) acyclic_subset by blast
  then show ?thesis unfolding closure_sound_def using fc(5) key pins assms(4) by force
qed

lemma instantiate_nodes_other:
  "instantiate_nodes fuel lib F view refs ns acc = Inr (cs, ds) \<Longrightarrow>
   \<forall>n \<in> set ns. (case n of ComponentRefNode i' _ _ _ _ \<Rightarrow> i' \<noteq> i | _ \<Rightarrow> True) \<Longrightarrow> map_of cs i = map_of acc i"
proof (induction fuel lib F view refs ns acc arbitrary: ds rule: instantiate_nodes.induct)
  case (3 fuel lib F view refs i' r ps ui ext ns acc)
  then show ?case by (auto simp: res_simps update_conv' split: option.splits)
qed auto

definition instances_ok :: "component_catalog \<Rightarrow> component_ref list \<Rightarrow> node_instance list \<Rightarrow> (string \<times> component_instance) list \<Rightarrow> bool" where
  "instances_ok F refs ns instances \<longleftrightarrow> (\<forall>i r ps ui ext. ComponentRefNode i r ps ui ext \<in> set ns \<longrightarrow>
     (\<exists>c. map_of instances i = Some c \<and> find_ref_key r refs = Some (definition_key (ci_definition c)) \<and>
        ci_path c = [i] \<and> ci_instance_id c = i \<and> instance_ok F c))"

lemma instantiate_nodes_total:
  assumes "closure_sound F" "ref_key ` set refs \<subseteq> fst ` set F" "length F < fuel"
    "refs_declared refs ns" "distinct (map node_id ns)"
  shows "\<exists>cs ds. instantiate_nodes fuel lib F view refs ns acc = Inr (cs, ds) \<and> instances_ok F refs ns cs"
  using assms(4,5)
proof (induction ns arbitrary: acc)
  case (Cons n ns)
  show ?case
  proof (cases n)
    case (RegisteredNode i t v ps ui ext)
    then show ?thesis using Cons.IH[of acc] Cons.prems by (simp add: instances_ok_def refs_declared_def)
  next
    case (ComponentRefNode i r ps ui ext)
    obtain k where k: "find_ref_key r refs = Some k" "k \<in> ref_key ` set refs"
      using refs_declared_key[of refs i r ps ui ext ns] Cons.prems(1) ComponentRefNode by blast
    with assms(2) obtain d where kd: "(k, d) \<in> set F" by auto
    note dk = closure_entry(1)[OF assms(1) kd] closure_map_of[OF assms(1) kd]
    have "card (below F (definition_key d)) < fuel"
      using below_card[OF assms(1), of "definition_key d"] kd dk(1) assms(3) by force
    then obtain c ds where c: "instantiate fuel lib F view i ps d [i] = Inr (c, ds)"
      "instance_ok F c" "ci_definition c = d" "ci_path c = [i]" "ci_instance_id c = i"
      using instantiate_total[OF assms(1)] kd dk(1) by blast
    obtain cs ds' where cs: "instantiate_nodes fuel lib F view refs ns (AList.update i c acc) = Inr (cs, ds')" "instances_ok F refs ns cs"
      using Cons.IH[of "AList.update i c acc"] Cons.prems refs_declared_key[of refs i r ps ui ext ns] ComponentRefNode by auto
    have "\<forall>m \<in> set ns. (case m of ComponentRefNode i' _ _ _ _ \<Rightarrow> i' \<noteq> i | _ \<Rightarrow> True)"
      using Cons.prems(2) ComponentRefNode by (auto split: node_instance.splits) force
    from instantiate_nodes_other[OF cs(1) this] have "map_of cs i = Some c" by (simp add: update_conv')
    then have "instances_ok F refs (n # ns) cs"
      using cs(2) k c dk ComponentRefNode unfolding instances_ok_def by auto
    moreover have "instantiate_nodes fuel lib F view refs (n # ns) acc = Inr (cs, ds @ ds')"
      using cs(1) c(1) dk(2) k(1) ComponentRefNode by (simp add: ref_key_for_def)
    ultimately show ?thesis by blast
  qed
qed (auto simp: instances_ok_def)

text \<open>On a structurally sound document resolution returns, whatever the registry: no cyclic
  definition exhausts the recursion, no reference is undeclared. Without diagnostics every
  component node has an instance tree that mirrors the definitions it pins.\<close>

lemma resolve_strategy_components_total:
  assumes "component_catalog_ok catalog" "document_sound doc"
  shows "\<exists>r. resolve_strategy_components lib doc catalog view = Inr r \<and>
    (rst_ok r \<longleftrightarrow> rst_diagnostics r = []) \<and>
    (rst_ok r \<longrightarrow> (\<exists>F. F = fst (fetch_definition_closure [] (sd_component_refs doc) catalog) \<and> closure_sound F \<and>
       instances_ok F (sd_component_refs doc) (sd_nodes doc) (rst_instances r)))"
proof -
  let ?refs = "sd_component_refs doc"
  obtain F missing where f: "fetch_loop catalog [] [] (sorted_ref_keys ?refs) = (F, missing)" by (meson surj_pair)
  then have fd: "fetch_definition_closure [] ?refs catalog = (F, map unavailable_diag missing)"
    by (simp add: fetch_definition_closure_def)
  obtain gate where g: "run_definition_gates lib (ordered_definitions F) view F (map unavailable_diag missing) = Inr gate"
    using run_definition_gates_total by blast
  show ?thesis
  proof (cases "gate = []")
    case False
    then show ?thesis using fd g by (simp add: resolve_strategy_components_def Let_def)
  next
    case True
    note gn = run_definition_gates_Nil[OF g[unfolded True]]
    have miss: "missing = []" using gn(1) by simp
    have F: "closure_sound F"
      using gn by (intro fetched_closure_sound[OF assms(1) f[unfolded miss]]) (simp_all add: ordered_definitions_set)
    have refs: "ref_key ` set ?refs \<subseteq> fst ` set F"
    proof
      fix k assume "k \<in> ref_key ` set ?refs"
      then have "k \<in> reachable_keys catalog (ref_key ` set ?refs)" by (auto simp: reachable_keys_def)
      then show "k \<in> fst ` set F" using fetch_closure_correct(1,2)[OF f] miss by auto
    qed
    have nodes: "refs_declared ?refs (sd_nodes doc)" using assms(2) graph_sound_declared by (auto simp: document_sound_def)
    have ids: "distinct (map node_id (sd_nodes doc))" using assms(2) by (simp add: document_sound_def graph_sound_def)
    obtain cs ds where cs: "instantiate_nodes (Suc (length F)) lib F view ?refs (sd_nodes doc) [] = Inr (cs, ds)"
      "instances_ok F ?refs (sd_nodes doc) cs"
      using instantiate_nodes_total[OF F refs _ nodes ids, of "Suc (length F)"] by blast
    then show ?thesis using fd g True F by (auto simp: resolve_strategy_components_def Let_def)
  qed
qed

text \<open>Saving a component checks exactly what resolving it does: an empty diagnosis means its
  whole closure is available, acyclic and sound.\<close>

lemma diagnose_component_definition_total:
  "\<exists>ds. diagnose_component_definition lib d catalog view = Inr ds"
proof -
  obtain F un where "fetch_definition_closure [(definition_key d, d)] (cd_component_refs d) catalog = (F, un)" by (meson surj_pair)
  then show ?thesis
    using run_definition_gates_total[of lib "d # map snd (filter (\<lambda>(k, _). k \<noteq> definition_key d) (sort_key fst F))" view F un]
    by (auto simp: diagnose_component_definition_def Let_def)
qed

end
