(* ===== verification/TopoOrder.thy ===== *)
theory TopoOrder
  imports Schema
begin

section \<open>The evaluation order of a graph\<close>

text \<open>
  \<open>topological_order\<close> of \<open>quantize/evaluator/plan.py\<close>: Kahn's algorithm, always taking the
  least node that is ready. The heap is a list from which the least element is popped; a dict
  from node to count or to dependents is an association list whose keys are the nodes. The
  lemmas show that on an acyclic graph the order is a permutation of the nodes in which every
  source precedes its dependents, that a cyclic graph is refused, and that the order depends
  on the sets of nodes and of edges only.
\<close>

fun relax :: "('a \<times> int) list \<Rightarrow> 'a list \<Rightarrow> 'a list \<Rightarrow> ('a \<times> int) list \<times> 'a list" where
  "relax indeg ready [] = (indeg, ready)"
| "relax indeg ready (d # ds) =
     (let k = dict_get indeg d 0 - 1 in
      relax (AList.update d k indeg) (if k = 0 then d # ready else ready) ds)"

definition pending_weight :: "('a \<times> int) list \<Rightarrow> nat" where
  "pending_weight indeg = (\<Sum>kv \<leftarrow> indeg. nat (snd kv))"

lemma pending_weight_update:
  "pending_weight (AList.update d k indeg) + nat (dict_get indeg d 0) = pending_weight indeg + nat k"
  by (induction indeg) (auto simp: pending_weight_def dict_get_def)

lemma relax_weight:
  "relax indeg ready ds = (indeg', ready') \<Longrightarrow>
   pending_weight indeg' + length ready' \<le> pending_weight indeg + length ready"
proof (induction indeg ready ds rule: relax.induct)
  case (2 indeg ready d ds)
  let ?k = "dict_get indeg d 0 - 1"
  have "pending_weight indeg' + length ready' \<le>
      pending_weight (AList.update d ?k indeg) + length (if ?k = 0 then d # ready else ready)"
    using 2(1)[OF refl] 2(2) by (simp add: Let_def)
  also have "\<dots> \<le> pending_weight indeg + length ready"
    using pending_weight_update[of d ?k indeg] by (auto split: if_splits)
  finally show ?case .
qed simp

definition heap_pop :: "'a::linorder list \<Rightarrow> 'a \<times> 'a list" where
  "heap_pop h = (let x = Min (set h) in (x, remove1 x h))"

lemma heap_pop_mem: "h \<noteq> [] \<Longrightarrow> heap_pop h = (x, h') \<Longrightarrow> x \<in> set h \<and> h' = remove1 x h \<and> (\<forall>y \<in> set h. x \<le> y)"
  by (auto simp: heap_pop_def Let_def)

lemma kahn_step:
  assumes "ready \<noteq> []" "(n, rest) = heap_pop ready" "(indeg', ready') = relax indeg rest ds"
  shows "pending_weight indeg' + length ready' < pending_weight indeg + length ready"
proof -
  have "length rest < length ready"
    using heap_pop_mem[of ready n rest] assms(1,2) by (auto simp: length_remove1 length_greater_0_conv)
  then show ?thesis using relax_weight[of indeg rest ds indeg' ready'] assms(3) by auto
qed

function kahn :: "('a::linorder \<times> 'a list) list \<Rightarrow> ('a \<times> int) list \<Rightarrow> 'a list \<Rightarrow> 'a list \<Rightarrow> 'a list" where
  "kahn dependents indeg ready order =
     (if ready = [] then order
      else case heap_pop ready of (n, rest) \<Rightarrow>
        case relax indeg rest (dict_get dependents n []) of (indeg', ready') \<Rightarrow>
          kahn dependents indeg' ready' (order @ [n]))"
  by pat_completeness auto

termination
  by (relation "measure (\<lambda>(dependents, indeg, ready, order). pending_weight indeg + length ready)")
    (simp_all add: kahn_step)

declare kahn.simps [simp del]

definition edge_pairs :: "edge list \<Rightarrow> (string \<times> string) list" where
  "edge_pairs edges = map (\<lambda>e. (fst (edge_from e), fst (edge_to e))) edges"

definition order_ids :: "'a::linorder list \<Rightarrow> ('a \<times> 'a) list \<Rightarrow> 'a list res" where
  "order_ids ids raw =
     (if length (remdups ids) \<noteq> length ids
      then Inl (ValueError ''graph has duplicate node ids; structural validation must run first'')
      else if \<not> list_all (\<lambda>(a, b). a \<in> set ids \<and> b \<in> set ids) raw
      then Inl (ValueError ''edge references an unknown node; structural validation must run first'')
      else
        let pairs = sort (remdups raw);
            dependents = map (\<lambda>n. (n, map snd (filter (\<lambda>(a, b). a = n) pairs))) ids;
            indeg = map (\<lambda>n. (n, int (length (filter (\<lambda>(a, b). b = n) pairs)))) ids;
            order = kahn dependents indeg (filter (\<lambda>n. dict_get indeg n 0 = 0) ids) []
        in if length order \<noteq> length ids
           then Inl (ValueError ''graph contains a cycle; structural validation must run first'')
           else Inr order)"

definition topological_order :: "node_instance list \<Rightarrow> edge list \<Rightarrow> string list res" where
  "topological_order nodes edges = order_ids (map node_id nodes) (edge_pairs edges)"

subsection \<open>The invariant of the loop\<close>

lemma relax_effect:
  assumes "relax indeg ready ds = (indeg', ready')" "distinct ds"
  shows "dict_get indeg' x 0 = dict_get indeg x 0 - (if x \<in> set ds then 1 else 0)"
    and "ready' = rev (filter (\<lambda>d. dict_get indeg d 0 = 1) ds) @ ready"
  using assms
proof (induction indeg ready ds rule: relax.induct)
  case (2 indeg ready d ds)
  {
    case 1
    then show ?case using "2.IH"(1)[OF refl] by (auto simp: Let_def dict_get_update split: if_splits)
  next
    case 2
    have "filter (\<lambda>x. dict_get (AList.update d (dict_get indeg d 0 - 1) indeg) x 0 = 1) ds =
        filter (\<lambda>x. dict_get indeg x 0 = 1) ds"
      using 2(2) by (intro filter_cong) (auto simp: dict_get_update)
    then show ?case using 2 "2.IH"(2)[OF refl] by (auto simp: Let_def split: if_splits)
  }
qed auto

text \<open>An order respects the edges when the sources of a node stand before it.\<close>

definition ordered_by :: "('a \<times> 'a) set \<Rightarrow> 'a list \<Rightarrow> bool" where
  "ordered_by E xs \<longleftrightarrow> (\<forall>us v ws. xs = us @ v # ws \<longrightarrow> {u. (u, v) \<in> E} \<subseteq> set us)"

lemma ordered_by_snoc: "ordered_by E (xs @ [x]) \<longleftrightarrow> ordered_by E xs \<and> {u. (u, x) \<in> E} \<subseteq> set xs"
proof
  assume r: "ordered_by E (xs @ [x])"
  have "ordered_by E xs" unfolding ordered_by_def
  proof (intro allI impI)
    fix us v ws assume "xs = us @ v # ws"
    then have "xs @ [x] = us @ v # (ws @ [x])" by simp
    with r show "{u. (u, v) \<in> E} \<subseteq> set us" unfolding ordered_by_def by blast
  qed
  with r show "ordered_by E xs \<and> {u. (u, x) \<in> E} \<subseteq> set xs" unfolding ordered_by_def by blast
next
  assume r: "ordered_by E xs \<and> {u. (u, x) \<in> E} \<subseteq> set xs"
  show "ordered_by E (xs @ [x])" unfolding ordered_by_def
  proof (intro allI impI)
    fix us v ws assume "xs @ [x] = us @ v # ws"
    then show "{u. (u, v) \<in> E} \<subseteq> set us"
      using r by (cases ws rule: rev_cases) (auto simp: ordered_by_def)
  qed
qed

definition position :: "'a list \<Rightarrow> 'a \<Rightarrow> nat" where
  "position xs v = length (takeWhile (\<lambda>x. x \<noteq> v) xs)"

lemma ordered_by_position:
  assumes "ordered_by E xs" "(u, v) \<in> E" "v \<in> set xs"
  shows "position xs u < position xs v"
proof -
  from assms(3) obtain us ws where xs: "xs = us @ v # ws" "v \<notin> set us" by (meson split_list_first)
  then have "u \<in> set us" using assms(1,2) by (auto simp: ordered_by_def)
  then obtain ps qs where us: "us = ps @ u # qs" "u \<notin> set ps" by (meson split_list_first)
  have "takeWhile (\<lambda>x. x \<noteq> u) xs = ps" "takeWhile (\<lambda>x. x \<noteq> v) xs = us"
    unfolding xs(1) using xs(2) us by (auto simp: takeWhile_append)
  then show ?thesis using us(1) by (simp add: position_def)
qed

lemma ordered_by_acyclic:
  assumes "ordered_by E xs" "E \<subseteq> set xs \<times> set xs"
  shows "acyclic E"
proof -
  have "E \<subseteq> measure (position xs)" using ordered_by_position[OF assms(1)] assms(2) by auto
  then show ?thesis using wf_acyclic wf_subset wf_measure by blast
qed

text \<open>The greedy order: each element is the least of those not yet taken whose sources all are.\<close>

definition ready_set :: "('a \<times> 'a) set \<Rightarrow> 'a set \<Rightarrow> 'a list \<Rightarrow> 'a set" where
  "ready_set E V us = {v \<in> V. v \<notin> set us \<and> {u. (u, v) \<in> E} \<subseteq> set us}"

definition greedy :: "('a::linorder \<times> 'a) set \<Rightarrow> 'a set \<Rightarrow> 'a list \<Rightarrow> bool" where
  "greedy E V xs \<longleftrightarrow> (\<forall>us v ws. xs = us @ v # ws \<longrightarrow> v \<in> ready_set E V us \<and> (\<forall>u \<in> ready_set E V us. v \<le> u))"

lemma greedy_Nil [simp]: "greedy E V []"
  by (simp add: greedy_def)

lemma greedyD: "greedy E V (us @ v # ws) \<Longrightarrow> v \<in> ready_set E V us \<and> (\<forall>u \<in> ready_set E V us. v \<le> u)"
  unfolding greedy_def by blast

lemma greedy_prefix: "greedy E V (xs @ ys) \<Longrightarrow> greedy E V xs"
  using greedyD[of E V] unfolding greedy_def[of E V xs] by (metis append_Cons append_assoc)

lemma greedy_snoc:
  "greedy E V (xs @ [x]) \<longleftrightarrow> greedy E V xs \<and> x \<in> ready_set E V xs \<and> (\<forall>u \<in> ready_set E V xs. x \<le> u)"
proof
  assume "greedy E V (xs @ [x])"
  then show "greedy E V xs \<and> x \<in> ready_set E V xs \<and> (\<forall>u \<in> ready_set E V xs. x \<le> u)"
    using greedy_prefix[of E V xs "[x]"] greedyD[of E V xs x "[]"] by blast
next
  assume g: "greedy E V xs \<and> x \<in> ready_set E V xs \<and> (\<forall>u \<in> ready_set E V xs. x \<le> u)"
  show "greedy E V (xs @ [x])" unfolding greedy_def
  proof (intro allI impI)
    fix us v ws assume eq: "xs @ [x] = us @ v # ws"
    show "v \<in> ready_set E V us \<and> (\<forall>u \<in> ready_set E V us. v \<le> u)"
    proof (cases ws rule: rev_cases)
      case Nil then show ?thesis using eq g by simp
    next
      case (snoc zs z)
      then have "xs = us @ v # zs" using eq by simp
      then show ?thesis using g greedyD by blast
    qed
  qed
qed

lemma greedy_distinct: "greedy E V xs \<Longrightarrow> distinct xs \<and> set xs \<subseteq> V \<and> ordered_by E xs"
proof (induction xs rule: rev_induct)
  case (snoc x xs)
  then show ?case by (auto simp: greedy_snoc ordered_by_snoc ready_set_def)
qed (simp add: ordered_by_def)

lemma ordered_by_source: "ordered_by E xs \<Longrightarrow> v \<in> set xs \<Longrightarrow> (u, v) \<in> E \<Longrightarrow> u \<in> set xs"
proof -
  assume o: "ordered_by E xs" "(u, v) \<in> E" and "v \<in> set xs"
  then obtain us ws where xs: "xs = us @ v # ws" by (metis split_list)
  then show ?thesis using o unfolding ordered_by_def by auto
qed

lemma greedy_unique:
  "greedy E V xs \<Longrightarrow> greedy E V ys \<Longrightarrow> length xs = length ys \<Longrightarrow> xs = ys"
proof (induction xs arbitrary: ys rule: rev_induct)
  case (snoc x xs)
  then obtain y zs where y: "ys = zs @ [y]" by (cases ys rule: rev_cases) auto
  with snoc have "xs = zs" by (auto simp: greedy_snoc)
  with snoc.prems y show ?case by (auto simp: greedy_snoc intro: antisym)
qed simp

definition kahn_inv ::
    "('a::linorder \<times> 'a) set \<Rightarrow> 'a set \<Rightarrow> ('a \<times> int) list \<Rightarrow> 'a list \<Rightarrow> 'a list \<Rightarrow> bool" where
  "kahn_inv E V indeg ready order \<longleftrightarrow> greedy E V order \<and> distinct ready \<and> set ready = ready_set E V order \<and>
     (\<forall>n. dict_get indeg n 0 = int (card {m. (m, n) \<in> E \<and> m \<notin> set order}))"

lemma kahn_inv_step:
  assumes inv: "kahn_inv E V indeg ready order" and E: "E \<subseteq> V \<times> V" "finite V"
    and pop: "ready \<noteq> []" "heap_pop ready = (n, rest)"
    and ds: "distinct ds" "set ds = {m. (n, m) \<in> E}"
    and rel: "relax indeg rest ds = (indeg', ready')"
  shows "kahn_inv E V indeg' ready' (order @ [n])"
proof -
  note I = inv[unfolded kahn_inv_def]
  note hp = heap_pop_mem[OF pop]
  have n: "n \<in> ready_set E V order" using hp I by auto
  have finE: "finite E" using E finite_subset by blast
  have fin: "finite {m. (m, x) \<in> E \<and> m \<notin> S}" for x S
    by (rule finite_subset[of _ "fst ` E"]) (use finE in force)+
  have greedy: "greedy E V (order @ [n])" using I n hp by (auto simp: greedy_snoc)
  have cnt: "dict_get indeg' x 0 = int (card {m. (m, x) \<in> E \<and> m \<notin> set (order @ [n])})" for x
  proof (cases "(n, x) \<in> E")
    case True
    then have "{m. (m, x) \<in> E \<and> m \<notin> set order} = insert n {m. (m, x) \<in> E \<and> m \<notin> set (order @ [n])}"
      using n by (auto simp: ready_set_def)
    moreover have "n \<notin> {m. (m, x) \<in> E \<and> m \<notin> set (order @ [n])}" by simp
    ultimately have "card {m. (m, x) \<in> E \<and> m \<notin> set order} = Suc (card {m. (m, x) \<in> E \<and> m \<notin> set (order @ [n])})"
      using card_insert_disjoint[OF fin[of x "set (order @ [n])"], of n] by argo
    then show ?thesis using relax_effect(1)[OF rel ds(1)] I True ds(2) by simp
  next
    case False
    then have "{m. (m, x) \<in> E \<and> m \<notin> set order} = {m. (m, x) \<in> E \<and> m \<notin> set (order @ [n])}" by auto
    then show ?thesis using relax_effect(1)[OF rel ds(1)] I False ds(2) by simp
  qed
  have zero: "dict_get indeg' x 0 = 0 \<longleftrightarrow> {u. (u, x) \<in> E} \<subseteq> set (order @ [n])" for x
    unfolding cnt using fin[of x "set (order @ [n])"] by (auto simp: card_eq_0_iff)
  have zero0: "dict_get indeg x 0 = 0 \<longleftrightarrow> {u. (u, x) \<in> E} \<subseteq> set order" for x
    using I fin[of x "set order"] by (auto simp: card_eq_0_iff)
  have fresh: "d \<notin> set order" if "(n, d) \<in> E" for d
    using greedy_distinct[of E V order] ordered_by_source[of E order d n] I n that by (auto simp: ready_set_def)
  have r': "ready' = rev (filter (\<lambda>d. dict_get indeg d 0 = 1) ds) @ rest" using relax_effect(2)[OF rel ds(1)] .
  have one: "dict_get indeg d 0 = 1 \<longleftrightarrow> dict_get indeg' d 0 = 0" if "d \<in> set ds" for d
    using relax_effect(1)[OF rel ds(1), of d] that by simp
  have set_rest: "set rest = ready_set E V order - {n}" using hp I by auto
  have "dict_get indeg x 0 = 0" if "x \<in> set rest" for x using that set_rest zero0 by (auto simp: ready_set_def)
  then have "distinct ready'" unfolding r' using ds(1) hp I by fastforce
  moreover have "set ready' = ready_set E V (order @ [n])"
  proof (intro set_eqI iffI)
    fix x assume "x \<in> set ready'"
    then consider "x \<in> set ds" "dict_get indeg' x 0 = 0" | "x \<in> set rest" unfolding r' using one by auto
    then show "x \<in> ready_set E V (order @ [n])"
    proof cases
      case 1
      then show ?thesis using zero fresh ds(2) n E unfolding ready_set_def by auto
    next
      case 2
      then show ?thesis unfolding set_rest by (auto simp: ready_set_def)
    qed
  next
    fix x assume x: "x \<in> ready_set E V (order @ [n])"
    show "x \<in> set ready'"
    proof (cases "(n, x) \<in> E")
      case True
      then show ?thesis unfolding r' using x zero ds(2) one by (auto simp: ready_set_def)
    next
      case False
      then show ?thesis unfolding r' using x set_rest by (auto simp: ready_set_def)
    qed
  qed
  ultimately show ?thesis unfolding kahn_inv_def using greedy cnt by blast
qed

lemma kahn_correct:
  assumes "kahn_inv E V indeg ready order" "E \<subseteq> V \<times> V" "finite V"
    and "\<And>n. n \<in> V \<Longrightarrow> distinct (dict_get dependents n []) \<and> set (dict_get dependents n []) = {m. (n, m) \<in> E}"
  shows "greedy E V (kahn dependents indeg ready order) \<and> ready_set E V (kahn dependents indeg ready order) = {}"
  using assms(1,4)
proof (induction dependents indeg ready order rule: kahn.induct)
  case (1 dependents indeg ready order)
  show ?case
  proof (cases "ready = []")
    case True
    then show ?thesis using 1(2) by (simp add: kahn.simps kahn_inv_def)
  next
    case False
    obtain n rest where p: "heap_pop ready = (n, rest)" by fastforce
    obtain i' r' where r: "relax indeg rest (dict_get dependents n []) = (i', r')" by fastforce
    have "n \<in> V" using heap_pop_mem[OF False p] 1(2) by (auto simp: kahn_inv_def ready_set_def)
    then have "kahn_inv E V i' r' (order @ [n])"
      by (intro kahn_inv_step[OF 1(2) assms(2,3) False p _ _ r]) (simp_all add: 1(3))
    from 1(1)[OF False p[symmetric] r[symmetric] this 1(3)] show ?thesis
      using False p r by (simp add: kahn.simps[of dependents indeg ready order])
  qed
qed

text \<open>On a graph: the result is the greedy order of its nodes and edges, whole exactly when
  the graph is acyclic.\<close>

lemma ready_set_exists:
  assumes "acyclic E" "finite V" "E \<subseteq> V \<times> V" "\<not> V \<subseteq> set xs"
  shows "ready_set E V xs \<noteq> {}"
proof -
  have "wf E" using assms(1-3) finite_acyclic_wf finite_subset by blast
  moreover obtain v where "v \<in> V - set xs" using assms(4) by blast
  ultimately obtain z where "z \<in> V - set xs" "\<And>y. (y, z) \<in> E \<Longrightarrow> y \<notin> V - set xs" by (metis wfE_min)
  then show ?thesis using assms(3) by (auto simp: ready_set_def)
qed

lemma order_ids_run:
  assumes "distinct ids" "set raw \<subseteq> set ids \<times> set ids"
  shows "\<exists>order. greedy (set raw) (set ids) order \<and> ready_set (set raw) (set ids) order = {} \<and>
    order_ids ids raw = (if length order = length ids then Inr order
      else Inl (ValueError ''graph contains a cycle; structural validation must run first''))"
proof -
  let ?E = "set raw" and ?V = "set ids"
  define pairs where "pairs = sort (remdups raw)"
  define dependents where "dependents = map (\<lambda>n. (n, map snd (filter (\<lambda>(a, b). a = n) pairs))) ids"
  define indeg where "indeg = map (\<lambda>n. (n, int (length (filter (\<lambda>(a, b). b = n) pairs)))) ids"
  let ?ready = "filter (\<lambda>n. dict_get indeg n 0 = 0) ids"
  have pairs: "distinct pairs" "set pairs = ?E" by (simp_all add: pairs_def)
  have deps: "distinct (dict_get dependents n []) \<and> set (dict_get dependents n []) = {m. (n, m) \<in> ?E}" if "n \<in> ?V" for n
  proof -
    have "distinct (map snd (filter (\<lambda>(a, b). a = n) pairs))"
      using pairs(1) by (auto simp: distinct_map inj_on_def)
    then show ?thesis using that pairs(2) by (force simp: dependents_def dict_get_map)
  qed
  have cnt: "dict_get indeg n 0 = int (card {m. (m, n) \<in> ?E \<and> m \<notin> set []})" for n
  proof -
    have "length (filter (\<lambda>(a, b). b = n) pairs) = card (set (filter (\<lambda>(a, b). b = n) pairs))"
      using distinct_card[OF distinct_filter[OF pairs(1)]] by simp
    also have "set (filter (\<lambda>(a, b). b = n) pairs) = (\<lambda>m. (m, n)) ` {m. (m, n) \<in> ?E}"
      using pairs(2) by auto
    also have "card \<dots> = card {m. (m, n) \<in> ?E}" by (rule card_image) (simp add: inj_on_def)
    finally have len: "length (filter (\<lambda>(a, b). b = n) pairs) = card {m. (m, n) \<in> ?E}" .
    have "{m. (m, n) \<in> ?E} = {}" if "n \<notin> ?V" using that assms(2) by auto
    then show ?thesis using len by (auto simp: indeg_def dict_get_map)
  qed
  have fin: "finite {m. (m, n) \<in> ?E}" for n
    by (rule finite_subset[of _ "fst ` ?E"]) force+
  have "set ?ready = ready_set ?E ?V []" using cnt fin by (auto simp: ready_set_def card_eq_0_iff)
  then have "kahn_inv ?E ?V indeg ?ready []" using assms(1) cnt by (simp add: kahn_inv_def)
  from kahn_correct[OF this assms(2) _ deps]
  have k: "greedy ?E ?V (kahn dependents indeg ?ready []) \<and> ready_set ?E ?V (kahn dependents indeg ?ready []) = {}" by simp
  have "list_all (\<lambda>(a, b). a \<in> set ids \<and> b \<in> set ids) raw" using assms(2) by (auto simp: list_all_iff)
  then have "order_ids ids raw = (if length (kahn dependents indeg ?ready []) = length ids
      then Inr (kahn dependents indeg ?ready [])
      else Inl (ValueError ''graph contains a cycle; structural validation must run first''))"
    using assms(1) by (simp add: order_ids_def Let_def dependents_def indeg_def pairs_def distinct_remdups_id)
  with k show ?thesis by metis
qed

lemma order_ids_Inr:
  assumes "order_ids ids raw = Inr order"
  shows "distinct ids" "set raw \<subseteq> set ids \<times> set ids" "greedy (set raw) (set ids) order" "set order = set ids"
    "distinct order" "ordered_by (set raw) order"
proof -
  have d: "distinct ids" using assms by (auto simp: order_ids_def length_remdups_card_conv card_distinct split: if_splits)
  have r: "set raw \<subseteq> set ids \<times> set ids" using assms by (auto simp: order_ids_def list_all_iff split: if_splits)
  from order_ids_run[OF d r] assms have g: "greedy (set raw) (set ids) order" "length order = length ids"
    by (auto split: if_splits)
  show "distinct ids" "set raw \<subseteq> set ids \<times> set ids" "greedy (set raw) (set ids) order" using d r g by auto
  show "distinct order" "ordered_by (set raw) order" using greedy_distinct[OF g(1)] by auto
  show "set order = set ids"
    using greedy_distinct[OF g(1)] g(2) d by (metis card_subset_eq distinct_card List.finite_set)
qed

lemma order_ids_acyclic:
  assumes "distinct ids" "set raw \<subseteq> set ids \<times> set ids"
  shows "(\<exists>order. order_ids ids raw = Inr order) \<longleftrightarrow> acyclic (set raw)"
proof
  assume "\<exists>order. order_ids ids raw = Inr order"
  then show "acyclic (set raw)" using order_ids_Inr ordered_by_acyclic assms(2) by metis
next
  assume ac: "acyclic (set raw)"
  from order_ids_run[OF assms] obtain order where o: "greedy (set raw) (set ids) order" "ready_set (set raw) (set ids) order = {}"
    "order_ids ids raw = (if length order = length ids then Inr order
      else Inl (ValueError ''graph contains a cycle; structural validation must run first''))" by blast
  have "set ids \<subseteq> set order" using ready_set_exists[OF ac _ assms(2)] o(2) by blast
  then have "set order = set ids" "distinct order" using greedy_distinct[OF o(1)] by auto
  then have "length order = length ids" using assms(1) distinct_card by metis
  then show "\<exists>order. order_ids ids raw = Inr order" using o(3) by auto
qed

lemma order_ids_depends_on_sets:
  assumes "order_ids ids raw = Inr order" "order_ids ids' raw' = Inr order'" "set ids = set ids'" "set raw = set raw'"
  shows "order = order'"
proof -
  have "length order = length order'"
    using order_ids_Inr(4,5)[OF assms(1)] order_ids_Inr(4,5)[OF assms(2)] assms(3) distinct_card by metis
  with order_ids_Inr(3)[OF assms(1)] order_ids_Inr(3)[OF assms(2)] assms(3,4) show ?thesis
    using greedy_unique by metis
qed

end
