(* ===== verification/Preflight.thy ===== *)
theory Preflight
  imports Resolve TopoOrder
begin

section \<open>Document pre-flight and warm-up\<close>

text \<open>
  \<open>quantize/evaluator/preflight.py\<close> and the warm-up resolution of
  \<open>quantize/evaluator/plan.py\<close>: the five document checks, each layer gated on the earlier
  ones, and the declared warm-up of every node of the resolved strategy. The codes are those
  of \<open>quantize/evaluator/errors.py\<close> and \<open>quantize/validation/errors.py\<close>.
\<close>

subsection \<open>Top-level wiring and the terminal\<close>

definition terminal_type_id :: string where
  "terminal_type_id = ''output.target_portfolio''"

fun is_terminal :: "node_instance \<Rightarrow> bool" where
  "is_terminal (RegisteredNode _ t _ _ _ _) \<longleftrightarrow> t = terminal_type_id"
| "is_terminal (ComponentRefNode _ _ _ _ _) \<longleftrightarrow> False"

definition terminal_nodes :: "strategy_document \<Rightarrow> node_instance list" where
  "terminal_nodes doc = filter is_terminal (sd_nodes doc)"

definition toplevel_edge_errors :: "port_tables \<Rightarrow> string list \<Rightarrow> edge \<Rightarrow> runtime_diagnostic list" where
  "toplevel_edge_errors tables component_ids e =
     (let (src, src_port) = edge_from e; (dst, dst_port) = edge_to e;
          s = port_of (pt_outputs tables) (edge_from e); t = port_of (pt_inputs tables) (edge_to e) in
      if src \<notin> set component_ids \<and> dst \<notin> set component_ids then []
      else
        (if src \<in> set component_ids \<and> map_of (pt_outputs tables) src \<noteq> None \<and> s = None
         then [run_diag_at ''unknown_output_port''
           (''component node '' @ repr_str src @ '' exposes no output '' @ repr_str src_port) [src] src_port] else []) @
        (if dst \<in> set component_ids \<and> map_of (pt_inputs tables) dst \<noteq> None \<and> t = None
         then [run_diag_at ''unknown_input_port''
           (''component node '' @ repr_str dst @ '' exposes no input '' @ repr_str dst_port) [dst] dst_port] else []) @
        (case (s, t) of
           (Some a, Some b) \<Rightarrow> if is_compatible a b then []
             else [run_diag_at ''incompatible_port_types''
               (''edge '' @ repr_str src @ ''.'' @ repr_str src_port @ '' -> '' @ repr_str dst @ ''.'' @ repr_str dst_port
                 @ '' connects incompatible port types'') [dst] dst_port]
         | _ \<Rightarrow> []))"

definition exposed_connectivity_errors ::
    "(string \<times> component_definition) list \<Rightarrow> edge list \<Rightarrow> string \<Rightarrow> runtime_diagnostic list" where
  "exposed_connectivity_errors definitions edges i = (case map_of definitions i of
     None \<Rightarrow> []
   | Some d \<Rightarrow> map (\<lambda>p. run_diag_at ''required_input_unconnected''
       (''exposed input '' @ repr_str (ep_name p) @ '' of component node '' @ repr_str i @ '' is not connected'') [i] (ep_name p))
       (filter (\<lambda>p. (i, ep_name p) \<notin> set (map edge_to edges)) (cd_exposed_inputs d)))"

definition toplevel_component_wiring ::
    "strategy_document \<Rightarrow> registry_view \<Rightarrow> resolved_strategy \<Rightarrow> runtime_diagnostic list" where
  "toplevel_component_wiring doc view resolution =
     (let definitions = map (\<lambda>(i, c). (i, ci_definition c)) (rst_instances resolution);
          tables = build_port_tables (sd_nodes doc) view definitions;
          component_ids = map fst definitions in
      map (\<lambda>(n, port). run_diag_at ''ambiguous_input''
        (''input '' @ repr_str port @ '' of node '' @ repr_str n @ '' has more than one incoming edge'') [n] port)
        (duplicate_input_edges (sd_edges doc)) @
      concat (map (toplevel_edge_errors tables component_ids) (sd_edges doc)) @
      concat (map (exposed_connectivity_errors definitions (sd_edges doc)) (sort component_ids)))"

subsection \<open>The pre-flight\<close>

record preflight_result =
  pf_structural :: "located_diagnostic list"
  pf_semantic :: "located_diagnostic list"
  pf_runtime :: "runtime_diagnostic list"
  pf_resolution :: resolved_strategy
  pf_structural_ok :: bool
  pf_semantic_ok :: bool
  pf_resolution_ok :: bool

definition preflight_ok :: "preflight_result \<Rightarrow> bool" where
  "preflight_ok p \<longleftrightarrow> pf_structural p = [] \<and> pf_semantic p = [] \<and> pf_runtime p = []"

definition empty_resolution :: resolved_strategy where
  "empty_resolution = \<lparr>rst_ok = True, rst_diagnostics = [], rst_instances = []\<rparr>"

definition terminal_errors :: "strategy_document \<Rightarrow> runtime_diagnostic list" where
  "terminal_errors doc =
     (let terminals = terminal_nodes doc in
      if terminals = [] then [run_diag ''missing_terminal_node''
        (''the graph must terminate in one '' @ repr_str terminal_type_id @ '' node'') terminal_type_id]
      else if 1 < length terminals then [run_diag ''multiple_terminal_nodes''
        (''the graph declares '' @ dec_nat (length terminals) @ '' '' @ repr_str terminal_type_id
          @ '' nodes; exactly one is required'') terminal_type_id]
      else [])"

definition run_document_preflight ::
    "schema_lib \<Rightarrow> strategy_document \<Rightarrow> registry_view \<Rightarrow> component_catalog option \<Rightarrow> preflight_result res" where
  "run_document_preflight lib doc view components =
     (let structural = validate_strategy_document doc in
      if \<not> sv_ok structural
      then Inr \<lparr>pf_structural = sv_errors structural, pf_semantic = [], pf_runtime = [],
        pf_resolution = empty_resolution, pf_structural_ok = False, pf_semantic_ok = False, pf_resolution_ok = False\<rparr>
      else
        let semantic = validate_strategy_semantics lib doc view in
        try_bind (require_component_catalog components (sd_component_refs doc)) (\<lambda>catalog.
        try_bind (resolve_strategy_components lib doc catalog view) (\<lambda>resolution.
          let wiring = (if sem_ok semantic \<and> rst_ok resolution
                then toplevel_component_wiring doc view resolution @ terminal_errors doc else []) in
          Inr \<lparr>pf_structural = sv_errors structural, pf_semantic = sem_diagnostics semantic,
            pf_runtime = sort_runtime_diagnostics (rst_diagnostics resolution @ wiring),
            pf_resolution = resolution, pf_structural_ok = True, pf_semantic_ok = sem_ok semantic,
            pf_resolution_ok = rst_ok resolution\<rparr>)))"

subsection \<open>Warm-up\<close>

type_synonym warmup_by_node = "(string list \<times> int) list"

record warmup_resolution =
  wu_by_node :: warmup_by_node
  wu_total :: int

text \<open>The walk visits the nodes of each level by ascending id. It recurses into the instance
  trees, bounded by fuel; the top-level call supplies the depth of the tree.\<close>

fun warmup_nodes ::
    "(node_instance list \<Rightarrow> params_by_node \<Rightarrow> (string \<times> component_instance) list \<Rightarrow> string list \<Rightarrow> warmup_by_node \<Rightarrow> warmup_by_node res)
     \<Rightarrow> implementation_catalog \<Rightarrow> params_by_node \<Rightarrow> (string \<times> component_instance) list \<Rightarrow> string list
     \<Rightarrow> node_instance list \<Rightarrow> warmup_by_node \<Rightarrow> warmup_by_node res" where
  "warmup_nodes walk catalog params instances path [] acc = Inr acc"
| "warmup_nodes walk catalog params instances path (RegisteredNode i t v _ _ _ # ns) acc =
     (let r = resolve_implementation catalog t v in
      case (rs_status r, rs_found r) of
        (ResolvedOk, Some ni) \<Rightarrow>
          try_bind (ni_warmup ni (dict_get params i [])) (\<lambda>w.
            warmup_nodes walk catalog params instances path ns (AList.update (path @ [i]) w acc))
      | _ \<Rightarrow> warmup_nodes walk catalog params instances path ns acc)"
| "warmup_nodes walk catalog params instances path (ComponentRefNode i _ _ _ _ # ns) acc =
     (case map_of instances i of
        None \<Rightarrow> warmup_nodes walk catalog params instances path ns acc
      | Some c \<Rightarrow>
          try_bind (walk (graph_nodes (cd_graph (ci_definition c))) (ci_effective_params c) (ci_children c) (path @ [i]) acc)
            (\<lambda>acc'. warmup_nodes walk catalog params instances path ns acc'))"

fun warmup_walk ::
    "nat \<Rightarrow> implementation_catalog \<Rightarrow> node_instance list \<Rightarrow> params_by_node \<Rightarrow> (string \<times> component_instance) list
     \<Rightarrow> string list \<Rightarrow> warmup_by_node \<Rightarrow> warmup_by_node res" where
  "warmup_walk 0 catalog nodes params instances path acc = Inl RecursionError"
| "warmup_walk (Suc fuel) catalog nodes params instances path acc =
     warmup_nodes (warmup_walk fuel catalog) catalog params instances path (sort_key node_id nodes) acc"

fun instance_depth :: "component_instance \<Rightarrow> nat" where
  "instance_depth (ComponentInstance _ _ _ _ ch) = Suc (fold max (map (\<lambda>(i, c). instance_depth c) ch) 0)"

definition instances_depth :: "(string \<times> component_instance) list \<Rightarrow> nat" where
  "instances_depth ch = fold max (map (\<lambda>(i, c). instance_depth c) ch) 0"

definition document_params :: "strategy_document \<Rightarrow> params_by_node" where
  "document_params doc = dict_of (map (\<lambda>n. (node_id n, node_params n)) (sd_nodes doc))"

definition max_default :: "int \<Rightarrow> int list \<Rightarrow> int" where
  "max_default d xs = (case xs of [] \<Rightarrow> d | y # ys \<Rightarrow> fold max ys y)"

definition resolve_warmup ::
    "strategy_document \<Rightarrow> implementation_catalog \<Rightarrow> resolved_strategy \<Rightarrow> warmup_resolution res" where
  "resolve_warmup doc catalog resolution =
     try_bind (warmup_walk (Suc (instances_depth (rst_instances resolution))) catalog (sd_nodes doc)
         (document_params doc) (rst_instances resolution) [] [])
       (\<lambda>by_node. Inr \<lparr>wu_by_node = by_node, wu_total = max_default 0 (map snd by_node)\<rparr>)"

lemma max_default_ge: "x \<in> set xs \<Longrightarrow> x \<le> max_default d xs"
proof -
  have "fold max ys y = Max (insert y (set ys))" for ys and y :: int
    by (metis Max.set_eq_fold list.set(2))
  then show "x \<in> set xs \<Longrightarrow> ?thesis" by (cases xs) (auto simp: max_default_def)
qed

lemma resolve_warmup_total_bound:
  "resolve_warmup doc catalog r = Inr w \<Longrightarrow> (path, n) \<in> set (wu_by_node w) \<Longrightarrow> n \<le> wu_total w"
  by (force simp: resolve_warmup_def try_bind_Inr intro!: max_default_ge)

lemma fold_max_ge: "(x::nat) \<in> set xs \<or> x \<le> a \<Longrightarrow> x \<le> fold max xs a"
  by (induction xs arbitrary: a) (auto simp: le_max_iff_disj)

lemma instances_depth_child: "(i, c) \<in> set ch \<Longrightarrow> instance_depth c \<le> instances_depth ch"
  unfolding instances_depth_def by (rule fold_max_ge) force

subsection \<open>What a clean pre-flight establishes\<close>

lemma run_document_preflight_total:
  assumes "component_catalog_ok catalog"
  shows "\<exists>p. run_document_preflight lib doc view (Some catalog) = Inr p"
  using resolve_strategy_components_total[OF assms, of doc lib view]
  by (auto simp: run_document_preflight_def Let_def require_component_catalog_def validate_strategy_document_ok)

lemma repeated_targets_Nil: "repeated_targets seen ts = [] \<longleftrightarrow> distinct ts \<and> set ts \<inter> set seen = {}"
  by (induction seen ts rule: repeated_targets.induct) auto

lemma duplicate_input_edges_Nil: "duplicate_input_edges edges = [] \<longleftrightarrow> distinct (map edge_to edges)"
  by (simp add: duplicate_input_edges_def sort_remdups_Nil repeated_targets_Nil)

lemma terminal_errors_Nil: "terminal_errors doc = [] \<longleftrightarrow> length (terminal_nodes doc) = 1"
  by (cases "terminal_nodes doc") (auto simp: terminal_errors_def Let_def)

definition preflight_facts :: "schema_lib \<Rightarrow> strategy_document \<Rightarrow> registry_view \<Rightarrow> component_catalog \<Rightarrow> resolved_strategy \<Rightarrow> bool" where
  "preflight_facts lib doc view F resolution \<longleftrightarrow>
     document_sound doc \<and> document_typed lib doc view \<and> rst_ok resolution \<and>
     closure_sound F \<and> instances_ok F (sd_component_refs doc) (sd_nodes doc) (rst_instances resolution) \<and>
     distinct (map edge_to (sd_edges doc)) \<and> length (terminal_nodes doc) = 1"

lemma preflight_ok_facts:
  assumes "component_catalog_ok catalog" "view_consistent view"
    "run_document_preflight lib doc view (Some catalog) = Inr p" "preflight_ok p"
  shows "preflight_facts lib doc view (fst (fetch_definition_closure [] (sd_component_refs doc) catalog)) (pf_resolution p)"
proof -
  have sound: "document_sound doc"
    using assms(3,4) validate_strategy_document_ok
    by (auto simp: run_document_preflight_def Let_def preflight_ok_def try_bind_Inr split: if_splits)
  from resolve_strategy_components_total[OF assms(1) sound, of lib view] obtain r where
    r: "resolve_strategy_components lib doc catalog view = Inr r" "rst_ok r \<longleftrightarrow> rst_diagnostics r = []"
    "rst_ok r \<longrightarrow> (\<exists>F. F = fst (fetch_definition_closure [] (sd_component_refs doc) catalog) \<and> closure_sound F \<and>
       instances_ok F (sd_component_refs doc) (sd_nodes doc) (rst_instances r))" by blast
  have ids: "distinct (map node_id (sd_nodes doc))" using sound by (simp add: document_sound_def graph_sound_def)
  let ?sem = "validate_strategy_semantics lib doc view"
  have p: "pf_semantic p = sem_diagnostics ?sem" "pf_resolution p = r"
    "pf_runtime p = sort_runtime_diagnostics (rst_diagnostics r @
       (if sem_ok ?sem \<and> rst_ok r then toplevel_component_wiring doc view r @ terminal_errors doc else []))"
    using assms(3) sound r(1)
    by (auto simp: run_document_preflight_def Let_def validate_strategy_document_ok require_component_catalog_def)
  have sem: "sem_ok ?sem" "document_typed lib doc view"
    using p(1) assms(4) validate_strategy_semantics_ok[OF assms(2) ids, of lib] by (auto simp: preflight_ok_def)
  have rok: "rst_ok r" using p(3) assms(4) r(2) by (simp add: preflight_ok_def)
  then have w: "toplevel_component_wiring doc view r = []" "terminal_errors doc = []"
    using p(3) assms(4) sem(1) by (auto simp: preflight_ok_def)
  have "duplicate_input_edges (sd_edges doc) = []"
    using w(1) by (simp add: toplevel_component_wiring_def Let_def)
  then show ?thesis
    using sound sem(2) rok r(3) w(2) p(2)
    by (auto simp: preflight_facts_def duplicate_input_edges_Nil terminal_errors_Nil)
qed

text \<open>A clean pre-flight leaves the evaluator a plan: the topological order exists.\<close>

lemma preflight_order:
  assumes "document_sound doc"
  shows "\<exists>order. topological_order (sd_nodes doc) (sd_edges doc) = Inr order"
proof -
  have g: "graph_sound (sd_nodes doc) (sd_edges doc) (ref_id ` set (sd_component_refs doc))"
    using assms by (simp add: document_sound_def)
  have e: "set (edge_pairs (sd_edges doc)) = edge_relation (sd_edges doc)"
    by (simp add: edge_pairs_def edge_relation_def)
  show ?thesis unfolding topological_order_def
    using order_ids_acyclic[of "map node_id (sd_nodes doc)" "edge_pairs (sd_edges doc)"] g
    by (simp add: graph_sound_def e)
qed

end
