(* ===== verification/Evaluate.thy ===== *)
theory Evaluate
  imports Preflight
begin

section \<open>Evaluating a strategy at one instant\<close>

text \<open>
  \<open>quantize/evaluator/evaluate.py\<close>: the executor over the topological order, its value store,
  and \<open>evaluate_strategy\<close>. The executor threads the run's recorder and memo and the store; it
  returns a diagnostic when a node fails and an exception where the code would raise. The
  recursion into component instances is bounded by fuel, one more than the depth of the instance
  tree. The run id is the canonical text of the caller's UUID.
\<close>

subsection \<open>The executor\<close>

type_synonym node_path = "string list"
type_synonym value_store = "((node_path \<times> string) \<times> runtime_value) list"
type_synonym port_ref = "string \<times> string"
type_synonym external_inputs = "(port_ref \<times> runtime_value) list"
type_synonym edge_map = "(port_ref \<times> port_ref) list"

record executor =
  ex_run :: run_state
  ex_store :: value_store

type_synonym execution = "executor \<Rightarrow> runtime_diagnostic option res \<times> executor"

definition edge_sources :: "edge list \<Rightarrow> edge_map" where
  "edge_sources edges = dict_of (map (\<lambda>e. (edge_to e, edge_from e)) edges)"

definition input_value ::
    "executor \<Rightarrow> string \<Rightarrow> string \<Rightarrow> node_path \<Rightarrow> edge_map \<Rightarrow> external_inputs \<Rightarrow> runtime_value option" where
  "input_value ex nid port path sources external =
     (case map_of sources (nid, port) of
        Some (src, src_port) \<Rightarrow> map_of (ex_store ex) (path @ [src], src_port)
      | None \<Rightarrow> map_of external (nid, port))"

definition unavailable_implementation :: "node_path \<Rightarrow> string \<Rightarrow> string \<Rightarrow> runtime_diagnostic" where
  "unavailable_implementation path t v = run_diag_at ''implementation_unavailable''
     (''no executable implementation for '' @ repr_str t @ '' '' @ repr_str v) path t"

definition missing_node_input :: "node_path \<Rightarrow> string \<Rightarrow> string \<Rightarrow> runtime_diagnostic" where
  "missing_node_input path nid port = run_diag_at ''missing_runtime_input''
     (''required input '' @ repr_str port @ '' of node '' @ repr_str nid @ '' has no runtime value'') path port"

definition missing_exposed :: "string \<Rightarrow> node_path \<Rightarrow> string \<Rightarrow> string \<Rightarrow> runtime_diagnostic" where
  "missing_exposed direction path nid name = run_diag_at ''missing_runtime_input''
     (''exposed '' @ direction @ '' '' @ repr_str name @ '' of component node '' @ repr_str nid @ '' has no runtime value'') path name"

definition execution_failed :: "node_path \<Rightarrow> string \<Rightarrow> string \<Rightarrow> exn \<Rightarrow> runtime_diagnostic" where
  "execution_failed path nid t e = run_diag_at ''node_execution_failed''
     (''node '' @ repr_str nid @ '' ('' @ t @ '') failed: '' @ exn_text e) path t"

definition wrong_ports :: "node_path \<Rightarrow> string \<Rightarrow> string \<Rightarrow> string list \<Rightarrow> string list \<Rightarrow> runtime_diagnostic" where
  "wrong_ports path nid t produced declared = run_diag_at ''wrong_output_ports''
     (''node '' @ repr_str nid @ '' produced ports '' @ repr_strs produced @ '', declared '' @ repr_strs declared) path t"

fun repr_port_type :: "port_type \<Rightarrow> string" where
  "repr_port_type (ScalarType NumberS) = ''ScalarType(kind='' @ repr_str ''Scalar'' @ '', dtype='' @ repr_str ''Number'' @ '')''"
| "repr_port_type (ScalarType IntegerS) = ''ScalarType(kind='' @ repr_str ''Scalar'' @ '', dtype='' @ repr_str ''Integer'' @ '')''"
| "repr_port_type (ScalarType BooleanS) = ''ScalarType(kind='' @ repr_str ''Scalar'' @ '', dtype='' @ repr_str ''Boolean'' @ '')''"
| "repr_port_type AssetSetType = ''AssetSetType(kind='' @ repr_str ''AssetSet'' @ '')''"
| "repr_port_type (CrossSectionType NumberX) = ''CrossSectionType(kind='' @ repr_str ''CrossSection'' @ '', dtype='' @ repr_str ''Number'' @ '')''"
| "repr_port_type (CrossSectionType BooleanX) = ''CrossSectionType(kind='' @ repr_str ''CrossSection'' @ '', dtype='' @ repr_str ''Boolean'' @ '')''"
| "repr_port_type TimeSeriesType = ''TimeSeriesType(kind='' @ repr_str ''TimeSeries'' @ '', dtype='' @ repr_str ''Number'' @ '')''"
| "repr_port_type PortfolioTargetsType = ''PortfolioTargetsType(kind='' @ repr_str ''PortfolioTargets'' @ '')''"

definition wrong_type :: "node_path \<Rightarrow> string \<Rightarrow> string \<Rightarrow> port_type \<Rightarrow> port_type \<Rightarrow> runtime_diagnostic" where
  "wrong_type path nid name produced declared = run_diag_at ''wrong_output_type''
     (''node '' @ repr_str nid @ '' output '' @ repr_str name @ '' produced '' @ repr_port_type produced
       @ '', declared '' @ repr_port_type declared) path name"

text \<open>The inputs of a registered node, in descriptor order: the first required one without a
  value is the diagnostic.\<close>

fun gather_inputs ::
    "(string \<Rightarrow> runtime_value option) \<Rightarrow> node_path \<Rightarrow> string \<Rightarrow> input_port_spec list \<Rightarrow> runtime_diagnostic + named_values" where
  "gather_inputs look path nid [] = Inr []"
| "gather_inputs look path nid (p # ps) = (case look (ip_name p) of
     Some v \<Rightarrow> try_bind (gather_inputs look path nid ps) (\<lambda>vs. Inr ((ip_name p, v) # vs))
   | None \<Rightarrow> if ip_required p then Inl (missing_node_input path nid (ip_name p)) else gather_inputs look path nid ps)"

text \<open>The outputs are checked and stored by ascending name; those before a mistyped one stay.\<close>

fun store_outputs ::
    "node_path \<Rightarrow> string \<Rightarrow> (string \<times> port_type) list \<Rightarrow> named_values \<Rightarrow> value_store \<Rightarrow> runtime_diagnostic option \<times> value_store" where
  "store_outputs path nid [] outputs store = (None, store)"
| "store_outputs path nid ((name, declared) # rest) outputs store = (case map_of outputs name of
     None \<Rightarrow> (None, store)
   | Some v \<Rightarrow> if port_type_of v \<noteq> declared then (Some (wrong_type path nid name (port_type_of v) declared), store)
       else store_outputs path nid rest outputs (AList.update (path, name) v store))"

definition declared_outputs :: "node_descriptor \<Rightarrow> (string \<times> port_type) list" where
  "declared_outputs d = sort_key fst (dict_of (map (\<lambda>p. (op_name p, op_type p)) (nd_outputs d)))"

definition accept_outputs ::
    "node_path \<Rightarrow> string \<Rightarrow> string \<Rightarrow> node_descriptor \<Rightarrow> named_values \<Rightarrow> value_store \<Rightarrow> runtime_diagnostic option \<times> value_store" where
  "accept_outputs path nid t d outputs store =
     (let declared = declared_outputs d in
      if fst ` set outputs \<noteq> fst ` set declared
      then (Some (wrong_ports path nid t (sort (remdups (map fst outputs))) (map fst declared)), store)
      else store_outputs path nid declared outputs store)"

definition run_registered ::
    "implementation_catalog \<Rightarrow> data_view \<Rightarrow> string \<Rightarrow> string \<Rightarrow> string \<Rightarrow> node_path \<Rightarrow> edge_map \<Rightarrow> params_by_node
     \<Rightarrow> external_inputs \<Rightarrow> execution" where
  "run_registered catalog view nid t v cpath sources params external ex =
     (let path = cpath @ [nid]; r = resolve_implementation catalog t v in
      case (rs_status r, rs_found r) of
        (ResolvedOk, Some ni) \<Rightarrow>
          (case gather_inputs (\<lambda>port. input_value ex nid port cpath sources external) path nid (nd_inputs (ni_descriptor ni)) of
             Inl diag \<Rightarrow> (Inr (Some diag), ex)
           | Inr inputs \<Rightarrow>
               (case ni_evaluate ni \<lparr>inv_node_id = nid, inv_component_path = cpath, inv_params = dict_get params nid [],
                    inv_inputs = inputs, inv_view = view\<rparr> (ex_run ex) of
                  (Inl e, rs) \<Rightarrow> (Inr (Some (execution_failed path nid t e)), ex\<lparr>ex_run := rs\<rparr>)
                | (Inr outputs, rs) \<Rightarrow>
                    (case accept_outputs path nid t (ni_descriptor ni) outputs (ex_store ex) of
                       (failure, store) \<Rightarrow> (Inr failure, ex\<lparr>ex_run := rs, ex_store := store\<rparr>))))
      | _ \<Rightarrow> (Inr (Some (unavailable_implementation path t v)), ex))"

fun feed_exposed ::
    "(string \<Rightarrow> runtime_value option) \<Rightarrow> node_path \<Rightarrow> string \<Rightarrow> exposed_port list \<Rightarrow> external_inputs
     \<Rightarrow> runtime_diagnostic + external_inputs" where
  "feed_exposed look path nid [] acc = Inr acc"
| "feed_exposed look path nid (p # ps) acc = (case look (ep_name p) of
     None \<Rightarrow> Inl (missing_exposed ''input'' path nid (ep_name p))
   | Some v \<Rightarrow> feed_exposed look path nid ps (AList.update (ep_maps_to p) v acc))"

fun expose_outputs ::
    "node_path \<Rightarrow> string \<Rightarrow> exposed_port list \<Rightarrow> value_store \<Rightarrow> runtime_diagnostic option \<times> value_store" where
  "expose_outputs path nid [] store = (None, store)"
| "expose_outputs path nid (p # ps) store =
     (case map_of store (path @ [fst (ep_maps_to p)], snd (ep_maps_to p)) of
        None \<Rightarrow> (Some (missing_exposed ''output'' path nid (ep_name p)), store)
      | Some v \<Rightarrow> expose_outputs path nid ps (AList.update (path, ep_name p) v store))"

type_synonym graph_execution =
  "node_instance list \<Rightarrow> edge list \<Rightarrow> node_path \<Rightarrow> params_by_node \<Rightarrow> (string \<times> component_instance) list
   \<Rightarrow> external_inputs \<Rightarrow> execution"

definition run_component ::
    "graph_execution \<Rightarrow> string \<Rightarrow> node_path \<Rightarrow> edge_map \<Rightarrow> (string \<times> component_instance) list \<Rightarrow> external_inputs \<Rightarrow> execution" where
  "run_component execute nid cpath sources instances external ex =
     (case map_of instances nid of
        None \<Rightarrow> (Inl (KeyError (repr_str nid)), ex)
      | Some c \<Rightarrow>
          let path = cpath @ [nid]; d = ci_definition c in
          (case feed_exposed (\<lambda>port. input_value ex nid port cpath sources external) path nid (cd_exposed_inputs d) [] of
            Inl diag \<Rightarrow> (Inr (Some diag), ex)
          | Inr fed \<Rightarrow>
              (case execute (graph_nodes (cd_graph d)) (graph_edges (cd_graph d)) path (ci_effective_params c) (ci_children c) fed ex of
                 (Inr None, ex') \<Rightarrow> (case expose_outputs path nid (cd_exposed_outputs d) (ex_store ex') of
                    (failure, store) \<Rightarrow> (Inr failure, ex'\<lparr>ex_store := store\<rparr>))
               | other \<Rightarrow> other)))"

fun execute_in_order :: "(string \<Rightarrow> execution) \<Rightarrow> string list \<Rightarrow> execution" where
  "execute_in_order run [] ex = (Inr None, ex)"
| "execute_in_order run (i # is) ex = (case run i ex of
     (Inr None, ex') \<Rightarrow> execute_in_order run is ex'
   | other \<Rightarrow> other)"

definition nodes_by_id :: "node_instance list \<Rightarrow> (string \<times> node_instance) list" where
  "nodes_by_id nodes = dict_of (map (\<lambda>n. (node_id n, n)) nodes)"

definition run_node ::
    "graph_execution \<Rightarrow> implementation_catalog \<Rightarrow> data_view \<Rightarrow> node_instance list \<Rightarrow> edge list \<Rightarrow> node_path \<Rightarrow> params_by_node
     \<Rightarrow> (string \<times> component_instance) list \<Rightarrow> external_inputs \<Rightarrow> string \<Rightarrow> execution" where
  "run_node execute catalog view nodes edges cpath params instances external i ex =
     (case map_of (nodes_by_id nodes) i of
        None \<Rightarrow> (Inl (KeyError (repr_str i)), ex)
      | Some (RegisteredNode nid t v _ _ _) \<Rightarrow>
          run_registered catalog view nid t v cpath (edge_sources edges) params external ex
      | Some (ComponentRefNode nid _ _ _ _) \<Rightarrow>
          run_component execute nid cpath (edge_sources edges) instances external ex)"

fun execute_graph :: "nat \<Rightarrow> implementation_catalog \<Rightarrow> data_view \<Rightarrow> graph_execution" where
  "execute_graph 0 catalog view nodes edges cpath params instances external ex = (Inl RecursionError, ex)"
| "execute_graph (Suc fuel) catalog view nodes edges cpath params instances external ex =
     (case topological_order nodes edges of
        Inl e \<Rightarrow> (Inl e, ex)
      | Inr order \<Rightarrow>
          execute_in_order
            (run_node (execute_graph fuel catalog view) catalog view nodes edges cpath params instances external) order ex)"

subsection \<open>The evaluation\<close>

record evaluation_outcome =
  ev_ok :: bool
  ev_run_id :: string
  ev_instant :: instant
  ev_diagnostics :: "runtime_diagnostic list"
  ev_targets :: "targets option"
  ev_outputs :: value_store
  ev_trace :: "trace_event list"

definition output_value :: "evaluation_outcome \<Rightarrow> node_path \<Rightarrow> string \<Rightarrow> runtime_value option" where
  "output_value out path port = map_of (ev_outputs out) (path, port)"

definition downconvert :: "string \<Rightarrow> located_diagnostic \<Rightarrow> runtime_diagnostic" where
  "downconvert prefix e =
     \<lparr>diag_code = ld_code e, diag_message = prefix @ ld_message e, diag_path = [], diag_subject = ld_subject e\<rparr>"

definition no_visible_session :: runtime_diagnostic where
  "no_visible_session = \<lparr>diag_code = ''no_visible_session'',
     diag_message = ''no market session has closed at or before the evaluation instant'',
     diag_path = [], diag_subject = None\<rparr>"

definition preflight_diagnostics :: "preflight_result \<Rightarrow> data_view \<Rightarrow> runtime_diagnostic list" where
  "preflight_diagnostics p view =
     map (downconvert ''structural: '') (pf_structural p) @ map (downconvert ''semantic: '') (pf_semantic p) @ pf_runtime p @
     (if latest_session_date view = None then [no_visible_session] else [])"

definition invalid_terminal :: "string \<Rightarrow> runtime_diagnostic" where
  "invalid_terminal nid = run_diag_at ''invalid_terminal_node''
     (''terminal node '' @ repr_str nid @ '' did not receive a PortfolioTargets value on a single input port'') [nid] nid"

definition delivered_targets :: "node_descriptor \<Rightarrow> string \<Rightarrow> edge list \<Rightarrow> value_store \<Rightarrow> targets option" where
  "delivered_targets d nid edges store = (case nd_inputs d of
     [p] \<Rightarrow> (case map_of (edge_sources edges) (nid, ip_name p) of
        Some (src, src_port) \<Rightarrow> (case map_of store ([src], src_port) of Some (TargetsV ws) \<Rightarrow> Some ws | _ \<Rightarrow> None)
      | None \<Rightarrow> None)
   | _ \<Rightarrow> None)"

definition terminal_targets :: "strategy_document \<Rightarrow> implementation_catalog \<Rightarrow> value_store \<Rightarrow> (string \<times> targets option) res" where
  "terminal_targets doc catalog store = (case terminal_nodes doc of
     RegisteredNode nid t v _ _ _ # _ \<Rightarrow> (case rs_found (resolve_implementation catalog t v) of
        None \<Rightarrow> Inl AssertionError
      | Some ni \<Rightarrow> Inr (nid, delivered_targets (ni_descriptor ni) nid (sd_edges doc) store))
   | _ \<Rightarrow> Inl (IndexError ''tuple index out of range''))"

definition execution_fuel :: "resolved_strategy \<Rightarrow> nat" where
  "execution_fuel resolution = Suc (instances_depth (rst_instances resolution))"

definition execute_document ::
    "implementation_catalog \<Rightarrow> data_view \<Rightarrow> strategy_document \<Rightarrow> resolved_strategy \<Rightarrow> execution" where
  "execute_document catalog view doc resolution =
     execute_graph (execution_fuel resolution) catalog view (sd_nodes doc) (sd_edges doc) [] (document_params doc)
       (rst_instances resolution) []"

definition conclude ::
    "string \<Rightarrow> instant \<Rightarrow> strategy_document \<Rightarrow> implementation_catalog \<Rightarrow> runtime_diagnostic option res \<times> executor
     \<Rightarrow> evaluation_outcome res" where
  "conclude run t doc catalog = (\<lambda>(r, ex).
     let out = (\<lambda>ok ds ts. \<lparr>ev_ok = ok, ev_run_id = run, ev_instant = t, ev_diagnostics = ds, ev_targets = ts,
       ev_outputs = ex_store ex, ev_trace = rec_events (run_recorder (ex_run ex))\<rparr>) in
     try_bind r (\<lambda>failure. case failure of
       Some diag \<Rightarrow> Inr (out False [diag] None)
     | None \<Rightarrow> try_bind (terminal_targets doc catalog (ex_store ex)) (\<lambda>(nid, ts). case ts of
         None \<Rightarrow> Inr (out False [invalid_terminal nid] None)
       | Some ws \<Rightarrow> Inr (out True [] (Some ws)))))"

definition evaluate_at ::
    "schema_lib \<Rightarrow> strategy_document \<Rightarrow> implementation_catalog \<Rightarrow> market_data_set \<Rightarrow> string \<Rightarrow> instant
     \<Rightarrow> component_catalog option \<Rightarrow> bool \<Rightarrow> evaluation_memo option \<Rightarrow> evaluation_outcome res \<times> evaluation_memo option" where
  "evaluate_at lib doc catalog ds run t components collect memo =
     (case (case memo of None \<Rightarrow> (Inr (), None) | Some m \<Rightarrow> map_prod id Some (assert_monotonic t m)) of
        (Inl e, memo') \<Rightarrow> (Inl e, memo')
      | (Inr _, memo') \<Rightarrow>
          (case run_document_preflight lib doc (descriptor_registry catalog) components of
             Inl e \<Rightarrow> (Inl e, memo')
           | Inr p \<Rightarrow>
               let view = as_of_utc ds t; diagnostics = preflight_diagnostics p view in
               if diagnostics \<noteq> []
               then (Inr \<lparr>ev_ok = False, ev_run_id = run, ev_instant = t,
                  ev_diagnostics = sort_runtime_diagnostics diagnostics, ev_targets = None, ev_outputs = [], ev_trace = []\<rparr>, memo')
               else
                 let done = execute_document catalog view doc (pf_resolution p)
                   \<lparr>ex_run = \<lparr>run_recorder = new_recorder run t collect, run_memo = memo'\<rparr>, ex_store = []\<rparr> in
                 (conclude run t doc catalog done, run_memo (ex_run (snd done)))))"

definition evaluate_strategy ::
    "schema_lib \<Rightarrow> strategy_document \<Rightarrow> implementation_catalog \<Rightarrow> market_data_set \<Rightarrow> string \<Rightarrow> datetime
     \<Rightarrow> component_catalog option \<Rightarrow> bool \<Rightarrow> evaluation_memo option \<Rightarrow> evaluation_outcome res \<times> evaluation_memo option" where
  "evaluate_strategy lib doc catalog ds run moment components collect memo =
     (case require_aware_utc moment ''evaluation_instant'' of
        Inl e \<Rightarrow> (Inl e, memo)
      | Inr t \<Rightarrow> evaluate_at lib doc catalog ds run t components collect memo)"

end
