(* ===== verification/Fills.thy ===== *)
theory Fills
  imports Trading MarketData
begin

section \<open>Fill application\<close>

text \<open>
  \<open>quantize/engine/fills.py\<close>. Orders are validated as a whole before any arithmetic; then
  sells, then buys, each side by ascending asset. The opening prices come from a source that may
  change when it is read (the engine's cursor), so the validation loop threads it. The
  result is the new state, the fills and the diagnostics, or the exception raised.
\<close>

definition oversell_tolerance :: pyfloat where
  "oversell_tolerance = float_1e9"

subsection \<open>Validation before any arithmetic\<close>

definition bps_supported :: "pynum \<Rightarrow> bool res" where
  "bps_supported cost_bps = (case cost_bps of
     PyBool _ \<Rightarrow> Inr False
   | PyOther _ \<Rightarrow> Inr False
   | _ \<Rightarrow> try_bind (as_float cost_bps AssertionError) (\<lambda>b. Inr (isfinite b \<and> \<not> b < 0 \<and> \<not> Fin 10000 \<le> b)))"

definition dup_diag :: "order \<Rightarrow> runtime_diagnostic" where
  "dup_diag ord = run_diag ''invalid_order''
     (''duplicate '' @ side_str (ord_side ord) @ '' order for '' @ repr_str (ord_asset ord)) (ord_asset ord)"

definition missing_open_diag :: "order \<Rightarrow> date \<Rightarrow> runtime_diagnostic" where
  "missing_open_diag ord d = run_diag ''missing_open_price''
     (''no open price visible for '' @ repr_str (ord_asset ord) @ '' at session '' @ isoformat d) (ord_asset ord)"

definition oversell_diag :: "order \<Rightarrow> pyfloat \<Rightarrow> runtime_diagnostic" where
  "oversell_diag ord held = run_diag ''invalid_order''
     (''sell of '' @ repr_float (ord_quantity ord) @ '' '' @ repr_str (ord_asset ord)
        @ '' exceeds held '' @ repr_float held) (ord_asset ord)"

fun check_orders ::
    "('s \<Rightarrow> string \<Rightarrow> date \<Rightarrow> pyfloat option \<times> 's) \<Rightarrow> portfolio_state \<Rightarrow> date \<Rightarrow> order list \<Rightarrow>
     (side \<times> string) list \<Rightarrow> (string \<rightharpoonup> pyfloat) \<Rightarrow> runtime_diagnostic list \<Rightarrow> 's \<Rightarrow>
     (string \<rightharpoonup> pyfloat) \<times> runtime_diagnostic list \<times> 's" where
  "check_orders read st d [] seen prices diags src = (prices, diags, src)"
| "check_orders read st d (ord # ords) seen prices diags src =
     (let key = (ord_side ord, ord_asset ord);
          diags1 = (if key \<in> set seen then diags @ [dup_diag ord] else diags);
          (price, src') = read src (ord_asset ord) d;
          (prices', diags2) = (case price of
             None \<Rightarrow> (prices, diags1 @ [missing_open_diag ord d])
           | Some p \<Rightarrow> (prices(ord_asset ord \<mapsto> p), diags1));
          held = quantity_of st (ord_asset ord);
          diags3 = (if ord_side ord = Sell \<and> ord_quantity ord > held + oversell_tolerance
                    then diags2 @ [oversell_diag ord held] else diags2)
      in check_orders read st d ords (key # seen) prices' diags3 src')"

subsection \<open>Sells, then buys\<close>

text \<open>The mutable locals of the loops: remaining cash, the positions dict and the fills.\<close>

record ledger =
  led_cash :: pyfloat
  led_positions :: positions
  led_fills :: "fill list"

definition lookup_price :: "(string \<rightharpoonup> pyfloat) \<Rightarrow> string \<Rightarrow> pyfloat res" where
  "lookup_price prices asset = (case prices asset of None \<Rightarrow> Inl (KeyError asset) | Some p \<Rightarrow> Inr p)"

definition led_quantity :: "ledger \<Rightarrow> string \<Rightarrow> pyfloat" where
  "led_quantity led asset = (case map_of (led_positions led) asset of Some q \<Rightarrow> q | None \<Rightarrow> 0)"

definition apply_sell :: "(string \<rightharpoonup> pyfloat) \<Rightarrow> pyfloat \<Rightarrow> ledger \<Rightarrow> order \<Rightarrow> ledger res" where
  "apply_sell prices factor led ord =
     try_bind (lookup_price prices (ord_asset ord)) (\<lambda>price.
       let held = led_quantity led (ord_asset ord);
           quantity = py_min (ord_quantity ord) held;
           gross = quantity * price;
           cost = gross * factor;
           delta = gross - cost;
           remaining = held - quantity;
           ps = (if remaining \<le> 0 \<or> feq quantity held
                 then AList.delete (ord_asset ord) (led_positions led)
                 else AList.update (ord_asset ord) remaining (led_positions led))
       in try_bind (mk_fill Sell (ord_asset ord) quantity price cost delta False) (\<lambda>f.
            Inr \<lparr>led_cash = led_cash led + delta, led_positions = ps, led_fills = led_fills led @ [f]\<rparr>))"

definition apply_buy :: "(string \<rightharpoonup> pyfloat) \<Rightarrow> pyfloat \<Rightarrow> pyfloat \<Rightarrow> ledger \<Rightarrow> order \<Rightarrow> ledger res" where
  "apply_buy prices factor clamp_tolerance led ord =
     try_bind (lookup_price prices (ord_asset ord)) (\<lambda>price.
       let unit_cost = price * (1 + factor);
           full_cost = ord_quantity ord * unit_cost
       in try_bind (if full_cost \<le> led_cash led then Inr (ord_quantity ord, False)
                    else try_bind (py_div (py_max (led_cash led) 0) unit_cost) (\<lambda>q. Inr (q, True)))
          (\<lambda>(quantity, scaled).
       let spend = quantity * unit_cost;
           cost = quantity * price * factor;
           cash1 = led_cash led - spend
       in if cash1 < 0 \<and> cash1 < - clamp_tolerance
          then Inl (ValueError (''fill application drove cash negative: '' @ repr_float cash1))
          else
            let cash2 = (if cash1 < 0 then 0 else cash1);
                ps = (if quantity > 0
                      then AList.update (ord_asset ord) (led_quantity led (ord_asset ord) + quantity) (led_positions led)
                      else led_positions led)
            in try_bind (mk_fill Buy (ord_asset ord) quantity price cost (- spend) scaled) (\<lambda>f.
                 Inr \<lparr>led_cash = cash2, led_positions = ps, led_fills = led_fills led @ [f]\<rparr>)))"

fun fold_res :: "('b \<Rightarrow> 'a \<Rightarrow> 'b res) \<Rightarrow> 'b \<Rightarrow> 'a list \<Rightarrow> 'b res" where
  "fold_res f acc [] = Inr acc"
| "fold_res f acc (x # xs) = try_bind (f acc x) (\<lambda>acc'. fold_res f acc' xs)"

definition canonical_orders :: "side \<Rightarrow> order list \<Rightarrow> order list" where
  "canonical_orders sd orders = sort_key ord_asset (filter (\<lambda>ord. ord_side ord = sd) orders)"

definition run_fills ::
    "portfolio_state \<Rightarrow> order list \<Rightarrow> (string \<rightharpoonup> pyfloat) \<Rightarrow> pyfloat \<Rightarrow> (portfolio_state \<times> fill list) res" where
  "run_fills st orders prices factor =
     try_bind (fold_res (apply_sell prices factor)
                 \<lparr>led_cash = cash st, led_positions = positions st, led_fills = []\<rparr>
                 (canonical_orders Sell orders)) (\<lambda>led.
     let clamp_tolerance = py_max (led_cash led) 1 * float_1e9 in
     try_bind (fold_res (apply_buy prices factor clamp_tolerance) led (canonical_orders Buy orders)) (\<lambda>led'.
     try_bind (mk_portfolio_state (PyFloat (led_cash led')) (float_items (led_positions led'))) (\<lambda>st'.
       Inr (st', led_fills led'))))"

definition apply_orders ::
    "('s \<Rightarrow> string \<Rightarrow> date \<Rightarrow> pyfloat option \<times> 's) \<Rightarrow> portfolio_state \<Rightarrow> order list \<Rightarrow> 's \<Rightarrow> date \<Rightarrow>
     pynum \<Rightarrow> (portfolio_state \<times> fill list \<times> runtime_diagnostic list) res \<times> 's" where
  "apply_orders read st orders src fill_session cost_bps =
     (case bps_supported cost_bps of
        Inl e \<Rightarrow> (Inl e, src)
      | Inr False \<Rightarrow> (Inr (st, [], [run_diag ''invalid_transaction_costs''
            (''transaction cost of '' @ repr_pynum cost_bps
               @ '' bps is outside the engine-supported range [0, 10000)'') ''bps'']), src)
      | Inr True \<Rightarrow>
          let (prices, diags, src') = check_orders read st fill_session orders [] Map.empty [] src in
          if diags \<noteq> [] then (Inr (st, [], sort_runtime_diagnostics diags), src')
          else (try_bind (try_bind (as_float cost_bps AssertionError) (\<lambda>b. py_div b (Fin 10000))) (\<lambda>factor.
                try_bind (run_fills st orders prices factor) (\<lambda>(st', fills). Inr (st', fills, []))), src'))"

subsection \<open>What validation establishes\<close>

definition order_key :: "order \<Rightarrow> side \<times> string" where
  "order_key ord = (ord_side ord, ord_asset ord)"

definition clean_orders :: "portfolio_state \<Rightarrow> (string \<rightharpoonup> pyfloat) \<Rightarrow> order list \<Rightarrow> bool" where
  "clean_orders st prices ords \<longleftrightarrow> distinct (map order_key ords) \<and>
     (\<forall>ord \<in> set ords. (\<exists>p. prices (ord_asset ord) = Some p \<and> valid_price p) \<and>
        (ord_side ord = Sell \<longrightarrow> \<not> ord_quantity ord > quantity_of st (ord_asset ord) + oversell_tolerance))"

context open_price_source
begin

lemma check_orders_diags_length:
  "length diags \<le> length (fst (snd (check_orders src_open st d ords seen prices diags src)))"
proof (induction ords arbitrary: seen prices diags src)
  case (Cons ord ords)
  show ?case by (auto simp: Let_def case_prod_beta split: option.split intro: order_trans[OF _ Cons.IH])
qed simp

lemma check_orders_diags_grow:
  "check_orders src_open st d ords seen prices diags src = (prices', [], src') \<Longrightarrow> diags = []"
  using check_orders_diags_length[of diags st d ords seen prices src] by simp

lemma check_orders_clean:
  assumes "src_ok src" "check_orders src_open st d ords seen prices diags src = (prices', [], src')"
  shows "distinct (map order_key ords) \<and> set (map order_key ords) \<inter> set seen = {} \<and>
    (\<forall>ord \<in> set ords. (\<exists>p. fst (src_open src (ord_asset ord) d) = Some p \<and> prices' (ord_asset ord) = Some p) \<and>
       (ord_side ord = Sell \<longrightarrow> \<not> ord_quantity ord > quantity_of st (ord_asset ord) + oversell_tolerance)) \<and>
    (\<forall>a. a \<notin> ord_asset ` set ords \<longrightarrow> prices' a = prices a)"
  using assms
proof (induction ords arbitrary: seen prices diags src)
  case (Cons ord ords)
  obtain price src1 where rd: "src_open src (ord_asset ord) d = (price, src1)" by fastforce
  have ok1: "src_ok src1" using read_ok[OF Cons.prems(1), of "ord_asset ord" d] rd by simp
  have stable: "fst (src_open src1 a d) = fst (src_open src a d)" for a
    using read_stable[OF Cons.prems(1), of "ord_asset ord" d a d] rd by simp
  from Cons.prems(2) obtain diags1 where
    rest: "check_orders src_open st d ords ((ord_side ord, ord_asset ord) # seen)
       (case price of None \<Rightarrow> prices | Some p \<Rightarrow> prices(ord_asset ord \<mapsto> p)) diags1 src1 = (prices', [], src')"
    and d1: "diags1 = [] \<Longrightarrow> (ord_side ord, ord_asset ord) \<notin> set seen \<and> price \<noteq> None \<and>
      \<not> (ord_side ord = Sell \<and> ord_quantity ord > quantity_of st (ord_asset ord) + oversell_tolerance)"
    by (auto simp: rd Let_def split: option.splits if_splits)
  have "diags1 = []" using check_orders_diags_grow[OF rest] by simp
  with d1 obtain p where p: "price = Some p" and new: "(ord_side ord, ord_asset ord) \<notin> set seen"
      "ord_side ord = Sell \<longrightarrow> \<not> ord_quantity ord > quantity_of st (ord_asset ord) + oversell_tolerance"
    by auto
  note IH = Cons.IH[OF ok1 rest]
  have "prices' (ord_asset ord) = Some p"
  proof (cases "ord_asset ord \<in> ord_asset ` set ords")
    case True
    then show ?thesis using IH stable rd p by fastforce
  qed (use IH p in simp)
  then show ?case using IH new rd p stable by (auto simp: order_key_def)
qed simp

lemma check_orders_prices:
  assumes "src_ok src" "check_orders src_open st d ords [] Map.empty [] src = (prices, [], src')"
  shows "clean_orders st prices ords"
    and "\<forall>ord \<in> set ords. prices (ord_asset ord) = fst (src_open src (ord_asset ord) d)"
  using check_orders_clean[OF assms] read_valid[OF assms(1)] unfolding clean_orders_def by fastforce+

lemma check_orders_src_ok:
  "src_ok src \<Longrightarrow> src_ok (snd (snd (check_orders src_open st d ords seen prices diags src)))"
proof (induction ords arbitrary: seen prices diags src)
  case (Cons ord ords)
  obtain price src1 where rd: "src_open src (ord_asset ord) d = (price, src1)" by fastforce
  have "src_ok src1" using read_ok[OF Cons.prems, of "ord_asset ord" d] rd by simp
  with Cons.IH show ?case by (simp add: rd Let_def case_prod_beta)
qed simp

lemma apply_orders_src_ok: "src_ok src \<Longrightarrow> src_ok (snd (apply_orders src_open st orders src d bps))"
  using check_orders_src_ok[of src st d orders "[]" Map.empty "[]"]
  by (auto simp: apply_orders_def Let_def split: sum.split bool.split prod.split)

text \<open>A successful event with no diagnostics ran the fill loops on a validated batch.\<close>

lemma apply_orders_run:
  assumes "src_ok src" "apply_orders src_open st orders src d bps = (r, src')"
    and "r = Inr (st', fills, []) \<or> r = Inl e"
  shows "bps_supported bps = Inl e \<or>
    (\<exists>prices b. clean_orders st prices orders \<and>
      (\<forall>ord \<in> set orders. prices (ord_asset ord) = fst (src_open src (ord_asset ord) d)) \<and>
      bps_supported bps = Inr True \<and> as_float bps AssertionError = Inr b \<and>
      (case run_fills st orders prices (fdiv b (Fin 10000)) of
         Inl e' \<Rightarrow> r = Inl e' | Inr (st'', fs) \<Rightarrow> r = Inr (st'', fs, [])))"
proof (cases "bps_supported bps")
  case (Inr ok)
  then have ok: "ok" using assms(2,3) by (cases ok) (auto simp: apply_orders_def)
  then obtain b where b: "as_float bps AssertionError = Inr b"
    using Inr by (cases bps) (auto simp: bps_supported_def res_simps)
  obtain prices diags src1 where chk: "check_orders src_open st d orders [] Map.empty [] src = (prices, diags, src1)"
    using prod_cases3 by blast
  have "diags = []" using assms(2,3) chk Inr ok by (auto simp: apply_orders_def split: if_splits)
  note checked = check_orders_prices[OF assms(1) chk[unfolded this]]
  moreover have "r = try_bind (run_fills st orders prices (fdiv b (Fin 10000))) (\<lambda>(st', fills). Inr (st', fills, []))"
    using assms(2) chk Inr ok b \<open>diags = []\<close> by (simp add: apply_orders_def py_div_def feq_def)
  ultimately show ?thesis using b Inr ok by (auto split: sum.split prod.split)
qed (use assms in \<open>auto simp: apply_orders_def\<close>)

end

subsection \<open>Magnitudes\<close>

text \<open>\<open>bounded B x\<close>: a double between zero and \<open>B\<close>.\<close>

definition bounded :: "rat \<Rightarrow> pyfloat \<Rightarrow> bool" where
  "bounded B x \<longleftrightarrow> (\<exists>r. x = Fin r \<and> 0 \<le> r \<and> r \<le> B \<and> fl r = Fin r)"

lemma boundedE: "bounded B x \<Longrightarrow> (\<And>r. x = Fin r \<Longrightarrow> 0 \<le> r \<Longrightarrow> r \<le> B \<Longrightarrow> fl r = Fin r \<Longrightarrow> P) \<Longrightarrow> P"
  by (auto simp: bounded_def)

lemma fl_scaled_nat:
  assumes "m \<le> 2 ^ 53" "k \<le> 970" shows "fl (of_nat m * 2 ^ k) = Fin (of_nat m * 2 ^ k)"
proof -
  have "of_nat m * 2 ^ k * sub_scale = of_nat m * 2 ^ (k + 1074)"
    by (simp add: sub_scale_def power_add)
  moreover have "of_nat m * (2::rat) ^ k < float_limit"
  proof -
    have "(of_nat m :: rat) \<le> of_nat (2 ^ 53)" using assms(1) by (simp only: of_nat_le_iff)
    then have "of_nat m * (2::rat) ^ k \<le> 2 ^ 53 * 2 ^ k" by (intro mult_right_mono) simp_all
    also have "\<dots> < float_limit" using assms(2) float_limit_gt[of "53 + k"] by (simp add: power_add)
    finally show ?thesis .
  qed
  ultimately have "fl_pos (of_nat m * 2 ^ k) = Fin (of_nat m * 2 ^ k)"
    using assms(1) by (intro fl_pos_exact[of _ m "k + 1074"])
  moreover have "\<not> of_nat m * (2::rat) ^ k < 0" by (simp add: not_less)
  ultimately show ?thesis by (simp add: fl_def)
qed

lemma fl_bounded:
  assumes "0 \<le> x" "x \<le> of_nat m * 2 ^ k" "m \<le> 2 ^ 53" "k \<le> 970"
  shows "bounded (of_nat m * 2 ^ k) (fl x)"
  using fl_mono[OF assms(2)] fl_scaled_nat[OF assms(3,4)] fl_idem
  by (cases rule: fl_nonneg_cases[OF assms(1)]) (auto simp: bounded_def)

lemma fl_bounded_pow: "0 \<le> x \<Longrightarrow> x \<le> 2 ^ k \<Longrightarrow> k \<le> 970 \<Longrightarrow> bounded (2 ^ k) (fl x)"
  using fl_bounded[of x 1 k] by simp

lemma fl_bounded_self:
  assumes "0 \<le> x" "x \<le> B" "fl B = Fin B" shows "bounded B (fl x)"
  using fl_mono[OF assms(2)] assms(3) fl_idem
  by (cases rule: fl_nonneg_cases[OF assms(1)]) (auto simp: bounded_def)

lemma bounded_mono: "bounded B x \<Longrightarrow> B \<le> C \<Longrightarrow> bounded C x"
  by (auto simp: bounded_def)

lemma bounded_mult:
  assumes "bounded (2 ^ i) x" "bounded (2 ^ j) y" "i + j \<le> 970" shows "bounded (2 ^ (i + j)) (x * y)"
  using assms(1,2)
proof (elim boundedE)
  fix r s assume r: "x = Fin r" "0 \<le> r" "r \<le> 2 ^ i" and s: "y = Fin s" "0 \<le> s" "s \<le> 2 ^ j"
  have "r * s \<le> 2 ^ (i + j)" unfolding power_add by (rule mult_mono) (use r s in auto)
  then show ?thesis using r s assms(3) by (simp add: fl_bounded_pow)
qed

lemma bounded_sub: "bounded B x \<Longrightarrow> bounded C y \<Longrightarrow> y \<le> x \<Longrightarrow> bounded B (x - y)"
proof (elim boundedE)
  fix r s assume a: "y \<le> x" "x = Fin r" "0 \<le> r" "r \<le> B" "fl r = Fin r" "y = Fin s" "0 \<le> s"
  then have "bounded r (fl (r - s))" by (intro fl_bounded_self) auto
  then show ?thesis using a bounded_mono[of r _ B] by simp
qed

lemma bounded_min: "bounded B x \<Longrightarrow> bounded C y \<Longrightarrow> bounded B (py_min x y) \<and> bounded C (py_min x y)"
  by (auto simp: bounded_def py_min_def)

lemma bounded_fill_ok: "bounded B q \<Longrightarrow> isfinite q \<and> \<not> q < 0"
  by (auto simp: bounded_def)

subsection \<open>One sell, one buy\<close>

definition settle :: "pyfloat \<Rightarrow> fill \<Rightarrow> pyfloat" where
  "settle c f = (let c' = c + fill_cash_delta f in if c' < 0 then 0 else c')"

lemma apply_sell_fill:
  assumes "apply_sell prices factor led ord = Inr led'"
  shows "\<exists>f. led_fills led' = led_fills led @ [f] \<and> fill_side f = Sell \<and> fill_asset f = ord_asset ord \<and>
    prices (ord_asset ord) = Some (fill_price f) \<and> \<not> fill_scaled f \<and>
    fill_quantity f = py_min (ord_quantity ord) (led_quantity led (ord_asset ord)) \<and>
    led_cash led' = led_cash led + fill_cash_delta f"
  using assms by (auto simp: apply_sell_def lookup_price_def Let_def res_simps split: option.splits)

lemma apply_buy_steps:
  assumes "apply_buy prices factor tol led ord = Inr led'"
  shows "\<exists>p q sc f. prices (ord_asset ord) = Some p \<and>
    (if ord_quantity ord * (p * (1 + factor)) \<le> led_cash led then q = ord_quantity ord \<and> \<not> sc
     else \<not> feq (p * (1 + factor)) 0 \<and> q = fdiv (py_max (led_cash led) 0) (p * (1 + factor)) \<and> sc) \<and>
    mk_fill Buy (ord_asset ord) q p (q * p * factor) (- (q * (p * (1 + factor)))) sc = Inr f \<and>
    led_fills led' = led_fills led @ [f] \<and>
    led_cash led' = (let c = led_cash led - q * (p * (1 + factor)) in if c < 0 then 0 else c)"
proof -
  obtain p where p: "prices (ord_asset ord) = Some p"
    using assms by (cases "prices (ord_asset ord)") (auto simp: apply_buy_def lookup_price_def)
  define u where "u = p * (1 + factor)"
  from assms obtain q sc where sel: "(if ord_quantity ord * u \<le> led_cash led then Inr (ord_quantity ord, False)
        else try_bind (py_div (py_max (led_cash led) 0) u) (\<lambda>q. Inr (q, True))) = Inr (q, sc)"
    and rest: "(let cash1 = led_cash led - q * u
       in if cash1 < 0 \<and> cash1 < - tol
          then Inl (ValueError (''fill application drove cash negative: '' @ repr_float cash1))
          else try_bind (mk_fill Buy (ord_asset ord) q p (q * p * factor) (- (q * u)) sc) (\<lambda>f.
             Inr \<lparr>led_cash = (if cash1 < 0 then 0 else cash1),
                  led_positions = (if q > 0 then AList.update (ord_asset ord) (led_quantity led (ord_asset ord) + q)
                     (led_positions led) else led_positions led),
                  led_fills = led_fills led @ [f]\<rparr>)) = Inr led'"
    unfolding apply_buy_def lookup_price_def p option.case try_bind.simps Let_def u_def[symmetric] try_bind_Inr
    by (elim exE conjE) (simp only: split_paired_all prod.case)
  from rest obtain f where "mk_fill Buy (ord_asset ord) q p (q * p * factor) (- (q * u)) sc = Inr f"
    "led_fills led' = led_fills led @ [f]"
    "led_cash led' = (let c = led_cash led - q * u in if c < 0 then 0 else c)"
    by (auto simp only: Let_def try_bind_Inr split: if_splits) auto
  moreover have "if ord_quantity ord * u \<le> led_cash led then q = ord_quantity ord \<and> \<not> sc
     else \<not> feq u 0 \<and> q = fdiv (py_max (led_cash led) 0) u \<and> sc"
    using sel by (auto simp: py_div_def split: if_splits)
  ultimately show ?thesis using p unfolding u_def by blast
qed

lemma apply_buy_fill:
  assumes "apply_buy prices factor tol led ord = Inr led'"
  shows "\<exists>f. led_fills led' = led_fills led @ [f] \<and> fill_side f = Buy \<and> fill_asset f = ord_asset ord \<and>
    prices (ord_asset ord) = Some (fill_price f) \<and>
    (\<not> fill_scaled f \<longrightarrow> fill_quantity f = ord_quantity ord) \<and>
    isfinite (fill_quantity f) \<and> 0 < fill_price f \<and>
    (fill_scaled f \<longrightarrow> \<not> ord_quantity ord * (fill_price f * (1 + factor)) \<le> led_cash led \<and>
       \<not> feq (fill_price f * (1 + factor)) 0 \<and>
       fill_quantity f = fdiv (py_max (led_cash led) 0) (fill_price f * (1 + factor))) \<and>
    led_cash led' = settle (led_cash led) f"
proof -
  from apply_buy_steps[OF assms] obtain p q sc f where s: "prices (ord_asset ord) = Some p"
    "if ord_quantity ord * (p * (1 + factor)) \<le> led_cash led then q = ord_quantity ord \<and> \<not> sc
     else \<not> feq (p * (1 + factor)) 0 \<and> q = fdiv (py_max (led_cash led) 0) (p * (1 + factor)) \<and> sc"
    "mk_fill Buy (ord_asset ord) q p (q * p * factor) (- (q * (p * (1 + factor)))) sc = Inr f"
    "led_fills led' = led_fills led @ [f]"
    "led_cash led' = (let c = led_cash led - q * (p * (1 + factor)) in if c < 0 then 0 else c)" by blast
  from s(3) have f: "isfinite q" "isfinite p" "\<not> p \<le> 0" and f_eq: "f = \<lparr>fill_side = Buy, fill_asset = ord_asset ord,
      fill_quantity = q, fill_price = p, fill_cost = q * p * factor,
      fill_cash_delta = - (q * (p * (1 + factor))), fill_scaled = sc\<rparr>"
    by (simp_all add: mk_fill_Inr del: uminus_pyfloat_def)
  have "0 < p" using f by auto
  then show ?thesis using s(1,2,4,5) f(1) f_eq by (auto simp: settle_def Let_def split: if_splits)
qed

definition factor_ok :: "pyfloat \<Rightarrow> bool" where
  "factor_ok factor \<longleftrightarrow> bounded 1 factor"

lemma bps_factor_ok:
  assumes "bps_supported bps = Inr True" "as_float bps AssertionError = Inr b"
  shows "factor_ok (fdiv b (Fin 10000))"
proof -
  have b: "isfinite b" "\<not> b < 0" "\<not> Fin 10000 \<le> b"
    using assms by (auto simp: bps_supported_def split: pynum.splits)
  then obtain r where r: "b = Fin r" "0 \<le> r" "r < 10000" by auto
  then have "bounded 1 (fl (r / 10000))" by (intro fl_bounded_self) auto
  then show ?thesis using r by (simp add: factor_ok_def)
qed

lemma sell_amounts:
  assumes "bounded (2 ^ 300) q" "bounded (2 ^ 300) p" "factor_ok factor"
  shows "bounded (2 ^ 600) (q * p)" "bounded (2 ^ 600) (q * p * factor)" "q * p * factor \<le> q * p"
    "bounded (2 ^ 600) (q * p - q * p * factor)"
proof -
  show g: "bounded (2 ^ 600) (q * p)" using bounded_mult[OF assms(1,2)] by simp
  from g obtain x where x: "q * p = Fin x" "0 \<le> x" "x \<le> 2 ^ 600" "fl x = Fin x" by (elim boundedE)
  from assms(3) obtain y where y: "factor = Fin y" "0 \<le> y" "y \<le> 1" by (auto simp: factor_ok_def bounded_def)
  have "bounded x (fl (x * y))" using x y by (intro fl_bounded_self) (auto simp: mult_left_le)
  then have c: "bounded x (q * p * factor)" using x(1) y(1) by simp
  then show "bounded (2 ^ 600) (q * p * factor)" using x(3) by (rule bounded_mono)
  show le: "q * p * factor \<le> q * p" using c x(1) by (auto simp: bounded_def)
  show "bounded (2 ^ 600) (q * p - q * p * factor)" by (rule bounded_sub[OF g c le])
qed

definition positions_bounded :: "rat \<Rightarrow> positions \<Rightarrow> bool" where
  "positions_bounded B ps \<longleftrightarrow> distinct (map fst ps) \<and> (\<forall>(a, q) \<in> set ps. a \<noteq> [] \<and> bounded B q)"

lemma positions_bounded_lookup:
  "positions_bounded B ps \<Longrightarrow> 0 \<le> B \<Longrightarrow> bounded B (case map_of ps a of Some q \<Rightarrow> q | None \<Rightarrow> 0)"
  by (auto simp: positions_bounded_def bounded_def split: option.split dest!: map_of_SomeD)

lemma positions_bounded_update:
  "positions_bounded B ps \<Longrightarrow> a \<noteq> [] \<Longrightarrow> bounded B q \<Longrightarrow> positions_bounded B (AList.update a q ps)"
proof -
  assume ps: "positions_bounded B ps" "a \<noteq> []" "bounded B q"
  have "set (AList.update a q ps) \<subseteq> insert (a, q) (set ps)" by (induction ps) auto
  then show ?thesis using ps by (auto simp: positions_bounded_def AList.distinct_update)
qed

lemma positions_bounded_delete: "positions_bounded B ps \<Longrightarrow> positions_bounded B (AList.delete a ps)"
  using AList.distinct_delete[of ps a] by (auto simp: positions_bounded_def AList.delete_eq)

subsection \<open>The shape of a successful event\<close>

text \<open>\<open>executes prices ord f\<close>: fill \<open>f\<close> carries out order \<open>ord\<close> at the price the
  validation pass recorded.\<close>

definition executes :: "(string \<rightharpoonup> pyfloat) \<Rightarrow> order \<Rightarrow> fill \<Rightarrow> bool" where
  "executes prices ord f \<longleftrightarrow> fill_side f = ord_side ord \<and> fill_asset f = ord_asset ord \<and>
     prices (ord_asset ord) = Some (fill_price f) \<and>
     (fill_scaled f \<longrightarrow> fill_side f = Buy) \<and>
     (fill_side f = Buy \<longrightarrow> \<not> fill_scaled f \<longrightarrow> fill_quantity f = ord_quantity ord) \<and>
     \<not> ord_quantity ord < fill_quantity f"

definition credit :: "pyfloat \<Rightarrow> fill \<Rightarrow> pyfloat" where
  "credit c f = c + fill_cash_delta f"

lemma fold_res_fills:
  assumes step: "\<And>led ord led'. is_double (led_cash led) \<Longrightarrow> ord \<in> set ords \<Longrightarrow> f led ord = Inr led' \<Longrightarrow>
      \<exists>fl. led_fills led' = led_fills led @ [fl] \<and> g ord fl \<and> led_cash led' = h (led_cash led) fl"
    and run: "fold_res f led ords = Inr led'" and dbl: "is_double (led_cash led)" "\<And>c fl. is_double (h c fl)"
  shows "\<exists>fs. led_fills led' = led_fills led @ fs \<and> list_all2 g ords fs \<and>
    led_cash led' = foldl h (led_cash led) fs"
  using assms
proof (induction ords arbitrary: led)
  case (Cons ord ords)
  then obtain led1 where 1: "f led ord = Inr led1" "fold_res f led1 ords = Inr led'" by (auto simp: res_simps)
  obtain f1 where f1: "led_fills led1 = led_fills led @ [f1]" "g ord f1" "led_cash led1 = h (led_cash led) f1"
    using Cons.prems(1)[OF Cons.prems(3) _ 1(1)] by auto
  obtain fs where "led_fills led' = led_fills led1 @ fs" "list_all2 g ords fs"
    "led_cash led' = foldl h (led_cash led1) fs" using Cons.IH[OF Cons.prems(1) 1(2)] f1(3) Cons.prems(4) by fastforce
  with f1 have "led_fills led' = led_fills led @ (f1 # fs) \<and> list_all2 g (ord # ords) (f1 # fs) \<and>
    led_cash led' = foldl h (led_cash led) (f1 # fs)" by simp
  then show ?case by blast
qed auto

lemma canonical_orders_set: "ord \<in> set (canonical_orders sd orders) \<longleftrightarrow> ord \<in> set orders \<and> ord_side ord = sd"
  by (auto simp: canonical_orders_def)

lemma canonical_orders_sorted:
  assumes "distinct (map order_key orders)"
  shows "sorted_wrt (<) (map ord_asset (canonical_orders sd orders))"
proof -
  let ?os = "filter (\<lambda>ord. ord_side ord = sd) orders"
  have "distinct (map order_key ?os)" using assms by (rule distinct_map_filter)
  then have "inj_on ord_asset (set ?os)" "distinct ?os"
    by (auto simp: distinct_map inj_on_def order_key_def)
  then have "distinct (map ord_asset (sort_key ord_asset ?os))" by (simp add: distinct_map)
  then show ?thesis unfolding canonical_orders_def by (intro sorted_distinct_strict) simp_all
qed

lemma apply_sell_executes:
  assumes "ord_side ord = Sell" "order_ok ord" "apply_sell prices factor led ord = Inr led'"
  shows "\<exists>f. led_fills led' = led_fills led @ [f] \<and> executes prices ord f \<and> led_cash led' = credit (led_cash led) f"
proof -
  from apply_sell_fill[OF assms(3)] obtain f where f: "led_fills led' = led_fills led @ [f]"
    "fill_side f = Sell" "fill_asset f = ord_asset ord" "prices (ord_asset ord) = Some (fill_price f)"
    "\<not> fill_scaled f" "fill_quantity f = py_min (ord_quantity ord) (led_quantity led (ord_asset ord))"
    "led_cash led' = led_cash led + fill_cash_delta f" by blast
  have "\<not> ord_quantity ord < fill_quantity f"
    using assms(2) unfolding f(6)
    by (cases "led_quantity led (ord_asset ord)") (auto simp: order_ok_def py_min_def)
  with f assms(1) show ?thesis by (auto simp: executes_def credit_def)
qed

lemma unit_cost_nonneg:
  assumes "factor_ok factor" "0 < p" shows "\<not> p * (1 + factor) < 0"
proof -
  obtain y where y: "factor = Fin y" "0 \<le> y" using assms(1) by (auto simp: factor_ok_def bounded_def)
  have "fl 1 \<le> fl (1 + y)" using y by (intro fl_mono) simp
  then obtain z where z: "1 + factor = Fin z \<and> 1 \<le> z \<or> 1 + factor = PInf"
    using y by (cases "fl (1 + y)") auto
  show ?thesis
  proof (cases p)
    case (Fin x)
    then have "0 < x" using assms(2) by simp
    then have "0 \<le> fl (x * z)" if "1 \<le> z" using that by (intro fl_ge_0) simp
    then show ?thesis using z Fin \<open>0 < x\<close> by (cases "fl (x * z)") (auto simp: inf_times_def)
  qed (use assms z in \<open>auto simp: inf_times_def\<close>)
qed

text \<open>A scaled buy asks for no more than the order: the cash was below the rounded full cost.\<close>

lemma scaled_le_ordered:
  assumes "order_ok ord" "is_double c" "\<not> ord_quantity ord * u \<le> c" "\<not> feq u 0" "\<not> u < 0"
    "isfinite (fdiv (py_max c 0) u)"
  shows "\<not> ord_quantity ord < fdiv (py_max c 0) u"
proof -
  obtain q where q: "ord_quantity ord = Fin q" "0 < q" "fl q = Fin q"
    using assms(1) by (auto simp: order_ok_def is_double_Fin)
  show ?thesis
  proof (cases "py_max c 0"; cases u)
    fix x w assume x: "py_max c 0 = Fin x" and w: "u = Fin w"
    have "0 < w" using w assms(4,5) by (auto simp: feq_def)
    have "x / w \<le> q"
    proof (rule ccontr)
      assume "\<not> x / w \<le> q"
      then have "q * w < x" using \<open>0 < w\<close> by (simp add: field_simps)
      moreover have "0 < q * w" using q(2) \<open>0 < w\<close> by simp
      ultimately have "c = Fin x" using x by (auto simp: py_max_def split: if_splits)
      then have "fl x = Fin x" using assms(2) by (simp add: is_double_Fin)
      then show False using fl_mono[of "q * w" x] \<open>q * w < x\<close> assms(3) q(1) w \<open>c = Fin x\<close> by simp
    qed
    then have "fl (x / w) \<le> Fin q" using fl_mono[of "x / w" q] q(3) by simp
    then show ?thesis using x w q(1) by (cases "fl (x / w)") auto
  qed (use assms(4-6) q in auto)
qed

lemma apply_buy_executes:
  assumes "factor_ok factor" "ord_side ord = Buy" "order_ok ord" "is_double (led_cash led)"
    "apply_buy prices factor tol led ord = Inr led'"
  shows "\<exists>f. led_fills led' = led_fills led @ [f] \<and> executes prices ord f \<and> led_cash led' = settle (led_cash led) f"
proof -
  from apply_buy_fill[OF assms(5)] obtain f where f: "led_fills led' = led_fills led @ [f]"
    "fill_side f = Buy" "fill_asset f = ord_asset ord" "prices (ord_asset ord) = Some (fill_price f)"
    "\<not> fill_scaled f \<longrightarrow> fill_quantity f = ord_quantity ord" "isfinite (fill_quantity f)" "0 < fill_price f"
    "fill_scaled f \<longrightarrow> \<not> ord_quantity ord * (fill_price f * (1 + factor)) \<le> led_cash led \<and>
       \<not> feq (fill_price f * (1 + factor)) 0 \<and>
       fill_quantity f = fdiv (py_max (led_cash led) 0) (fill_price f * (1 + factor))"
    "led_cash led' = settle (led_cash led) f" by (elim exE conjE)
  have "\<not> fill_price f * (1 + factor) < 0" using unit_cost_nonneg[OF assms(1) f(7)] .
  then have "fill_scaled f \<Longrightarrow> \<not> ord_quantity ord < fill_quantity f"
    using scaled_le_ordered[OF assms(3,4)] f(6,8) by auto
  moreover have "\<not> fill_scaled f \<Longrightarrow> \<not> ord_quantity ord < fill_quantity f"
    using assms(3) f(5) by (auto simp: order_ok_def)
  ultimately show ?thesis using f assms(2) by (auto simp: executes_def)
qed

lemma is_double_settle [simp]: "is_double (settle c f)"
  by (simp add: settle_def Let_def is_double_Fin)

lemma foldl_double: "is_double c \<Longrightarrow> (\<And>c f. is_double (h c f)) \<Longrightarrow> is_double (foldl h c fs)"
  by (induction fs arbitrary: c) auto

lemma run_fills_shape:
  assumes "\<forall>ord \<in> set orders. order_ok ord" "is_double (cash st)" and f: "factor_ok factor"
    and run: "run_fills st orders prices factor = Inr (st', fills)"
  shows "state_ok st' \<and> (\<exists>sells buys. fills = sells @ buys \<and>
    list_all2 (executes prices) (canonical_orders Sell orders) sells \<and>
    list_all2 (executes prices) (canonical_orders Buy orders) buys \<and>
    cash st' = foldl settle (foldl credit (cash st) sells) buys)"
proof -
  let ?led0 = "\<lparr>led_cash = cash st, led_positions = positions st, led_fills = []\<rparr>"
  from run obtain led led' where sell: "fold_res (apply_sell prices factor) ?led0 (canonical_orders Sell orders) = Inr led"
    and buy: "fold_res (apply_buy prices factor (py_max (led_cash led) 1 * float_1e9)) led
       (canonical_orders Buy orders) = Inr led'"
    and st': "mk_portfolio_state (PyFloat (led_cash led')) (float_items (led_positions led')) = Inr st'"
    and fills: "fills = led_fills led'"
    unfolding run_fills_def Let_def try_bind_Inr by (elim exE conjE) (auto simp only: split_paired_all prod.inject sum.inject)
  have "\<exists>fs. led_fills led = led_fills ?led0 @ fs \<and>
      list_all2 (executes prices) (canonical_orders Sell orders) fs \<and> led_cash led = foldl credit (led_cash ?led0) fs"
    by (rule fold_res_fills[OF apply_sell_executes sell])
      (use assms(1,2) in \<open>simp_all add: canonical_orders_set credit_def\<close>)
  then obtain sells where sells: "led_fills led = sells"
    "list_all2 (executes prices) (canonical_orders Sell orders) sells"
    "led_cash led = foldl credit (cash st) sells" by auto
  have dbl: "is_double (led_cash led)"
    unfolding sells(3) using assms(2) by (intro foldl_double) (simp_all add: credit_def)
  have "\<exists>fs. led_fills led' = led_fills led @ fs \<and>
      list_all2 (executes prices) (canonical_orders Buy orders) fs \<and> led_cash led' = foldl settle (led_cash led) fs"
    by (rule fold_res_fills[OF apply_buy_executes[OF f] buy])
      (use assms(1) dbl in \<open>simp_all add: canonical_orders_set\<close>)
  then obtain buys where buys: "led_fills led' = led_fills led @ buys"
    "list_all2 (executes prices) (canonical_orders Buy orders) buys"
    "led_cash led' = foldl settle (led_cash led) buys" by auto
  have "is_double (led_cash led')"
    unfolding buys(3) using dbl by (intro foldl_double) simp_all
  moreover have "cash st' = to_double (led_cash led')"
    using st' by (auto simp: mk_portfolio_state_def finite_nonnegative_def res_simps split: if_splits)
  ultimately have "cash st' = foldl settle (foldl credit (cash st) sells) buys"
    using buys(3) sells(3) by (simp add: to_double_id)
  with fills sells(1,2) buys(1,2) mk_portfolio_state_ok[OF st'] show ?thesis by metis
qed

subsection \<open>Totality: within bounds, a validated batch always settles\<close>

lemma bounded_add:
  assumes "bounded (of_nat m * 2 ^ k) x" "bounded (2 ^ k) y" "m < 2 ^ 53" "k \<le> 970"
  shows "bounded (of_nat (Suc m) * 2 ^ k) (x + y)"
  using assms(1,2)
proof (elim boundedE)
  fix r s assume "x = Fin r" "0 \<le> r" "r \<le> of_nat m * 2 ^ k" "y = Fin s" "0 \<le> s" "s \<le> 2 ^ k"
  moreover from this have "bounded (of_nat (Suc m) * 2 ^ k) (fl (r + s))"
    using assms(3,4) by (intro fl_bounded) (auto simp: algebra_simps)
  ultimately show ?thesis by simp
qed

lemma finite_nonnegative_bounded: "bounded B x \<Longrightarrow> finite_nonnegative (PyFloat x) l = Inr x"
  by (auto simp: finite_nonnegative_def bounded_def to_double_def)

lemma norm_positions_total:
  assumes "positions_bounded B ps" "sorted (map fst ps)" "\<forall>p. prev = Some p \<longrightarrow> p \<notin> fst ` set ps"
  shows "\<exists>qs. norm_positions prev (float_items ps) = Inr qs"
  using assms
proof (induction ps arbitrary: prev rule: float_items.induct)
  case (2 a q ps)
  have q: "a \<noteq> []" "bounded B q" "prev \<noteq> Some a" using 2 by (auto simp: positions_bounded_def)
  have "\<exists>qs. norm_positions (Some a) (float_items ps) = Inr qs"
    by (rule "2.IH") (use 2 in \<open>auto simp: positions_bounded_def\<close>)
  then show ?case using q by (auto simp: finite_nonnegative_bounded)
qed simp

lemma sort_key_float_items: "sort_key fst (float_items ps) = float_items (sort_key fst ps)"
proof -
  have ins: "insort_key fst (a, PyFloat q) (float_items qs) = float_items (insort_key fst (a, q) qs)" for a q qs
    by (induction qs rule: float_items.induct) auto
  show ?thesis by (induction ps rule: float_items.induct) (auto simp: ins)
qed

lemma mk_portfolio_state_total:
  assumes "bounded C c" "positions_bounded B ps"
  shows "\<exists>s. mk_portfolio_state (PyFloat c) (float_items ps) = Inr s"
proof -
  have "positions_bounded B (sort_key fst ps)"
    using assms(2) by (auto simp: positions_bounded_def distinct_map)
  then obtain qs where "norm_positions None (float_items (sort_key fst ps)) = Inr qs"
    using norm_positions_total[of B "sort_key fst ps" None] by auto
  then show ?thesis
    using assms(1) by (simp add: mk_portfolio_state_def finite_nonnegative_bounded sort_key_float_items)
qed

definition sell_inv :: "nat \<Rightarrow> ledger \<Rightarrow> bool" where
  "sell_inv n led \<longleftrightarrow> bounded (of_nat n * 2 ^ 600) (led_cash led) \<and> positions_bounded (2 ^ 300) (led_positions led)"

definition order_bounded :: "(string \<rightharpoonup> pyfloat) \<Rightarrow> order \<Rightarrow> bool" where
  "order_bounded prices ord \<longleftrightarrow> order_ok ord \<and> bounded (2 ^ 300) (ord_quantity ord) \<and>
     (\<exists>p. prices (ord_asset ord) = Some p \<and> bounded (2 ^ 300) p \<and> 0 < p)"

lemma apply_sell_total:
  assumes "sell_inv n led" "n < 2 ^ 53" "order_bounded prices ord" "factor_ok factor"
  shows "\<exists>led'. apply_sell prices factor led ord = Inr led' \<and> sell_inv (Suc n) led'"
proof -
  from assms(3) obtain p where p: "prices (ord_asset ord) = Some p" "bounded (2 ^ 300) p" "0 < p"
    and q: "bounded (2 ^ 300) (ord_quantity ord)" "ord_asset ord \<noteq> []"
    by (auto simp: order_bounded_def order_ok_def)
  define held where "held = led_quantity led (ord_asset ord)"
  define qty where "qty = py_min (ord_quantity ord) held"
  have held: "bounded (2 ^ 300) held" using positions_bounded_lookup assms(1)
    by (simp add: held_def led_quantity_def sell_inv_def)
  have qty: "bounded (2 ^ 300) qty" "qty \<le> held"
    using bounded_min[OF q(1) held] q(1) held by (auto simp: qty_def py_min_def bounded_def)
  note amounts = sell_amounts[OF qty(1) p(2) assms(4)]
  have rem: "bounded (2 ^ 300) (held - qty)" using bounded_sub[OF held qty(1,2)] .
  have cash: "bounded (of_nat (Suc n) * 2 ^ 600) (led_cash led + (qty * p - qty * p * factor))"
    using assms(1,2) by (intro bounded_add amounts(4)) (auto simp: sell_inv_def)
  have pos: "positions_bounded (2 ^ 300) (led_positions led)" using assms(1) by (simp add: sell_inv_def)
  have "isfinite qty \<and> isfinite p \<and> isfinite (qty * p * factor) \<and> isfinite (qty * p - qty * p * factor) \<and>
      \<not> (qty < 0 \<or> p \<le> 0 \<or> qty * p * factor < 0)"
    using bounded_fill_ok[OF qty(1)] bounded_fill_ok[OF amounts(2)] bounded_fill_ok[OF amounts(4)]
      bounded_fill_ok[OF p(2)] p(3) by auto
  then have fill: "\<exists>f. mk_fill Sell (ord_asset ord) qty p (qty * p * factor) (qty * p - qty * p * factor) False = Inr f"
    by (simp add: mk_fill_Inr)
  show ?thesis
    using fill cash positions_bounded_delete[OF pos] positions_bounded_update[OF pos q(2) rem]
    by (auto simp: apply_sell_def lookup_price_def p(1) Let_def sell_inv_def
        simp flip: held_def qty_def simp del: of_nat_Suc minus_pyfloat_def)
qed

lemma fold_res_total:
  assumes "\<And>n led ord. J n led \<Longrightarrow> n < N \<Longrightarrow> ord \<in> set ords \<Longrightarrow> \<exists>led'. f led ord = Inr led' \<and> J (Suc n) led'"
    and "J n led" "n + length ords \<le> N"
  shows "\<exists>led'. fold_res f led ords = Inr led' \<and> J (n + length ords) led'"
  using assms
proof (induction ords arbitrary: n led)
  case (Cons ord ords)
  obtain led1 where 1: "f led ord = Inr led1" "J (Suc n) led1" using Cons.prems by fastforce
  obtain led' where "fold_res f led1 ords = Inr led'" "J (Suc n + length ords) led'"
    using Cons.IH[OF _ 1(2)] Cons.prems(1,3) by fastforce
  with 1 show ?case by simp
qed auto


subsection \<open>The residue of a scaled buy stays within the clamp\<close>

lemma fl_double_ge: "bounded B x \<Longrightarrow> x = Fin r \<Longrightarrow> r \<le> s \<Longrightarrow> fl s = Fin t \<Longrightarrow> r \<le> t"
  using fl_mono[of r s] by (auto simp: bounded_def)

text \<open>A quotient rounded and multiplied back overshoots the dividend by at most three roundings.\<close>

lemma quotient_residue:
  assumes c: "0 \<le> c" and u: "0 < u" "u \<le> 2 ^ 301"
    and q: "fl (c / u) = Fin q" and s: "fl (q * u) = Fin s"
  shows "s - c \<le> max c 1 / 2 ^ 50"
proof -
  let ?m = "max c 1"
  have "q - c / u \<le> max (1 / (2 * sub_scale)) (c / u / 2 ^ 53)" using fl_err[OF q] c u by simp
  then have "(q - c / u) * u \<le> max (1 / (2 * sub_scale)) (c / u / 2 ^ 53) * u"
    using u by (intro mult_right_mono) simp_all
  then have "q * u - c \<le> max (u / (2 * sub_scale)) (c / 2 ^ 53)"
    using u by (simp add: left_diff_distrib max_mult_distrib_right)
  moreover have "u / (2 * sub_scale) \<le> ?m / 2 ^ 53"
  proof -
    have "u / (2 * sub_scale) \<le> 2 ^ 301 / (2 * sub_scale)" using u by (intro divide_right_mono) simp_all
    also have "\<dots> \<le> 1 / 2 ^ 53" by (simp add: sub_scale_def)
    also have "\<dots> \<le> ?m / 2 ^ 53" by (intro divide_right_mono) simp_all
    finally show ?thesis .
  qed
  moreover have "c / 2 ^ 53 \<le> ?m / 2 ^ 53" by (intro divide_right_mono) simp_all
  ultimately have qu: "q * u \<le> c + ?m / 2 ^ 53" by linarith
  have q0: "0 \<le> q" using fl_nonneg[OF _ q] c u by simp
  have "s - q * u \<le> max (1 / (2 * sub_scale)) (q * u / 2 ^ 53)" using fl_err[OF s] q0 u by simp
  moreover have "1 / (2 * sub_scale) \<le> ?m / 2 ^ 52"
  proof -
    have "1 / (2 * sub_scale) \<le> 1 / 2 ^ 52" by (simp add: sub_scale_def)
    also have "\<dots> \<le> ?m / 2 ^ 52" by (intro divide_right_mono) simp_all
    finally show ?thesis .
  qed
  moreover have "q * u / 2 ^ 53 \<le> ?m / 2 ^ 52"
  proof -
    have "c \<le> ?m" "1 \<le> ?m" by simp_all
    moreover have "x / 2 ^ 53 \<le> x" if "1 \<le> x" for x :: rat using that by simp
    ultimately have "q * u \<le> ?m + ?m" by (intro order_trans[OF qu] add_mono) blast+
    then show ?thesis by simp
  qed
  ultimately have "s - q * u \<le> ?m / 2 ^ 52" by linarith
  then show ?thesis using qu by (simp add: field_simps) 
qed

definition buy_inv :: "rat \<Rightarrow> nat \<Rightarrow> ledger \<Rightarrow> bool" where
  "buy_inv c0 n led \<longleftrightarrow> bounded c0 (led_cash led) \<and> positions_bounded (of_nat n * 2 ^ 300) (led_positions led)"

lemma unit_cost_bounds:
  assumes "bounded (2 ^ 300) p" "0 < p" "factor_ok factor"
  shows "bounded (2 ^ 301) (p * (1 + factor))" "0 < p * (1 + factor)"
proof -
  from assms(3) obtain y where y: "factor = Fin y" "0 \<le> y" "y \<le> 1" by (auto simp: factor_ok_def bounded_def)
  have "bounded (2 ^ 1) (fl (1 + y))" using y fl_bounded_pow[of "1 + y" 1] by simp
  then have f: "bounded (2 ^ 1) (1 + factor)" using y by simp
  show "bounded (2 ^ 301) (p * (1 + factor))" using bounded_mult[OF assms(1) f] by simp
  from f obtain z where z: "1 + factor = Fin z" "fl z = Fin z" by (auto simp: bounded_def)
  have "1 \<le> z" using fl_mono[of 1 "1 + y"] y z(1) by simp
  from assms(1,2) obtain x where x: "p = Fin x" "0 < x" "fl x = Fin x" by (auto simp: bounded_def)
  have "fl x \<le> fl (x * z)" using x \<open>1 \<le> z\<close> by (intro fl_mono) simp
  then show "0 < p * (1 + factor)" using x z by (cases "fl (x * z)") auto
qed

lemma scaled_quantity:
  assumes c: "bounded c0 (Fin c)" and u: "bounded (2 ^ 301) (Fin u)" "0 < u" and q: "bounded (2 ^ 300) (Fin q)"
    and short: "\<not> Fin q * Fin u \<le> Fin c"
  shows "bounded q (fl (c / u))"
proof -
  have c': "0 \<le> c" "fl c = Fin c" and q': "0 \<le> q" "fl q = Fin q" using c q by (auto simp: bounded_def)
  have "c / u \<le> q"
  proof (rule ccontr)
    assume "\<not> c / u \<le> q"
    then have "q * u \<le> c" using u(2) by (simp add: field_simps)
    then have "fl (q * u) \<le> fl c" by (rule fl_mono)
    with short c' show False by simp
  qed
  then show ?thesis using c' q' u(2) by (intro fl_bounded_self) auto
qed

lemma residue_within_clamp:
  assumes "0 \<le> c" "c \<le> c0" "0 < u" "u \<le> 2 ^ 301" "fl (c / u) = Fin q" "fl (q * u) = Fin s"
  shows "\<not> fl (c - s) < - (Fin (max c0 1) * float_1e9)"
proof -
  let ?f = "4835703278458517 / 2 ^ 82 :: rat"
  have "s - c \<le> max c 1 / 2 ^ 50" using quotient_residue assms by blast
  also have "\<dots> \<le> max c0 1 / 2 ^ 50" using assms(2) by (intro divide_right_mono max.mono) simp_all
  also have "\<dots> \<le> max c0 1 * ?f" by (simp add: field_simps)
  finally have "- (max c0 1 * ?f) \<le> c - s" by linarith
  then have "fl (- (max c0 1 * ?f)) \<le> fl (c - s)" by (rule fl_mono)
  then have "fneg (fl (max c0 1 * ?f)) \<le> fl (c - s)" by (simp only: fl_uminus)
  then show ?thesis unfolding float_1e9_def
    by (cases "fl (max c0 1 * ?f)"; cases "fl (c - s)") auto
qed


definition buy_result :: "(string \<rightharpoonup> pyfloat) \<Rightarrow> pyfloat \<Rightarrow> pyfloat \<Rightarrow> order \<Rightarrow> pyfloat \<times> bool" where
  "buy_result prices factor c ord =
     (let u = the (prices (ord_asset ord)) * (1 + factor)
      in if ord_quantity ord * u \<le> c then (ord_quantity ord, False) else (fdiv (py_max c 0) u, True))"

text \<open>What a buy spends: never more than the order asked for, never beyond the clamp.\<close>

lemma buy_amounts:
  assumes c: "bounded c0 c" "c0 \<le> 2 ^ 660" and ord: "order_bounded prices ord" and f: "factor_ok factor"
    and p: "prices (ord_asset ord) = Some p" and u: "u = p * (1 + factor)"
    and q: "buy_result prices factor c ord = (qty, sc)"
  shows "bounded (2 ^ 300) qty" "\<not> ord_quantity ord < qty"
    "isfinite (qty * u)" "\<not> qty * u < 0" "isfinite (c - qty * u)" "c - qty * u \<le> c"
    "\<not> c - qty * u < - (Fin (max c0 1) * float_1e9)"
proof -
  from ord p have pb: "bounded (2 ^ 300) p" "0 < p" and qb: "bounded (2 ^ 300) (ord_quantity ord)"
    by (auto simp: order_bounded_def)
  from unit_cost_bounds[OF pb f] u obtain w where w: "u = Fin w" "0 < w" "w \<le> 2 ^ 301" "bounded (2 ^ 301) (Fin w)"
    by (auto simp: bounded_def)
  from c obtain x where x: "c = Fin x" "0 \<le> x" "x \<le> c0" "fl x = Fin x" by (auto simp: bounded_def)
  from qb obtain y where y: "ord_quantity ord = Fin y" "0 \<le> y" "y \<le> 2 ^ 300" "fl y = Fin y" by (elim boundedE)
  have case_q: "(Fin y * u \<le> c \<and> qty = Fin y \<and> \<not> sc) \<or> (\<not> Fin y * u \<le> c \<and> qty = fl (x / w) \<and> sc)"
    using q[unfolded buy_result_def p option.sel u[symmetric] Let_def y(1)] w(1,2) x(1,2)
    by (auto simp: py_max_def split: if_splits)
  have qty_y: "bounded y qty"
  proof -
    have "bounded y (fl (x / w))" if "\<not> Fin y * u \<le> c"
      by (rule scaled_quantity[of c0 x w y]) (use that c x w qb y in auto)
    then show ?thesis using case_q y by (auto simp: bounded_def)
  qed
  then show "bounded (2 ^ 300) qty" "\<not> ord_quantity ord < qty"
    using y by (auto simp: bounded_def)
  then obtain z where z: "qty = Fin z" "0 \<le> z" by (auto simp: bounded_def)
  have "bounded (2 ^ (300 + 301)) (qty * u)"
    using \<open>bounded (2 ^ 300) qty\<close> w by (intro bounded_mult) simp_all
  then obtain s where s: "qty * u = Fin s" "0 \<le> s" "s \<le> 2 ^ 601" by (auto simp: bounded_def)
  then show "isfinite (qty * u)" "\<not> qty * u < 0" by simp_all
  have "x - s \<le> x" "- (2 ^ 601) \<le> x - s" using x s by simp_all
  from fl_mono[OF this(1)] fl_mono[OF this(2)] have "isfinite (fl (x - s))" "fl (x - s) \<le> Fin x"
    using x(4) fl_scaled_nat[of 1 601] by (cases "fl (x - s)"; simp add: fl_uminus)+
  then show "isfinite (c - qty * u)" "c - qty * u \<le> c" using x s by simp_all
  show "\<not> c - qty * u < - (Fin (max c0 1) * float_1e9)"
  proof (cases sc)
    case True
    then have "fl (x / w) = Fin z" using case_q z(1) by simp
    moreover have "fl (z * w) = Fin s" using s(1) z(1) w(1) by simp
    ultimately have "\<not> fl (x - s) < - (Fin (max c0 1) * float_1e9)"
      using w(2,3) x(2,3) by (intro residue_within_clamp)
    then show ?thesis using x(1) s(1) by simp
  next
    case False
    then have "s \<le> x" using case_q s(1) x(1) by simp
    then have "0 \<le> fl (x - s)" by (intro fl_ge_0) simp
    moreover have "0 \<le> fl (max c0 1 * (4835703278458517 / 2 ^ 82))" by (intro fl_ge_0) (simp add: le_max_iff_disj)
    ultimately show ?thesis using x(1) s(1) unfolding float_1e9_def
      by (cases "fl (max c0 1 * (4835703278458517 / 2 ^ 82))"; cases "fl (x - s)") auto
  qed
qed

lemma apply_buy_total:
  assumes inv: "buy_inv c0 n led" "n < 2 ^ 53" "0 \<le> c0" "c0 \<le> 2 ^ 660" and ord: "order_bounded prices ord"
    and f: "factor_ok factor"
  shows "\<exists>led'. apply_buy prices factor (Fin (max c0 1) * float_1e9) led ord = Inr led' \<and> buy_inv c0 (Suc n) led'"
proof -
  from ord obtain p where p: "prices (ord_asset ord) = Some p" "bounded (2 ^ 300) p" "0 < p" and a: "ord_asset ord \<noteq> []"
    by (auto simp: order_bounded_def order_ok_def)
  define u where "u = p * (1 + factor)"
  define c where "c = led_cash led"
  obtain qty sc where q: "buy_result prices factor c ord = (qty, sc)" by fastforce
  have c: "bounded c0 c" and pos: "positions_bounded (of_nat n * 2 ^ 300) (led_positions led)"
    using inv(1) by (auto simp: buy_inv_def c_def)
  note B = buy_amounts[OF c inv(4) ord f p(1) u_def q]
  have u0: "\<not> feq u 0" using unit_cost_bounds[OF p(2,3) f] by (auto simp: feq_def u_def)
  have sel: "(if ord_quantity ord * u \<le> c then Inr (ord_quantity ord, False)
       else try_bind (py_div (py_max c 0) u) (\<lambda>q. Inr (q, True))) = (Inr (qty, sc) :: (pyfloat \<times> bool) res)"
    using q[unfolded buy_result_def p(1) option.sel u_def[symmetric] Let_def] u0
    by (auto simp: py_div_def split: if_splits)
  have cost: "bounded (2 ^ 600) (qty * p * factor)" using sell_amounts[OF B(1) p(2) f] by simp
  have "\<exists>fl. mk_fill Buy (ord_asset ord) qty p (qty * p * factor) (- (qty * u)) sc = Inr fl"
    using bounded_fill_ok[OF B(1)] bounded_fill_ok[OF cost] bounded_fill_ok[OF p(2)] p(3) B(3)
    by (auto simp: mk_fill_Inr)
  then obtain fl where fill: "mk_fill Buy (ord_asset ord) qty p (qty * p * factor) (- (qty * u)) sc = Inr fl" ..
  have held: "bounded (of_nat (Suc n) * 2 ^ 300) (led_quantity led (ord_asset ord) + qty)"
    using positions_bounded_lookup[OF pos] B(1) inv(2) by (intro bounded_add) (simp_all add: led_quantity_def)
  have pos': "positions_bounded (of_nat (Suc n) * 2 ^ 300) (led_positions led)"
    using pos by (auto simp: positions_bounded_def intro: bounded_mono)
  have cash: "bounded c0 (if c - qty * u < 0 then 0 else c - qty * u)"
  proof -
    have "is_double (c - qty * u)" by simp
    then show ?thesis using B(5,6) c inv(3)
      by (cases "c - qty * u") (auto simp: bounded_def is_double_Fin simp del: minus_pyfloat_def)
  qed
  have "apply_buy prices factor (Fin (max c0 1) * float_1e9) led ord =
      Inr \<lparr>led_cash = (if c - qty * u < 0 then 0 else c - qty * u),
           led_positions = (if qty > 0 then AList.update (ord_asset ord) (led_quantity led (ord_asset ord) + qty)
                              (led_positions led) else led_positions led),
           led_fills = led_fills led @ [fl]\<rparr>"
    using B(7)
    by (simp only: apply_buy_def lookup_price_def p(1) option.case try_bind.simps Let_def u_def[symmetric]
        c_def[symmetric] sel prod.case fill simp_thms if_False)
  then show ?thesis
    using cash pos' positions_bounded_update[OF pos' a held]
    by (simp add: buy_inv_def del: of_nat_Suc minus_pyfloat_def)
qed

lemma state_ok_bounded:
  assumes "state_ok st" "cash st \<le> Fin (2 ^ 600)" "\<forall>(a, q) \<in> set (positions st). q \<le> Fin (2 ^ 300)"
  shows "bounded (2 ^ 600) (cash st)" "positions_bounded (2 ^ 300) (positions st)"
proof -
  have b: "isfinite x \<Longrightarrow> 0 \<le> x \<Longrightarrow> is_double x \<Longrightarrow> x \<le> Fin B \<Longrightarrow> bounded B x" for x B
    by (cases x) (auto simp: bounded_def is_double_Fin)
  show "bounded (2 ^ 600) (cash st)" using assms by (intro b) (auto simp: state_ok_def)
  have "bounded (2 ^ 300) q \<and> a \<noteq> []" if "(a, q) \<in> set (positions st)" for a q
  proof -
    have "isfinite q \<and> 0 \<le> q \<and> is_double q \<and> q \<le> Fin (2 ^ 300) \<and> a \<noteq> []"
      using assms(1,3) that pf_less_imp_le unfolding state_ok_def by fastforce
    then show ?thesis using b[of q "2 ^ 300"] by simp
  qed
  moreover have "distinct (map fst (positions st))"
    using assms(1) by (auto simp: state_ok_def held_assets_def strict_sorted_iff)
  ultimately show "positions_bounded (2 ^ 300) (positions st)" by (auto simp: positions_bounded_def)
qed

lemma run_fills_total:
  assumes st: "bounded (2 ^ 600) (cash st)" "positions_bounded (2 ^ 300) (positions st)"
    and ords: "\<forall>ord \<in> set orders. order_bounded prices ord" "length orders < 2 ^ 52" and f: "factor_ok factor"
  shows "\<exists>r. run_fills st orders prices factor = Inr r"
proof -
  let ?led0 = "\<lparr>led_cash = cash st, led_positions = positions st, led_fills = []\<rparr>"
  have len: "length (canonical_orders sd orders) \<le> length orders" for sd by (simp add: canonical_orders_def)
  have "sell_inv 1 ?led0" using st by (simp add: sell_inv_def)
  then obtain led where led: "fold_res (apply_sell prices factor) ?led0 (canonical_orders Sell orders) = Inr led"
    "sell_inv (1 + length (canonical_orders Sell orders)) led"
    using fold_res_total[of sell_inv "2 ^ 53" "canonical_orders Sell orders" "apply_sell prices factor" 1 ?led0]
      apply_sell_total[OF _ _ _ f] ords len[of Sell] by (auto simp: canonical_orders_set)
  obtain c0 where c0: "led_cash led = Fin c0" "0 \<le> c0" "fl c0 = Fin c0" "c0 \<le> 2 ^ 660"
  proof -
    have "rat_of_nat (1 + length (canonical_orders Sell orders)) \<le> of_nat (2 ^ 60)"
      using ords(2) len[of Sell] by (subst of_nat_le_iff) simp
    then have "rat_of_nat (1 + length (canonical_orders Sell orders)) * 2 ^ 600 \<le> 2 ^ 660"
      by (simp add: field_simps)
    then show ?thesis using that led(2) by (auto simp: sell_inv_def bounded_def)
  qed
  have "buy_inv c0 1 led" using led(2) c0 by (simp add: buy_inv_def bounded_def sell_inv_def)
  then obtain led' where led': "fold_res (apply_buy prices factor (Fin (max c0 1) * float_1e9)) led
        (canonical_orders Buy orders) = Inr led'" "buy_inv c0 (1 + length (canonical_orders Buy orders)) led'"
    using fold_res_total[of "buy_inv c0" "2 ^ 53" "canonical_orders Buy orders"
        "apply_buy prices factor (Fin (max c0 1) * float_1e9)" 1 led]
      apply_buy_total[OF _ _ c0(2,4) _ f] ords len[of Buy] by (auto simp: canonical_orders_set)
  have clamp: "py_max (led_cash led) 1 = Fin (max c0 1)" using c0(1) by (auto simp: py_max_def max_def)
  obtain s where "mk_portfolio_state (PyFloat (led_cash led')) (float_items (led_positions led')) = Inr s"
    using mk_portfolio_state_total led'(2)[unfolded buy_inv_def] by blast
  then show ?thesis using led(1) led'(1) by (simp add: run_fills_def Let_def clamp[simplified])
qed


context open_price_source
begin

lemma apply_orders_total:
  assumes src: "src_ok src" and st: "state_ok st" "cash st \<le> Fin (2 ^ 600)"
      "\<forall>(a, q) \<in> set (positions st). q \<le> Fin (2 ^ 300)"
    and ords: "\<forall>ord \<in> set orders. order_ok ord \<and> ord_quantity ord \<le> Fin (2 ^ 300)" "length orders < 2 ^ 52"
    and prices: "\<forall>ord \<in> set orders. \<forall>p. fst (src_open src (ord_asset ord) d) = Some p \<longrightarrow> p \<le> Fin (2 ^ 300)"
  shows "\<exists>result. fst (apply_orders src_open st orders src d (PyFloat bps)) = Inr result"
proof (rule ccontr)
  assume no: "\<not> ?thesis"
  obtain r src' where r: "apply_orders src_open st orders src d (PyFloat bps) = (r, src')" by fastforce
  then obtain e where e: "r = Inl e" using no by (cases r) auto
  have "bps_supported (PyFloat bps) \<noteq> Inl e" by (simp add: bps_supported_def)
  then obtain ps b where run: "clean_orders st ps orders"
      "\<forall>ord \<in> set orders. ps (ord_asset ord) = fst (src_open src (ord_asset ord) d)"
      "bps_supported (PyFloat bps) = Inr True" "as_float (PyFloat bps) AssertionError = Inr b"
      "case run_fills st orders ps (fdiv b (Fin 10000)) of
         Inl e' \<Rightarrow> r = Inl e' | Inr (st'', fs) \<Rightarrow> r = Inr (st'', fs, [])"
    using apply_orders_run[OF src r] e by blast
  have "order_bounded ps ord" if ord: "ord \<in> set orders" for ord
  proof -
    obtain p where p: "ps (ord_asset ord) = Some p" "valid_price p" using run(1) ord unfolding clean_orders_def by blast
    then have "p \<le> Fin (2 ^ 300)" using run(2) prices ord by simp
    then show ?thesis
      using p ords(1) ord by (auto simp: order_bounded_def valid_price_def order_ok_def bounded_def is_double_Fin)
  qed
  then obtain res where "run_fills st orders ps (fdiv b (Fin 10000)) = Inr res"
    using run_fills_total[OF state_ok_bounded[OF st] _ ords(2) bps_factor_ok[OF run(3,4)]] by blast
  then show False using run(5) e by (cases res) simp
qed

lemma apply_orders_outcome:
  assumes src: "src_ok src" and st: "state_ok st" "\<forall>ord \<in> set orders. order_ok ord"
    and run: "apply_orders src_open st orders src d bps = (Inr (st', fills, diags), src')"
  shows "if diags = [] then state_ok st' \<and> (\<exists>sells buys. fills = sells @ buys \<and>
      list_all2 (executes (\<lambda>a. fst (src_open src a d))) (canonical_orders Sell orders) sells \<and>
      list_all2 (executes (\<lambda>a. fst (src_open src a d))) (canonical_orders Buy orders) buys \<and>
      cash st' = foldl settle (foldl credit (cash st) sells) buys)
    else st' = st \<and> fills = []"
proof (cases "diags = []")
  case True
  have "bps_supported bps \<noteq> Inl AssertionError" using run by (auto simp: apply_orders_def)
  moreover have "bps_supported bps = Inl AssertionError \<or> (\<exists>ps b. clean_orders st ps orders \<and>
      (\<forall>ord \<in> set orders. ps (ord_asset ord) = fst (src_open src (ord_asset ord) d)) \<and>
      bps_supported bps = Inr True \<and> as_float bps AssertionError = Inr b \<and>
      run_fills st orders ps (fdiv b (Fin 10000)) = Inr (st', fills))"
    using apply_orders_run[OF src run[unfolded True] disjI1[OF refl], of AssertionError]
    by (elim disjE exE conjE) (auto split: sum.splits prod.splits)
  ultimately obtain ps b where
      ps: "\<forall>ord \<in> set orders. ps (ord_asset ord) = fst (src_open src (ord_asset ord) d)"
      and f: "factor_ok (fdiv b (Fin 10000))"
      and fills: "run_fills st orders ps (fdiv b (Fin 10000)) = Inr (st', fills)"
    using bps_factor_ok by blast
  have same: "executes ps ord f \<longleftrightarrow> executes (\<lambda>a. fst (src_open src a d)) ord f" if "ord \<in> set orders" for ord f
    using ps that by (simp add: executes_def)
  have "list_all2 (executes ps) (canonical_orders sd orders) fs \<longleftrightarrow>
      list_all2 (executes (\<lambda>a. fst (src_open src a d))) (canonical_orders sd orders) fs" for sd fs
    by (rule list.rel_cong) (use same canonical_orders_set in auto)
  with run_fills_shape[OF st(2) _ f fills] True st(1) show ?thesis by (simp add: state_ok_def)
next
  case False
  then show ?thesis using run
    by (auto simp: apply_orders_def Let_def res_simps case_prod_beta split: sum.splits bool.splits if_splits)
qed

end

end
