(* ===== verification/Reconcile.thy ===== *)
theory Reconcile
  imports Fills Values
begin

section \<open>Order reconciliation\<close>

text \<open>
  \<open>quantize/engine/reconcile.py\<close>: from the settled portfolio, the target weights and the
  planning prices to the proposed orders with one explanation row per asset. Prices are of
  dynamic type (\<open>pynum\<close>) because the code validates them; nothing is computed before every
  held or targeted asset has a valid one.
\<close>

definition dust_ratio :: pyfloat where
  "dust_ratio = float_1e9"

datatype plan_action = ActBuy | ActSell | ActHold | ActDust

record asset_plan =
  plan_asset :: string
  plan_price :: pyfloat
  current_quantity :: pyfloat
  target_weight :: pyfloat
  target_notional :: pyfloat
  target_quantity :: pyfloat
  delta_quantity :: pyfloat
  plan_action :: plan_action

record outcome =
  out_ok :: bool
  out_orders :: "order list"
  out_diagnostics :: "runtime_diagnostic list"
  portfolio_value :: "pyfloat option"
  target_cash :: "pyfloat option"
  projected_cash :: "pyfloat option"
  out_plans :: "asset_plan list"

text \<open>\<open>_valid_price\<close> raises only where \<open>float\<close> of a huge integer does.\<close>

definition planning_price_ok :: "pynum \<Rightarrow> bool res" where
  "planning_price_ok value = (case value of
     PyBool _ \<Rightarrow> Inr False
   | PyOther _ \<Rightarrow> Inr False
   | _ \<Rightarrow> try_bind (as_float value AssertionError) (\<lambda>x. Inr (isfinite x \<and> 0 < x)))"

definition missing_price_diag :: "string \<Rightarrow> runtime_diagnostic" where
  "missing_price_diag asset = run_diag ''missing_reconciliation_price''
     (''no session-D close available for '' @ repr_str asset @ '' at the reconciliation instant'') asset"

definition invalid_price_diag :: "string \<Rightarrow> pynum \<Rightarrow> runtime_diagnostic" where
  "invalid_price_diag asset price = run_diag ''invalid_reconciliation_price''
     (''close for '' @ repr_str asset @ '' is not a positive finite number: '' @ repr_pynum price) asset"

fun price_diags :: "(string \<times> pynum) list \<Rightarrow> string list \<Rightarrow> runtime_diagnostic list res" where
  "price_diags prices [] = Inr []"
| "price_diags prices (asset # rest) =
     (case map_of prices asset of
        None \<Rightarrow> try_bind (price_diags prices rest) (\<lambda>ds. Inr (missing_price_diag asset # ds))
      | Some price \<Rightarrow> try_bind (planning_price_ok price) (\<lambda>ok.
          try_bind (price_diags prices rest) (\<lambda>ds.
            Inr (if ok then ds else invalid_price_diag asset price # ds))))"

text \<open>The price the arithmetic reads, once validated: \<open>float(prices[asset])\<close>.\<close>

definition price_of :: "(string \<times> pynum) list \<Rightarrow> string \<Rightarrow> pyfloat" where
  "price_of prices asset = (case map_of prices asset of
     Some v \<Rightarrow> (case as_float v AssertionError of Inr x \<Rightarrow> x | Inl _ \<Rightarrow> NaN) | None \<Rightarrow> NaN)"

definition value_portfolio :: "portfolio_state \<Rightarrow> (string \<times> pynum) list \<Rightarrow> pyfloat" where
  "value_portfolio st prices =
     foldl (\<lambda>pv (asset, q). pv + q * price_of prices asset) (cash st) (positions st)"

definition live_weights :: "targets \<Rightarrow> targets" where
  "live_weights ws = filter (\<lambda>(a, w). w > 0) ws"

definition weight_of :: "targets \<Rightarrow> string \<Rightarrow> pyfloat" where
  "weight_of ws asset = (case map_of ws asset of Some w \<Rightarrow> w | None \<Rightarrow> 0)"

definition plan_asset_row :: "portfolio_state \<Rightarrow> targets \<Rightarrow> (string \<times> pynum) list \<Rightarrow> pyfloat \<Rightarrow> string \<Rightarrow> asset_plan" where
  "plan_asset_row st ws prices pv asset =
     (let price = price_of prices asset;
          current = quantity_of st asset;
          weight = weight_of ws asset;
          notional = (if weight > 0 then weight * pv else 0);
          target = (if weight > 0 then fdiv notional price else 0);
          delta = target - current;
          liquidation = feq weight 0 \<and> current > 0;
          emit = liquidation \<or> \<bar>delta\<bar> * price > py_max pv 1 * dust_ratio;
          act = (if delta > 0 \<and> emit then ActBuy else if delta < 0 \<and> emit then ActSell
                 else if \<not> feq delta 0 then ActDust else ActHold)
      in \<lparr>plan_asset = asset, plan_price = price, current_quantity = current, target_weight = weight,
          target_notional = notional, target_quantity = target, delta_quantity = delta, plan_action = act\<rparr>)"

text \<open>The order a row emits, if any, and its cash flow at the planning price.\<close>

definition sell_quantity :: "asset_plan \<Rightarrow> pyfloat" where
  "sell_quantity p = py_min (- delta_quantity p) (current_quantity p)"

fun plan_orders ::
    "asset_plan list \<Rightarrow> order list \<Rightarrow> order list \<Rightarrow> pyfloat \<Rightarrow> (order list \<times> order list \<times> pyfloat) res" where
  "plan_orders [] sells buys flow = Inr (sells, buys, flow)"
| "plan_orders (p # ps) sells buys flow =
     (case plan_action p of
        ActBuy \<Rightarrow> try_bind (mk_order Buy (plan_asset p) (PyFloat (delta_quantity p))) (\<lambda>ord.
          plan_orders ps sells (buys @ [ord]) (flow - delta_quantity p * plan_price p))
      | ActSell \<Rightarrow> try_bind (mk_order Sell (plan_asset p) (PyFloat (sell_quantity p))) (\<lambda>ord.
          plan_orders ps (sells @ [ord]) buys (flow + sell_quantity p * plan_price p))
      | _ \<Rightarrow> plan_orders ps sells buys flow)"

definition reconcile :: "portfolio_state \<Rightarrow> targets \<Rightarrow> (string \<times> pynum) list \<Rightarrow> outcome res" where
  "reconcile st ws prices =
     (let weights = live_weights ws;
          assets = union_assets st (map fst weights)
      in try_bind (price_diags prices assets) (\<lambda>diags.
         if diags \<noteq> [] then
           Inr \<lparr>out_ok = False, out_orders = [], out_diagnostics = sort_runtime_diagnostics diags,
                portfolio_value = None, target_cash = None, projected_cash = None, out_plans = []\<rparr>
         else
           let pv = value_portfolio st prices;
               plans = map (plan_asset_row st weights prices pv) assets
           in try_bind (plan_orders plans [] [] 0) (\<lambda>(sells, buys, flow).
             Inr \<lparr>out_ok = True, out_orders = sells @ buys, out_diagnostics = [],
                  portfolio_value = Some pv,
                  target_cash = Some ((1 - py_sum (map snd (sort_key fst weights))) * pv),
                  projected_cash = Some (cash st + flow), out_plans = plans\<rparr>)))"

subsection \<open>Which orders come out\<close>

abbreviation plans_with :: "plan_action \<Rightarrow> asset_plan list \<Rightarrow> asset_plan list" where
  "plans_with act ps \<equiv> filter (\<lambda>p. plan_action p = act) ps"

lemma plan_orders_Inr:
  "plan_orders ps sells buys flow = Inr (sells', buys', flow') \<Longrightarrow>
   (\<exists>ss bs. sells' = sells @ ss \<and> buys' = buys @ bs \<and>
     list_all2 (\<lambda>p ord. mk_order Sell (plan_asset p) (PyFloat (sell_quantity p)) = Inr ord) (plans_with ActSell ps) ss \<and>
     list_all2 (\<lambda>p ord. mk_order Buy (plan_asset p) (PyFloat (delta_quantity p)) = Inr ord) (plans_with ActBuy ps) bs)"
proof (induction ps sells buys flow rule: plan_orders.induct)
  case (2 p ps sells buys flow)
  show ?case
  proof (cases "plan_action p")
    case ActBuy
    then obtain ord where o: "mk_order Buy (plan_asset p) (PyFloat (delta_quantity p)) = Inr ord"
      and r: "plan_orders ps sells (buys @ [ord]) (flow - delta_quantity p * plan_price p) = Inr (sells', buys', flow')"
      using "2.prems" by (auto simp: try_bind_Inr)
    with "2.IH"(1)[OF ActBuy r] ActBuy show ?thesis by fastforce
  next
    case ActSell
    then obtain ord where o: "mk_order Sell (plan_asset p) (PyFloat (sell_quantity p)) = Inr ord"
      and r: "plan_orders ps (sells @ [ord]) buys (flow + sell_quantity p * plan_price p) = Inr (sells', buys', flow')"
      using "2.prems" by (auto simp: try_bind_Inr)
    with "2.IH"(2)[OF ActSell r] ActSell show ?thesis by fastforce
  qed (use "2.IH" "2.prems" in auto)
qed auto

lemma mk_order_fields: "mk_order sd a (PyFloat q) = Inr ord \<Longrightarrow> ord_side ord = sd \<and> ord_asset ord = a \<and> ord_quantity ord = to_double q"
  by (auto simp: mk_order_def Let_def try_bind_Inr split: if_splits)

lemma price_diags_Inr_Nil:
  "price_diags prices assets = Inr [] \<longleftrightarrow>
     (\<forall>a \<in> set assets. \<exists>v. map_of prices a = Some v \<and> planning_price_ok v = Inr True)"
  by (induction prices assets rule: price_diags.induct) (auto simp: try_bind_Inr split: option.splits if_splits)

lemma planning_price_valid:
  "map_of prices a = Some v \<Longrightarrow> planning_price_ok v = Inr True \<Longrightarrow> valid_price (price_of prices a)"
  using as_float_double[of v AssertionError] by (auto simp: planning_price_ok_def price_of_def valid_price_def try_bind_Inr split: pynum.splits)

definition reconcile_assets :: "portfolio_state \<Rightarrow> targets \<Rightarrow> string list" where
  "reconcile_assets st ws = union_assets st (map fst (live_weights ws))"

lemma reconcile_ok:
  assumes "reconcile st ws prices = Inr out" "out_ok out"
  shows "\<exists>sells buys flow. out_orders out = sells @ buys \<and>
     (\<forall>a \<in> set (reconcile_assets st ws). valid_price (price_of prices a)) \<and>
     out_plans out = map (plan_asset_row st (live_weights ws) prices (value_portfolio st prices)) (reconcile_assets st ws) \<and>
     plan_orders (out_plans out) [] [] 0 = Inr (sells, buys, flow) \<and>
     portfolio_value out = Some (value_portfolio st prices) \<and> projected_cash out = Some (cash st + flow) \<and>
     out_diagnostics out = []"
proof -
  from assms obtain diags where d: "price_diags prices (reconcile_assets st ws) = Inr diags"
    and r: "(if diags \<noteq> [] then
           Inr \<lparr>out_ok = False, out_orders = [], out_diagnostics = sort_runtime_diagnostics diags,
                portfolio_value = None, target_cash = None, projected_cash = None, out_plans = []\<rparr>
         else
           let pv = value_portfolio st prices;
               plans = map (plan_asset_row st (live_weights ws) prices pv) (reconcile_assets st ws)
           in try_bind (plan_orders plans [] [] 0) (\<lambda>(sells, buys, flow).
             Inr \<lparr>out_ok = True, out_orders = sells @ buys, out_diagnostics = [],
                  portfolio_value = Some pv,
                  target_cash = Some ((1 - py_sum (map snd (sort_key fst (live_weights ws)))) * pv),
                  projected_cash = Some (cash st + flow), out_plans = plans\<rparr>)) = Inr out"
    unfolding reconcile_def reconcile_assets_def Let_def try_bind_Inr by blast
  have nil: "diags = []" using r assms(2) by (auto split: if_splits)
  have "\<forall>a \<in> set (reconcile_assets st ws). valid_price (price_of prices a)"
    using d[unfolded nil price_diags_Inr_Nil] planning_price_valid by blast
  then show ?thesis using r nil by (auto simp: Let_def try_bind_Inr)
qed


lemma plan_row_simps [simp]:
  "plan_asset (plan_asset_row st ws prices pv a) = a"
  "current_quantity (plan_asset_row st ws prices pv a) = quantity_of st a"
  by (simp_all add: plan_asset_row_def Let_def)

lemma plan_row_double: "is_double (delta_quantity (plan_asset_row st ws prices pv a))"
  by (simp add: plan_asset_row_def Let_def)

lemma is_double_fneg: "is_double x \<Longrightarrow> is_double (fneg x)"
  by (cases x) (auto simp: is_double_Fin fl_uminus)

lemma sell_quantity_double:
  assumes "state_ok st" "p = plan_asset_row st ws prices pv a" shows "is_double (sell_quantity p)"
  using py_min_cases[of "- delta_quantity p" "current_quantity p"] plan_row_double[of st ws prices pv a]
    state_ok_quantity(3)[OF assms(1), of a] assms(2)
  by (auto simp: sell_quantity_def is_double_fneg)

lemma sell_quantity_held:
  assumes "state_ok st" "p = plan_asset_row st ws prices pv a"
    "mk_order Sell a (PyFloat (sell_quantity p)) = Inr ord"
  shows "ord_quantity ord \<le> quantity_of st a"
proof -
  have q: "ord_quantity ord = sell_quantity p" "isfinite (sell_quantity p)"
    using mk_order_fields[OF assms(3)] mk_order_ok[OF assms(3)] sell_quantity_double[OF assms(1,2)]
    by (auto simp: to_double_id order_ok_def)
  obtain h where h: "quantity_of st a = Fin h" using state_ok_quantity(1)[OF assms(1)] by blast
  show ?thesis unfolding q(1)
    using q(2) assms(2) h by (cases "- delta_quantity p") (auto simp: sell_quantity_def py_min_def)
qed

lemma union_assets_strict: "sorted_wrt (<) (union_assets st xs)"
  by (simp add: union_assets_def strict_sorted_list_of_set)

lemma plans_with_sorted:
  "sorted_wrt (<) (map plan_asset (plans_with act (map (plan_asset_row st ws prices pv) (union_assets st xs))))"
proof -
  have "map plan_asset (plans_with act (map (plan_asset_row st ws prices pv) as)) =
    filter (\<lambda>a. plan_action (plan_asset_row st ws prices pv a) = act) as" for as
    by (induction as) auto
  then show ?thesis using union_assets_strict by (simp add: sorted_wrt_filter)
qed

lemma reconcile_orders:
  assumes st: "state_ok st" and r: "reconcile st ws prices = Inr out" "out_ok out"
  shows "\<exists>sells buys. out_orders out = sells @ buys \<and>
    (\<forall>ord \<in> set sells. ord_side ord = Sell \<and> ord_quantity ord \<le> quantity_of st (ord_asset ord)) \<and>
    (\<forall>ord \<in> set buys. ord_side ord = Buy) \<and> (\<forall>ord \<in> set (out_orders out). order_ok ord) \<and>
    map ord_asset sells = map plan_asset (plans_with ActSell (out_plans out)) \<and>
    map ord_asset buys = map plan_asset (plans_with ActBuy (out_plans out)) \<and>
    map ord_quantity sells = map sell_quantity (plans_with ActSell (out_plans out)) \<and>
    sorted_wrt (<) (map ord_asset sells) \<and> sorted_wrt (<) (map ord_asset buys)"
proof -
  from reconcile_ok[OF r] obtain sells buys flow where o: "out_orders out = sells @ buys"
    and plans: "out_plans out = map (plan_asset_row st (live_weights ws) prices (value_portfolio st prices)) (reconcile_assets st ws)"
    and run: "plan_orders (out_plans out) [] [] 0 = Inr (sells, buys, flow)" by blast
  from plan_orders_Inr[OF run]
  have s: "list_all2 (\<lambda>p ord. mk_order Sell (plan_asset p) (PyFloat (sell_quantity p)) = Inr ord) (plans_with ActSell (out_plans out)) sells"
    and b: "list_all2 (\<lambda>p ord. mk_order Buy (plan_asset p) (PyFloat (delta_quantity p)) = Inr ord) (plans_with ActBuy (out_plans out)) buys"
    by auto
  have "map plan_asset (plans_with ActSell (out_plans out)) = map ord_asset sells"
    by (rule list_all2_map_eq[OF s]) (use mk_order_fields in auto)
  moreover have "map plan_asset (plans_with ActBuy (out_plans out)) = map ord_asset buys"
    by (rule list_all2_map_eq[OF b]) (use mk_order_fields in auto)
  ultimately have keys: "map plan_asset (plans_with ActSell (out_plans out)) = map ord_asset sells"
    "map plan_asset (plans_with ActBuy (out_plans out)) = map ord_asset buys" by blast+
  have "map (\<lambda>p. to_double (sell_quantity p)) (plans_with ActSell (out_plans out)) = map ord_quantity sells"
    by (rule list_all2_map_eq[OF s]) (use mk_order_fields in auto)
  moreover have "map (\<lambda>p. to_double (sell_quantity p)) (plans_with ActSell (out_plans out)) =
      map sell_quantity (plans_with ActSell (out_plans out))"
    using sell_quantity_double[OF st] by (auto simp: plans to_double_id)
  moreover have "\<forall>ord \<in> set sells. ord_side ord = Sell \<and> order_ok ord \<and> ord_quantity ord \<le> quantity_of st (ord_asset ord)"
  proof
    fix ord assume "ord \<in> set sells"
    then obtain p where p: "p \<in> set (out_plans out)" "mk_order Sell (plan_asset p) (PyFloat (sell_quantity p)) = Inr ord"
      using list_all2_in_right[OF s] by auto
    then obtain a where a: "p = plan_asset_row st (live_weights ws) prices (value_portfolio st prices) a"
      by (auto simp: plans)
    with p mk_order_fields[OF p(2)] mk_order_ok[OF p(2)] sell_quantity_held[OF st a]
    show "ord_side ord = Sell \<and> order_ok ord \<and> ord_quantity ord \<le> quantity_of st (ord_asset ord)" by simp
  qed
  moreover have "\<forall>ord \<in> set buys. ord_side ord = Buy \<and> order_ok ord"
    using list_all2_in_right[OF b] mk_order_fields mk_order_ok by blast
  moreover have "sorted_wrt (<) (map ord_asset sells)" "sorted_wrt (<) (map ord_asset buys)"
    unfolding keys[symmetric] plans reconcile_assets_def by (rule plans_with_sorted)+
  ultimately show ?thesis using o keys by (intro exI[of _ sells] exI[of _ buys]) auto
qed


subsection \<open>Liquidation, dust, and what the fills make of the orders\<close>

lemma liquidation_row:
  assumes "state_ok st" "a \<in> set (held_assets st)" "weight_of ws a = 0"
  shows "plan_action (plan_asset_row st ws prices pv a) = ActSell"
    "sell_quantity (plan_asset_row st ws prices pv a) = quantity_of st a"
proof -
  obtain q where q: "quantity_of st a = Fin q" "0 < q" "fl q = Fin q"
    using state_ok_quantity[OF assms(1), of a] assms(2) by (auto simp: is_double_Fin)
  have "fl (- q) = Fin (- q)" using q(3) by (simp add: fl_uminus)
  then show "plan_action (plan_asset_row st ws prices pv a) = ActSell"
    "sell_quantity (plan_asset_row st ws prices pv a) = quantity_of st a"
    using q assms(3) by (auto simp: plan_asset_row_def Let_def feq_def sell_quantity_def py_min_def)
qed

lemma weight_of_live_zero: "weight_of (live_weights ws) a = 0 \<longleftrightarrow> a \<notin> fst ` set (live_weights ws)"
proof -
  have "a \<in> fst ` set (live_weights ws) \<Longrightarrow> weight_of (live_weights ws) a \<noteq> 0"
    by (cases "map_of (live_weights ws) a")
      (auto simp: weight_of_def map_of_eq_None_iff live_weights_def dest!: map_of_SomeD)
  moreover have "a \<notin> fst ` set (live_weights ws) \<Longrightarrow> weight_of (live_weights ws) a = 0"
    by (cases "map_of (live_weights ws) a") (auto simp: weight_of_def dest!: map_of_SomeD intro: rev_image_eqI)
  ultimately show ?thesis by blast
qed

lemma reconcile_liquidates:
  assumes st: "state_ok st" and r: "reconcile st ws prices = Inr out" "out_ok out"
    and a: "a \<in> set (held_assets st)" "a \<notin> fst ` set (live_weights ws)"
  shows "\<lparr>ord_side = Sell, ord_asset = a, ord_quantity = quantity_of st a\<rparr> \<in> set (out_orders out)"
proof -
  let ?p = "plan_asset_row st (live_weights ws) prices (value_portfolio st prices) a"
  have w: "weight_of (live_weights ws) a = 0" using a(2) weight_of_live_zero by blast
  note row = liquidation_row[OF st a(1) w, of prices "value_portfolio st prices"]
  from reconcile_ok[OF r] obtain sells buys flow where o: "out_orders out = sells @ buys"
    and plans: "out_plans out = map (plan_asset_row st (live_weights ws) prices (value_portfolio st prices)) (reconcile_assets st ws)"
    and run: "plan_orders (out_plans out) [] [] 0 = Inr (sells, buys, flow)" by blast
  have "a \<in> set (reconcile_assets st ws)" using a(1) by (simp add: reconcile_assets_def union_assets_def)
  then have "?p \<in> set (plans_with ActSell (out_plans out))" using row(1) by (simp add: plans)
  moreover have sells: "list_all2 (\<lambda>p ord. mk_order Sell (plan_asset p) (PyFloat (sell_quantity p)) = Inr ord)
      (plans_with ActSell (out_plans out)) sells" using plan_orders_Inr[OF run] by auto
  ultimately have "\<exists>ord \<in> set sells. mk_order Sell (plan_asset ?p) (PyFloat (sell_quantity ?p)) = Inr ord"
    using list_all2_in_left[OF sells] by blast
  then obtain ord where ord: "ord \<in> set sells" "mk_order Sell a (PyFloat (quantity_of st a)) = Inr ord"
    unfolding row(2) plan_row_simps by blast
  have "ord = \<lparr>ord_side = Sell, ord_asset = a, ord_quantity = quantity_of st a\<rparr>"
    using mk_order_fields[OF ord(2)] state_ok_quantity(3)[OF st, of a] by (simp add: to_double_id)
  with ord(1) o show ?thesis by simp
qed

lemma dust_not_traded:
  assumes "p = plan_asset_row st ws prices pv a" "weight_of ws a \<noteq> 0"
    "\<not> \<bar>delta_quantity p\<bar> * plan_price p > py_max pv 1 * dust_ratio"
  shows "plan_action p \<in> {ActHold, ActDust}"
  using assms by (auto simp: plan_asset_row_def Let_def feq_def split: if_splits)

lemma oversell_tolerance_slack:
  assumes "is_double h" "isfinite h" "q \<le> h" shows "\<not> q > h + oversell_tolerance"
proof -
  obtain x where x: "h = Fin x" "fl x = Fin x" using assms by (auto simp: is_double_Fin)
  have "fl x \<le> fl (x + 4835703278458517 / 2 ^ 82)" by (rule fl_mono) simp
  then show ?thesis using x assms(3) unfolding oversell_tolerance_def float_1e9_def
    by (cases q; cases "fl (x + 4835703278458517 / 2 ^ 82)") auto
qed

context open_price_source
begin

lemma check_orders_pass:
  assumes "src_ok src" "distinct (map order_key ords)" "set (map order_key ords) \<inter> set seen = {}"
    "\<forall>ord \<in> set ords. fst (src_open src (ord_asset ord) d) \<noteq> None \<and>
       (ord_side ord = Sell \<longrightarrow> \<not> ord_quantity ord > quantity_of st (ord_asset ord) + oversell_tolerance)"
  shows "fst (snd (check_orders src_open st d ords seen prices diags src)) = diags"
  using assms
proof (induction ords arbitrary: seen prices diags src)
  case (Cons ord ords)
  obtain price src1 where rd: "src_open src (ord_asset ord) d = (price, src1)" by fastforce
  have ok1: "src_ok src1" using read_ok[OF Cons.prems(1), of "ord_asset ord" d] rd by simp
  have stable: "fst (src_open src1 a d) = fst (src_open src a d)" for a
    using read_stable[OF Cons.prems(1), of "ord_asset ord" d a d] rd by simp
  obtain p where p: "price = Some p" using Cons.prems(4) rd by auto
  have IH: "fst (snd (check_orders src_open st d ords (order_key ord # seen) prices' diags src1)) = diags" for prices'
    by (rule Cons.IH[OF ok1]) (use Cons.prems stable in auto)
  have key: "(ord_side ord, ord_asset ord) = order_key ord" by (simp add: order_key_def)
  have "order_key ord \<notin> set seen" using Cons.prems(3) by auto
  then show ?case using Cons.prems(4) p rd IH by (auto simp: Let_def key)
qed simp

lemma apply_orders_pass:
  assumes "src_ok src" "bps_supported bps = Inr True" "distinct (map order_key ords)"
    "\<forall>ord \<in> set ords. fst (src_open src (ord_asset ord) d) \<noteq> None \<and>
       (ord_side ord = Sell \<longrightarrow> ord_quantity ord \<le> quantity_of st (ord_asset ord))"
    "state_ok st" "apply_orders src_open st ords src d bps = (Inr (st', fills, diags), src')"
  shows "diags = []"
proof -
  obtain prices ds src1 where chk: "check_orders src_open st d ords [] Map.empty [] src = (prices, ds, src1)"
    using prod_cases3 by blast
  have "\<forall>ord \<in> set ords. fst (src_open src (ord_asset ord) d) \<noteq> None \<and>
       (ord_side ord = Sell \<longrightarrow> \<not> ord_quantity ord > quantity_of st (ord_asset ord) + oversell_tolerance)"
    using assms(4) oversell_tolerance_slack state_ok_quantity(1,3)[OF assms(5)] by blast
  then have "ds = []" using check_orders_pass[OF assms(1,3), of "[]" d st Map.empty "[]"] chk by simp
  then show ?thesis using assms(6) chk by (auto simp: apply_orders_def assms(2) try_bind_Inr)
qed

lemma reconciled_orders_pass:
  assumes "state_ok st" "reconcile st ws prices = Inr out" "out_ok out" "src_ok src" "bps_supported bps = Inr True"
    "\<forall>ord \<in> set (out_orders out). fst (src_open src (ord_asset ord) d) \<noteq> None"
    "apply_orders src_open st (out_orders out) src d bps = (Inr (st', fills, diags), src')"
  shows "diags = []"
proof -
  from reconcile_orders[OF assms(1-3)] obtain sells buys where o: "out_orders out = sells @ buys"
    and s: "\<forall>ord \<in> set sells. ord_side ord = Sell \<and> ord_quantity ord \<le> quantity_of st (ord_asset ord)"
    and b: "\<forall>ord \<in> set buys. ord_side ord = Buy"
    and sorted: "sorted_wrt (<) (map ord_asset sells)" "sorted_wrt (<) (map ord_asset buys)"
    by (elim exE conjE)
  have keys: "distinct (map order_key os)" if "distinct (map ord_asset os)" for os
    using that by (auto simp: distinct_map inj_on_def order_key_def)
  have "distinct (map order_key sells)" "distinct (map order_key buys)"
    using sorted by (auto intro!: keys simp: strict_sorted_iff)
  moreover have "set (map order_key sells) \<inter> set (map order_key buys) = {}"
    using s b by (auto simp: order_key_def)
  ultimately have "distinct (map order_key (out_orders out))" by (simp add: o)
  moreover have "\<forall>ord \<in> set (out_orders out). ord_side ord = Sell \<longrightarrow> ord_quantity ord \<le> quantity_of st (ord_asset ord)"
    using s b by (auto simp: o)
  ultimately show ?thesis using apply_orders_pass[OF assms(4,5) _ _ assms(1,7)] assms(6) by blast
qed

end

end
