(* ===== verification/Metrics.thy ===== *)
theory Metrics
  imports Pyfloat
begin

section \<open>Result metrics\<close>

text \<open>\<open>quantize/engine/metrics.py\<close>: pure functions of the series of portfolio values.\<close>

fun simple_returns :: "pyfloat list \<Rightarrow> pyfloat list" where
  "simple_returns (earlier # later # rest) =
     (if feq earlier 0 then 0 else fdiv later earlier - 1) # simple_returns (later # rest)"
| "simple_returns _ = []"

definition total_return :: "pyfloat list \<Rightarrow> pyfloat" where
  "total_return vals =
     (if length vals < 2 \<or> feq (hd vals) 0 then 0 else fdiv (last vals) (hd vals) - 1)"

fun drawdown_from :: "pyfloat \<Rightarrow> pyfloat \<Rightarrow> pyfloat list \<Rightarrow> pyfloat" where
  "drawdown_from worst peak [] = worst"
| "drawdown_from worst peak (value # rest) =
     (let peak' = py_max peak value;
          worst' = (if \<not> feq peak' 0 then py_min worst (fdiv value peak' - 1) else worst)
      in drawdown_from worst' peak' rest)"

definition max_drawdown :: "pyfloat list \<Rightarrow> pyfloat" where
  "max_drawdown vals = drawdown_from 0 NInf vals"

lemma simple_returns_length: "length (simple_returns vals) = length vals - 1"
  by (induction vals rule: simple_returns.induct) auto

text \<open>Portfolio values: finite, not negative, and doubles.\<close>

definition valuation :: "pyfloat \<Rightarrow> bool" where
  "valuation v \<longleftrightarrow> isfinite v \<and> 0 \<le> v \<and> is_double v"

lemma quotient_return:
  assumes "valuation v" "valuation p" "\<not> feq p 0"
  shows "- 1 \<le> fdiv v p - 1" "v \<le> p \<Longrightarrow> fdiv v p - 1 \<le> 0" "v = p \<Longrightarrow> fdiv v p - 1 = 0"
proof -
  obtain x where x: "v = Fin x" "0 \<le> x" using assms(1) by (auto simp: valuation_def)
  obtain y where y: "p = Fin y" "0 < y" using assms(2,3) by (cases p) (auto simp: valuation_def feq_def)
  have q: "0 \<le> x / y" using x y by simp
  have mono: "fl (- 1) \<le> fl (r + - 1)" if "0 \<le> r" for r using that by (intro fl_mono) simp
  show "- 1 \<le> fdiv v p - 1"
    using x y mono[OF fl_nonneg[OF q]] by (cases rule: fl_nonneg_cases[OF q]) auto
  show "fdiv v p - 1 \<le> 0" if "v \<le> p"
  proof -
    have "x / y \<le> 1" using that x y by simp
    then have le: "fl (x / y) \<le> fl 1" by (rule fl_mono)
    then obtain r where r: "fl (x / y) = Fin r" "r \<le> 1" by (cases rule: fl_nonneg_cases[OF q]) auto
    then have "fl (r + - 1) \<le> fl 0" by (intro fl_mono) simp
    then show ?thesis using x y r by simp
  qed
  show "fdiv v p - 1 = 0" if "v = p" using that x y by simp
qed

lemma drawdown_bounds:
  assumes "\<forall>v \<in> set vals. valuation v" "- 1 \<le> worst" "worst \<le> 0" "peak = NInf \<or> valuation peak"
  shows "- 1 \<le> drawdown_from worst peak vals \<and> drawdown_from worst peak vals \<le> worst"
  using assms
proof (induction vals arbitrary: worst peak)
  case (Cons v vs)
  let ?peak = "py_max peak v"
  have v: "valuation v" using Cons.prems(1) by simp
  have peak: "valuation ?peak" "v \<le> ?peak"
    using v Cons.prems(4) by (auto simp: py_max_def valuation_def)
  define w where "w = (if \<not> feq ?peak 0 then py_min worst (fdiv v ?peak - 1) else worst)"
  have w: "- 1 \<le> w" "w \<le> worst"
  proof -
    have "- 1 \<le> fdiv v ?peak - 1" "fdiv v ?peak - 1 \<le> 0" if "\<not> feq ?peak 0"
      using quotient_return[OF v peak(1) that] peak(2) by blast+
    moreover have "worst \<le> worst" using Cons.prems(2) by (cases worst) auto
    ultimately show "- 1 \<le> w" "w \<le> worst"
      using Cons.prems(2,3) pf_less_imp_le by (auto simp: w_def py_min_def dest: pf_less_notNaN intro: pf_le_trans)
  qed
  have IH: "- 1 \<le> drawdown_from w ?peak vs \<and> drawdown_from w ?peak vs \<le> w"
    using Cons.IH[of w ?peak] Cons.prems(1) w peak(1) pf_le_trans[OF w(2) Cons.prems(3)] by simp
  have "drawdown_from worst peak (v # vs) = drawdown_from w ?peak vs" by (simp add: Let_def w_def)
  then show ?case using IH w(2) pf_le_trans[of "drawdown_from w ?peak vs" w worst] by presburger
qed (auto simp: pf_refl dest: pf_le_notNaN)

lemma drawdown_monotone:
  assumes "\<forall>v \<in> set vals. valuation v" "peak = NInf \<or> valuation peak"
    "sorted_wrt (\<le>) (vals)" "\<forall>v \<in> set vals. peak \<le> v"
  shows "drawdown_from 0 peak vals = 0"
  using assms
proof (induction vals arbitrary: peak)
  case (Cons v vs)
  have v: "valuation v" using Cons.prems(1) by simp
  have peak: "py_max peak v = v"
    using Cons.prems(4) v by (cases peak; cases v) (auto simp: py_max_def valuation_def)
  have "py_min 0 (fdiv v v - 1) = 0" if "\<not> feq v 0"
    using quotient_return(3)[OF v v that refl] by (simp add: py_min_def)
  then show ?case using Cons.IH[of v] Cons.prems v peak by (auto simp: Let_def)
qed simp

lemma simple_returns_ge:
  "\<forall>v \<in> set vals. valuation v \<Longrightarrow> \<forall>r \<in> set (simple_returns vals). - 1 \<le> r"
  by (induction vals rule: simple_returns.induct) (use quotient_return(1) in auto)

subsection \<open>The drawdown is the worst fall of the series\<close>

lemma quotient_antitone:
  assumes "valuation v" "valuation p" "valuation p'" "\<not> feq p 0" "p \<le> p'"
  shows "fdiv v p' - 1 \<le> fdiv v p - 1"
proof -
  obtain x where x: "v = Fin x" "0 \<le> x" using assms(1) by (auto simp: valuation_def)
  obtain y where y: "p = Fin y" "0 < y" using assms(2,4) by (cases p) (auto simp: valuation_def feq_def)
  obtain z where z: "p' = Fin z" "y \<le> z" using assms(3,5) y by (cases p') (auto simp: valuation_def)
  have nonneg: "0 \<le> x / z" "0 \<le> x / y" using x y z by simp_all
  have le: "fl (x / z) \<le> fl (x / y)" using x y z by (intro fl_mono) (simp add: frac_le)
  have top: "fl r \<le> PInf" for r by (cases "fl r") (use fl_not_NaN[of r] in auto)
  have step: "fl (a + - 1) \<le> fl (b + - 1)" if "a \<le> b" for a b :: rat using that by (intro fl_mono) simp
  have "a + Fin (- 1) \<le> b + Fin (- 1)" if "a \<le> b" "0 \<le> a" for a b :: pyfloat
    using that step top by (cases a; cases b) auto
  then show ?thesis using le fl_ge_0[OF nonneg(1)] x y z
    by (cases rule: fl_nonneg_cases[OF nonneg(1)]; cases rule: fl_nonneg_cases[OF nonneg(2)]) (auto intro!: fl_mono top)
qed

text \<open>The falls of a series: a value together with the values from it on.\<close>

fun falls :: "pyfloat list \<Rightarrow> (pyfloat \<times> pyfloat) list" where
  "falls [] = []"
| "falls (v # vs) = map (Pair v) (v # vs) @ falls vs"

lemma set_falls: "set (falls vs) = {(vs ! i, vs ! j) | i j. i \<le> j \<and> j < length vs}"
proof (induction vs)
  case (Cons v vs)
  have "{((v # vs) ! i, (v # vs) ! j) | i j. i \<le> j \<and> j < length (v # vs)} =
      Pair v ` set (v # vs) \<union> {(vs ! i, vs ! j) | i j. i \<le> j \<and> j < length vs}" (is "?L = ?A \<union> ?B")
  proof (intro equalityI subsetI)
    fix x assume "x \<in> ?L"
    then obtain i j where ij: "x = ((v # vs) ! i, (v # vs) ! j)" "i \<le> j" "j < length (v # vs)" by blast
    show "x \<in> ?A \<union> ?B"
    proof (cases i)
      case 0
      have "x \<in> ?A" unfolding ij(1) 0 nth_Cons_0 by (rule imageI, rule nth_mem, rule ij(3))
      then show ?thesis ..
    next
      case (Suc i')
      then obtain j' where "j = Suc j'" using ij(2) by (cases j) auto
      then have "x \<in> ?B" using ij Suc by auto
      then show ?thesis ..
    qed
  next
    fix x assume "x \<in> ?A \<union> ?B"
    then show "x \<in> ?L"
    proof
      assume "x \<in> ?A"
      then obtain j where "j < length (v # vs)" "x = (v, (v # vs) ! j)" by (metis (no_types) imageE in_set_conv_nth)
      then show "x \<in> ?L" by (intro CollectI exI[of _ 0] exI[of _ j]) simp
    next
      assume "x \<in> ?B"
      then obtain i j where "x = (vs ! i, vs ! j)" "i \<le> j" "j < length vs" by blast
      then show "x \<in> ?L" by (intro CollectI exI[of _ "Suc i"] exI[of _ "Suc j"]) simp
    qed
  qed
  then show ?case using Cons.IH by simp
qed simp

definition loss :: "pyfloat \<times> pyfloat \<Rightarrow> pyfloat" where
  "loss pv = fdiv (snd pv) (fst pv) - 1"

lemma drawdown_least:
  assumes "\<forall>v \<in> set vals. valuation v" "- 1 \<le> worst" "worst \<le> 0" "peak = NInf \<or> valuation peak"
  shows "(\<forall>f \<in> set (falls vals). \<not> feq (fst f) 0 \<longrightarrow> drawdown_from worst peak vals \<le> loss f) \<and>
    (valuation peak \<and> \<not> feq peak 0 \<longrightarrow> (\<forall>v \<in> set vals. drawdown_from worst peak vals \<le> loss (peak, v)))"
  using assms
proof (induction vals arbitrary: worst peak)
  case (Cons v vs)
  let ?peak = "py_max peak v"
  have v: "valuation v" using Cons.prems(1) by simp
  have peak: "valuation ?peak" "v \<le> ?peak" "valuation peak \<Longrightarrow> peak \<le> ?peak"
    using v Cons.prems(4) pf_refl by (auto simp: py_max_def valuation_def pf_less_imp_le pf_refl)
  define w where "w = (if \<not> feq ?peak 0 then py_min worst (loss (?peak, v)) else worst)"
  have step: "drawdown_from worst peak (v # vs) = drawdown_from w ?peak vs" by (simp add: Let_def w_def loss_def)
  have low: "\<not> feq ?peak 0 \<Longrightarrow> - 1 \<le> loss (?peak, v)" "\<not> feq ?peak 0 \<Longrightarrow> loss (?peak, v) \<le> 0"
    using quotient_return[OF v peak(1)] peak(2) by (auto simp: loss_def)
  have w: "- 1 \<le> w" "w \<le> 0" "\<not> feq ?peak 0 \<Longrightarrow> w \<le> loss (?peak, v)"
    using low Cons.prems(2,3) py_min_le[of worst "loss (?peak, v)"] pf_le_notNaN py_min_cases[of worst "loss (?peak, v)"]
    by (auto simp: w_def split: if_splits)
  have vs: "\<forall>v \<in> set vs. valuation v" using Cons.prems(1) by simp
  note IH = Cons.IH[OF vs w(1,2) disjI2[OF peak(1)]]
  have bound: "drawdown_from w ?peak vs \<le> w" using drawdown_bounds[OF vs w(1,2)] peak(1) by blast
  have upto: "drawdown_from w ?peak vs \<le> loss (p, u)"
    if "valuation p" "\<not> feq p 0" "p \<le> ?peak" "u = v \<or> u \<in> set vs" for p u
  proof -
    have nz: "\<not> feq ?peak 0" using that(1,2,3) peak(1) by (cases p; cases ?peak) (auto simp: valuation_def feq_def)
    have u: "valuation u" using that(4) v vs by auto
    have "drawdown_from w ?peak vs \<le> loss (?peak, u)"
      using that(4) nz IH peak(1) pf_le_trans[OF bound w(3)] by blast
    moreover have "loss (?peak, u) \<le> loss (p, u)"
      using quotient_antitone[OF u that(1) peak(1) that(2,3)] by (simp add: loss_def)
    ultimately show ?thesis by (rule pf_le_trans)
  qed
  show ?case unfolding step
    using upto[OF v _ peak(2)] upto[of peak] peak(3) IH by auto
qed simp

lemma drawdown_attained:
  assumes "\<forall>v \<in> set vals. valuation v" "peak = NInf \<or> valuation peak"
  shows "drawdown_from worst peak vals = worst \<or>
    (\<exists>f \<in> set (falls vals). \<not> feq (fst f) 0 \<and> drawdown_from worst peak vals = loss f) \<or>
    (valuation peak \<and> \<not> feq peak 0 \<and> (\<exists>v \<in> set vals. drawdown_from worst peak vals = loss (peak, v)))"
  using assms
proof (induction vals arbitrary: worst peak)
  case (Cons v vs)
  let ?peak = "py_max peak v"
  have v: "valuation v" using Cons.prems(1) by simp
  have peak: "?peak = v \<or> ?peak = peak \<and> valuation peak"
    using v Cons.prems(2) by (auto simp: py_max_def valuation_def)
  define w where "w = (if \<not> feq ?peak 0 then py_min worst (loss (?peak, v)) else worst)"
  have step: "drawdown_from worst peak (v # vs) = drawdown_from w ?peak vs" by (simp add: Let_def w_def loss_def)
  have w: "w = worst \<or> \<not> feq ?peak 0 \<and> w = loss (?peak, v)" using py_min_cases[of worst "loss (?peak, v)"] by (auto simp: w_def)
  define D where "D r \<longleftrightarrow> (\<exists>f \<in> set (falls (v # vs)). \<not> feq (fst f) 0 \<and> r = loss f) \<or>
      (valuation peak \<and> \<not> feq peak 0 \<and> (\<exists>u \<in> set (v # vs). r = loss (peak, u)))" for r
  have place: "D (loss (?peak, u))" if "\<not> feq ?peak 0" "u \<in> set (v # vs)" for u
  proof (cases "?peak = v")
    case True
    then have "(v, u) \<in> set (falls (v # vs))" using that(2) by auto
    then show ?thesis using that True unfolding D_def by (metis fst_conv)
  qed (use that peak in \<open>auto simp: D_def\<close>)
  have "drawdown_from w ?peak vs = w \<or> (\<exists>f \<in> set (falls vs). \<not> feq (fst f) 0 \<and> drawdown_from w ?peak vs = loss f) \<or>
      (valuation ?peak \<and> \<not> feq ?peak 0 \<and> (\<exists>u \<in> set vs. drawdown_from w ?peak vs = loss (?peak, u)))"
    using Cons.IH[of ?peak w] Cons.prems(1) peak v by auto
  moreover have "D (loss f)" if "f \<in> set (falls vs)" "\<not> feq (fst f) 0" for f using that by (auto simp: D_def)
  ultimately have "drawdown_from w ?peak vs = worst \<or> D (drawdown_from w ?peak vs)"
    using w place[of v] place by (metis list.set_intros)
  then show ?case unfolding step D_def .
qed simp

lemma max_drawdown_exact:
  assumes "\<forall>v \<in> set vals. valuation v"
  shows "(\<forall>f \<in> set (falls vals). \<not> feq (fst f) 0 \<longrightarrow> max_drawdown vals \<le> loss f) \<and>
    (max_drawdown vals = 0 \<or> (\<exists>f \<in> set (falls vals). \<not> feq (fst f) 0 \<and> max_drawdown vals = loss f))"
  using drawdown_least[OF assms, of 0 NInf] drawdown_attained[OF assms, of NInf 0]
  by (auto simp: max_drawdown_def valuation_def)

end
