(* ===== verification/Engine.thy ===== *)
theory Engine
  imports Evaluate Fills Reconcile Metrics
begin

section \<open>The session engine\<close>

text \<open>
  \<open>quantize/engine/backtest.py\<close> and \<open>records.py\<close>: the run window, valuation with its carry rule,
  the session step (fills at the open, valuation and evaluation at the close) and the backtest
  that drives it. What the constructor fixes is the configuration; the accumulators, the
  portfolio, the pending orders, the memo and the data cursor are the engine's state. A step
  returns nothing, the diagnostics that end the run, or the exception raised; what it mutated
  before stays.
\<close>

subsection \<open>Records\<close>

record fill_event =
  fe_session :: date
  fe_instant :: instant
  fe_fill :: fill

record session_note =
  sn_session :: date
  sn_code :: string
  sn_message :: string

record stale_mark =
  sm_session :: date
  sm_asset :: string
  sm_mark_date :: date

record evaluation_record =
  er_session :: date
  er_instant :: instant
  er_weights :: targets
  er_reconciliation :: outcome
  er_fill_session :: "date option"
  er_fill_instant :: "instant option"

record engine_config =
  ec_document :: strategy_document
  ec_catalog :: implementation_catalog
  ec_market_data :: market_data_set
  ec_run_id :: string
  ec_components :: "component_catalog option"
  ec_last_session :: "date option"
  ec_collect_trace :: bool
  ec_sessions :: "market_session list"
  ec_fires :: "date list"

record engine_state =
  es_warmup_total :: int
  es_valuations :: "(date \<times> pyfloat) list"
  es_stale_marks :: "stale_mark list"
  es_evaluations :: "evaluation_record list"
  es_fills :: "fill_event list"
  es_notes :: "session_note list"
  es_trace :: "trace_event list"
  es_portfolio :: portfolio_state
  es_pending :: "(order list \<times> date) option"
  es_memo :: "evaluation_memo option"
  es_cursor :: cursor

record backtest_result =
  br_ok :: bool
  br_run_id :: string
  br_calendar :: exchange_calendar
  br_first_session :: "date option"
  br_last_session :: "date option"
  br_valuations :: "(date \<times> pyfloat) list"
  br_stale_marks :: "stale_mark list"
  br_evaluations :: "evaluation_record list"
  br_fills :: "fill_event list"
  br_returns :: "pyfloat list"
  br_total_return :: pyfloat
  br_max_drawdown :: pyfloat
  br_final_state :: portfolio_state
  br_notes :: "session_note list"
  br_diagnostics :: "runtime_diagnostic list"
  br_trace :: "trace_event list"

subsection \<open>Window and valuation\<close>

definition run_window :: "exchange_calendar \<Rightarrow> date option \<Rightarrow> date option \<Rightarrow> market_session list" where
  "run_window cal first_session last_session =
     filter (\<lambda>s. (case first_session of None \<Rightarrow> True | Some d \<Rightarrow> d \<le> session_date s) \<and>
                 (case last_session of None \<Rightarrow> True | Some d \<Rightarrow> session_date s \<le> d)) (sessions cal)"

definition missing_valuation :: "string \<Rightarrow> date \<Rightarrow> runtime_diagnostic" where
  "missing_valuation asset d = run_diag ''missing_valuation_price''
     (''held asset '' @ repr_str asset @ '' has no visible close at or before '' @ isoformat d) asset"

fun mark_positions ::
    "positions \<Rightarrow> cursor \<Rightarrow> instant \<Rightarrow> date \<Rightarrow> pyfloat \<Rightarrow> stale_mark list
     \<Rightarrow> (pyfloat \<times> stale_mark list \<times> runtime_diagnostic list) \<times> cursor" where
  "mark_positions [] cur t d value marks = ((value, marks, []), cur)"
| "mark_positions ((asset, quantity) # rest) cur t d value marks =
     (case latest_close cur asset t of
        (None, cur') \<Rightarrow> ((0, [], [missing_valuation asset d]), cur')
      | (Some (mark_date, price), cur') \<Rightarrow>
          mark_positions rest cur' t d (value + quantity * price)
            (if mark_date \<noteq> d then marks @ [\<lparr>sm_session = d, sm_asset = asset, sm_mark_date = mark_date\<rparr>] else marks))"

definition mark_to_market ::
    "portfolio_state \<Rightarrow> cursor \<Rightarrow> instant \<Rightarrow> date \<Rightarrow> (pyfloat \<times> stale_mark list \<times> runtime_diagnostic list) \<times> cursor" where
  "mark_to_market st cur t d = mark_positions (positions st) cur t d (cash st) []"

fun closes_at :: "cursor \<Rightarrow> instant \<Rightarrow> date \<Rightarrow> string list \<Rightarrow> (string \<times> pynum) list \<times> cursor" where
  "closes_at cur t d [] = ([], cur)"
| "closes_at cur t d (asset # rest) =
     (case session_close cur asset d t of (price, cur') \<Rightarrow>
        (case closes_at cur' t d rest of (prices, cur'') \<Rightarrow>
           ((case price of None \<Rightarrow> prices | Some p \<Rightarrow> (asset, PyFloat p) # prices), cur'')))"

subsection \<open>Assembly\<close>

definition engine_config_of ::
    "strategy_document \<Rightarrow> implementation_catalog \<Rightarrow> market_data_set \<Rightarrow> string \<Rightarrow> component_catalog option
     \<Rightarrow> date option \<Rightarrow> date option \<Rightarrow> bool \<Rightarrow> engine_config" where
  "engine_config_of doc catalog ds run components first_session last_session collect =
     \<lparr>ec_document = doc, ec_catalog = catalog, ec_market_data = ds, ec_run_id = run, ec_components = components,
      ec_last_session = last_session, ec_collect_trace = collect,
      ec_sessions = run_window (calendar ds) first_session last_session,
      ec_fires = scheduled_sessions (sd_schedule doc) (calendar ds)\<rparr>"

definition new_engine :: "market_data_set \<Rightarrow> portfolio_state \<Rightarrow> engine_state" where
  "new_engine ds initial =
     \<lparr>es_warmup_total = 0, es_valuations = [], es_stale_marks = [], es_evaluations = [], es_fills = [], es_notes = [],
      es_trace = [], es_portfolio = initial, es_pending = None, es_memo = Some new_memo, es_cursor = new_cursor ds\<rparr>"

definition calendar_index :: "exchange_calendar \<Rightarrow> date \<Rightarrow> nat option" where
  "calendar_index cal d = map_of (dict_of (map (\<lambda>(i, x). (x, i)) (enumerate 0 (session_dates cal)))) d"

definition engine_event ::
    "engine_config \<Rightarrow> instant \<Rightarrow> string \<Rightarrow> json_object \<Rightarrow> engine_state \<Rightarrow> unit res \<times> engine_state" where
  "engine_event cfg t ty load es =
     (if \<not> ec_collect_trace cfg then (Inr (), es)
      else case mk_trace_event (ec_run_id cfg) t engine_node_id [] ty load of
        Inl e \<Rightarrow> (Inl e, es)
      | Inr ev \<Rightarrow> (Inr (), es\<lparr>es_trace := es_trace es @ [ev]\<rparr>))"

definition engine_payload :: "date \<Rightarrow> json_object \<Rightarrow> json_object" where
  "engine_payload d kvs = (''v'', JInt 1) # (''session'', JStr (isoformat d)) # kvs"

type_synonym phase = "engine_state \<Rightarrow> runtime_diagnostic list option res \<times> engine_state"

definition engine_note :: "engine_config \<Rightarrow> market_session \<Rightarrow> string \<Rightarrow> string \<Rightarrow> phase" where
  "engine_note cfg s code message es =
     (case engine_event cfg (close_at s) ''engine.note''
         (engine_payload (session_date s) [(''code'', JStr code), (''message'', JStr message)])
         (es\<lparr>es_notes := es_notes es @ [\<lparr>sn_session = session_date s, sn_code = code, sn_message = message\<rparr>]\<rparr>) of
       (Inl e, es') \<Rightarrow> (Inl e, es')
     | (Inr _, es') \<Rightarrow> (Inr None, es'))"

definition head_option :: "'a list \<Rightarrow> 'a option" where
  "head_option xs = (case xs of [] \<Rightarrow> None | x # _ \<Rightarrow> Some x)"

definition finish :: "engine_config \<Rightarrow> engine_state \<Rightarrow> bool \<Rightarrow> runtime_diagnostic list \<Rightarrow> backtest_result" where
  "finish cfg es ok diagnostics =
     (let vals = map snd (es_valuations es) in
      \<lparr>br_ok = ok, br_run_id = ec_run_id cfg, br_calendar = calendar (ec_market_data cfg),
       br_first_session = map_option session_date (head_option (ec_sessions cfg)),
       br_last_session = map_option session_date (head_option (rev (ec_sessions cfg))),
       br_valuations = es_valuations es, br_stale_marks = es_stale_marks es, br_evaluations = es_evaluations es,
       br_fills = es_fills es, br_returns = simple_returns vals, br_total_return = total_return vals,
       br_max_drawdown = max_drawdown vals, br_final_state = es_portfolio es, br_notes = es_notes es,
       br_diagnostics = diagnostics, br_trace = es_trace es\<rparr>)"

subsection \<open>Lifecycle\<close>

definition unsupported_costs :: "pyfloat \<Rightarrow> runtime_diagnostic" where
  "unsupported_costs bps = run_diag ''invalid_transaction_costs''
     (''transaction cost of '' @ repr_float bps @ '' bps is outside the engine-supported range [0, 10000)'') ''bps''"

definition engine_preflight :: "schema_lib \<Rightarrow> engine_config \<Rightarrow> phase" where
  "engine_preflight lib cfg es =
     (let doc = ec_document cfg; bps = sd_bps doc in
      case require_component_catalog (ec_components cfg) (sd_component_refs doc) of
        Inl e \<Rightarrow> (Inl e, es)
      | Inr catalog \<Rightarrow>
          (case resolve_strategy_components lib doc catalog (descriptor_registry (ec_catalog cfg)) of
             Inl e \<Rightarrow> (Inl e, es)
           | Inr resolution \<Rightarrow>
               if \<not> rst_ok resolution then (Inr (Some (rst_diagnostics resolution)), es)
               else (case resolve_warmup doc (ec_catalog cfg) resolution of
                  Inl e \<Rightarrow> (Inl e, es)
                | Inr w \<Rightarrow>
                    (Inr (if 0 \<le> bps \<and> bps < Fin 10000 then None else Some [unsupported_costs bps]),
                     es\<lparr>es_warmup_total := wu_total w\<rparr>))))"

definition json_fill :: "fill \<Rightarrow> json" where
  "json_fill f = JList [JStr (side_str (fill_side f)), JStr (fill_asset f), JFloat (fill_quantity f),
     JFloat (fill_price f), JFloat (fill_cost f), JFloat (fill_cash_delta f), JBool (fill_scaled f)]"

definition json_positions :: "portfolio_state \<Rightarrow> json" where
  "json_positions st = JList (map (\<lambda>(a, q). JList [JStr a, JFloat q]) (positions st))"

definition then_phase :: "phase \<Rightarrow> phase \<Rightarrow> phase" where
  "then_phase p q = (\<lambda>es. case p es of (Inr None, es') \<Rightarrow> q es' | other \<Rightarrow> other)"

definition emit_phase :: "engine_config \<Rightarrow> instant \<Rightarrow> string \<Rightarrow> json_object \<Rightarrow> phase" where
  "emit_phase cfg t ty load es = (case engine_event cfg t ty load es of
     (Inl e, es') \<Rightarrow> (Inl e, es') | (Inr _, es') \<Rightarrow> (Inr None, es'))"

text \<open>1. The open: the fills queued for this session.\<close>

definition settle_fills :: "engine_config \<Rightarrow> market_session \<Rightarrow> portfolio_state \<Rightarrow> fill list \<Rightarrow> phase" where
  "settle_fills cfg s after fs es = (Inr None, es\<lparr>es_portfolio := after,
     es_fills := es_fills es @ map (\<lambda>f. \<lparr>fe_session = session_date s, fe_instant = open_at s, fe_fill = f\<rparr>) fs,
     es_pending := None\<rparr>)"

definition record_fills :: "engine_config \<Rightarrow> market_session \<Rightarrow> portfolio_state \<Rightarrow> portfolio_state \<Rightarrow> fill list \<Rightarrow> phase" where
  "record_fills cfg s prior after fs =
     then_phase (emit_phase cfg (open_at s) ''engine.orders_filled''
       (engine_payload (session_date s) [(''fills'', JList (map json_fill fs))]))
     (then_phase (emit_phase cfg (open_at s) ''engine.state_transition''
       (engine_payload (session_date s) [(''cash_before'', JFloat (cash prior)), (''cash_after'', JFloat (cash after)),
          (''positions_before'', json_positions prior), (''positions_after'', json_positions after)]))
     (settle_fills cfg s after fs))"

definition open_phase :: "engine_config \<Rightarrow> market_session \<Rightarrow> phase" where
  "open_phase cfg s es = (case es_pending es of
     Some (orders, d) \<Rightarrow> if d \<noteq> session_date s then (Inr None, es) else
       (case apply_orders open_prices_at (es_portfolio es) orders (es_cursor es, open_at s) (session_date s)
           (PyFloat (sd_bps (ec_document cfg))) of
          (r, src) \<Rightarrow> let es1 = es\<lparr>es_cursor := fst src\<rparr> in
            (case r of
               Inl e \<Rightarrow> (Inl e, es1)
             | Inr (after, fs, diags) \<Rightarrow>
                 if diags \<noteq> [] then (Inr (Some diags), es1)
                 else record_fills cfg s (es_portfolio es) after fs es1))
   | None \<Rightarrow> (Inr None, es))"

text \<open>2. The close: the valuation.\<close>

definition valuation_phase :: "engine_config \<Rightarrow> market_session \<Rightarrow> phase" where
  "valuation_phase cfg s es =
     (case mark_to_market (es_portfolio es) (es_cursor es) (close_at s) (session_date s) of
        ((value, marks, diags), cur) \<Rightarrow>
          if diags \<noteq> [] then (Inr (Some diags), es\<lparr>es_cursor := cur\<rparr>)
          else (Inr None, es\<lparr>es_cursor := cur, es_valuations := es_valuations es @ [(session_date s, value)],
                  es_stale_marks := es_stale_marks es @ marks\<rparr>))"

text \<open>3. The close: the evaluation, when the schedule and the gates allow it.\<close>

fun action_str :: "plan_action \<Rightarrow> string" where
  "action_str ActBuy = ''buy''"
| "action_str ActSell = ''sell''"
| "action_str ActHold = ''hold''"
| "action_str ActDust = ''dust''"

definition json_order :: "order \<Rightarrow> json" where
  "json_order ord = JList [JStr (side_str (ord_side ord)), JStr (ord_asset ord), JFloat (ord_quantity ord)]"

definition json_omitted :: "asset_plan list \<Rightarrow> json" where
  "json_omitted ps = JList (map (\<lambda>p. JList [JStr (plan_asset p), JStr (action_str (plan_action p)), JFloat (delta_quantity p)])
     (filter (\<lambda>p. plan_action p = ActDust \<or> plan_action p = ActHold) ps))"

definition failed_at :: "string \<Rightarrow> string \<Rightarrow> date \<Rightarrow> runtime_diagnostic" where
  "failed_at code what d = run_diag code (what @ '' failed at '' @ isoformat d) (isoformat d)"

definition propose_phase :: "engine_config \<Rightarrow> market_session \<Rightarrow> outcome \<Rightarrow> phase" where
  "propose_phase cfg s rec es = (case (portfolio_value rec, target_cash rec, projected_cash rec) of
     (Some pv, Some tc, Some pc) \<Rightarrow> emit_phase cfg (close_at s) ''engine.orders_proposed''
       (engine_payload (session_date s) [(''portfolio_value'', JFloat pv), (''target_cash'', JFloat tc),
          (''projected_cash'', JFloat pc), (''orders'', JList (map json_order (out_orders rec))),
          (''omitted'', json_omitted (out_plans rec))]) es
   | _ \<Rightarrow> (Inl AssertionError, es))"

definition queue_orders :: "market_session \<Rightarrow> outcome \<Rightarrow> phase" where
  "queue_orders next rec es =
     (Inr None, if out_orders rec = [] then es else es\<lparr>es_pending := Some (out_orders rec, session_date next)\<rparr>)"

definition reconcile_phase :: "engine_config \<Rightarrow> market_session \<Rightarrow> market_session \<Rightarrow> targets \<Rightarrow> phase" where
  "reconcile_phase cfg s next ws es =
     (let union = union_assets (es_portfolio es) (map fst (live_weights ws)) in
      case closes_at (es_cursor es) (close_at s) (session_date s) union of (prices, cur) \<Rightarrow>
        let es1 = es\<lparr>es_cursor := cur\<rparr> in
        (case reconcile (es_portfolio es) ws prices of
          Inl e \<Rightarrow> (Inl e, es1)
        | Inr rec \<Rightarrow>
            let es2 = es1\<lparr>es_evaluations := es_evaluations es1 @
              [\<lparr>er_session = session_date s, er_instant = close_at s, er_weights = ws, er_reconciliation = rec,
                er_fill_session = Some (session_date next), er_fill_instant = Some (open_at next)\<rparr>]\<rparr> in
            if out_ok rec then then_phase (propose_phase cfg s rec) (queue_orders next rec) es2
            else (Inr (Some (failed_at ''reconciliation_failed'' ''reconciliation'' (session_date s) # out_diagnostics rec)), es2)))"

definition evaluate_phase :: "schema_lib \<Rightarrow> engine_config \<Rightarrow> market_session \<Rightarrow> market_session \<Rightarrow> phase" where
  "evaluate_phase lib cfg s next es =
     (case evaluate_at lib (ec_document cfg) (ec_catalog cfg) (ec_market_data cfg) (ec_run_id cfg) (close_at s)
         (ec_components cfg) (ec_collect_trace cfg) (es_memo es) of
        (Inl e, memo) \<Rightarrow> (Inl e, es\<lparr>es_memo := memo\<rparr>)
      | (Inr out, memo) \<Rightarrow>
          let es1 = es\<lparr>es_memo := memo, es_trace := es_trace es @ ev_trace out\<rparr> in
          (case (ev_ok out, ev_targets out) of
             (True, Some ws) \<Rightarrow> reconcile_phase cfg s next ws es1
           | _ \<Rightarrow> (Inr (Some (failed_at ''evaluation_failed'' ''graph evaluation'' (session_date s) # ev_diagnostics out)), es1)))"

definition warmup_message :: "int \<Rightarrow> int \<Rightarrow> string" where
  "warmup_message needed visible = ''warm-up requires more than '' @ dec_int needed @ '' sessions; only '' @ dec_int visible @ '' visible''"

definition close_phase :: "schema_lib \<Rightarrow> engine_config \<Rightarrow> market_session \<Rightarrow> phase" where
  "close_phase lib cfg s es =
     (let day = session_date s; cal = calendar (ec_market_data cfg) in
      if day \<notin> set (ec_fires cfg) then (Inr None, es)
      else case calendar_index cal day of
        None \<Rightarrow> (Inl (KeyError (isoformat day)), es)
      | Some i \<Rightarrow>
          let visible = int i + 1 in
          if visible \<le> es_warmup_total es
          then engine_note cfg s ''warmup_not_satisfied'' (warmup_message (es_warmup_total es) visible) es
          else (case next_session_after cal day of
            None \<Rightarrow> engine_note cfg s ''no_next_session'' ''no next valid session in the calendar'' es
          | Some next \<Rightarrow>
              if (case ec_last_session cfg of None \<Rightarrow> False | Some d \<Rightarrow> d < session_date next)
              then engine_note cfg s ''fill_outside_window'' (''scheduled fill session '' @ isoformat (session_date next)
                @ '' falls outside the run window'') es
              else evaluate_phase lib cfg s next es))"

definition engine_step :: "schema_lib \<Rightarrow> engine_config \<Rightarrow> market_session \<Rightarrow> phase" where
  "engine_step lib cfg s = then_phase (open_phase cfg s) (then_phase (valuation_phase cfg s) (close_phase lib cfg s))"

fun run_sessions :: "schema_lib \<Rightarrow> engine_config \<Rightarrow> market_session list \<Rightarrow> phase" where
  "run_sessions lib cfg [] es = (Inr None, es)"
| "run_sessions lib cfg (s # ss) es = then_phase (engine_step lib cfg s) (run_sessions lib cfg ss) es"

definition assemble :: "engine_config \<Rightarrow> runtime_diagnostic list option res \<times> engine_state \<Rightarrow> backtest_result res" where
  "assemble cfg = (\<lambda>(r, es). try_bind r (\<lambda>failure. Inr (case failure of
     None \<Rightarrow> finish cfg es True [] | Some ds \<Rightarrow> finish cfg es False ds)))"

definition run_configured :: "schema_lib \<Rightarrow> engine_config \<Rightarrow> portfolio_state \<Rightarrow> backtest_result res" where
  "run_configured lib cfg initial =
     assemble cfg (then_phase (engine_preflight lib cfg) (run_sessions lib cfg (ec_sessions cfg))
       (new_engine (ec_market_data cfg) initial))"

definition run_backtest ::
    "schema_lib \<Rightarrow> strategy_document \<Rightarrow> implementation_catalog \<Rightarrow> market_data_set \<Rightarrow> string \<Rightarrow> portfolio_state
     \<Rightarrow> component_catalog option \<Rightarrow> date option \<Rightarrow> date option \<Rightarrow> bool \<Rightarrow> backtest_result res" where
  "run_backtest lib doc catalog ds run initial components first_session last_session collect =
     run_configured lib (engine_config_of doc catalog ds run components first_session last_session collect) initial"

end
