(* ===== verification/Forward.thy ===== *)
theory Forward
  imports Engine
begin

section \<open>The forward driver\<close>

text \<open>
  \<open>quantize/engine/forward.py\<close>: the same engine fed one session at a time, with snapshot and
  resume. A driver is the engine's configuration and state, the cursor into its sessions and
  the failure that ended it.
\<close>

record session_advance =
  sa_session :: date
  sa_ok :: bool
  sa_evaluated :: bool
  sa_fills :: "fill list"
  sa_value :: "pyfloat option"

record forward_checkpoint =
  fc_run_id :: string
  fc_cursor :: nat
  fc_state :: portfolio_state
  fc_pending :: "(order list \<times> date) option"
  fc_valuations :: "(date \<times> pyfloat) list"
  fc_stale_marks :: "stale_mark list"
  fc_evaluations :: "evaluation_record list"
  fc_fills :: "fill_event list"
  fc_notes :: "session_note list"
  fc_trace :: "trace_event list"
  fc_failure :: "runtime_diagnostic list option"

record forward_replay =
  fr_config :: engine_config
  fr_engine :: engine_state
  fr_cursor :: nat
  fr_failure :: "runtime_diagnostic list option"

definition start_forward :: "schema_lib \<Rightarrow> engine_config \<Rightarrow> portfolio_state \<Rightarrow> forward_replay res" where
  "start_forward lib cfg initial =
     (case engine_preflight lib cfg (new_engine (ec_market_data cfg) initial) of
        (Inl e, es) \<Rightarrow> Inl e
      | (Inr failure, es) \<Rightarrow> Inr \<lparr>fr_config = cfg, fr_engine = es, fr_cursor = 0, fr_failure = failure\<rparr>)"

definition new_forward ::
    "schema_lib \<Rightarrow> strategy_document \<Rightarrow> implementation_catalog \<Rightarrow> market_data_set \<Rightarrow> string \<Rightarrow> portfolio_state
     \<Rightarrow> component_catalog option \<Rightarrow> date option \<Rightarrow> date option \<Rightarrow> bool \<Rightarrow> forward_replay res" where
  "new_forward lib doc catalog ds run initial components first_session last_session collect =
     (if last_session = None
      then Inl (ValueError ''ForwardReplay requires last_session (bounded replay; see M8 plan)'')
      else start_forward lib (engine_config_of doc catalog ds run components first_session last_session collect) initial)"

definition exhausted :: "forward_replay \<Rightarrow> bool" where
  "exhausted fr \<longleftrightarrow> fr_failure fr \<noteq> None \<or> length (ec_sessions (fr_config fr)) \<le> fr_cursor fr"

definition advance_report :: "engine_state \<Rightarrow> engine_state \<Rightarrow> market_session \<Rightarrow> bool \<Rightarrow> session_advance" where
  "advance_report prior after s ok =
     \<lparr>sa_session = session_date s, sa_ok = ok,
      sa_evaluated = (length (es_evaluations prior) < length (es_evaluations after)),
      sa_fills = map fe_fill (drop (length (es_fills prior)) (es_fills after)),
      sa_value = (if ok then map_option snd (head_option (rev (es_valuations after))) else None)\<rparr>"

definition advance_session :: "schema_lib \<Rightarrow> forward_replay \<Rightarrow> session_advance option res \<times> forward_replay" where
  "advance_session lib fr =
     (if exhausted fr then (Inr None, fr)
      else
        let s = ec_sessions (fr_config fr) ! fr_cursor fr in
        case engine_step lib (fr_config fr) s (fr_engine fr) of
          (Inl e, es) \<Rightarrow> (Inl e, fr\<lparr>fr_engine := es\<rparr>)
        | (Inr failure, es) \<Rightarrow>
            (Inr (Some (advance_report (fr_engine fr) es s (failure = None))),
             fr\<lparr>fr_engine := es, fr_cursor := Suc (fr_cursor fr),
                fr_failure := (if failure = None then fr_failure fr else failure)\<rparr>))"

definition forward_result :: "forward_replay \<Rightarrow> backtest_result" where
  "forward_result fr = (case fr_failure fr of
     Some ds \<Rightarrow> finish (fr_config fr) (fr_engine fr) False ds
   | None \<Rightarrow> finish (fr_config fr) (fr_engine fr) True [])"

definition snapshot :: "forward_replay \<Rightarrow> forward_checkpoint" where
  "snapshot fr =
     (let es = fr_engine fr in
      \<lparr>fc_run_id = ec_run_id (fr_config fr), fc_cursor = fr_cursor fr, fc_state = es_portfolio es, fc_pending = es_pending es,
       fc_valuations = es_valuations es, fc_stale_marks = es_stale_marks es, fc_evaluations = es_evaluations es,
       fc_fills = es_fills es, fc_notes = es_notes es, fc_trace = es_trace es, fc_failure = fr_failure fr\<rparr>)"

definition restore :: "forward_checkpoint \<Rightarrow> forward_replay \<Rightarrow> forward_replay" where
  "restore ck fr =
     fr\<lparr>fr_engine := (fr_engine fr)\<lparr>es_pending := fc_pending ck, es_valuations := fc_valuations ck,
          es_stale_marks := fc_stale_marks ck, es_evaluations := fc_evaluations ck, es_fills := fc_fills ck,
          es_notes := fc_notes ck, es_trace := fc_trace ck\<rparr>,
        fr_cursor := fc_cursor ck,
        fr_failure := (if fc_failure ck = None then fr_failure fr else fc_failure ck)\<rparr>"

definition resume ::
    "schema_lib \<Rightarrow> forward_checkpoint \<Rightarrow> strategy_document \<Rightarrow> implementation_catalog \<Rightarrow> market_data_set
     \<Rightarrow> component_catalog option \<Rightarrow> date option \<Rightarrow> date option \<Rightarrow> bool \<Rightarrow> forward_replay res" where
  "resume lib ck doc catalog ds components first_session last_session collect =
     try_bind (new_forward lib doc catalog ds (fc_run_id ck) (fc_state ck) components first_session last_session collect)
       (\<lambda>fr. Inr (restore ck fr))"

text \<open>A client that advances until the driver is exhausted, with fuel.\<close>

fun replay_all :: "nat \<Rightarrow> schema_lib \<Rightarrow> forward_replay \<Rightarrow> unit res \<times> forward_replay" where
  "replay_all 0 lib fr = (Inr (), fr)"
| "replay_all (Suc n) lib fr = (case advance_session lib fr of
     (Inl e, fr') \<Rightarrow> (Inl e, fr')
   | (Inr None, fr') \<Rightarrow> (Inr (), fr')
   | (Inr (Some _), fr') \<Rightarrow> replay_all n lib fr')"

subsection \<open>Exhausted replay is the backtest\<close>

lemma advance_exhausted: "exhausted fr \<Longrightarrow> advance_session lib fr = (Inr None, fr)"
  by (simp add: advance_session_def)

lemma replay_exhausted: "exhausted fr \<Longrightarrow> replay_all n lib fr = (Inr (), fr)"
  by (cases n) (simp_all add: advance_exhausted)

definition concluded :: "engine_config \<Rightarrow> unit res \<times> forward_replay \<Rightarrow> backtest_result res" where
  "concluded cfg = (\<lambda>(r, fr). try_bind r (\<lambda>_. Inr (forward_result fr)))"

lemma replay_all_run_sessions:
  assumes "fr_failure fr = None" "length (ec_sessions (fr_config fr)) - fr_cursor fr \<le> n"
  shows "concluded (fr_config fr) (replay_all n lib fr) =
     assemble (fr_config fr) (run_sessions lib (fr_config fr) (drop (fr_cursor fr) (ec_sessions (fr_config fr))) (fr_engine fr))"
  using assms
proof (induction n arbitrary: fr)
  case 0
  then show ?case by (simp add: concluded_def assemble_def forward_result_def)
next
  case (Suc n)
  let ?cfg = "fr_config fr"
  show ?case
  proof (cases "fr_cursor fr < length (ec_sessions ?cfg)")
    case False
    then have "exhausted fr" by (simp add: exhausted_def)
    with False show ?thesis
      using Suc.prems by (simp add: replay_exhausted concluded_def assemble_def forward_result_def del: replay_all.simps)
  next
    case True
    then have ex: "\<not> exhausted fr" using Suc.prems by (simp add: exhausted_def)
    let ?s = "ec_sessions ?cfg ! fr_cursor fr"
    have d: "drop (fr_cursor fr) (ec_sessions ?cfg) = ?s # drop (Suc (fr_cursor fr)) (ec_sessions ?cfg)"
      using True by (simp add: Cons_nth_drop_Suc)
    obtain r es where st: "engine_step lib ?cfg ?s (fr_engine fr) = (r, es)" by (metis surj_pair)
    show ?thesis
    proof (cases r)
      case (Inl e)
      then show ?thesis
        using ex st by (simp add: advance_session_def Let_def concluded_def d then_phase_def assemble_def)
    next
      case (Inr failure)
      show ?thesis
      proof (cases failure)
        case None
        let ?fr = "fr\<lparr>fr_engine := es, fr_cursor := Suc (fr_cursor fr)\<rparr>"
        have "advance_session lib fr = (Inr (Some (advance_report (fr_engine fr) es ?s True)), ?fr)"
          using ex st Inr None by (simp add: advance_session_def Let_def)
        then have "replay_all (Suc n) lib fr = replay_all n lib ?fr" by simp
        moreover have "concluded (fr_config ?fr) (replay_all n lib ?fr) = assemble (fr_config ?fr)
            (run_sessions lib (fr_config ?fr) (drop (fr_cursor ?fr) (ec_sessions (fr_config ?fr))) (fr_engine ?fr))"
          by (rule Suc.IH) (use Suc.prems True in simp_all)
        ultimately show ?thesis using st Inr None by (simp add: d then_phase_def)
      next
        case (Some ds)
        let ?fr = "fr\<lparr>fr_engine := es, fr_cursor := Suc (fr_cursor fr), fr_failure := Some ds\<rparr>"
        have "advance_session lib fr = (Inr (Some (advance_report (fr_engine fr) es ?s False)), ?fr)"
          using ex st Inr Some by (simp add: advance_session_def Let_def)
        moreover have "exhausted ?fr" by (simp add: exhausted_def)
        ultimately have "replay_all (Suc n) lib fr = (Inr (), ?fr)" by (simp add: replay_exhausted)
        then show ?thesis
          using st Inr Some by (simp add: d then_phase_def concluded_def assemble_def forward_result_def)
      qed
    qed
  qed
qed

text \<open>Field-for-field equality, exceptions included: bounded, exhausted replay is the backtest.\<close>

lemma replay_configured:
  assumes "length (ec_sessions cfg) \<le> n"
  shows "try_bind (start_forward lib cfg initial) (\<lambda>fr. concluded cfg (replay_all n lib fr)) = run_configured lib cfg initial"
proof -
  let ?es = "new_engine (ec_market_data cfg) initial"
  obtain r es where p: "engine_preflight lib cfg ?es = (r, es)" by (metis surj_pair)
  show ?thesis
  proof (cases r)
    case (Inl e)
    then show ?thesis using p by (simp add: start_forward_def run_configured_def then_phase_def assemble_def)
  next
    case (Inr failure)
    let ?fr = "\<lparr>fr_config = cfg, fr_engine = es, fr_cursor = 0, fr_failure = failure\<rparr>"
    have s: "start_forward lib cfg initial = Inr ?fr" using p Inr by (simp add: start_forward_def)
    show ?thesis
    proof (cases failure)
      case None
      have "concluded (fr_config ?fr) (replay_all n lib ?fr) = assemble (fr_config ?fr)
          (run_sessions lib (fr_config ?fr) (drop (fr_cursor ?fr) (ec_sessions (fr_config ?fr))) (fr_engine ?fr))"
        by (rule replay_all_run_sessions) (use assms None in simp_all)
      then show ?thesis using s p Inr None by (simp add: run_configured_def then_phase_def)
    next
      case (Some ds)
      have "exhausted ?fr" using Some by (simp add: exhausted_def)
      then show ?thesis
        using s p Inr Some
        by (simp add: replay_exhausted run_configured_def then_phase_def assemble_def concluded_def forward_result_def)
    qed
  qed
qed

text \<open>A failure is terminal, and an exhausted driver accepts no session.\<close>

lemma advance_after_failure:
  "fr_failure fr \<noteq> None \<Longrightarrow> advance_session lib fr = (Inr None, fr)"
  by (rule advance_exhausted) (simp add: exhausted_def)

lemma advance_failure_recorded:
  "advance_session lib fr = (Inr (Some rep), fr') \<Longrightarrow> fr_cursor fr' = Suc (fr_cursor fr) \<and> (sa_ok rep \<longleftrightarrow> fr_failure fr' = None)"
  by (auto simp: advance_session_def Let_def advance_report_def exhausted_def split: prod.splits sum.splits if_splits)

end
