(* ===== verification/Nodes.thy ===== *)
theory Nodes
  imports Registry
begin

section \<open>The core nodes\<close>

text \<open>
  \<open>quantize/nodes/\<close>: the evaluate function of each of the thirteen core nodes and the
  parameter readers. A node reads its invocation, emits trace events through its sink and may
  use the run's memo; it returns its outputs by port name. Scores are finite by construction of
  a cross section, so they are ordered by their rational value; a cell that is a bool counts as
  0 or 1. \<open>assert isinstance\<close> is an \<open>AssertionError\<close> on a value of another kind.
\<close>

subsection \<open>Sequences and parameters\<close>

definition py_index :: "'a list \<Rightarrow> int \<Rightarrow> 'a res" where
  "py_index xs i =
     (let n = int (length xs); j = (if i < 0 then i + n else i) in
      if 0 \<le> j \<and> j < n then Inr (xs ! nat j) else Inl (IndexError ''tuple index out of range''))"

definition py_slice :: "'a list \<Rightarrow> int \<Rightarrow> int \<Rightarrow> 'a list" where
  "py_slice xs a b =
     (let n = int (length xs);
          clamp = (\<lambda>i. nat (if i < 0 then max 0 (i + n) else min i n))
      in take (clamp b - clamp a) (drop (clamp a) xs))"

definition param_of :: "json_object \<Rightarrow> string \<Rightarrow> json res" where
  "param_of params key = (case map_of params key of None \<Rightarrow> Inl (KeyError (repr_str key)) | Some v \<Rightarrow> Inr v)"

definition require_int :: "json_object \<Rightarrow> string \<Rightarrow> int res" where
  "require_int params key = try_bind (param_of params key) (\<lambda>v. case v of
     JInt i \<Rightarrow> Inr i
   | _ \<Rightarrow> Inl (ValueError (''param '' @ repr_str key @ '' must be an integer, got '' @ json_type_name v)))"

definition require_number :: "json_object \<Rightarrow> string \<Rightarrow> pyfloat res" where
  "require_number params key = try_bind (param_of params key) (\<lambda>v. case v of
     JInt i \<Rightarrow> float_of_int i
   | JFloat x \<Rightarrow> Inr (to_double x)
   | _ \<Rightarrow> Inl (ValueError (''param '' @ repr_str key @ '' must be a number, got '' @ json_type_name v)))"

definition get_bool :: "json_object \<Rightarrow> string \<Rightarrow> bool \<Rightarrow> bool res" where
  "get_bool params key dflt = (case map_of params key of
     None \<Rightarrow> Inr dflt
   | Some (JBool b) \<Rightarrow> Inr b
   | Some v \<Rightarrow> Inl (ValueError (''param '' @ repr_str key @ '' must be a boolean, got '' @ json_type_name v)))"

definition input_of :: "node_invocation \<Rightarrow> string \<Rightarrow> runtime_value res" where
  "input_of iv port = (case map_of (inv_inputs iv) port of None \<Rightarrow> Inl (KeyError (repr_str port)) | Some v \<Rightarrow> Inr v)"

definition as_assets :: "runtime_value \<Rightarrow> string list res" where
  "as_assets v = (case v of AssetSetV a \<Rightarrow> Inr a | _ \<Rightarrow> Inl AssertionError)"

definition as_cross :: "runtime_value \<Rightarrow> cross_section res" where
  "as_cross v = (case v of CrossSectionV c \<Rightarrow> Inr c | _ \<Rightarrow> Inl AssertionError)"

definition as_targets :: "runtime_value \<Rightarrow> targets res" where
  "as_targets v = (case v of TargetsV t \<Rightarrow> Inr t | _ \<Rightarrow> Inl AssertionError)"

definition series_input :: "node_invocation \<Rightarrow> time_series res" where
  "series_input iv = try_bind (input_of iv ''series'') (\<lambda>v.
     case v of TimeSeriesV ts \<Rightarrow> Inr ts | _ \<Rightarrow> Inl AssertionError)"

definition payload :: "json_object \<Rightarrow> json_object" where
  "payload kvs = (''v'', JInt 1) # kvs"

definition json_strs :: "string list \<Rightarrow> json" where
  "json_strs xs = JList (map JStr xs)"

definition json_weights :: "targets \<Rightarrow> json" where
  "json_weights ws = JList (map (\<lambda>(a, w). JList [JStr a, JFloat w]) ws)"

definition float_cells :: "(string \<times> pyfloat) list \<Rightarrow> (string \<times> pynum) list" where
  "float_cells vs = map (\<lambda>(a, x). (a, PyFloat x)) vs"

definition cell_float :: "pynum \<Rightarrow> pyfloat" where
  "cell_float v = (case v of PyFloat x \<Rightarrow> x | PyBool b \<Rightarrow> (if b then 1 else 0) | _ \<Rightarrow> NaN)"

fun rat_value :: "pyfloat \<Rightarrow> rat" where
  "rat_value (Fin r) = r"
| "rat_value _ = 0"

abbreviation act_res :: "'a res \<Rightarrow> ('a \<Rightarrow> 'b act) \<Rightarrow> 'b act" where
  "act_res r f \<equiv> act_bind (act_lift r) f"

text \<open>A loop over assets whose body may emit and skip.\<close>

fun act_filter_map :: "('a \<Rightarrow> 'b option act) \<Rightarrow> 'a list \<Rightarrow> 'b list act" where
  "act_filter_map f [] = act_return []"
| "act_filter_map f (x # xs) = act_bind (f x) (\<lambda>r. act_bind (act_filter_map f xs) (\<lambda>ys.
     act_return (case r of None \<Rightarrow> ys | Some y \<Rightarrow> y # ys)))"

subsection \<open>Universe, data and output\<close>

definition fixed_list_evaluate :: "node_invocation \<Rightarrow> named_values act" where
  "fixed_list_evaluate iv =
     act_res (param_of (inv_params iv) ''tickers'') (\<lambda>tickers.
     act_res (case tickers of JList xs \<Rightarrow> Inr xs | _ \<Rightarrow> Inl AssertionError) (\<lambda>xs.
     act_res (canonical_assets (List.map_filter (\<lambda>t. case t of JStr s \<Rightarrow> Some s | _ \<Rightarrow> None) xs) ''AssetSet'') (\<lambda>assets.
     act_bind (trace iv ''universe.selected'' (payload [(''assets'', json_strs assets)])) (\<lambda>_.
       act_return [(''assets'', AssetSetV assets)]))))"

definition observed_row :: "string \<Rightarrow> history \<Rightarrow> json" where
  "observed_row asset h = JObj [(''asset'', JStr asset), (''observations'', JInt (int (length h))),
     (''first'', if h = [] then JNull else JStr (isoformat (fst (hd h)))),
     (''last'', if h = [] then JNull else JStr (isoformat (fst (last h))))]"

definition price_asset :: "node_invocation \<Rightarrow> string \<Rightarrow> (string \<times> history) act" where
  "price_asset iv asset =
     (let h = close_history (inv_view iv) asset in
      act_bind (if h = [] then trace iv ''data.missing_asset'' (payload [(''asset'', JStr asset)]) else act_return ())
        (\<lambda>_. act_return (asset, h)))"

definition price_evaluate :: "node_invocation \<Rightarrow> named_values act" where
  "price_evaluate iv =
     act_res (try_bind (input_of iv ''assets'') as_assets) (\<lambda>assets.
     act_bind (act_map (price_asset iv) assets) (\<lambda>series.
     act_bind (trace iv ''data.observed'' (payload [(''per_asset'', JList (map (\<lambda>(a, h). observed_row a h) series))])) (\<lambda>_.
     act_res (from_view_history series) (\<lambda>ts. act_return [(''series'', TimeSeriesV ts)]))))"

definition target_portfolio_evaluate :: "node_invocation \<Rightarrow> named_values act" where
  "target_portfolio_evaluate iv =
     act_res (try_bind (input_of iv ''targets'') as_targets) (\<lambda>ws.
     act_bind (trace iv ''targets.finalized'' (payload [(''weights'', json_weights ws), (''cash'', JFloat (cash_weight ws))])) (\<lambda>_.
       act_return []))"

subsection \<open>Transforms\<close>

definition exclude_asset :: "node_invocation \<Rightarrow> string \<Rightarrow> string \<Rightarrow> unit act" where
  "exclude_asset iv asset reason = trace iv ''transform.excluded'' (payload [(''asset'', JStr asset), (''reason'', JStr reason)])"

definition computed_event :: "node_invocation \<Rightarrow> string list \<Rightarrow> unit act" where
  "computed_event iv assets = trace iv ''transform.computed'' (payload [(''computed'', json_strs (sort assets))])"

definition skip_asset :: "node_invocation \<Rightarrow> string \<Rightarrow> string \<Rightarrow> 'a option act" where
  "skip_asset iv asset reason = act_bind (exclude_asset iv asset reason) (\<lambda>_. act_return None)"

definition return_of_asset ::
    "node_invocation \<Rightarrow> time_series \<Rightarrow> date \<Rightarrow> date \<Rightarrow> string \<Rightarrow> (string \<times> pyfloat) option act" where
  "return_of_asset iv ts current anchor asset =
     act_res (ts_history ts asset) (\<lambda>h.
     let m = dict_of h in
     case map_of m current of
       None \<Rightarrow> skip_asset iv asset ''missing_current_close''
     | Some c \<Rightarrow> (case map_of m anchor of
         None \<Rightarrow> skip_asset iv asset ''missing_anchor_close''
       | Some a \<Rightarrow> if feq a 0 then skip_asset iv asset ''zero_denominator''
           else act_res (py_div c a) (\<lambda>q. act_return (Some (asset, q - 1)))))"

definition trailing_return_evaluate :: "node_invocation \<Rightarrow> named_values act" where
  "trailing_return_evaluate iv =
     act_res (require_int (inv_params iv) ''lookback_sessions'') (\<lambda>lookback.
     act_res (series_input iv) (\<lambda>ts.
     let ss = view_sessions (inv_view iv) in
     act_bind
       (if int (length ss) \<le> lookback
        then act_filter_map (\<lambda>a. skip_asset iv a ''insufficient_sessions'') (ts_assets ts)
        else act_res (py_index ss (-1)) (\<lambda>current.
             act_res (py_index ss (-1 - lookback)) (\<lambda>anchor.
               act_filter_map (return_of_asset iv ts current anchor) (ts_assets ts))))
     (\<lambda>vals.
     act_bind (computed_event iv (map fst vals)) (\<lambda>_.
     act_res (cs_numbers (ts_assets ts) (float_cells vals)) (\<lambda>cs.
       act_return [(''values'', CrossSectionV cs)])))))"

text \<open>One moving-average point: absent when any close of its window is.\<close>

definition window_value :: "int \<Rightarrow> (date \<times> pyfloat) list \<Rightarrow> date list \<Rightarrow> pyfloat option res" where
  "window_value window h dates =
     (let closes = map (map_of h) dates in
      if None \<in> set closes then Inr None
      else try_bind (float_of_int window) (\<lambda>w.
           try_bind (py_div (py_sum (map the closes)) w) (\<lambda>v. Inr (Some v))))"

definition ma_window :: "date list \<Rightarrow> int \<Rightarrow> int \<Rightarrow> date list" where
  "ma_window ss window i = py_slice ss (i - window + 1) (i + 1)"

definition memo_get :: "memo_key \<Rightarrow> date \<Rightarrow> run_state \<Rightarrow> pyfloat option" where
  "memo_get key d s = (case run_memo s of None \<Rightarrow> None | Some m \<Rightarrow> map_of (fst (memo_slot key m)) d)"

definition memo_put :: "memo_key \<Rightarrow> date \<Rightarrow> pyfloat \<Rightarrow> unit act" where
  "memo_put key d x = (\<lambda>s. (Inr (), s\<lparr>run_memo := map_option (memo_store key d x) (run_memo s)\<rparr>))"

definition memo_touch :: "memo_key \<Rightarrow> unit act" where
  "memo_touch key = (\<lambda>s. (Inr (), s\<lparr>run_memo := map_option (\<lambda>m. snd (memo_slot key m)) (run_memo s)\<rparr>))"

definition ma_point ::
    "memo_key \<Rightarrow> int \<Rightarrow> date list \<Rightarrow> (date \<times> pyfloat) list \<Rightarrow> int \<Rightarrow> (date \<times> pyfloat) option act" where
  "ma_point key window ss h i =
     act_res (py_index ss i) (\<lambda>d. \<lambda>s.
       case memo_get key d s of
         Some hit \<Rightarrow> (Inr (Some (d, hit)), s)
       | None \<Rightarrow>
           act_res (window_value window h (ma_window ss window i)) (\<lambda>v.
             case v of None \<Rightarrow> act_return None
             | Some x \<Rightarrow> act_bind (memo_put key d x) (\<lambda>_. act_return (Some (d, x)))) s)"

definition ma_key :: "node_invocation \<Rightarrow> string \<Rightarrow> memo_key" where
  "ma_key iv asset = (''transform.moving_average'', inv_component_path iv @ [inv_node_id iv], asset)"

definition ma_asset :: "node_invocation \<Rightarrow> int \<Rightarrow> time_series \<Rightarrow> string \<Rightarrow> (string \<times> (date \<times> pyfloat) list) act" where
  "ma_asset iv window ts asset =
     act_bind (memo_touch (ma_key iv asset)) (\<lambda>_.
     act_res (ts_history ts asset) (\<lambda>h.
     let ss = view_sessions (inv_view iv) in
     act_bind (act_filter_map (ma_point (ma_key iv asset) window ss (dict_of h)) [window - 1 .. int (length ss) - 1])
       (\<lambda>points.
     act_bind (if points = [] then exclude_asset iv asset ''warmup_unmet'' else act_return ()) (\<lambda>_.
       act_return (asset, points)))))"

definition raw_points :: "(date \<times> pyfloat) list \<Rightarrow> raw_history" where
  "raw_points ps = map (\<lambda>(d, x). (d, PyFloat x)) ps"

definition moving_average_evaluate :: "node_invocation \<Rightarrow> named_values act" where
  "moving_average_evaluate iv =
     act_res (require_int (inv_params iv) ''window'') (\<lambda>window.
     act_res (series_input iv) (\<lambda>ts.
     act_bind (act_map (ma_asset iv window ts) (ts_assets ts)) (\<lambda>out.
     act_bind (computed_event iv (map fst (filter (\<lambda>(a, ps). ps \<noteq> []) out))) (\<lambda>_.
     act_res (mk_time_series (map (\<lambda>(a, ps). (a, raw_points ps)) out)) (\<lambda>ts'.
       act_return [(''series'', TimeSeriesV ts')])))))"

definition latest_of_asset :: "node_invocation \<Rightarrow> time_series \<Rightarrow> string \<Rightarrow> (string \<times> pyfloat) option act" where
  "latest_of_asset iv ts asset =
     act_res (ts_history ts asset) (\<lambda>h.
       if h \<noteq> [] \<and> latest_session_date (inv_view iv) = Some (fst (last h))
       then act_return (Some (asset, snd (last h)))
       else skip_asset iv asset ''missing_current_observation'')"

definition latest_evaluate :: "node_invocation \<Rightarrow> named_values act" where
  "latest_evaluate iv =
     act_res (series_input iv) (\<lambda>ts.
     act_bind (act_filter_map (latest_of_asset iv ts) (ts_assets ts)) (\<lambda>vals.
     act_bind (computed_event iv (map fst vals)) (\<lambda>_.
     act_res (cs_numbers (ts_assets ts) (float_cells vals)) (\<lambda>cs.
       act_return [(''values'', CrossSectionV cs)]))))"

text \<open>\<open>sorted(items, key=..., reverse=descending)\<close> keeps the order of equal scores either way.\<close>

definition score_of :: "string \<times> pynum \<Rightarrow> rat" where
  "score_of item = rat_value (cell_float (snd item))"

definition rank_order :: "bool \<Rightarrow> (string \<times> pynum) list \<Rightarrow> (string \<times> pynum) list" where
  "rank_order descending items =
     (if descending then rev (sort_key score_of (rev items)) else sort_key score_of items)"

definition assign_ranks :: "(string \<times> pynum) list \<Rightarrow> (string \<times> pyfloat) list res" where
  "assign_ranks ordered = traverse (\<lambda>(i, (a, _)). try_bind (float_of_int (int i + 1)) (\<lambda>r. Inr (a, r))) (enumerate 0 ordered)"

definition tie_events :: "node_invocation \<Rightarrow> (string \<times> pynum) list \<Rightarrow> unit act" where
  "tie_events iv ordered =
     act_bind (act_map (\<lambda>score.
       let tied = filter (\<lambda>it. score_of it = score) ordered in
       if 1 < length tied
       then trace iv ''rank.tie_broken'' (payload [(''assets'', json_strs (map fst tied)), (''score'', JFloat (cell_float (snd (hd tied))))])
       else act_return ()) (sort (remdups (map score_of ordered)))) (\<lambda>_. act_return ())"

definition rank_evaluate :: "node_invocation \<Rightarrow> named_values act" where
  "rank_evaluate iv =
     act_res (get_bool (inv_params iv) ''descending'' True) (\<lambda>descending.
     act_res (try_bind (input_of iv ''values'') as_cross) (\<lambda>scores.
     let ordered = rank_order descending (sort_key fst (cs_values scores)) in
     act_res (assign_ranks ordered) (\<lambda>ranks.
     act_bind (tie_events iv ordered) (\<lambda>_.
     act_bind (trace iv ''rank.assigned'' (payload [(''descending'', JBool descending),
       (''ranking'', json_weights (sort_key fst ranks))])) (\<lambda>_.
     act_res (cs_numbers (cs_domain scores) (float_cells ranks)) (\<lambda>cs.
       act_return [(''values'', CrossSectionV cs)]))))))"

subsection \<open>Logic\<close>

datatype comparison = Passed | Failed | Defaulted

definition compare_asset ::
    "node_invocation \<Rightarrow> cross_section \<Rightarrow> cross_section \<Rightarrow> string \<Rightarrow> (string \<times> comparison) act" where
  "compare_asset iv left right asset =
     (case (map_of (cs_values left) asset, map_of (cs_values right) asset) of
        (Some l, Some r) \<Rightarrow> act_return (asset, if cell_float l > cell_float r then Passed else Failed)
      | (l, r) \<Rightarrow>
          act_bind (trace iv ''logic.missing_operand'' (payload [(''asset'', JStr asset),
            (''missing'', json_strs ((if l = None then [''left''] else []) @ (if r = None then [''right''] else [])))]))
          (\<lambda>_. act_return (asset, Defaulted)))"

definition greater_than_evaluate :: "node_invocation \<Rightarrow> named_values act" where
  "greater_than_evaluate iv =
     act_res (input_of iv ''left'') (\<lambda>l. act_res (input_of iv ''right'') (\<lambda>r.
     act_res (as_cross l) (\<lambda>left. act_res (as_cross r) (\<lambda>right.
     let dmn = sorted_list_of_set (set (cs_domain left) \<union> set (cs_domain right)) in
     act_bind (act_map (compare_asset iv left right) dmn) (\<lambda>rows.
     let in_class = (\<lambda>c. map fst (filter (\<lambda>(a, x). x = c) rows)) in
     act_bind (trace iv ''logic.evaluated'' (payload [(''passed'', json_strs (in_class Passed)),
       (''failed'', json_strs (in_class Failed)), (''defaulted_missing'', json_strs (in_class Defaulted))])) (\<lambda>_.
     act_res (cs_booleans dmn (map (\<lambda>(a, c). (a, PyBool (c = Passed))) rows)) (\<lambda>cs.
       act_return [(''values'', CrossSectionV cs)])))))))"

subsection \<open>Portfolio construction\<close>

definition trace_weighted :: "node_invocation \<Rightarrow> targets \<Rightarrow> unit act" where
  "trace_weighted iv ws = trace iv ''portfolio.weighted'' (payload [(''weights'', json_weights ws), (''cash'', JFloat (cash_weight ws))])"

definition score_candidate :: "node_invocation \<Rightarrow> cross_section \<Rightarrow> string \<Rightarrow> (pyfloat \<times> string) option act" where
  "score_candidate iv scores asset = (case map_of (cs_values scores) asset of
     None \<Rightarrow> act_bind (trace iv ''select.excluded'' (payload [(''asset'', JStr asset), (''reason'', JStr ''unscored'')]))
       (\<lambda>_. act_return None)
   | Some v \<Rightarrow> act_return (Some (cell_float v, asset)))"

definition order_candidates :: "(pyfloat \<times> string) list \<Rightarrow> (pyfloat \<times> string) list" where
  "order_candidates cs = sort_key (\<lambda>(x, a). (rat_value x, a)) cs"

definition select_top_n_evaluate :: "node_invocation \<Rightarrow> named_values act" where
  "select_top_n_evaluate iv =
     act_res (require_int (inv_params iv) ''n'') (\<lambda>n.
     act_res (input_of iv ''scores'') (\<lambda>s. act_res (input_of iv ''universe'') (\<lambda>u.
     act_res (as_cross s) (\<lambda>scores. act_res (as_assets u) (\<lambda>universe.
     act_bind (act_filter_map (score_candidate iv scores) universe) (\<lambda>found.
     let candidates = order_candidates found;
         selected = map snd (py_slice candidates 0 n);
         unselected = map snd (py_slice candidates n (int (length candidates))) in
     act_bind (trace iv ''select.selected'' (payload [(''n'', JInt n), (''selected'', json_strs (sort selected)),
       (''unselected'', json_strs (sort unselected))])) (\<lambda>_.
     act_res (canonical_assets selected ''AssetSet'') (\<lambda>assets.
       act_return [(''assets'', AssetSetV assets)]))))))))"

definition no_targets :: "node_invocation \<Rightarrow> string \<Rightarrow> named_values act" where
  "no_targets iv ty =
     act_bind (trace iv ty (payload [])) (\<lambda>_.
     act_bind (trace iv ''portfolio.weighted'' (payload [(''weights'', JList []), (''cash'', JFloat 1)])) (\<lambda>_.
     act_res (mk_targets []) (\<lambda>ws. act_return [(''targets'', TargetsV ws)])))"

definition same_weight :: "node_invocation \<Rightarrow> string list \<Rightarrow> pyfloat \<Rightarrow> named_values act" where
  "same_weight iv assets weight =
     act_res (mk_targets (map (\<lambda>a. (a, PyFloat weight)) assets)) (\<lambda>ws.
     act_bind (trace_weighted iv ws) (\<lambda>_. act_return [(''targets'', TargetsV ws)]))"

definition equal_share :: "string list \<Rightarrow> pyfloat res" where
  "equal_share assets = try_bind (float_of_int (int (length assets))) (\<lambda>n. py_div 1 n)"

definition equal_weight_evaluate :: "node_invocation \<Rightarrow> named_values act" where
  "equal_weight_evaluate iv =
     act_res (try_bind (input_of iv ''assets'') as_assets) (\<lambda>assets.
       if assets = [] then no_targets iv ''portfolio.empty_selection''
       else act_res (equal_share assets) (same_weight iv assets))"

definition fixed_sleeve :: "string list \<Rightarrow> json \<Rightarrow> pyfloat res" where
  "fixed_sleeve assets raw =
     (if (case raw of JStr s \<Rightarrow> s = ''equal'' | _ \<Rightarrow> False) then equal_share assets
      else try_bind (case raw of JInt i \<Rightarrow> float_of_int i | JFloat x \<Rightarrow> Inr (to_double x) | _ \<Rightarrow> Inl AssertionError) (\<lambda>weight.
           try_bind (float_of_int (int (length assets))) (\<lambda>n.
             if weight * n > 1 + weight_tolerance
             then Inl (ValueError (''weight_per_asset='' @ repr_float weight @ '' over-allocates across ''
               @ dec_nat (length assets) @ '' assets (total '' @ repr_float (weight * n) @ '' > 1)''))
             else Inr weight)))"

definition fixed_weight_evaluate :: "node_invocation \<Rightarrow> named_values act" where
  "fixed_weight_evaluate iv =
     act_res (try_bind (input_of iv ''assets'') as_assets) (\<lambda>assets.
     act_res (param_of (inv_params iv) ''weight_per_asset'') (\<lambda>raw.
       if assets = [] then no_targets iv ''portfolio.empty_universe''
       else act_res (fixed_sleeve assets raw) (same_weight iv assets)))"

definition mask_asset :: "node_invocation \<Rightarrow> cross_section \<Rightarrow> string \<times> pyfloat \<Rightarrow> (string \<times> pyfloat \<times> bool) act" where
  "mask_asset iv gate = (\<lambda>(asset, weight).
     let flag = map_of (cs_values gate) asset in
     if flag = Some (PyBool True) then act_return (asset, weight, True)
     else act_bind (trace iv ''portfolio.masked_out'' (payload [(''asset'', JStr asset), (''weight_zeroed'', JFloat weight),
         (''reason'', JStr (if flag = Some (PyBool False) then ''mask_false'' else ''mask_missing''))]))
       (\<lambda>_. act_return (asset, 0, False)))"

definition apply_mask_evaluate :: "node_invocation \<Rightarrow> named_values act" where
  "apply_mask_evaluate iv =
     act_res (input_of iv ''targets'') (\<lambda>t. act_res (input_of iv ''mask'') (\<lambda>m.
     act_res (as_targets t) (\<lambda>ws. act_res (as_cross m) (\<lambda>gate.
     act_bind (act_map (mask_asset iv gate) ws) (\<lambda>rows.
     act_bind (trace iv ''portfolio.mask_applied'' (payload [
       (''kept'', json_strs (map fst (filter (\<lambda>(a, w, k). k) rows))),
       (''zeroed'', json_strs (map fst (filter (\<lambda>(a, w, k). \<not> k) rows)))])) (\<lambda>_.
     act_res (mk_targets (map (\<lambda>(a, w, k). (a, PyFloat w)) rows)) (\<lambda>ws'.
       act_return [(''targets'', TargetsV ws')])))))))"

subsection \<open>The weight cap\<close>

record cap_state =
  cap_weights :: targets
  cap_capped :: "string list"
  cap_iterations :: nat

definition weight_at :: "targets \<Rightarrow> string \<Rightarrow> pyfloat" where
  "weight_at ws a = dict_get ws a 0"

definition over_cap :: "pyfloat \<Rightarrow> targets \<Rightarrow> string list" where
  "over_cap cap ws = map fst (filter (\<lambda>(a, w). w > cap + weight_tolerance) ws)"

definition cap_over :: "pyfloat \<Rightarrow> string list \<Rightarrow> targets \<Rightarrow> targets" where
  "cap_over cap over ws = map (\<lambda>(a, w). (a, if a \<in> set over then cap else w)) ws"

definition eligible_assets :: "pyfloat \<Rightarrow> string list \<Rightarrow> targets \<Rightarrow> string list" where
  "eligible_assets cap capped ws =
     map fst (filter (\<lambda>(a, w). a \<notin> set capped \<and> 0 < w \<and> w < cap - weight_tolerance) ws)"

definition redistribute :: "pyfloat \<Rightarrow> pyfloat \<Rightarrow> string list \<Rightarrow> targets \<Rightarrow> targets res" where
  "redistribute excess total_weight eligible ws =
     traverse (\<lambda>(a, w). if a \<in> set eligible
       then try_bind (py_div (excess * w) total_weight) (\<lambda>q. Inr (a, w + q)) else Inr (a, w)) ws"

text \<open>The loop, with fuel: \<open>None\<close> when it has not ended.\<close>

fun waterfall :: "nat \<Rightarrow> pyfloat \<Rightarrow> cap_state \<Rightarrow> cap_state res option" where
  "waterfall 0 cap st = None"
| "waterfall (Suc fuel) cap st =
     (let ws = cap_weights st; over = over_cap cap ws in
      if over = [] then Some (Inr st)
      else
        let excess = py_sum (map (\<lambda>a. weight_at ws a - cap) over);
            ws1 = cap_over cap over ws;
            capped = cap_capped st @ over;
            eligible = eligible_assets cap capped ws1;
            eligible_total = py_sum (map (weight_at ws1) eligible);
            st1 = \<lparr>cap_weights = ws1, cap_capped = capped, cap_iterations = Suc (cap_iterations st)\<rparr>
        in if eligible_total \<le> 0 then Some (Inr st1)
           else case redistribute excess eligible_total eligible ws1 of
             Inl e \<Rightarrow> Some (Inl e)
           | Inr ws2 \<Rightarrow> waterfall fuel cap (st1\<lparr>cap_weights := ws2\<rparr>))"

definition initial_cap :: "targets \<Rightarrow> cap_state" where
  "initial_cap ws = \<lparr>cap_weights = ws, cap_capped = [], cap_iterations = 0\<rparr>"

definition cap_event :: "node_invocation \<Rightarrow> targets \<Rightarrow> cap_state \<Rightarrow> unit act" where
  "cap_event iv ws st =
     (if cap_iterations st = 0 then act_return ()
      else trace iv ''risk.cap_applied'' (payload [
        (''capped_assets'', json_strs (sort (remdups (cap_capped st)))),
        (''iterations'', JInt (int (cap_iterations st))),
        (''left_in_cash'', JFloat (py_max 0 (invested_weight ws - py_sum (map snd (cap_weights st))))),
        (''adjusted'', JList (map (\<lambda>((a, w), (_, w')). JList [JStr a, JFloat w, JFloat w'])
          (filter (\<lambda>((a, w), (_, w')). \<not> feq w' w) (zip ws (cap_weights st)))))]))"

definition max_weight_evaluate :: "node_invocation \<Rightarrow> named_values act" where
  "max_weight_evaluate iv =
     act_res (require_number (inv_params iv) ''max'') (\<lambda>cap.
     act_res (try_bind (input_of iv ''targets'') as_targets) (\<lambda>ws.
     act_res (case waterfall (Suc (length ws)) cap (initial_cap ws) of Some r \<Rightarrow> r | None \<Rightarrow> Inl RecursionError) (\<lambda>st.
     act_bind (cap_event iv ws st) (\<lambda>_.
     act_res (mk_targets (map (\<lambda>(a, w). (a, PyFloat w)) (cap_weights st))) (\<lambda>ws'.
       act_return [(''targets'', TargetsV ws')])))))"

end
