(* ===== verification/CoreCatalog.thy ===== *)
theory CoreCatalog
  imports Nodes
begin

section \<open>The core catalog\<close>

text \<open>
  The descriptors of \<open>quantize/nodes/\<close>: ports, parameter schema, trace contracts and warm-up of
  each core node, and \<open>build_core_catalog\<close> of \<open>nodes/__init__.py\<close>. A schema is written as the
  JSON document the code passes to the schema library.
\<close>

subsection \<open>Schema fragments\<close>

definition closed_object :: "json_object \<Rightarrow> string list \<Rightarrow> json_object" where
  "closed_object props required =
     [(''type'', JStr ''object''), (''properties'', JObj props)] @
     (if required = [] then [] else [(''required'', JList (map JStr required))]) @
     [(''additionalProperties'', JBool False)]"

definition empty_params :: json_object where
  "empty_params = [(''type'', JStr ''object''), (''additionalProperties'', JBool False)]"

definition integer_min :: "int \<Rightarrow> json" where
  "integer_min n = JObj [(''type'', JStr ''integer''), (''minimum'', JInt n)]"

definition event_spec :: "string \<Rightarrow> json_object \<Rightarrow> string list \<Rightarrow> trace_event_spec" where
  "event_spec ty props required = \<lparr>tes_event_type = ty, tes_version = 1, tes_schema = versioned_payload_schema 1 props required\<rparr>"

definition one_of :: "trace_event_spec list \<Rightarrow> json_object option" where
  "one_of specs = (if specs = [] then None else Some [(''oneOf'', JList (map (\<lambda>s. JObj (tes_schema s)) specs))])"

abbreviation "number_cross \<equiv> CrossSectionType NumberX"
abbreviation "boolean_cross \<equiv> CrossSectionType BooleanX"

definition in_port :: "string \<Rightarrow> port_type \<Rightarrow> input_port_spec" where
  "in_port n t = \<lparr>ip_name = n, ip_type = t, ip_required = True\<rparr>"

definition out_port :: "string \<Rightarrow> port_type \<Rightarrow> output_port_spec" where
  "out_port n t = \<lparr>op_name = n, op_type = t\<rparr>"

definition core_descriptor ::
    "string \<Rightarrow> input_port_spec list \<Rightarrow> output_port_spec list \<Rightarrow> node_metadata \<Rightarrow> json_object \<Rightarrow> trace_event_spec list \<Rightarrow> node_descriptor" where
  "core_descriptor t ins outs md schema events =
     \<lparr>nd_type_id = t, nd_type_version = ''1.0.0'', nd_inputs = ins, nd_outputs = outs, nd_metadata = md,
      nd_parameter_schema = Some schema, nd_trace_schema = one_of events, nd_trace_events = events\<rparr>"

definition node_meta :: "string \<Rightarrow> string \<Rightarrow> string list \<Rightarrow> node_metadata" where
  "node_meta name category ps = \<lparr>md_display_name = name, md_category = category, md_doc_parameters = Some ps\<rparr>"

subsection \<open>Trace contracts\<close>

definition universe_trace_events :: "trace_event_spec list" where
  "universe_trace_events = [event_spec ''universe.selected'' [(''assets'', asset_list_schema)] [''assets'']]"

definition nullable_string :: json where
  "nullable_string = JObj [(''type'', JList [JStr ''string'', JStr ''null''])]"

definition price_trace_events :: "trace_event_spec list" where
  "price_trace_events =
     [event_spec ''data.missing_asset'' [(''asset'', nonempty_string_schema)] [''asset''],
      event_spec ''data.observed'' [(''per_asset'', JObj [(''type'', JStr ''array''),
        (''items'', JObj [(''type'', JStr ''object''),
           (''properties'', JObj [(''asset'', nonempty_string_schema), (''observations'', integer_min 0),
              (''first'', nullable_string), (''last'', nullable_string)]),
           (''required'', JList (map JStr [''asset'', ''observations'', ''first'', ''last''])),
           (''additionalProperties'', JBool False)])])] [''per_asset'']]"

definition excluded_spec :: trace_event_spec where
  "excluded_spec = event_spec ''transform.excluded''
     [(''asset'', nonempty_string_schema), (''reason'', nonempty_string_schema)] [''asset'', ''reason'']"

definition computed_spec :: trace_event_spec where
  "computed_spec = event_spec ''transform.computed'' [(''computed'', asset_list_schema)] [''computed'']"

definition transform_trace_events :: "trace_event_spec list" where
  "transform_trace_events = [computed_spec, excluded_spec]"

definition rank_trace_events :: "trace_event_spec list" where
  "rank_trace_events =
     [event_spec ''rank.assigned'' [(''descending'', JObj [(''type'', JStr ''boolean'')]), (''ranking'', pair_list number_schema)]
        [''descending'', ''ranking''],
      event_spec ''rank.tie_broken'' [(''assets'', asset_list_schema), (''score'', number_schema)] [''assets'', ''score'']]"

definition logic_trace_events :: "trace_event_spec list" where
  "logic_trace_events =
     [event_spec ''logic.evaluated'' [(''passed'', asset_list_schema), (''failed'', asset_list_schema), (''defaulted_missing'', asset_list_schema)]
        [''passed'', ''failed'', ''defaulted_missing''],
      event_spec ''logic.missing_operand'' [(''asset'', nonempty_string_schema), (''missing'', asset_list_schema)] [''asset'', ''missing'']]"

definition weighted_spec :: trace_event_spec where
  "weighted_spec = event_spec ''portfolio.weighted'' [(''weights'', pair_list number_schema), (''cash'', number_schema)] [''weights'', ''cash'']"

definition select_trace_events :: "trace_event_spec list" where
  "select_trace_events =
     [event_spec ''select.selected'' [(''n'', integer_min 1), (''selected'', asset_list_schema), (''unselected'', asset_list_schema)]
        [''n'', ''selected'', ''unselected''],
      event_spec ''select.excluded'' [(''asset'', nonempty_string_schema), (''reason'', nonempty_string_schema)] [''asset'', ''reason'']]"

definition equal_weight_trace_events :: "trace_event_spec list" where
  "equal_weight_trace_events = [weighted_spec, event_spec ''portfolio.empty_selection'' [] []]"

definition fixed_weight_trace_events :: "trace_event_spec list" where
  "fixed_weight_trace_events = [weighted_spec, event_spec ''portfolio.empty_universe'' [] []]"

definition mask_trace_events :: "trace_event_spec list" where
  "mask_trace_events =
     [event_spec ''portfolio.mask_applied'' [(''kept'', asset_list_schema), (''zeroed'', asset_list_schema)] [''kept'', ''zeroed''],
      event_spec ''portfolio.masked_out'' [(''asset'', nonempty_string_schema), (''weight_zeroed'', number_schema), (''reason'', nonempty_string_schema)]
        [''asset'', ''weight_zeroed'', ''reason'']]"

definition cap_trace_events :: "trace_event_spec list" where
  "cap_trace_events =
     [event_spec ''risk.cap_applied''
        [(''capped_assets'', asset_list_schema), (''iterations'', integer_min 1), (''left_in_cash'', number_schema),
         (''adjusted'', JObj [(''type'', JStr ''array''), (''items'', JObj [(''type'', JStr ''array''),
            (''prefixItems'', JList [nonempty_string_schema, number_schema, number_schema]),
            (''minItems'', JInt 3), (''maxItems'', JInt 3), (''items'', JBool False)])])]
        [''capped_assets'', ''iterations'', ''left_in_cash'', ''adjusted'']]"

definition output_trace_events :: "trace_event_spec list" where
  "output_trace_events =
     [event_spec ''targets.finalized'' [(''weights'', pair_list number_schema), (''cash'', number_schema)] [''weights'', ''cash'']]"

subsection \<open>Parameter schemas\<close>

definition fixed_list_schema :: json_object where
  "fixed_list_schema = closed_object [(''tickers'', JObj [(''type'', JStr ''array''), (''items'', nonempty_string_schema),
     (''minItems'', JInt 1), (''uniqueItems'', JBool True)])] [''tickers'']"

definition trailing_return_schema :: json_object where
  "trailing_return_schema = closed_object [(''lookback_sessions'', integer_min 1)] [''lookback_sessions'']"

definition moving_average_schema :: json_object where
  "moving_average_schema = closed_object [(''window'', integer_min 1)] [''window'']"

definition rank_schema :: json_object where
  "rank_schema = closed_object [(''descending'', JObj [(''type'', JStr ''boolean''), (''default'', JBool True)])] []"

definition select_schema :: json_object where
  "select_schema = closed_object [(''n'', integer_min 1)] [''n'']"

definition unit_interval :: json where
  "unit_interval = JObj [(''type'', JStr ''number''), (''exclusiveMinimum'', JInt 0), (''maximum'', JInt 1)]"

definition fixed_weight_schema :: json_object where
  "fixed_weight_schema = closed_object [(''weight_per_asset'', JObj [(''oneOf'', JList
     [JObj [(''const'', JStr ''equal'')], unit_interval])])] [''weight_per_asset'']"

definition max_weight_schema :: json_object where
  "max_weight_schema = closed_object [(''max'', unit_interval)] [''max'']"

subsection \<open>The implementations\<close>

definition fixed_list_node :: node_implementation where
  "fixed_list_node = \<lparr>ni_descriptor = core_descriptor ''universe.fixed_list'' [] [out_port ''assets'' AssetSetType]
     (node_meta ''Fixed Universe'' ''universe'' [''tickers'']) fixed_list_schema universe_trace_events,
     ni_evaluate = fixed_list_evaluate, ni_warmup = no_warmup\<rparr>"

definition price_node :: node_implementation where
  "price_node = \<lparr>ni_descriptor = core_descriptor ''data.price'' [in_port ''assets'' AssetSetType] [out_port ''series'' TimeSeriesType]
     (node_meta ''Price History'' ''data'' []) empty_params price_trace_events,
     ni_evaluate = price_evaluate, ni_warmup = no_warmup\<rparr>"

definition trailing_return_node :: node_implementation where
  "trailing_return_node = \<lparr>ni_descriptor = core_descriptor ''transform.trailing_return'' [in_port ''series'' TimeSeriesType]
     [out_port ''values'' number_cross] (node_meta ''Trailing Return'' ''transform'' [''lookback_sessions''])
     trailing_return_schema transform_trace_events,
     ni_evaluate = trailing_return_evaluate, ni_warmup = (\<lambda>ps. require_int ps ''lookback_sessions'')\<rparr>"

definition moving_average_node :: node_implementation where
  "moving_average_node = \<lparr>ni_descriptor = core_descriptor ''transform.moving_average'' [in_port ''series'' TimeSeriesType]
     [out_port ''series'' TimeSeriesType] (node_meta ''Moving Average'' ''transform'' [''window''])
     moving_average_schema transform_trace_events,
     ni_evaluate = moving_average_evaluate, ni_warmup = (\<lambda>ps. try_bind (require_int ps ''window'') (\<lambda>w. Inr (w - 1)))\<rparr>"

definition latest_node :: node_implementation where
  "latest_node = \<lparr>ni_descriptor = core_descriptor ''transform.latest'' [in_port ''series'' TimeSeriesType]
     [out_port ''values'' number_cross] (node_meta ''Latest Value'' ''transform'' []) empty_params transform_trace_events,
     ni_evaluate = latest_evaluate, ni_warmup = no_warmup\<rparr>"

definition rank_node :: node_implementation where
  "rank_node = \<lparr>ni_descriptor = core_descriptor ''transform.rank'' [in_port ''values'' number_cross]
     [out_port ''values'' number_cross] (node_meta ''Rank'' ''selection'' [''descending'']) rank_schema rank_trace_events,
     ni_evaluate = rank_evaluate, ni_warmup = no_warmup\<rparr>"

definition greater_than_node :: node_implementation where
  "greater_than_node = \<lparr>ni_descriptor = core_descriptor ''logic.greater_than''
     [in_port ''left'' number_cross, in_port ''right'' number_cross] [out_port ''values'' boolean_cross]
     (node_meta ''Greater Than'' ''signal'' []) empty_params logic_trace_events,
     ni_evaluate = greater_than_evaluate, ni_warmup = no_warmup\<rparr>"

definition select_top_n_node :: node_implementation where
  "select_top_n_node = \<lparr>ni_descriptor = core_descriptor ''portfolio.select_top_n''
     [in_port ''scores'' number_cross, in_port ''universe'' AssetSetType] [out_port ''assets'' AssetSetType]
     (node_meta ''Select Top N'' ''selection'' [''n'']) select_schema select_trace_events,
     ni_evaluate = select_top_n_evaluate, ni_warmup = no_warmup\<rparr>"

definition equal_weight_node :: node_implementation where
  "equal_weight_node = \<lparr>ni_descriptor = core_descriptor ''portfolio.equal_weight'' [in_port ''assets'' AssetSetType]
     [out_port ''targets'' PortfolioTargetsType] (node_meta ''Equal Weight'' ''weighting'' []) empty_params equal_weight_trace_events,
     ni_evaluate = equal_weight_evaluate, ni_warmup = no_warmup\<rparr>"

definition fixed_weight_node :: node_implementation where
  "fixed_weight_node = \<lparr>ni_descriptor = core_descriptor ''portfolio.fixed_weight'' [in_port ''assets'' AssetSetType]
     [out_port ''targets'' PortfolioTargetsType] (node_meta ''Fixed Weight'' ''weighting'' [''weight_per_asset''])
     fixed_weight_schema fixed_weight_trace_events,
     ni_evaluate = fixed_weight_evaluate, ni_warmup = no_warmup\<rparr>"

definition apply_mask_node :: node_implementation where
  "apply_mask_node = \<lparr>ni_descriptor = core_descriptor ''portfolio.apply_mask''
     [in_port ''targets'' PortfolioTargetsType, in_port ''mask'' boolean_cross] [out_port ''targets'' PortfolioTargetsType]
     (node_meta ''Apply Mask'' ''weighting'' []) empty_params mask_trace_events,
     ni_evaluate = apply_mask_evaluate, ni_warmup = no_warmup\<rparr>"

definition max_weight_node :: node_implementation where
  "max_weight_node = \<lparr>ni_descriptor = core_descriptor ''risk.max_weight'' [in_port ''targets'' PortfolioTargetsType]
     [out_port ''targets'' PortfolioTargetsType] (node_meta ''Max Weight Cap'' ''risk'' [''max'']) max_weight_schema cap_trace_events,
     ni_evaluate = max_weight_evaluate, ni_warmup = no_warmup\<rparr>"

definition target_portfolio_node :: node_implementation where
  "target_portfolio_node = \<lparr>ni_descriptor = core_descriptor ''output.target_portfolio'' [in_port ''targets'' PortfolioTargetsType] []
     (node_meta ''Target Portfolio'' ''output'' []) empty_params output_trace_events,
     ni_evaluate = target_portfolio_evaluate, ni_warmup = no_warmup\<rparr>"

definition core_node_implementations :: "node_implementation list" where
  "core_node_implementations =
     [fixed_list_node, price_node, trailing_return_node, moving_average_node, latest_node, rank_node, greater_than_node,
      select_top_n_node, equal_weight_node, fixed_weight_node, apply_mask_node, max_weight_node, target_portfolio_node]"

definition build_core_catalog :: "implementation_catalog res" where
  "build_core_catalog = register_all core_node_implementations new_catalog"

definition core_catalog :: implementation_catalog where
  "core_catalog = (case build_core_catalog of Inr c \<Rightarrow> c | Inl _ \<Rightarrow> new_catalog)"

lemmas core_node_defs = fixed_list_node_def price_node_def trailing_return_node_def moving_average_node_def latest_node_def
  rank_node_def greater_than_node_def select_top_n_node_def equal_weight_node_def fixed_weight_node_def apply_mask_node_def
  max_weight_node_def target_portfolio_node_def

lemma core_keys:
  "map (\<lambda>ni. descriptor_key (ni_descriptor ni)) core_node_implementations =
     map (\<lambda>t. (t, ''1.0.0'')) [''universe.fixed_list'', ''data.price'', ''transform.trailing_return'', ''transform.moving_average'',
       ''transform.latest'', ''transform.rank'', ''logic.greater_than'', ''portfolio.select_top_n'', ''portfolio.equal_weight'',
       ''portfolio.fixed_weight'', ''portfolio.apply_mask'', ''risk.max_weight'', ''output.target_portfolio'']"
  by (simp add: core_node_implementations_def core_node_defs descriptor_key_def core_descriptor_def)

text \<open>Registering implementations with distinct fresh keys succeeds and appends them.\<close>

lemma register_all_distinct:
  assumes "distinct (map (\<lambda>ni. descriptor_key (ni_descriptor ni)) nis)" "catalog_ok c"
    "set (map (\<lambda>ni. descriptor_key (ni_descriptor ni)) nis) \<inter> fst ` set (ic_bindings c) = {}"
  shows "register_all nis c = Inr \<lparr>ic_bindings = ic_bindings c @ map (\<lambda>ni. (descriptor_key (ni_descriptor ni), ni)) nis,
    ic_descriptors = ic_descriptors c @ map (\<lambda>ni. (descriptor_key (ni_descriptor ni), ni_descriptor ni)) nis\<rparr>"
  using assms
proof (induction nis arbitrary: c)
  case (Cons ni nis)
  let ?k = "descriptor_key (ni_descriptor ni)"
  let ?c = "\<lparr>ic_bindings = ic_bindings c @ [(?k, ni)], ic_descriptors = ic_descriptors c @ [(?k, ni_descriptor ni)]\<rparr>"
  have "?k \<notin> fst ` set (ic_bindings c)" using Cons.prems(3) by auto
  then have none: "map_of (ic_bindings c) ?k = None" "map_of (ic_descriptors c) ?k = None"
    using Cons.prems(2) by (simp_all add: map_of_eq_None_iff catalog_ok_def image_image case_prod_beta)
  have r: "register_implementation ni c = Inr ?c"
    using none by (simp add: register_implementation_def register_descriptor_def Let_def)
  have ok: "catalog_ok ?c" using register_implementation_ok[OF r Cons.prems(2)] .
  have "register_all nis ?c = Inr \<lparr>ic_bindings = ic_bindings ?c @ map (\<lambda>ni. (descriptor_key (ni_descriptor ni), ni)) nis,
    ic_descriptors = ic_descriptors ?c @ map (\<lambda>ni. (descriptor_key (ni_descriptor ni), ni_descriptor ni)) nis\<rparr>"
    using Cons.prems by (intro Cons.IH ok) auto
  then show ?case using r by simp
qed simp

lemma build_core_catalog_eq:
  "build_core_catalog = Inr \<lparr>ic_bindings = map (\<lambda>ni. (descriptor_key (ni_descriptor ni), ni)) core_node_implementations,
     ic_descriptors = map (\<lambda>ni. (descriptor_key (ni_descriptor ni), ni_descriptor ni)) core_node_implementations\<rparr>"
proof -
  have "distinct (map (\<lambda>ni. descriptor_key (ni_descriptor ni)) core_node_implementations)"
    unfolding core_keys by simp
  from register_all_distinct[OF this new_catalog_ok] show ?thesis
    by (simp add: build_core_catalog_def new_catalog_def)
qed

lemma core_catalog_ok: "build_core_catalog = Inr core_catalog" "catalog_ok core_catalog"
proof -
  show b: "build_core_catalog = Inr core_catalog" by (simp add: core_catalog_def build_core_catalog_eq)
  show "catalog_ok core_catalog"
    using register_all_ok[OF _ new_catalog_ok] b by (simp add: build_core_catalog_def)
qed

text \<open>Every core descriptor passes its constructor, every schema is portable and free of references.\<close>

lemma core_descriptors_construct:
  assumes "ni \<in> set core_node_implementations"
  shows "mk_node_descriptor (ni_descriptor ni) = Inr (ni_descriptor ni)"
proof -
  have "list_all (\<lambda>ni. case mk_node_descriptor (ni_descriptor ni) of Inr _ \<Rightarrow> True | Inl _ \<Rightarrow> False) core_node_implementations"
    by code_simp
  with assms have "case mk_node_descriptor (ni_descriptor ni) of Inr _ \<Rightarrow> True | Inl _ \<Rightarrow> False" by (simp add: list_all_iff)
  then obtain d where "mk_node_descriptor (ni_descriptor ni) = Inr d" by (cases "mk_node_descriptor (ni_descriptor ni)") auto
  then show ?thesis using mk_node_descriptor_ok by metis
qed

definition descriptor_schemas :: "node_descriptor \<Rightarrow> json_object list" where
  "descriptor_schemas d = (case nd_parameter_schema d of None \<Rightarrow> [] | Some s \<Rightarrow> [s]) @
     (case nd_trace_schema d of None \<Rightarrow> [] | Some s \<Rightarrow> [s]) @ map tes_schema (nd_trace_events d)"

lemma core_schemas_construct:
  assumes "ni \<in> set core_node_implementations" "s \<in> set (descriptor_schemas (ni_descriptor ni))"
  shows "mk_json_schema lib s = (case lib_check_schema lib s of Some e \<Rightarrow> Inl e | None \<Rightarrow> Inr s)"
proof -
  have "list_all (\<lambda>ni. list_all (\<lambda>s. json_object_ok s \<and> (case reject_fields s of Inr _ \<Rightarrow> True | Inl _ \<Rightarrow> False))
      (descriptor_schemas (ni_descriptor ni))) core_node_implementations"
    by code_simp
  with assms have "json_object_ok s \<and> (case reject_fields s of Inr _ \<Rightarrow> True | Inl _ \<Rightarrow> False)"
    unfolding list_all_iff by blast
  then show ?thesis unfolding mk_json_schema_def by (cases "reject_fields s") auto
qed

end
