(* ===== verification/NodeLaws.thy ===== *)
theory NodeLaws
  imports CoreCatalog Evaluate
begin

section \<open>What the core nodes guarantee\<close>

text \<open>
  Two contracts of a node's \<open>evaluate\<close>. Safe: it reaches the run only through its sink and its
  memo slots, so the recorder keeps its invariant and its identity. Typed: whatever it returns
  has the ports its descriptor declares, with well-formed values of the declared types. Every
  core node meets both.
\<close>

subsection \<open>Safe actions\<close>

definition act_safe :: "'a act \<Rightarrow> bool" where
  "act_safe m \<longleftrightarrow> (\<forall>s r s'. m s = (r, s') \<longrightarrow> node_recorder_ok (run_recorder s) \<longrightarrow>
     node_recorder_ok (run_recorder s') \<and> same_recorder (run_recorder s) (run_recorder s'))"

named_theorems safe_intros \<open>composition rules of safe actions\<close>
named_theorems yield_intros \<open>composition rules of what an action yields\<close>

lemma act_safeD:
  "act_safe m \<Longrightarrow> m s = (r, s') \<Longrightarrow> node_recorder_ok (run_recorder s) \<Longrightarrow>
   node_recorder_ok (run_recorder s') \<and> same_recorder (run_recorder s) (run_recorder s')"
  by (auto simp: act_safe_def)

lemma act_safe_return [safe_intros]: "act_safe (act_return x)"
  by (simp add: act_safe_def act_return_def)

lemma act_safe_lift [safe_intros]: "act_safe (act_lift r)"
  by (simp add: act_safe_def act_lift_def)

lemma act_safe_bind [safe_intros]: "act_safe m \<Longrightarrow> (\<And>x. act_safe (f x)) \<Longrightarrow> act_safe (act_bind m f)"
  unfolding act_safe_def act_bind_def
  by (auto split: prod.splits sum.splits intro: same_recorder_trans) (metis same_recorder_trans)

lemma act_safe_map [safe_intros]: "(\<And>x. act_safe (f x)) \<Longrightarrow> act_safe (act_map f xs)"
  by (induction xs) (simp_all add: safe_intros)

lemma act_safe_filter_map [safe_intros]: "(\<And>x. act_safe (f x)) \<Longrightarrow> act_safe (act_filter_map f xs)"
  by (induction xs) (simp_all add: safe_intros)

lemma act_safe_trace [safe_intros]: "act_safe (trace iv ty load)"
  unfolding act_safe_def trace_def by (auto split: prod.splits dest!: sink_for_ok)

lemma act_safe_memo [safe_intros]: "act_safe (memo_put key d x)" "act_safe (memo_touch key)"
  by (simp_all add: act_safe_def memo_put_def memo_touch_def)

lemma act_safe_option [safe_intros]:
  "act_safe m \<Longrightarrow> (\<And>x. act_safe (f x)) \<Longrightarrow> act_safe (case r of None \<Rightarrow> m | Some x \<Rightarrow> f x)"
  by (cases r) auto

lemma act_safe_if [safe_intros]: "act_safe m \<Longrightarrow> act_safe n \<Longrightarrow> act_safe (if b then m else n)"
  by simp

lemma act_safe_let [safe_intros]: "(\<And>x. act_safe (f x)) \<Longrightarrow> act_safe (let x = e in f x)"
  by simp

lemma act_safe_local_option:
  "(\<And>s. act_safe m) \<Longrightarrow> (\<And>x. act_safe (f x)) \<Longrightarrow> act_safe (\<lambda>s. case look s of None \<Rightarrow> m s | Some x \<Rightarrow> f x s)"
  unfolding act_safe_def by (auto split: option.splits)

lemma act_safe_ma_point [safe_intros]: "act_safe (ma_point key window ss h i)"
proof -
  have "act_safe (\<lambda>s. case memo_get key d s of
      None \<Rightarrow> act_res (window_value window h (ma_window ss window i)) (\<lambda>v. case v of None \<Rightarrow> act_return None
        | Some x \<Rightarrow> act_bind (memo_put key d x) (\<lambda>_. act_return (Some (d, x)))) s
    | Some hit \<Rightarrow> act_return (Some (d, hit)) s)" for d
    by (rule act_safe_local_option) (intro safe_intros)+
  then show ?thesis unfolding ma_point_def act_return_def[abs_def] by (intro safe_intros) simp
qed

lemmas helper_act_defs = price_asset_def exclude_asset_def computed_event_def skip_asset_def return_of_asset_def ma_asset_def
  latest_of_asset_def tie_events_def compare_asset_def trace_weighted_def score_candidate_def no_targets_def same_weight_def
  mask_asset_def cap_event_def

lemmas node_evaluate_defs = fixed_list_evaluate_def price_evaluate_def target_portfolio_evaluate_def trailing_return_evaluate_def
  moving_average_evaluate_def latest_evaluate_def rank_evaluate_def greater_than_evaluate_def select_top_n_evaluate_def
  equal_weight_evaluate_def fixed_weight_evaluate_def apply_mask_evaluate_def max_weight_evaluate_def

lemma act_safe_compare [safe_intros]: "act_safe (compare_asset iv l r a)"
  unfolding compare_asset_def by (auto split: option.splits intro!: safe_intros)

lemma act_safe_mask [safe_intros]: "act_safe (mask_asset iv gate aw)"
  unfolding mask_asset_def Let_def by (cases aw) (auto intro!: safe_intros)

lemma act_safe_helpers [safe_intros]:
  "act_safe (exclude_asset iv a reason)" "act_safe (skip_asset iv a reason)" "act_safe (computed_event iv as)"
  "act_safe (price_asset iv a)" "act_safe (return_of_asset iv ts d d' a)" "act_safe (latest_of_asset iv ts a)"
  "act_safe (tie_events iv ordered)" "act_safe (trace_weighted iv ws)" "act_safe (score_candidate iv cs a)"
  "act_safe (no_targets iv ty)" "act_safe (same_weight iv as w)" "act_safe (cap_event iv ws st)" "act_safe (ma_asset iv window ts a)"
  by (simp_all only: helper_act_defs Let_def) (intro safe_intros)+

lemma core_node_safe:
  assumes "ni \<in> set core_node_implementations"
  shows "act_safe (ni_evaluate ni iv)"
proof -
  have "act_safe (fixed_list_evaluate iv)" "act_safe (price_evaluate iv)" "act_safe (target_portfolio_evaluate iv)"
    "act_safe (trailing_return_evaluate iv)" "act_safe (moving_average_evaluate iv)" "act_safe (latest_evaluate iv)"
    "act_safe (rank_evaluate iv)" "act_safe (greater_than_evaluate iv)" "act_safe (select_top_n_evaluate iv)"
    "act_safe (equal_weight_evaluate iv)" "act_safe (fixed_weight_evaluate iv)" "act_safe (apply_mask_evaluate iv)"
    "act_safe (max_weight_evaluate iv)"
    by (simp_all only: node_evaluate_defs Let_def) (intro safe_intros)+
  then show ?thesis using assms by (auto simp: core_node_implementations_def core_node_defs)
qed

subsection \<open>Typed outputs\<close>

definition yields :: "('a \<Rightarrow> bool) \<Rightarrow> 'a act \<Rightarrow> bool" where
  "yields P m \<longleftrightarrow> (\<forall>s x s'. m s = (Inr x, s') \<longrightarrow> P x)"

lemma yieldsD: "yields P m \<Longrightarrow> m s = (Inr x, s') \<Longrightarrow> P x"
  by (auto simp: yields_def)

lemma yields_return [yield_intros]: "P x \<Longrightarrow> yields P (act_return x)"
  by (simp add: yields_def act_return_def)

lemma yields_lift: "(\<And>x. r = Inr x \<Longrightarrow> P x) \<Longrightarrow> yields P (act_lift r)"
  by (simp add: yields_def act_lift_def)

lemma yields_bind: "yields Q m \<Longrightarrow> (\<And>x. Q x \<Longrightarrow> yields P (f x)) \<Longrightarrow> yields P (act_bind m f)"
  unfolding yields_def act_bind_def by (auto split: prod.splits sum.splits) blast

lemma yields_any: "(\<And>x. yields P (f x)) \<Longrightarrow> yields P (act_bind m f)"
  unfolding yields_def act_bind_def by (auto split: prod.splits sum.splits)

lemma yields_res [yield_intros]: "(\<And>x. r = Inr x \<Longrightarrow> yields P (f x)) \<Longrightarrow> yields P (act_res r f)"
  by (rule yields_bind[where Q = "\<lambda>x. r = Inr x"]) (simp_all add: yields_lift)

lemma yields_if [yield_intros]: "(b \<Longrightarrow> yields P m) \<Longrightarrow> (\<not> b \<Longrightarrow> yields P n) \<Longrightarrow> yields P (if b then m else n)"
  by simp

lemma yields_map:
  "(\<And>x. yields (\<lambda>y. y = g x) (f x)) \<Longrightarrow> yields (\<lambda>ys. ys = map g xs) (act_map f xs)"
proof (induction xs)
  case (Cons x xs)
  show ?case
    by (simp, rule yields_bind[OF Cons.prems], rule yields_bind[OF Cons.IH[OF Cons.prems]]) (simp_all add: yield_intros)
qed (simp add: yield_intros)

definition outputs_typed :: "node_descriptor \<Rightarrow> named_values \<Rightarrow> bool" where
  "outputs_typed d outs \<longleftrightarrow> list_all2 (\<lambda>p (n, v). n = op_name p \<and> port_type_of v = op_type p \<and> value_ok v) (nd_outputs d) outs"

lemma close_history_ok:
  assumes "view_ok v"
  shows "history_ok (close_history v a)"
proof -
  obtain ds t where v: "ds_ok ds" "v = as_of_utc ds t" using assms by (auto simp: view_ok_def)
  have "sorted_wrt (<) (map fst (close_history v a))"
    unfolding v(2) close_history_as_of
    by (cases "map_of (observations ds) a") (auto intro: visible_closes_sorted ds_ok_series[OF v(1)])
  moreover have "number_ok x" if "(d, x) \<in> set (close_history v a)" for d x
    using close_history_valid[OF v(1)] that v(2) by (auto simp: valid_price_def number_ok_def)
  ultimately show ?thesis by (auto simp: history_ok_def)
qed

lemma price_asset_yields: "yields (\<lambda>y. y = (a, close_history (inv_view iv) a)) (price_asset iv a)"
  unfolding price_asset_def Let_def by (rule yields_any) (simp add: yield_intros)

lemma from_view_history_ok:
  assumes "view_ok v" "from_view_history (map (\<lambda>a. (a, close_history v a)) assets) = Inr ts"
  shows "series_value_ok ts"
proof -
  have a: "assets_ok (sort assets)" "ts = map (\<lambda>a. (a, the (map_of (map (\<lambda>a. (a, close_history v a)) assets) a))) (sort assets)"
    using assms(2) by (auto simp: from_view_history_def canonical_assets_Inr try_bind_Inr comp_def)
  have "the (map_of (map (\<lambda>a. (a, close_history v a)) assets) a) = close_history v a" if "a \<in> set assets" for a
    using that by (simp add: map_of_graph)
  then show ?thesis using a close_history_ok[OF assms(1)] by (auto simp: series_value_ok_def ts_assets_def comp_def)
qed

lemma typed_single: "port_type_of v = t \<Longrightarrow> value_ok v \<Longrightarrow>
    list_all2 (\<lambda>p (n, v). n = op_name p \<and> port_type_of v = op_type p \<and> value_ok v) [out_port name t] [(name, v)]"
  by (simp add: out_port_def)

abbreviation yields_value :: "string \<Rightarrow> port_type \<Rightarrow> named_values act \<Rightarrow> bool" where
  "yields_value name t \<equiv> yields (\<lambda>outs. \<exists>v. outs = [(name, v)] \<and> port_type_of v = t \<and> value_ok v)"

lemma yields_cross [yield_intros]:
  "(\<And>cs. cs_numbers dmn vals = Inr cs \<Longrightarrow> yields_value name number_cross (f cs)) \<Longrightarrow> yields_value name number_cross (act_res (cs_numbers dmn vals) f)"
  by (rule yields_res) blast

lemma values_ok:
  "canonical_assets xs l = Inr as \<Longrightarrow> value_ok (AssetSetV as)"
  "cs_numbers dmn vals = Inr cs \<Longrightarrow> value_ok (CrossSectionV cs) \<and> cs_dtype cs = NumberX"
  "cs_booleans dmn vals = Inr cs \<Longrightarrow> value_ok (CrossSectionV cs) \<and> cs_dtype cs = BooleanX"
  "mk_time_series series = Inr ts \<Longrightarrow> value_ok (TimeSeriesV ts)"
  "mk_targets raws = Inr ws \<Longrightarrow> value_ok (TargetsV ws)"
  by (auto simp: canonical_assets_Inr cs_numbers_def cs_booleans_def dest: mk_cross_section_ok mk_time_series_ok mk_targets_ok)

lemma same_weight_yields: "yields_value ''targets'' PortfolioTargetsType (same_weight iv as w)"
  unfolding same_weight_def by (rule yields_res, rule yields_any, rule yields_return) (auto dest: values_ok)

lemma no_targets_yields: "yields_value ''targets'' PortfolioTargetsType (no_targets iv ty)"
  unfolding no_targets_def
  by (rule yields_any, rule yields_any, rule yields_res, rule yields_return) (auto dest: values_ok)

lemma core_node_yields:
  "yields_value ''assets'' AssetSetType (fixed_list_evaluate iv)"
  "view_ok (inv_view iv) \<Longrightarrow> yields_value ''series'' TimeSeriesType (price_evaluate iv)"
  "yields (\<lambda>outs. outs = []) (target_portfolio_evaluate iv)"
  "yields_value ''values'' number_cross (trailing_return_evaluate iv)"
  "yields_value ''series'' TimeSeriesType (moving_average_evaluate iv)"
  "yields_value ''values'' number_cross (latest_evaluate iv)"
  "yields_value ''values'' number_cross (rank_evaluate iv)"
  "yields_value ''values'' boolean_cross (greater_than_evaluate iv)"
  "yields_value ''assets'' AssetSetType (select_top_n_evaluate iv)"
  "yields_value ''targets'' PortfolioTargetsType (equal_weight_evaluate iv)"
  "yields_value ''targets'' PortfolioTargetsType (fixed_weight_evaluate iv)"
  "yields_value ''targets'' PortfolioTargetsType (apply_mask_evaluate iv)"
  "yields_value ''targets'' PortfolioTargetsType (max_weight_evaluate iv)"
proof -
  show "yields_value ''series'' TimeSeriesType (price_evaluate iv)" if "view_ok (inv_view iv)"
    unfolding price_evaluate_def
    by (rule yields_res, rule yields_bind[OF yields_map[OF price_asset_yields]], rule yields_any, rule yields_res, rule yields_return)
      (simp add: from_view_history_ok[OF that])
qed (unfold node_evaluate_defs Let_def,
  (intro yields_res yields_if yields_any yields_return same_weight_yields no_targets_yields;
    auto simp: values_ok same_weight_yields no_targets_yields dest!: values_ok)+)

lemma core_node_typed:
  assumes "ni \<in> set core_node_implementations" "view_ok (inv_view iv)"
  shows "yields (outputs_typed (ni_descriptor ni)) (ni_evaluate ni iv)"
proof -
  have mono: "yields_value name t m \<Longrightarrow> nd_outputs d = [out_port name t] \<Longrightarrow> yields (outputs_typed d) m"
    "yields (\<lambda>outs. outs = []) m \<Longrightarrow> nd_outputs d = [] \<Longrightarrow> yields (outputs_typed d) m" for name t m d
    unfolding yields_def outputs_typed_def using typed_single by fastforce+
  note node = mono(1)[OF core_node_yields(1)] mono(1)[OF core_node_yields(2)[OF assms(2)]] mono(2)[OF core_node_yields(3)]
    core_node_yields(4-13)[THEN mono(1)]
  from assms(1) show ?thesis
    by (auto simp: core_node_implementations_def core_node_defs core_descriptor_def node)
qed

subsection \<open>The weight cap ends\<close>

text \<open>Every round but the last caps an asset that was not capped before: a capped asset is never
  eligible, so its weight stays the cap, and a double is not above itself plus the tolerance.\<close>

lemma not_above_itself: "is_double cap \<Longrightarrow> \<not> cap + weight_tolerance < cap"
proof (cases cap)
  case (Fin c)
  obtain t where t: "weight_tolerance = Fin t" "0 \<le> t"
    by (rule that[of "case weight_tolerance of Fin t \<Rightarrow> t"]) code_simp+
  assume "is_double cap"
  then have "fl c = Fin c" using Fin by (simp add: is_double_Fin)
  then have "Fin c \<le> fl (c + t)" using fl_mono[of c "c + t"] t(2) by simp
  then show ?thesis unfolding Fin t(1) by (cases "fl (c + t)") simp_all
qed (simp_all add: weight_tolerance_def float_1e9_def)

lemma traverse_weights:
  assumes "traverse (\<lambda>(a, w). if a \<in> E then try_bind (f w) (\<lambda>q. Inr (a, w + q)) else Inr (a, w)) ws = Inr vs"
  shows "map fst vs = map fst ws \<and> (\<forall>(a, w) \<in> set vs. a \<notin> E \<longrightarrow> (a, w) \<in> set ws)"
  using assms by (induction ws arbitrary: vs) (fastforce simp: try_bind_Inr split: if_splits)+

lemma redistribute_keeps:
  assumes "redistribute excess total_weight eligible ws = Inr vs"
  shows "map fst vs = map fst ws \<and> (\<forall>(a, w) \<in> set vs. a \<notin> set eligible \<longrightarrow> (a, w) \<in> set ws)"
  by (rule traverse_weights[OF assms[unfolded redistribute_def]])

lemma waterfall_ends:
  assumes "is_double cap"
  shows "\<forall>(a, w) \<in> set (cap_weights st). a \<in> set (cap_capped st) \<longrightarrow> w = cap \<Longrightarrow>
    card (fst ` set (cap_weights st) - set (cap_capped st)) < fuel \<Longrightarrow> waterfall fuel cap st \<noteq> None"
proof (induction fuel arbitrary: st)
  case (Suc fuel)
  let ?ws = "cap_weights st" and ?over = "over_cap cap (cap_weights st)"
  let ?ws1 = "cap_over cap ?over ?ws" and ?capped = "cap_capped st @ ?over"
  have names1: "map fst ?ws1 = map fst ?ws" by (simp add: cap_over_def split_def)
  have step: "waterfall fuel cap (\<lparr>cap_weights = vs, cap_capped = ?capped, cap_iterations = n\<rparr>) \<noteq> None"
    if over: "?over \<noteq> []" and vs: "map fst vs = map fst ?ws1"
      "\<forall>(a, w) \<in> set vs. a \<notin> set (eligible_assets cap ?capped ?ws1) \<longrightarrow> (a, w) \<in> set ?ws1" for vs n
  proof (rule Suc.IH)
    have "w = cap" if "(a, w) \<in> set ?ws1" "a \<in> set ?capped" for a w
      using that Suc.prems(1) by (auto simp: cap_over_def split: if_splits)
    moreover have "a \<notin> set (eligible_assets cap ?capped ?ws1)" if "a \<in> set ?capped" for a
      using that by (auto simp: eligible_assets_def)
    ultimately show "\<forall>(a, w) \<in> set (cap_weights \<lparr>cap_weights = vs, cap_capped = ?capped, cap_iterations = n\<rparr>).
        a \<in> set (cap_capped \<lparr>cap_weights = vs, cap_capped = ?capped, cap_iterations = n\<rparr>) \<longrightarrow> w = cap"
      using vs(2) by fastforce
    have names: "fst ` set vs = fst ` set ?ws" using vs(1) names1 by (metis list.set_map)
    obtain a where a: "a \<in> set ?over" using over by (meson list.set_sel(1))
    then obtain w where aw: "(a, w) \<in> set ?ws" "cap + weight_tolerance < w" by (auto simp: over_cap_def)
    have fresh: "a \<notin> set (cap_capped st)" using aw Suc.prems(1) not_above_itself[OF assms] by fastforce
    have "a \<in> fst ` set ?ws" using aw(1) by (rule image_eqI[rotated]) simp
    then have "fst ` set vs - set ?capped \<subset> fst ` set ?ws - set (cap_capped st)"
      unfolding names using a fresh by (intro psubsetI) auto
    from psubset_card_mono[OF _ this] Suc.prems(2)
    show "card (fst ` set (cap_weights \<lparr>cap_weights = vs, cap_capped = ?capped, cap_iterations = n\<rparr>) -
        set (cap_capped \<lparr>cap_weights = vs, cap_capped = ?capped, cap_iterations = n\<rparr>)) < fuel" by simp
  qed
  show ?case
    using step by (auto simp: Let_def dest: redistribute_keeps split: sum.split)
qed simp

lemma waterfall_returns: "is_double cap \<Longrightarrow> waterfall (Suc (length ws)) cap (initial_cap ws) \<noteq> None"
  using card_image_le[of "set ws" fst] card_length[of ws]
  by (intro waterfall_ends) (simp_all add: initial_cap_def)

end
