(* ===== verification/Wiring.thy ===== *)
theory Wiring
  imports Preflight
begin

section \<open>What the gates establish of a graph\<close>

text \<open>
  The static checks of a document and of its component definitions, read as one property of a
  graph: every node has a port table, every edge joins existing ports of compatible types, and
  every required input is fed by an edge or from outside. The executor rests on it.
\<close>

subsection \<open>Port tables of a graph\<close>

fun node_outputs :: "registry_view \<Rightarrow> (string \<times> component_definition) list \<Rightarrow> node_instance \<Rightarrow> port_table option" where
  "node_outputs view defs (RegisteredNode i t v ps ui ext) =
     map_option output_table (node_descriptor_of view (RegisteredNode i t v ps ui ext))"
| "node_outputs view defs (ComponentRefNode i _ _ _ _) = map_option (\<lambda>d. exposed_table (cd_exposed_outputs d)) (map_of defs i)"

fun node_inputs :: "registry_view \<Rightarrow> (string \<times> component_definition) list \<Rightarrow> node_instance \<Rightarrow> port_table option" where
  "node_inputs view defs (RegisteredNode i t v ps ui ext) =
     map_option input_table (node_descriptor_of view (RegisteredNode i t v ps ui ext))"
| "node_inputs view defs (ComponentRefNode i _ _ _ _) = map_option (\<lambda>d. exposed_table (cd_exposed_inputs d)) (map_of defs i)"

lemma add_node_tables_map:
  "map_of (pt_outputs (add_node_tables view defs n t)) k =
     (if k = node_id n \<and> node_outputs view defs n \<noteq> None then node_outputs view defs n else map_of (pt_outputs t) k)"
  "map_of (pt_inputs (add_node_tables view defs n t)) k =
     (if k = node_id n \<and> node_inputs view defs n \<noteq> None then node_inputs view defs n else map_of (pt_inputs t) k)"
  by (cases n; auto simp: update_conv' split: option.splits resolution_status.splits)+

lemma foldl_node_tables:
  "distinct (map node_id ns) \<Longrightarrow> n \<in> set ns \<Longrightarrow> map_of (pt_outputs t) (node_id n) = None \<Longrightarrow>
   map_of (pt_outputs (foldl (\<lambda>tables n. add_node_tables view defs n tables) t ns)) (node_id n) = node_outputs view defs n"
  "distinct (map node_id ns) \<Longrightarrow> n \<in> set ns \<Longrightarrow> map_of (pt_inputs t) (node_id n) = None \<Longrightarrow>
   map_of (pt_inputs (foldl (\<lambda>tables n. add_node_tables view defs n tables) t ns)) (node_id n) = node_inputs view defs n"
proof -
  have frame: "map_of (pt_outputs (foldl (\<lambda>tables n. add_node_tables view defs n tables) t ns)) k = map_of (pt_outputs t) k"
    "map_of (pt_inputs (foldl (\<lambda>tables n. add_node_tables view defs n tables) t ns)) k = map_of (pt_inputs t) k"
    if "k \<notin> node_id ` set ns" for k t and ns :: "node_instance list"
    using that by (induction ns arbitrary: t) (auto simp: add_node_tables_map)
  show "distinct (map node_id ns) \<Longrightarrow> n \<in> set ns \<Longrightarrow> map_of (pt_outputs t) (node_id n) = None \<Longrightarrow>
    map_of (pt_outputs (foldl (\<lambda>tables n. add_node_tables view defs n tables) t ns)) (node_id n) = node_outputs view defs n"
    by (induction ns arbitrary: t) (auto simp: add_node_tables_map frame image_iff)
  show "distinct (map node_id ns) \<Longrightarrow> n \<in> set ns \<Longrightarrow> map_of (pt_inputs t) (node_id n) = None \<Longrightarrow>
    map_of (pt_inputs (foldl (\<lambda>tables n. add_node_tables view defs n tables) t ns)) (node_id n) = node_inputs view defs n"
    by (induction ns arbitrary: t) (auto simp: add_node_tables_map frame image_iff)
qed

lemma build_port_tables_node:
  assumes "distinct (map node_id ns)" "n \<in> set ns"
  shows "map_of (pt_outputs (build_port_tables ns view defs)) (node_id n) = node_outputs view defs n"
    "map_of (pt_inputs (build_port_tables ns view defs)) (node_id n) = node_inputs view defs n"
  using foldl_node_tables[OF assms] by (simp_all add: build_port_tables_def)

subsection \<open>Wired graphs\<close>

definition output_type :: "registry_view \<Rightarrow> (string \<times> component_definition) list \<Rightarrow> node_instance list \<Rightarrow> string \<times> string \<Rightarrow> port_type option" where
  "output_type view defs ns pt = port_of (pt_outputs (build_port_tables ns view defs)) pt"

definition input_type :: "registry_view \<Rightarrow> (string \<times> component_definition) list \<Rightarrow> node_instance list \<Rightarrow> string \<times> string \<Rightarrow> port_type option" where
  "input_type view defs ns pt = port_of (pt_inputs (build_port_tables ns view defs)) pt"

fun required_ports :: "registry_view \<Rightarrow> (string \<times> component_definition) list \<Rightarrow> node_instance \<Rightarrow> string set" where
  "required_ports view defs (RegisteredNode i t v ps ui ext) =
     (case node_descriptor_of view (RegisteredNode i t v ps ui ext) of None \<Rightarrow> {} | Some d \<Rightarrow> ip_name ` {p \<in> set (nd_inputs d). ip_required p})"
| "required_ports view defs (ComponentRefNode i _ _ _ _) =
     (case map_of defs i of None \<Rightarrow> {} | Some d \<Rightarrow> ep_name ` set (cd_exposed_inputs d))"

text \<open>The inputs fed from outside, with the types they promise.\<close>

definition graph_wired ::
    "registry_view \<Rightarrow> (string \<times> component_definition) list \<Rightarrow> node_instance list \<Rightarrow> edge list \<Rightarrow> ((string \<times> string) \<times> port_type) set \<Rightarrow> bool" where
  "graph_wired view defs ns es fed \<longleftrightarrow>
     distinct (map node_id ns) \<and> edge_relation es \<subseteq> node_id ` set ns \<times> node_id ` set ns \<and> acyclic (edge_relation es) \<and>
     (\<forall>n \<in> set ns. node_outputs view defs n \<noteq> None \<and> node_inputs view defs n \<noteq> None) \<and>
     (\<forall>e \<in> set es. \<exists>s t. output_type view defs ns (edge_from e) = Some s \<and> input_type view defs ns (edge_to e) = Some t \<and> is_compatible s t) \<and>
     (\<forall>n \<in> set ns. \<forall>p \<in> required_ports view defs n. (node_id n, p) \<in> edge_to ` set es \<union> fst ` fed) \<and>
     (\<forall>(target, ty) \<in> fed. \<exists>t. input_type view defs ns target = Some t \<and> is_compatible ty t)"

definition exposed_feeds :: "component_definition \<Rightarrow> ((string \<times> string) \<times> port_type) set" where
  "exposed_feeds d = (\<lambda>p. (ep_maps_to p, ep_type p)) ` set (cd_exposed_inputs d)"

definition outputs_exposed :: "registry_view \<Rightarrow> (string \<times> component_definition) list \<Rightarrow> component_definition \<Rightarrow> bool" where
  "outputs_exposed view defs d \<longleftrightarrow> distinct (map ep_name (cd_exposed_outputs d)) \<and> distinct (map ep_name (cd_exposed_inputs d)) \<and>
     distinct (map ep_maps_to (cd_exposed_inputs d)) \<and>
     (\<forall>p \<in> set (cd_exposed_outputs d).
       \<exists>s. output_type view defs (graph_nodes (cd_graph d)) (ep_maps_to p) = Some s \<and> is_compatible s (ep_type p))"

text \<open>Component nodes whose instances are wired all the way down.\<close>

inductive instance_wired :: "registry_view \<Rightarrow> component_instance \<Rightarrow> bool" for view where
  instance_wiredI: "graph_wired view defs (graph_nodes (cd_graph (ci_definition c))) (graph_edges (cd_graph (ci_definition c)))
      (exposed_feeds (ci_definition c)) \<Longrightarrow>
    outputs_exposed view defs (ci_definition c) \<Longrightarrow>
    (\<And>i r ps ui ext. ComponentRefNode i r ps ui ext \<in> set (graph_nodes (cd_graph (ci_definition c))) \<Longrightarrow>
       \<exists>c'. map_of (ci_children c) i = Some c' \<and> map_of defs i = Some (ci_definition c') \<and> instance_wired view c') \<Longrightarrow>
    instance_wired view c"

inductive_cases instance_wiredE: "instance_wired view c"

definition components_wired :: "registry_view \<Rightarrow> (string \<times> component_definition) list \<Rightarrow> node_instance list \<Rightarrow> (string \<times> component_instance) list \<Rightarrow> bool" where
  "components_wired view defs ns instances \<longleftrightarrow> (\<forall>i r ps ui ext. ComponentRefNode i r ps ui ext \<in> set ns \<longrightarrow>
     (\<exists>c. map_of instances i = Some c \<and> map_of defs i = Some (ci_definition c) \<and> instance_wired view c))"

subsection \<open>A checked definition is wired\<close>

lemma nested_definitions_other:
  "nested_definitions F refs ns acc = Inr m \<Longrightarrow> i \<notin> node_id ` set ns \<Longrightarrow> map_of m i = map_of acc i"
proof (induction F refs ns acc rule: nested_definitions.induct)
  case (3 F refs i' r ps ui ext ns acc)
  obtain k' where "ref_key_for i' r refs = Inr k'"
    and m: "nested_definitions F refs ns (case map_of F k' of Some d \<Rightarrow> AList.update i' d acc | None \<Rightarrow> acc) = Inr m"
    using 3(2) by (auto simp: res_simps)
  show ?case using 3(1)[OF m] 3(3) by (auto simp: update_conv' split: option.splits)
qed auto

lemma nested_definitions_map:
  "nested_definitions F refs ns acc = Inr m \<Longrightarrow> distinct (map node_id ns) \<Longrightarrow> ComponentRefNode i r ps ui ext \<in> set ns \<Longrightarrow>
   find_ref_key r refs = Some k \<Longrightarrow> map_of F k = Some d \<Longrightarrow> map_of m i = Some d"
proof (induction F refs ns acc rule: nested_definitions.induct)
  case (3 F refs i' r' ps' ui' ext' ns acc)
  obtain k' where k': "ref_key_for i' r' refs = Inr k'"
    and m: "nested_definitions F refs ns (case map_of F k' of Some d \<Rightarrow> AList.update i' d acc | None \<Rightarrow> acc) = Inr m"
    using 3(2) by (auto simp: res_simps)
  show ?case
  proof (cases "i = i'")
    case True
    then have "r = r'" using 3(3,4) by auto (metis (full_types) image_eqI node_instance.sel(2))
    then have "k' = k" using k' 3(5) by (simp add: ref_key_for_def)
    then show ?thesis using nested_definitions_other[OF m, of i] True 3(3,6) by (simp add: update_conv')
  next
    case False
    then show ?thesis using 3(1)[OF m] 3(3-6) by auto
  qed
qed auto

lemma duplicate_name_errors_Nil:
  "duplicate_name_errors ctx label code seen ns = [] \<longleftrightarrow> distinct ns \<and> set ns \<inter> set seen = {}"
  by (induction ctx label code seen ns rule: duplicate_name_errors.induct) auto

lemma exposed_input_errors_Nil:
  "exposed_input_errors ctx ins targets fed ps = [] \<longleftrightarrow>
     (\<forall>p \<in> set ps. (\<exists>t. port_of ins (ep_maps_to p) = Some t \<and> is_compatible (ep_type p) t) \<and>
        ep_maps_to p \<notin> set targets \<union> set fed) \<and> distinct (map ep_maps_to ps)"
  by (induction ctx ins targets fed ps rule: exposed_input_errors.induct)
    (auto simp: Let_def image_iff split: option.splits)

lemma exposed_output_error_Nil:
  "exposed_output_error ctx outs p = [] \<longleftrightarrow> (\<exists>s. port_of outs (ep_maps_to p) = Some s \<and> is_compatible s (ep_type p))"
  by (auto simp: exposed_output_error_def Let_def split: option.splits)

lemma edge_wiring_errors_Nil:
  "edge_wiring_errors tables ctx e = [] \<longleftrightarrow> edge_typed (pt_outputs tables) (pt_inputs tables) e"
  by (auto simp: edge_wiring_errors_def edge_typed_def Let_def split: prod.splits option.splits)

lemma registered_input_errors_Nil:
  "registered_input_errors view linked ctx n = [] \<longleftrightarrow>
     (\<forall>d. node_descriptor_of view n = Some d \<longrightarrow> (\<forall>p \<in> set (nd_inputs d). ip_required p \<longrightarrow> (node_id n, ip_name p) \<in> set linked))"
  by (cases n) (auto simp: filter_empty_conv split: option.splits resolution_status.splits)

lemma internal_type_errors_Nil:
  assumes "view_consistent view" "internal_type_errors view ctx (RegisteredNode i t v ps ui ext) = []"
  shows "node_descriptor_of view (RegisteredNode i t v ps ui ext) \<noteq> None"
  using assms by (auto simp: view_consistent_def split: resolution_status.splits)

lemma exposed_table_keys: "fst ` set (exposed_table ps) = ep_name ` set ps"
  by (simp add: exposed_table_def dict_of_keys image_image)

text \<open>An edge whose endpoints have tables and which is typed joins existing ports.\<close>

lemma edge_typed_ports:
  assumes "edge_typed outs ins e" "map_of outs (fst (edge_from e)) \<noteq> None" "map_of ins (fst (edge_to e)) \<noteq> None"
  shows "\<exists>s t. port_of outs (edge_from e) = Some s \<and> port_of ins (edge_to e) = Some t \<and> is_compatible s t"
  using assms by (auto simp: edge_typed_def)

lemma edge_endpoints:
  assumes "edge_relation es \<subseteq> node_id ` set ns \<times> node_id ` set ns" "e \<in> set es"
  obtains m n where "m \<in> set ns" "fst (edge_from e) = node_id m" "n \<in> set ns" "fst (edge_to e) = node_id n"
proof -
  have "(fst (edge_from e), fst (edge_to e)) \<in> edge_relation es"
    using assms(2) by (auto simp: edge_relation_def)
  then show ?thesis using assms(1) that by blast
qed

lemma checked_definition_wired:
  assumes "check_definition lib d view F = Inr []" "definition_sound d" "view_consistent view"
    and nested: "\<And>i r ps ui ext. ComponentRefNode i r ps ui ext \<in> set (graph_nodes (cd_graph d)) \<Longrightarrow>
      \<exists>k d'. find_ref_key r (cd_component_refs d) = Some k \<and> map_of F k = Some d'"
  shows "\<exists>m. nested_definitions F (cd_component_refs d) (graph_nodes (cd_graph d)) [] = Inr m \<and>
    graph_wired view m (graph_nodes (cd_graph d)) (graph_edges (cd_graph d)) (exposed_feeds d) \<and> outputs_exposed view m d"
proof -
  let ?ns = "graph_nodes (cd_graph d)" and ?es = "graph_edges (cd_graph d)"
  let ?ctx = "''component '' @ key_str (definition_key d)" and ?fed = "map ep_maps_to (cd_exposed_inputs d)"
  obtain m where m: "nested_definitions F (cd_component_refs d) ?ns [] = Inr m"
    using assms(1) by (auto simp: check_definition_def Let_def try_bind_Inr)
  let ?t = "build_port_tables ?ns view m"
  have g: "distinct (map node_id ?ns)" "edge_relation ?es \<subseteq> node_id ` set ?ns \<times> node_id ` set ?ns" "acyclic (edge_relation ?es)"
    using assms(2) by (auto simp: definition_sound_def graph_sound_def)
  have nil: "concat (map (internal_type_errors view ?ctx) ?ns) = []"
    "distinct (map ep_name (cd_exposed_inputs d))" "distinct (map ep_name (cd_exposed_outputs d))"
    "exposed_input_errors ?ctx (pt_inputs ?t) (map edge_to ?es) [] (cd_exposed_inputs d) = []"
    "concat (map (exposed_output_error ?ctx (pt_outputs ?t)) (cd_exposed_outputs d)) = []"
    "check_graph_wiring ?ns ?es ?t ?fed ?ctx = []" "check_required_registered_inputs ?ns ?es view ?fed ?ctx = []"
    using assms(1) m by (simp_all add: check_definition_def Let_def duplicate_name_errors_Nil)
  have tables: "node_outputs view m n \<noteq> None \<and> node_inputs view m n \<noteq> None" if n: "n \<in> set ?ns" for n
  proof (cases n)
    case (RegisteredNode i t v ps ui ext)
    then have "internal_type_errors view ?ctx (RegisteredNode i t v ps ui ext) = []"
      using nil(1) n by (simp add: concat_eq_Nil_conv del: internal_type_errors.simps)
    from internal_type_errors_Nil[OF assms(3) this] show ?thesis using RegisteredNode by auto
  next
    case (ComponentRefNode i r ps ui ext)
    then obtain k d' where "find_ref_key r (cd_component_refs d) = Some k" "map_of F k = Some d'" using nested n by blast
    then show ?thesis using nested_definitions_map[OF m g(1)] n ComponentRefNode by auto
  qed
  have edges: "\<exists>s t. output_type view m ?ns (edge_from e) = Some s \<and> input_type view m ?ns (edge_to e) = Some t \<and> is_compatible s t"
    if e: "e \<in> set ?es" for e
  proof -
    obtain a b where ab: "a \<in> set ?ns" "fst (edge_from e) = node_id a" "b \<in> set ?ns" "fst (edge_to e) = node_id b"
      using edge_endpoints[OF g(2) e] by metis
    have "edge_typed (pt_outputs ?t) (pt_inputs ?t) e"
      using nil(6) e edge_wiring_errors_Nil by (auto simp: check_graph_wiring_def concat_eq_Nil_conv)
    then show ?thesis unfolding output_type_def input_type_def
      by (rule edge_typed_ports) (use ab tables build_port_tables_node[OF g(1)] in auto)
  qed
  have fed: "fst ` exposed_feeds d = set ?fed" by (simp add: exposed_feeds_def image_image)
  have required: "(node_id n, p) \<in> edge_to ` set ?es \<union> fst ` exposed_feeds d"
    if n: "n \<in> set ?ns" and p: "p \<in> required_ports view m n" for n p
  proof (cases n)
    case (RegisteredNode i t v ps ui ext)
    have "registered_input_errors view (map edge_to ?es @ ?fed) ?ctx n = []"
      using nil(7) n by (auto simp: check_required_registered_inputs_def concat_eq_Nil_conv)
    then show ?thesis unfolding registered_input_errors_Nil fed using p RegisteredNode by (auto split: option.splits)
  next
    case (ComponentRefNode i r ps ui ext)
    then obtain d' where d': "map_of m i = Some d'" "p \<in> ep_name ` set (cd_exposed_inputs d')" using p by (auto split: option.splits)
    have "component_input_errors ?t (?fed @ map edge_to ?es) ?ctx n = []"
      using nil(6) n by (auto simp: check_graph_wiring_def concat_eq_Nil_conv)
    moreover have "map_of (pt_inputs ?t) i = Some (exposed_table (cd_exposed_inputs d'))"
      using build_port_tables_node(2)[OF g(1) n, of view m] ComponentRefNode d'(1) by simp
    ultimately have "\<forall>q \<in> set (map fst (exposed_table (cd_exposed_inputs d'))). (i, q) \<in> set (?fed @ map edge_to ?es)"
      using ComponentRefNode by (auto simp: filter_empty_conv)
    moreover have "p \<in> set (map fst (exposed_table (cd_exposed_inputs d')))" using d'(2) by (simp add: exposed_table_keys)
    ultimately show ?thesis unfolding fed using ComponentRefNode by auto
  qed
  have feeds: "\<exists>t. input_type view m ?ns target = Some t \<and> is_compatible ty t" if "(target, ty) \<in> exposed_feeds d" for target ty
    using nil(4) that unfolding exposed_input_errors_Nil by (auto simp: exposed_feeds_def input_type_def)
  have "graph_wired view m ?ns ?es (exposed_feeds d)"
    unfolding graph_wired_def using g tables edges required feeds by blast
  moreover have "outputs_exposed view m d"
    using nil(2-5) unfolding outputs_exposed_def exposed_input_errors_Nil
    by (auto simp: output_type_def concat_eq_Nil_conv exposed_output_error_Nil)
  ultimately show ?thesis using m by blast
qed

lemma instance_ok_wired:
  assumes "closure_sound F" "view_consistent view" "\<And>k d. (k, d) \<in> set F \<Longrightarrow> check_definition lib d view F = Inr []"
  shows "instance_ok F c \<Longrightarrow> instance_wired view c"
proof (induction rule: instance_ok.induct)
  case (instance_okI d eff ch path iid)
  have mem: "(definition_key d, d) \<in> set F" using instance_okI(1) by (simp add: map_of_SomeD)
  have child: "\<exists>c'. map_of ch i = Some c' \<and> find_ref_key r (cd_component_refs d) = Some (definition_key (ci_definition c')) \<and>
      map_of F (definition_key (ci_definition c')) = Some (ci_definition c') \<and> instance_wired view c'"
    if "ComponentRefNode i r ps ui ext \<in> set (graph_nodes (cd_graph d))" for i r ps ui ext
    using instance_okI(3)[OF that] by (auto elim: instance_ok.cases)
  obtain m where m: "nested_definitions F (cd_component_refs d) (graph_nodes (cd_graph d)) [] = Inr m"
    "graph_wired view m (graph_nodes (cd_graph d)) (graph_edges (cd_graph d)) (exposed_feeds d)" "outputs_exposed view m d"
    using checked_definition_wired[OF assms(3)[OF mem] closure_entry(2)[OF assms(1) mem] assms(2)] child by blast
  have ids: "distinct (map node_id (graph_nodes (cd_graph d)))" using m(2) by (simp add: graph_wired_def)
  show ?case
  proof (rule instance_wiredI)
    show "graph_wired view m (graph_nodes (cd_graph (ci_definition (ComponentInstance iid path d eff ch))))
        (graph_edges (cd_graph (ci_definition (ComponentInstance iid path d eff ch))))
        (exposed_feeds (ci_definition (ComponentInstance iid path d eff ch)))"
      "outputs_exposed view m (ci_definition (ComponentInstance iid path d eff ch))" using m by simp_all
    fix i r ps ui ext
    assume "ComponentRefNode i r ps ui ext \<in> set (graph_nodes (cd_graph (ci_definition (ComponentInstance iid path d eff ch))))"
    then have n: "ComponentRefNode i r ps ui ext \<in> set (graph_nodes (cd_graph d))" by simp
    from child[OF n] nested_definitions_map[OF m(1) ids n]
    show "\<exists>c'. map_of (ci_children (ComponentInstance iid path d eff ch)) i = Some c' \<and>
        map_of m i = Some (ci_definition c') \<and> instance_wired view c'" by auto
  qed
qed

subsection \<open>A clean pre-flight leaves a wired document\<close>

lemma resolved_definitions_checked:
  assumes "resolve_strategy_components lib doc catalog view = Inr r" "rst_ok r"
    "F = fst (fetch_definition_closure [] (sd_component_refs doc) catalog)" "(k, d) \<in> set F"
  shows "check_definition lib d view F = Inr []"
proof -
  obtain un where f: "fetch_definition_closure [] (sd_component_refs doc) catalog = (F, un)" using assms(3) by (metis prod.collapse)
  from assms(1) f obtain gate where g: "run_definition_gates lib (ordered_definitions F) view F un = Inr gate"
    by (auto simp: resolve_strategy_components_def try_bind_Inr)
  have "gate = []"
  proof (rule ccontr)
    assume "gate \<noteq> []"
    then show False using assms(1,2) f g by (auto simp: resolve_strategy_components_def Let_def)
  qed
  moreover have "d \<in> set (ordered_definitions F)" using assms(4) by (force simp: ordered_definitions_set)
  ultimately show ?thesis using run_definition_gates_Nil(5) g by blast
qed

definition instance_definitions :: "(string \<times> component_instance) list \<Rightarrow> (string \<times> component_definition) list" where
  "instance_definitions instances = map (\<lambda>(i, c). (i, ci_definition c)) instances"

lemma map_of_instance_definitions: "map_of (instance_definitions instances) i = map_option ci_definition (map_of instances i)"
  by (simp add: instance_definitions_def map_of_map_snd)

lemma toplevel_wiring_Nil:
  assumes "toplevel_component_wiring doc view resolution = []"
  defines "defs \<equiv> instance_definitions (rst_instances resolution)"
  defines "tables \<equiv> build_port_tables (sd_nodes doc) view defs"
  shows "\<And>e. e \<in> set (sd_edges doc) \<Longrightarrow> toplevel_edge_errors tables (map fst defs) e = []"
    "\<And>i d p. map_of defs i = Some d \<Longrightarrow> p \<in> set (cd_exposed_inputs d) \<Longrightarrow> (i, ep_name p) \<in> edge_to ` set (sd_edges doc)"
proof -
  have w: "concat (map (toplevel_edge_errors tables (map fst defs)) (sd_edges doc)) = []"
    "concat (map (exposed_connectivity_errors defs (sd_edges doc)) (sort (map fst defs))) = []"
    using assms(1) unfolding toplevel_component_wiring_def Let_def defs_def tables_def instance_definitions_def by simp_all
  show "toplevel_edge_errors tables (map fst defs) e = []" if "e \<in> set (sd_edges doc)" for e
    using w(1) that unfolding concat_eq_Nil_conv by auto
  fix i d p assume d: "map_of defs i = Some d" "p \<in> set (cd_exposed_inputs d)"
  then have "i \<in> set (sort (map fst defs))" by (auto dest!: map_of_SomeD) force
  then have "exposed_connectivity_errors defs (sd_edges doc) i = []" using w(2) unfolding concat_eq_Nil_conv by auto
  then show "(i, ep_name p) \<in> edge_to ` set (sd_edges doc)"
    using d by (auto simp: exposed_connectivity_errors_def filter_empty_conv)
qed

lemma toplevel_edge_errors_Nil:
  assumes "toplevel_edge_errors tables ids e = []" "fst (edge_from e) \<in> set ids \<or> fst (edge_to e) \<in> set ids"
  shows "fst (edge_from e) \<in> set ids \<Longrightarrow> map_of (pt_outputs tables) (fst (edge_from e)) \<noteq> None \<Longrightarrow> port_of (pt_outputs tables) (edge_from e) \<noteq> None"
    "fst (edge_to e) \<in> set ids \<Longrightarrow> map_of (pt_inputs tables) (fst (edge_to e)) \<noteq> None \<Longrightarrow> port_of (pt_inputs tables) (edge_to e) \<noteq> None"
    "port_of (pt_outputs tables) (edge_from e) = Some s \<Longrightarrow> port_of (pt_inputs tables) (edge_to e) = Some t \<Longrightarrow> is_compatible s t"
  using assms by (auto simp: toplevel_edge_errors_def Let_def case_prod_beta split: if_splits)

text \<open>The edges of the document: the semantic layer checks the registered endpoints, the
  top-level layer those on component instances.\<close>

lemma registered_tables:
  assumes "distinct (map node_id ns)" "n \<in> set ns" "n = RegisteredNode i t v ps ui ext"
  shows "map_of (map (\<lambda>(i, d). (i, output_table d)) (resolved_nodes view ns [])) (node_id n) =
      map_of (pt_outputs (build_port_tables ns view defs)) (node_id n)"
    "map_of (map (\<lambda>(i, d). (i, input_table d)) (resolved_nodes view ns [])) (node_id n) =
      map_of (pt_inputs (build_port_tables ns view defs)) (node_id n)"
  using resolved_nodes_of_node[OF assms(1,2), of view] build_port_tables_node[OF assms(1,2), of view defs]
  by (simp_all add: map_of_map_snd assms(3))

lemma toplevel_edge_typed:
  fixes ns defs view
  defines "t \<equiv> build_port_tables ns view defs"
  assumes ids: "distinct (map node_id ns)" and a: "a \<in> set ns" "fst (edge_from e) = node_id a"
    and b: "b \<in> set ns" "fst (edge_to e) = node_id b"
    and sem: "edge_typed (map (\<lambda>(i, d). (i, output_table d)) (resolved_nodes view ns []))
      (map (\<lambda>(i, d). (i, input_table d)) (resolved_nodes view ns [])) e"
    and top: "toplevel_edge_errors t (map fst defs) e = []"
    and comp: "\<And>i r ps ui ext. ComponentRefNode i r ps ui ext \<in> set ns \<Longrightarrow> map_of defs i \<noteq> None"
    and tables: "map_of (pt_outputs t) (node_id a) \<noteq> None" "map_of (pt_inputs t) (node_id b) \<noteq> None"
  shows "\<exists>s u. port_of (pt_outputs t) (edge_from e) = Some s \<and> port_of (pt_inputs t) (edge_to e) = Some u \<and> is_compatible s u"
proof -
  let ?outs = "map (\<lambda>(i, d). (i, output_table d)) (resolved_nodes view ns [])"
  let ?ins = "map (\<lambda>(i, d). (i, input_table d)) (resolved_nodes view ns [])"
  let ?C = "set (map fst defs)"
  have reg: "node_id n \<notin> ?C \<Longrightarrow> \<exists>i t v ps ui ext. n = RegisteredNode i t v ps ui ext" if "n \<in> set ns" for n
    using comp that by (cases n) (auto simp: map_of_eq_None_iff)
  note nil = toplevel_edge_errors_Nil[OF top]
  have same: "map_of ?outs (node_id n) = map_of (pt_outputs t) (node_id n)" "map_of ?ins (node_id n) = map_of (pt_inputs t) (node_id n)"
    if n: "n \<in> set ns" "node_id n \<notin> ?C" for n
  proof -
    obtain i v' v ps ui ext where "n = RegisteredNode i v' v ps ui ext" using reg[OF n] by metis
    then show "map_of ?outs (node_id n) = map_of (pt_outputs t) (node_id n)" "map_of ?ins (node_id n) = map_of (pt_inputs t) (node_id n)"
      unfolding t_def by (rule registered_tables[OF ids n(1)])+
  qed
  have out: "port_of (pt_outputs t) (edge_from e) \<noteq> None"
  proof (cases "node_id a \<in> ?C")
    case False
    then show ?thesis using same[OF a(1)] sem tables(1) a(2) by (simp add: edge_typed_def port_of_def)
  qed (use nil(1) tables(1) a(2) in simp)
  have inp: "port_of (pt_inputs t) (edge_to e) \<noteq> None"
  proof (cases "node_id b \<in> ?C")
    case False
    then show ?thesis using same[OF b(1)] sem tables(2) b(2) by (simp add: edge_typed_def port_of_def)
  qed (use nil(2) tables(2) b(2) in simp)
  have "is_compatible s u" if "port_of (pt_outputs t) (edge_from e) = Some s" "port_of (pt_inputs t) (edge_to e) = Some u" for s u
  proof (cases "node_id a \<in> ?C \<or> node_id b \<in> ?C")
    case True
    then show ?thesis using nil(3) that a(2) b(2) by simp
  next
    case False
    then show ?thesis using same[OF a(1)] same[OF b(1)] sem that a(2) b(2) by (simp add: edge_typed_def port_of_def)
  qed
  then show ?thesis using out inp by blast
qed

lemma preflight_wired:
  assumes "component_catalog_ok catalog" "view_consistent view"
    "run_document_preflight lib doc view (Some catalog) = Inr p" "preflight_ok p"
  defines "instances \<equiv> rst_instances (pf_resolution p)"
  shows "graph_wired view (instance_definitions instances) (sd_nodes doc) (sd_edges doc) {}"
    "components_wired view (instance_definitions instances) (sd_nodes doc) instances"
proof -
  let ?F = "fst (fetch_definition_closure [] (sd_component_refs doc) catalog)"
  let ?ns = "sd_nodes doc" and ?es = "sd_edges doc" and ?defs = "instance_definitions instances"
  have facts: "document_sound doc" "document_typed lib doc view" "rst_ok (pf_resolution p)" "closure_sound ?F"
    "instances_ok ?F (sd_component_refs doc) ?ns instances"
    using preflight_ok_facts[OF assms(1-4)] by (simp_all add: preflight_facts_def instances_def)
  have g: "distinct (map node_id ?ns)" "edge_relation ?es \<subseteq> node_id ` set ?ns \<times> node_id ` set ?ns" "acyclic (edge_relation ?es)"
    using facts(1) by (auto simp: document_sound_def graph_sound_def)
  have run: "resolve_strategy_components lib doc catalog view = Inr (pf_resolution p)"
    "toplevel_component_wiring doc view (pf_resolution p) = []"
    using assms(3,4) facts(1-3) validate_strategy_semantics_ok[OF assms(2) g(1), of lib]
    by (auto simp: run_document_preflight_def Let_def validate_strategy_document_ok require_component_catalog_def preflight_ok_def try_bind_Inr)
  note top = toplevel_wiring_Nil[OF run(2), folded instances_def]
  have wired: "instance_wired view c" if "instance_ok ?F c" for c
    by (rule instance_ok_wired[OF facts(4) assms(2) resolved_definitions_checked[OF run(1) facts(3) refl] that])
  have comp: "\<exists>c. map_of instances i = Some c \<and> map_of ?defs i = Some (ci_definition c) \<and> instance_wired view c"
    if n: "ComponentRefNode i r ps ui ext \<in> set ?ns" for i r ps ui ext
  proof -
    obtain c where "map_of instances i = Some c" "instance_ok ?F c"
      using facts(5) n unfolding instances_ok_def by blast
    then show ?thesis using wired by (auto simp: map_of_instance_definitions)
  qed
  then show "components_wired view ?defs ?ns instances" unfolding components_wired_def by blast
  have tables: "node_outputs view ?defs n \<noteq> None \<and> node_inputs view ?defs n \<noteq> None" if n: "n \<in> set ?ns" for n
  proof (cases n)
    case (RegisteredNode i t v ps ui ext)
    then have "rs_status (view t v) = ResolvedOk"
      using facts(2) n unfolding document_typed_def by (auto split: node_instance.splits)
    then show ?thesis using assms(2) RegisteredNode by (auto simp: view_consistent_def)
  next
    case (ComponentRefNode i r ps ui ext)
    then show ?thesis using comp n by auto blast+
  qed
  have edges: "\<exists>s t. output_type view ?defs ?ns (edge_from e) = Some s \<and> input_type view ?defs ?ns (edge_to e) = Some t \<and> is_compatible s t"
    if e: "e \<in> set ?es" for e
  proof -
    obtain a b where ab: "a \<in> set ?ns" "fst (edge_from e) = node_id a" "b \<in> set ?ns" "fst (edge_to e) = node_id b"
      using edge_endpoints[OF g(2) e] by metis
    show ?thesis unfolding output_type_def input_type_def
    proof (rule toplevel_edge_typed[OF g(1) ab _ top(1)[OF e]])
      show "edge_typed (map (\<lambda>(i, d). (i, output_table d)) (resolved_nodes view ?ns []))
          (map (\<lambda>(i, d). (i, input_table d)) (resolved_nodes view ?ns [])) e"
        using facts(2) e unfolding document_typed_def by blast
      show "map_of (pt_outputs (build_port_tables ?ns view ?defs)) (node_id a) \<noteq> None"
        "map_of (pt_inputs (build_port_tables ?ns view ?defs)) (node_id b) \<noteq> None"
        using tables build_port_tables_node[OF g(1)] ab by auto
    qed (use comp in blast)
  qed
  have required: "(node_id n, q) \<in> edge_to ` set ?es \<union> fst ` {}" if n: "n \<in> set ?ns" and q: "q \<in> required_ports view ?defs n" for n q
  proof (cases n)
    case (RegisteredNode i t v ps ui ext)
    then show ?thesis using facts(2) n q unfolding document_typed_def by (auto split: option.splits)
  next
    case (ComponentRefNode i r ps ui ext)
    then show ?thesis using q top(2) by (auto split: option.splits)
  qed
  show "graph_wired view ?defs ?ns ?es {}" unfolding graph_wired_def using g tables edges required by auto
qed

end
