(* ===== verification/Soundness.thy ===== *)
theory Soundness
  imports NodeLaws Wiring
begin

section \<open>A wired document runs\<close>

text \<open>
  The contract of an implementation catalog (its maps in lockstep, its nodes safe and typed) and
  what the executor promises on it: on a wired graph it returns, every input it reads is there
  and of a compatible type, and the only diagnostic left is the failure of a node's own
  computation.
\<close>

subsection \<open>Stores and inputs\<close>

definition has_value :: "value_store \<Rightarrow> node_path \<Rightarrow> string \<Rightarrow> port_type \<Rightarrow> bool" where
  "has_value store path port ty \<longleftrightarrow>
     (\<exists>v. map_of store (path, port) = Some v \<and> value_ok v \<and> is_compatible (port_type_of v) ty)"

definition feeds_ok :: "external_inputs \<Rightarrow> ((string \<times> string) \<times> port_type) set \<Rightarrow> bool" where
  "feeds_ok external fed \<longleftrightarrow>
     (\<forall>(target, ty) \<in> fed. \<exists>v. map_of external target = Some v \<and> value_ok v \<and> is_compatible (port_type_of v) ty)"

text \<open>The nodes of a set have run: all their ports hold values.\<close>

definition outputs_present ::
    "registry_view \<Rightarrow> (string \<times> component_definition) list \<Rightarrow> node_instance list \<Rightarrow> node_path \<Rightarrow> string set \<Rightarrow> value_store \<Rightarrow> bool" where
  "outputs_present view defs ns path D store \<longleftrightarrow>
     (\<forall>i \<in> D. \<forall>port ty. output_type view defs ns (i, port) = Some ty \<longrightarrow> has_value store (path @ [i]) port ty)"

definition unchanged_outside :: "node_path \<Rightarrow> string set \<Rightarrow> value_store \<Rightarrow> value_store \<Rightarrow> bool" where
  "unchanged_outside path D store store' \<longleftrightarrow>
     (\<forall>p port. (\<forall>i \<in> D. \<forall>rest. p \<noteq> path @ i # rest) \<longrightarrow> map_of store' (p, port) = map_of store (p, port))"

lemma unchanged_refl [simp]: "unchanged_outside path D store store"
  by (simp add: unchanged_outside_def)

lemma unchanged_trans:
  "unchanged_outside path A s s' \<Longrightarrow> unchanged_outside path B s' s'' \<Longrightarrow> unchanged_outside path (A \<union> B) s s''"
  by (simp add: unchanged_outside_def)

lemma unchanged_value:
  "unchanged_outside path D s s' \<Longrightarrow> i \<notin> D \<Longrightarrow> has_value s (path @ [i]) port ty \<Longrightarrow> has_value s' (path @ [i]) port ty"
proof -
  assume u: "unchanged_outside path D s s'" "i \<notin> D" and v: "has_value s (path @ [i]) port ty"
  have "\<forall>j \<in> D. \<forall>rest. path @ [i] \<noteq> path @ j # rest" using u(2) by auto
  then have "map_of s' (path @ [i], port) = map_of s (path @ [i], port)" using u(1) unfolding unchanged_outside_def by blast
  then show ?thesis using v by (simp add: has_value_def)
qed

lemma outputs_present_unchanged:
  "outputs_present view defs ns path A s \<Longrightarrow> unchanged_outside path B s s' \<Longrightarrow> A \<inter> B = {} \<Longrightarrow>
   outputs_present view defs ns path A s'"
  using unchanged_value unfolding outputs_present_def by (metis disjoint_iff)

lemma edge_sources_cases:
  "(\<exists>e \<in> set es. edge_to e = target \<and> map_of (edge_sources es) target = Some (edge_from e)) \<or>
   target \<notin> edge_to ` set es \<and> map_of (edge_sources es) target = None"
proof (cases "map_of (edge_sources es) target")
  case None
  then have "target \<notin> fst ` set (map (\<lambda>e. (edge_to e, edge_from e)) es)"
    unfolding edge_sources_def map_of_eq_None_iff dict_of_keys by simp
  then show ?thesis using None by (simp add: image_image)
next
  case (Some src)
  then have "(target, src) \<in> set (rev (map (\<lambda>e. (edge_to e, edge_from e)) es))"
    unfolding edge_sources_def map_of_dict_of by (rule map_of_SomeD)
  then show ?thesis using Some by auto
qed

lemma output_type_node:
  assumes "distinct (map node_id ns)" "n \<in> set ns"
  shows "output_type view defs ns (node_id n, port) = (case node_outputs view defs n of None \<Rightarrow> None | Some T \<Rightarrow> map_of T port)"
    "input_type view defs ns (node_id n, port) = (case node_inputs view defs n of None \<Rightarrow> None | Some T \<Rightarrow> map_of T port)"
  by (simp_all add: output_type_def input_type_def port_of_def build_port_tables_node[OF assms] split: option.split)

lemma graph_wired_edge:
  assumes "graph_wired view defs ns es fed" "e \<in> set es"
  shows "\<exists>s t. output_type view defs ns (edge_from e) = Some s \<and> input_type view defs ns (edge_to e) = Some t \<and> is_compatible s t"
  using assms unfolding graph_wired_def by blast

lemma graph_wired_node:
  assumes "graph_wired view defs ns es fed" "n \<in> set ns"
  shows "node_outputs view defs n \<noteq> None"
    "q \<in> required_ports view defs n \<Longrightarrow> (node_id n, q) \<in> edge_to ` set es \<union> fst ` fed"
  using assms unfolding graph_wired_def by (elim conjE, blast)+

text \<open>Every required input of the next node to run is available, well formed and compatible.\<close>

lemma input_available:
  assumes w: "graph_wired view defs ns es fed" and x: "feeds_ok external fed"
    and present: "outputs_present view defs ns path D (ex_store ex)"
    and before: "{u. (u, i) \<in> edge_relation es} \<subseteq> D"
    and fed: "(i, p) \<in> edge_to ` set es \<union> fst ` fed"
  shows "\<exists>v t. input_value ex i p path (edge_sources es) external = Some v \<and> value_ok v \<and>
    input_type view defs ns (i, p) = Some t \<and> is_compatible (port_type_of v) t"
  using edge_sources_cases[of es "(i, p)"]
proof
  assume "\<exists>e \<in> set es. edge_to e = (i, p) \<and> map_of (edge_sources es) (i, p) = Some (edge_from e)"
  then obtain e src sp where e: "e \<in> set es" "edge_to e = (i, p)" "edge_from e = (src, sp)"
    "map_of (edge_sources es) (i, p) = Some (src, sp)" by (metis surj_pair)
  obtain s t where st: "output_type view defs ns (src, sp) = Some s" "input_type view defs ns (i, p) = Some t" "is_compatible s t"
    using graph_wired_edge[OF w e(1)] e(2,3) by auto
  have "(src, i) \<in> edge_relation es" using e(1-3) by (force simp: edge_relation_def)
  then have "has_value (ex_store ex) (path @ [src]) sp s" using present before st(1) unfolding outputs_present_def by blast
  then show ?thesis using e(4) st is_compatible_trans unfolding has_value_def input_value_def by fastforce
next
  assume none: "(i, p) \<notin> edge_to ` set es \<and> map_of (edge_sources es) (i, p) = None"
  then obtain ty where ty: "((i, p), ty) \<in> fed" using fed by force
  then obtain t where t: "input_type view defs ns (i, p) = Some t" "is_compatible ty t"
    using w unfolding graph_wired_def by blast
  obtain v where v: "map_of external (i, p) = Some v" "value_ok v" "is_compatible (port_type_of v) ty"
    using x ty unfolding feeds_ok_def by blast
  then have "input_value ex i p path (edge_sources es) external = Some v" using none by (simp add: input_value_def)
  then show ?thesis using v t is_compatible_trans by blast
qed

subsection \<open>One node\<close>

lemma gather_inputs_total:
  "(\<And>p. p \<in> set ps \<Longrightarrow> ip_required p \<Longrightarrow> look (ip_name p) \<noteq> None) \<Longrightarrow> \<exists>vs. gather_inputs look path nid ps = Inr vs"
proof (induction ps)
  case (Cons p ps)
  then obtain vs where "gather_inputs look path nid ps = Inr vs" by auto
  then show ?case using Cons.prems[of p] by (cases "look (ip_name p)") auto
qed simp

lemma store_outputs_all:
  assumes "\<And>name ty. (name, ty) \<in> set declared \<Longrightarrow> \<exists>v. map_of outputs name = Some v \<and> port_type_of v = ty"
  shows "\<exists>store'. store_outputs path nid declared outputs store = (None, store') \<and>
    (\<forall>key. map_of store' key = (if fst key = path \<and> snd key \<in> fst ` set declared then map_of outputs (snd key) else map_of store key))"
  using assms
proof (induction declared arbitrary: store)
  case (Cons d rest)
  obtain name ty where d: "d = (name, ty)" by (cases d)
  obtain v where v: "map_of outputs name = Some v" "port_type_of v = ty" using Cons.prems[of name ty] d by auto
  obtain store' where s: "store_outputs path nid rest outputs (AList.update (path, name) v store) = (None, store')"
    "\<forall>key. map_of store' key = (if fst key = path \<and> snd key \<in> fst ` set rest then map_of outputs (snd key)
       else map_of (AList.update (path, name) v store) key)"
    using Cons.IH[of "AList.update (path, name) v store"] Cons.prems by auto
  then show ?case using v d by (auto simp: update_conv')
qed simp

lemma outputs_typed_lookup:
  assumes "outputs_typed d outs" "distinct (map op_name (nd_outputs d))"
  shows "fst ` set outs = op_name ` set (nd_outputs d)"
    "\<And>p. p \<in> set (nd_outputs d) \<Longrightarrow> \<exists>v. map_of outs (op_name p) = Some v \<and> port_type_of v = op_type p \<and> value_ok v"
proof -
  have rel: "list_all2 (\<lambda>p (n, v). n = op_name p \<and> port_type_of v = op_type p \<and> value_ok v) (nd_outputs d) outs"
    using assms(1) by (simp add: outputs_typed_def)
  have names: "map fst outs = map op_name (nd_outputs d)"
    by (rule list_all2_map_eq[OF rel, of op_name fst, symmetric]) auto
  then show "fst ` set outs = op_name ` set (nd_outputs d)" by (metis list.set_map)
  fix p assume "p \<in> set (nd_outputs d)"
  from list_all2_in_left[OF rel this] obtain v where v: "(op_name p, v) \<in> set outs" "port_type_of v = op_type p" "value_ok v" by auto
  have "distinct (map fst outs)" using names assms(2) by simp
  then show "\<exists>v. map_of outs (op_name p) = Some v \<and> port_type_of v = op_type p \<and> value_ok v"
    using map_of_is_SomeI[OF _ v(1)] v(2,3) by simp
qed

lemma update_fresh: "k \<notin> fst ` set m \<Longrightarrow> AList.update k v m = m @ [(k, v)]"
  by (induction m) auto

lemma dict_of_distinct: "distinct (map fst kvs) \<Longrightarrow> dict_of kvs = kvs"
proof -
  have "foldl (\<lambda>m (k, v). AList.update k v m) acc kvs = acc @ kvs"
    if "distinct (map fst kvs)" "fst ` set acc \<inter> fst ` set kvs = {}" for acc
    using that by (induction kvs arbitrary: acc) (auto simp: update_fresh)
  then show "distinct (map fst kvs) \<Longrightarrow> ?thesis" by (simp add: dict_of_def)
qed

lemma declared_outputs_set:
  assumes "distinct (map op_name (nd_outputs d))"
  shows "set (declared_outputs d) = (\<lambda>p. (op_name p, op_type p)) ` set (nd_outputs d)"
  using assms dict_of_distinct[of "map (\<lambda>p. (op_name p, op_type p)) (nd_outputs d)"]
  by (simp add: declared_outputs_def comp_def)

lemma output_table_map:
  assumes "distinct (map op_name (nd_outputs d))"
  shows "map_of (output_table d) port = Some ty \<longleftrightarrow> (\<exists>p \<in> set (nd_outputs d). op_name p = port \<and> op_type p = ty)"
proof -
  have d: "distinct (map fst (map (\<lambda>p. (op_name p, op_type p)) (nd_outputs d)))" using assms by (simp add: comp_def)
  show ?thesis using map_of_eq_Some_iff[OF d, of port ty] by (auto simp: output_table_def dict_of_distinct[OF d])
qed

lemma accept_outputs_typed:
  assumes "outputs_typed d outs" "distinct (map op_name (nd_outputs d))"
  shows "\<exists>store'. accept_outputs path nid t d outs store = (None, store') \<and>
    (\<forall>p \<in> set (nd_outputs d). has_value store' path (op_name p) (op_type p)) \<and>
    (\<forall>key. fst key \<noteq> path \<longrightarrow> map_of store' key = map_of store key)"
proof -
  note look = outputs_typed_lookup[OF assms] and decl = declared_outputs_set[OF assms(2)]
  have names: "fst ` set outs = fst ` set (declared_outputs d)" unfolding look(1) decl by (simp add: image_image)
  have "\<exists>v. map_of outs name = Some v \<and> port_type_of v = ty" if "(name, ty) \<in> set (declared_outputs d)" for name ty
  proof -
    from that obtain p where "p \<in> set (nd_outputs d)" "name = op_name p" "ty = op_type p" unfolding decl by auto
    then show ?thesis using look(2) by blast
  qed
  from store_outputs_all[OF this] obtain store' where s: "store_outputs path nid (declared_outputs d) outs store = (None, store')"
    "\<forall>key. map_of store' key = (if fst key = path \<and> snd key \<in> fst ` set (declared_outputs d) then map_of outs (snd key) else map_of store key)"
    by blast
  have "has_value store' path (op_name p) (op_type p)" if p: "p \<in> set (nd_outputs d)" for p
  proof -
    have "op_name p \<in> fst ` set (declared_outputs d)" using p unfolding decl by (simp add: image_image)
    then have "map_of store' (path, op_name p) = map_of outs (op_name p)" using s(2) by simp
    then show ?thesis using look(2)[OF p] by (auto simp: has_value_def)
  qed
  then show ?thesis using s names by (auto simp: accept_outputs_def)
qed

subsection \<open>The contract of a catalog\<close>

locale sound_catalog =
  fixes catalog :: implementation_catalog
  assumes lockstep: "catalog_ok catalog"
    and nodes_safe: "map_of (ic_bindings catalog) key = Some ni \<Longrightarrow> act_safe (ni_evaluate ni iv)"
    and nodes_typed: "map_of (ic_bindings catalog) key = Some ni \<Longrightarrow> view_ok (inv_view iv) \<Longrightarrow>
      yields (outputs_typed (ni_descriptor ni)) (ni_evaluate ni iv)"
    and outputs_distinct: "map_of (ic_bindings catalog) key = Some ni \<Longrightarrow> distinct (map op_name (nd_outputs (ni_descriptor ni)))"
begin

abbreviation "registry \<equiv> descriptor_registry catalog"

lemma resolved_binding:
  assumes "node_descriptor_of registry (RegisteredNode i t v ps ui ext) = Some d"
  shows "\<exists>ni. map_of (ic_bindings catalog) (t, v) = Some ni \<and> ni_descriptor ni = d \<and>
    resolve_implementation catalog t v = resolution_ok ni"
proof -
  have "map_of (ic_descriptors catalog) (t, v) = Some d"
    using assms by (simp add: descriptor_registry_def resolve_node_def resolve_exact_value split: if_splits)
  then obtain ni where "map_of (ic_bindings catalog) (t, v) = Some ni" "ni_descriptor ni = d"
    using lockstep by (auto simp: catalog_ok_def map_of_map_snd)
  then show ?thesis by (simp add: resolve_implementation_def resolve_exact_found)
qed

text \<open>A registered node whose inputs are there either stores all its outputs or fails in its own code.\<close>

lemma run_registered_sound:
  assumes "node_descriptor_of registry (RegisteredNode i t v ps ui ext) = Some d" "view_ok dv"
    and inputs: "\<And>p. p \<in> set (nd_inputs d) \<Longrightarrow> ip_required p \<Longrightarrow> input_value ex i (ip_name p) cpath sources external \<noteq> None"
  shows "\<exists>r ex'. run_registered catalog dv i t v cpath sources params external ex = (Inr r, ex') \<and>
    (case r of None \<Rightarrow> \<forall>p \<in> set (nd_outputs d). has_value (ex_store ex') (cpath @ [i]) (op_name p) (op_type p)
      | Some diag \<Rightarrow> diag_code diag = ''node_execution_failed'') \<and>
    (\<forall>key. fst key \<noteq> cpath @ [i] \<longrightarrow> map_of (ex_store ex') key = map_of (ex_store ex) key)"
proof -
  obtain ni where ni: "map_of (ic_bindings catalog) (t, v) = Some ni" "ni_descriptor ni = d"
    "resolve_implementation catalog t v = resolution_ok ni" using resolved_binding[OF assms(1)] by blast
  obtain vs where vs: "gather_inputs (\<lambda>port. input_value ex i port cpath sources external) (cpath @ [i]) i (nd_inputs d) = Inr vs"
    using gather_inputs_total[of "nd_inputs d" "\<lambda>port. input_value ex i port cpath sources external"] inputs by blast
  let ?iv = "\<lparr>inv_node_id = i, inv_component_path = cpath, inv_params = dict_get params i [], inv_inputs = vs, inv_view = dv\<rparr>"
  obtain r rs where run: "ni_evaluate ni ?iv (ex_run ex) = (r, rs)" by (metis surj_pair)
  show ?thesis
  proof (cases r)
    case (Inl e)
    then have "run_registered catalog dv i t v cpath sources params external ex =
        (Inr (Some (execution_failed (cpath @ [i]) i t e)), ex\<lparr>ex_run := rs\<rparr>)"
      using ni vs run by (simp add: run_registered_def Let_def resolution_ok_def)
    then show ?thesis by (simp add: execution_failed_def)
  next
    case (Inr outs)
    have "outputs_typed d outs"
      using yieldsD[OF nodes_typed[OF ni(1), of ?iv] run[unfolded Inr]] assms(2) ni(2) by simp
    from accept_outputs_typed[OF this] outputs_distinct[OF ni(1)] ni(2) obtain store' where
      s: "accept_outputs (cpath @ [i]) i t d outs (ex_store ex) = (None, store')"
      "\<forall>p \<in> set (nd_outputs d). has_value store' (cpath @ [i]) (op_name p) (op_type p)"
      "\<forall>key. fst key \<noteq> cpath @ [i] \<longrightarrow> map_of store' key = map_of (ex_store ex) key" by blast
    then have "run_registered catalog dv i t v cpath sources params external ex = (Inr None, ex\<lparr>ex_run := rs, ex_store := store'\<rparr>)"
      using ni vs run Inr by (simp add: run_registered_def Let_def resolution_ok_def)
    then show ?thesis using s by simp
  qed
qed

end

text \<open>What a run of a graph establishes: it returns; on success the ports of its nodes hold
  values; otherwise a node failed; and nothing outside the graph's paths changed.\<close>

definition graph_result ::
    "registry_view \<Rightarrow> (string \<times> component_definition) list \<Rightarrow> node_instance list \<Rightarrow> node_path \<Rightarrow> string set
     \<Rightarrow> executor \<Rightarrow> runtime_diagnostic option res \<times> executor \<Rightarrow> bool" where
  "graph_result view defs ns path D ex = (\<lambda>(r, ex').
     (\<exists>failure. r = Inr failure \<and> (case failure of
        None \<Rightarrow> outputs_present view defs ns path D (ex_store ex')
      | Some diag \<Rightarrow> diag_code diag = ''node_execution_failed'')) \<and>
     unchanged_outside path D (ex_store ex) (ex_store ex'))"

lemma graph_resultE:
  assumes "graph_result view defs ns path D ex res"
  obtains failure ex' where "res = (Inr failure, ex')" "unchanged_outside path D (ex_store ex) (ex_store ex')"
    "failure = None \<Longrightarrow> outputs_present view defs ns path D (ex_store ex')"
    "\<And>diag. failure = Some diag \<Longrightarrow> diag_code diag = ''node_execution_failed''"
  using assms by (cases res) (auto simp: graph_result_def split: option.splits)

text \<open>The loop over the topological order, given what each node does.\<close>

lemma execute_in_order_sound:
  assumes ordered: "ordered_by E (us @ todo)" "distinct (us @ todo)" and present: "outputs_present view defs ns path (set us) (ex_store ex)"
    and step: "\<And>i vs ex. i \<in> set todo \<Longrightarrow> outputs_present view defs ns path (set vs) (ex_store ex) \<Longrightarrow> {u. (u, i) \<in> E} \<subseteq> set vs \<Longrightarrow>
      graph_result view defs ns path {i} ex (run i ex)"
  shows "graph_result view defs ns path (set todo) ex (execute_in_order run todo ex) \<and>
    (\<forall>ex'. execute_in_order run todo ex = (Inr None, ex') \<longrightarrow> outputs_present view defs ns path (set (us @ todo)) (ex_store ex'))"
  using assms
proof (induction todo arbitrary: us ex)
  case Nil
  then show ?case by (simp add: graph_result_def outputs_present_def)
next
  case (Cons i todo)
  have before: "{u. (u, i) \<in> E} \<subseteq> set us" using Cons.prems(1) by (auto simp: ordered_by_def)
  from Cons.prems(4)[OF _ Cons.prems(3) before] obtain failure ex1 where
    r: "run i ex = (Inr failure, ex1)" "unchanged_outside path {i} (ex_store ex) (ex_store ex1)"
    "failure = None \<Longrightarrow> outputs_present view defs ns path {i} (ex_store ex1)"
    "\<And>diag. failure = Some diag \<Longrightarrow> diag_code diag = ''node_execution_failed''" by (auto elim: graph_resultE)
  show ?case
  proof (cases failure)
    case (Some diag)
    have "unchanged_outside path (set (i # todo)) (ex_store ex) (ex_store ex1)"
      using r(2) by (auto simp: unchanged_outside_def)
    then show ?thesis using r(1,4) Some by (auto simp: graph_result_def)
  next
    case None
    have "outputs_present view defs ns path (set us) (ex_store ex1)"
      by (rule outputs_present_unchanged[OF Cons.prems(3) r(2)]) (use Cons.prems(2) in auto)
    then have p: "outputs_present view defs ns path (set (us @ [i])) (ex_store ex1)"
      using r(3)[OF None] by (auto simp: outputs_present_def)
    have IH: "graph_result view defs ns path (set todo) ex1 (execute_in_order run todo ex1) \<and>
      (\<forall>ex'. execute_in_order run todo ex1 = (Inr None, ex') \<longrightarrow> outputs_present view defs ns path (set ((us @ [i]) @ todo)) (ex_store ex'))"
      by (rule Cons.IH) (use Cons.prems p in auto)
    have eq: "execute_in_order run (i # todo) ex = execute_in_order run todo ex1" using r(1) None by simp
    obtain f2 ex2 where q: "execute_in_order run todo ex1 = (Inr f2, ex2)" "unchanged_outside path (set todo) (ex_store ex1) (ex_store ex2)"
      "\<And>diag. f2 = Some diag \<Longrightarrow> diag_code diag = ''node_execution_failed''"
      using IH by (auto elim: graph_resultE)
    have all: "f2 = None \<Longrightarrow> outputs_present view defs ns path (set (us @ i # todo)) (ex_store ex2)" using IH q(1) by auto
    have "unchanged_outside path (set (i # todo)) (ex_store ex) (ex_store ex2)"
      using unchanged_trans[OF r(2) q(2)] by simp
    then show ?thesis
      unfolding eq q(1) using all q(3) by (auto simp: graph_result_def outputs_present_def split: option.splits)
  qed
qed

subsection \<open>A component instance\<close>

lemma feed_exposed_total:
  assumes "distinct (map ep_maps_to ps)" "\<And>p. p \<in> set ps \<Longrightarrow> look (ep_name p) = Some (f p)"
  shows "\<exists>fed. feed_exposed look path nid ps acc = Inr fed \<and> (\<forall>p \<in> set ps. map_of fed (ep_maps_to p) = Some (f p)) \<and>
    (\<forall>k. k \<notin> ep_maps_to ` set ps \<longrightarrow> map_of fed k = map_of acc k)"
  using assms
proof (induction ps arbitrary: acc)
  case (Cons p ps)
  obtain fed where f: "feed_exposed look path nid ps (AList.update (ep_maps_to p) (f p) acc) = Inr fed"
    "\<forall>q \<in> set ps. map_of fed (ep_maps_to q) = Some (f q)"
    "\<forall>k. k \<notin> ep_maps_to ` set ps \<longrightarrow> map_of fed k = map_of (AList.update (ep_maps_to p) (f p) acc) k"
    using Cons.IH[of "AList.update (ep_maps_to p) (f p) acc"] Cons.prems by auto
  moreover have "map_of fed (ep_maps_to p) = Some (f p)"
    using f(3)[rule_format, of "ep_maps_to p"] Cons.prems(1) by (simp add: update_conv')
  ultimately show ?case using Cons.prems(2)[of p] by (auto simp: update_conv')
qed simp

lemma expose_outputs_total:
  assumes "distinct (map ep_name ps)"
    "\<And>p. p \<in> set ps \<Longrightarrow> has_value store (path @ [fst (ep_maps_to p)]) (snd (ep_maps_to p)) (ep_type p)"
  shows "\<exists>store'. expose_outputs path nid ps store = (None, store') \<and> (\<forall>p \<in> set ps. has_value store' path (ep_name p) (ep_type p)) \<and>
    (\<forall>key. fst key \<noteq> path \<or> snd key \<notin> ep_name ` set ps \<longrightarrow> map_of store' key = map_of store key)"
  using assms
proof (induction ps arbitrary: store)
  case (Cons p ps)
  obtain v where v: "map_of store (path @ [fst (ep_maps_to p)], snd (ep_maps_to p)) = Some v" "value_ok v"
    "is_compatible (port_type_of v) (ep_type p)" using Cons.prems(2)[of p] by (auto simp: has_value_def)
  let ?s = "AList.update (path, ep_name p) v store"
  have "has_value ?s (path @ [fst (ep_maps_to q)]) (snd (ep_maps_to q)) (ep_type q)" if "q \<in> set ps" for q
    using Cons.prems(2)[of q] that by (simp add: has_value_def update_conv')
  then obtain store' where s: "expose_outputs path nid ps ?s = (None, store')" "\<forall>q \<in> set ps. has_value store' path (ep_name q) (ep_type q)"
    "\<forall>key. fst key \<noteq> path \<or> snd key \<notin> ep_name ` set ps \<longrightarrow> map_of store' key = map_of ?s key"
    using Cons.IH[of ?s] Cons.prems(1) by auto
  have "map_of store' (path, ep_name p) = Some v" using s(3) Cons.prems(1) by (simp add: update_conv')
  then have "has_value store' path (ep_name p) (ep_type p)" using v(2,3) by (simp add: has_value_def)
  moreover have "\<forall>key. fst key \<noteq> path \<or> snd key \<notin> ep_name ` set (p # ps) \<longrightarrow> map_of store' key = map_of store key"
    using s(3) by (auto simp: update_conv')
  ultimately show ?case using s(1,2) v(1) by auto
qed simp

lemma exposed_table_map:
  assumes "distinct (map ep_name ps)"
  shows "map_of (exposed_table ps) name = Some ty \<longleftrightarrow> (\<exists>p \<in> set ps. ep_name p = name \<and> ep_type p = ty)"
proof -
  have d: "distinct (map fst (map (\<lambda>p. (ep_name p, ep_type p)) ps))" using assms by (simp add: comp_def)
  show ?thesis using map_of_eq_Some_iff[OF d, of name ty] by (auto simp: exposed_table_def dict_of_distinct[OF d])
qed

text \<open>Running an instance, given what running its graph does.\<close>

lemma run_component_sound:
  fixes d :: component_definition
  assumes inst: "map_of instances i = Some c" "ci_definition c = d" and out: "outputs_exposed view defs d"
    and inputs: "\<And>p. p \<in> set (cd_exposed_inputs d) \<Longrightarrow> \<exists>v. input_value ex i (ep_name p) cpath sources external = Some v \<and>
      value_ok v \<and> is_compatible (port_type_of v) (ep_type p)"
    and graph: "\<And>fed. feeds_ok fed (exposed_feeds d) \<Longrightarrow>
      graph_result view defs (graph_nodes (cd_graph d)) (cpath @ [i]) (node_id ` set (graph_nodes (cd_graph d))) ex
        (execute (graph_nodes (cd_graph d)) (graph_edges (cd_graph d)) (cpath @ [i]) (ci_effective_params c) (ci_children c) fed ex)"
    and inner: "\<And>pt ty. output_type view defs (graph_nodes (cd_graph d)) pt = Some ty \<Longrightarrow> fst pt \<in> node_id ` set (graph_nodes (cd_graph d))"
  shows "\<exists>r ex'. run_component execute i cpath sources instances external ex = (Inr r, ex') \<and>
    (case r of None \<Rightarrow> \<forall>p \<in> set (cd_exposed_outputs d). has_value (ex_store ex') (cpath @ [i]) (ep_name p) (ep_type p)
      | Some diag \<Rightarrow> diag_code diag = ''node_execution_failed'') \<and>
    unchanged_outside cpath {i} (ex_store ex) (ex_store ex')"
proof -
  let ?ns = "graph_nodes (cd_graph d)" and ?path = "cpath @ [i]"
  let ?look = "\<lambda>port. input_value ex i port cpath sources external"
  from inputs obtain f where f: "\<And>p. p \<in> set (cd_exposed_inputs d) \<Longrightarrow> ?look (ep_name p) = Some (f p) \<and> value_ok (f p) \<and>
      is_compatible (port_type_of (f p)) (ep_type p)" by metis
  have maps: "distinct (map ep_maps_to (cd_exposed_inputs d))" "distinct (map ep_name (cd_exposed_outputs d))"
    using out by (simp_all add: outputs_exposed_def)
  obtain fed where fed: "feed_exposed ?look ?path i (cd_exposed_inputs d) [] = Inr fed"
    "\<forall>p \<in> set (cd_exposed_inputs d). map_of fed (ep_maps_to p) = Some (f p)"
    using feed_exposed_total[OF maps(1), of ?look f ?path i "[]"] f by auto
  have "feeds_ok fed (exposed_feeds d)" using fed(2) f by (auto simp: feeds_ok_def exposed_feeds_def)
  from graph[OF this] obtain failure ex1 where
    run: "execute ?ns (graph_edges (cd_graph d)) ?path (ci_effective_params c) (ci_children c) fed ex = (Inr failure, ex1)"
    and un: "unchanged_outside ?path (node_id ` set ?ns) (ex_store ex) (ex_store ex1)"
    and ok: "failure = None \<Longrightarrow> outputs_present view defs ?ns ?path (node_id ` set ?ns) (ex_store ex1)"
    and bad: "\<And>diag. failure = Some diag \<Longrightarrow> diag_code diag = ''node_execution_failed''"
    by (auto elim: graph_resultE)
  have un1: "unchanged_outside cpath {i} (ex_store ex) (ex_store ex1)" using un by (auto simp: unchanged_outside_def)
  show ?thesis
  proof (cases failure)
    case (Some diag)
    then have "run_component execute i cpath sources instances external ex = (Inr (Some diag), ex1)"
      using inst fed(1) run by (simp add: run_component_def Let_def)
    then show ?thesis using bad[OF Some] un1 by simp
  next
    case None
    have "has_value (ex_store ex1) (?path @ [fst (ep_maps_to p)]) (snd (ep_maps_to p)) (ep_type p)" if p: "p \<in> set (cd_exposed_outputs d)" for p
    proof -
      obtain s where s: "output_type view defs ?ns (ep_maps_to p) = Some s" "is_compatible s (ep_type p)"
        using out p unfolding outputs_exposed_def by blast
      then have "has_value (ex_store ex1) (?path @ [fst (ep_maps_to p)]) (snd (ep_maps_to p)) s"
        using ok[OF None] inner[OF s(1)] unfolding outputs_present_def by (metis prod.collapse)
      then show ?thesis using s(2) is_compatible_trans unfolding has_value_def by blast
    qed
    from expose_outputs_total[OF maps(2) this] obtain store' where
      s: "expose_outputs ?path i (cd_exposed_outputs d) (ex_store ex1) = (None, store')"
      "\<forall>p \<in> set (cd_exposed_outputs d). has_value store' ?path (ep_name p) (ep_type p)"
      "\<forall>key. fst key \<noteq> ?path \<or> snd key \<notin> ep_name ` set (cd_exposed_outputs d) \<longrightarrow> map_of store' key = map_of (ex_store ex1) key" by blast
    have "run_component execute i cpath sources instances external ex = (Inr None, ex1\<lparr>ex_store := store'\<rparr>)"
      using inst fed(1) run None s(1) by (simp add: run_component_def Let_def)
    moreover have "unchanged_outside cpath {i} (ex_store ex) store'" using un1 s(3) by (auto simp: unchanged_outside_def)
    ultimately show ?thesis using s(2) by simp
  qed
qed

lemma output_type_known:
  "output_type view defs ns pt = Some ty \<Longrightarrow> fst pt \<in> node_id ` set ns"
proof -
  have "map_of (pt_outputs (foldl (\<lambda>tables n. add_node_tables view defs n tables) t ns)) k = map_of (pt_outputs t) k"
    if "k \<notin> node_id ` set ns" for k t
    using that by (induction ns arbitrary: t) (auto simp: add_node_tables_map)
  then show "output_type view defs ns pt = Some ty \<Longrightarrow> ?thesis"
    by (fastforce simp: output_type_def port_of_def build_port_tables_def split: option.splits)
qed

subsection \<open>The whole graph\<close>

context sound_catalog
begin

lemma run_node_registered:
  assumes "graph_wired registry defs ns es fed" "feeds_ok external fed" "view_ok dv" "n \<in> set ns" "n = RegisteredNode i t v ps ui ext"
    "outputs_present registry defs ns cpath D (ex_store ex)" "{u. (u, i) \<in> edge_relation es} \<subseteq> D"
  shows "graph_result registry defs ns cpath {i} ex
    (run_registered catalog dv i t v cpath (edge_sources es) params external ex)"
proof -
  have ids: "distinct (map node_id ns)" using assms(1) by (simp add: graph_wired_def)
  obtain d where d: "node_descriptor_of registry (RegisteredNode i t v ps ui ext) = Some d"
    using graph_wired_node(1)[OF assms(1,4)] assms(5) by (auto simp del: node_descriptor_of.simps)
  have inputs: "input_value ex i (ip_name p) cpath (edge_sources es) external \<noteq> None"
    if "p \<in> set (nd_inputs d)" "ip_required p" for p
  proof -
    have "ip_name p \<in> required_ports registry defs n" using d that assms(5) by (auto simp del: node_descriptor_of.simps)
    then have "(i, ip_name p) \<in> edge_to ` set es \<union> fst ` fed"
      using graph_wired_node(2)[OF assms(1,4)] assms(5) by simp
    from input_available[OF assms(1,2,6,7) this] show ?thesis by auto
  qed
  obtain r ex' where r: "run_registered catalog dv i t v cpath (edge_sources es) params external ex = (Inr r, ex')"
    "case r of None \<Rightarrow> \<forall>p \<in> set (nd_outputs d). has_value (ex_store ex') (cpath @ [i]) (op_name p) (op_type p)
      | Some diag \<Rightarrow> diag_code diag = ''node_execution_failed''"
    "\<forall>key. fst key \<noteq> cpath @ [i] \<longrightarrow> map_of (ex_store ex') key = map_of (ex_store ex) key"
    using run_registered_sound[OF d assms(3) inputs] by blast
  have dist: "distinct (map op_name (nd_outputs d))" using resolved_binding[OF d] outputs_distinct by metis
  have "outputs_present registry defs ns cpath {i} (ex_store ex')" if "r = None"
    using r(2) that d assms(5) output_type_node(1)[OF ids assms(4), of registry defs]
    by (auto simp: outputs_present_def output_table_map[OF dist] simp del: node_descriptor_of.simps)
  moreover have "unchanged_outside cpath {i} (ex_store ex) (ex_store ex')" using r(3) by (auto simp: unchanged_outside_def)
  ultimately show ?thesis using r(1,2) by (cases r) (simp_all add: graph_result_def)
qed

lemma run_node_component:
  assumes "graph_wired registry defs ns es fed" "feeds_ok external fed" "n \<in> set ns" "n = ComponentRefNode i rf ps ui ext"
    "outputs_present registry defs ns cpath D (ex_store ex)" "{u. (u, i) \<in> edge_relation es} \<subseteq> D"
    and c: "map_of instances i = Some c" "map_of defs i = Some (ci_definition c)"
    and out: "outputs_exposed registry defs' (ci_definition c)"
    and graph: "\<And>fed'. feeds_ok fed' (exposed_feeds (ci_definition c)) \<Longrightarrow>
      graph_result registry defs' (graph_nodes (cd_graph (ci_definition c))) (cpath @ [i])
        (node_id ` set (graph_nodes (cd_graph (ci_definition c)))) ex
        (execute (graph_nodes (cd_graph (ci_definition c))) (graph_edges (cd_graph (ci_definition c))) (cpath @ [i])
          (ci_effective_params c) (ci_children c) fed' ex)"
  shows "graph_result registry defs ns cpath {i} ex (run_component execute i cpath (edge_sources es) instances external ex)"
proof -
  let ?d = "ci_definition c"
  have ids: "distinct (map node_id ns)" using assms(1) by (simp add: graph_wired_def)
  have dist: "distinct (map ep_name (cd_exposed_inputs ?d))" "distinct (map ep_name (cd_exposed_outputs ?d))"
    using out by (simp_all add: outputs_exposed_def)
  have inputs: "\<exists>v. input_value ex i (ep_name p) cpath (edge_sources es) external = Some v \<and> value_ok v \<and> is_compatible (port_type_of v) (ep_type p)"
    if p: "p \<in> set (cd_exposed_inputs ?d)" for p
  proof -
    have "ep_name p \<in> required_ports registry defs n" using c(2) p assms(4) by simp
    then have "(i, ep_name p) \<in> edge_to ` set es \<union> fst ` fed"
      using graph_wired_node(2)[OF assms(1,3)] assms(4) by simp
    from input_available[OF assms(1,2,5,6) this] obtain v t where
      v: "input_value ex i (ep_name p) cpath (edge_sources es) external = Some v" "value_ok v"
      "input_type registry defs ns (i, ep_name p) = Some t" "is_compatible (port_type_of v) t" by blast
    have "map_of (exposed_table (cd_exposed_inputs ?d)) (ep_name p) = Some (ep_type p)"
      using p unfolding exposed_table_map[OF dist(1)] by blast
    then have "t = ep_type p" using v(3) output_type_node(2)[OF ids assms(3), of registry defs "ep_name p"] c(2) assms(4) by simp
    then show ?thesis using v by blast
  qed
  have comp: "\<exists>r ex'. run_component execute i cpath (edge_sources es) instances external ex = (Inr r, ex') \<and>
      (case r of None \<Rightarrow> \<forall>p \<in> set (cd_exposed_outputs ?d). has_value (ex_store ex') (cpath @ [i]) (ep_name p) (ep_type p)
        | Some diag \<Rightarrow> diag_code diag = ''node_execution_failed'') \<and>
      unchanged_outside cpath {i} (ex_store ex) (ex_store ex')"
  proof (rule run_component_sound[OF c(1) refl out])
    fix p assume "p \<in> set (cd_exposed_inputs ?d)"
    then show "\<exists>v. input_value ex i (ep_name p) cpath (edge_sources es) external = Some v \<and> value_ok v \<and>
      is_compatible (port_type_of v) (ep_type p)" by (rule inputs)
  qed (rule graph, assumption, rule output_type_known)
  then obtain r ex' where r: "run_component execute i cpath (edge_sources es) instances external ex = (Inr r, ex')"
    "case r of None \<Rightarrow> \<forall>p \<in> set (cd_exposed_outputs ?d). has_value (ex_store ex') (cpath @ [i]) (ep_name p) (ep_type p)
      | Some diag \<Rightarrow> diag_code diag = ''node_execution_failed''"
    "unchanged_outside cpath {i} (ex_store ex) (ex_store ex')"
    by blast
  have "outputs_present registry defs ns cpath {i} (ex_store ex')" if "r = None"
    using r(2) that c(2) assms(4) output_type_node(1)[OF ids assms(3), of registry defs]
    by (auto simp: outputs_present_def exposed_table_map[OF dist(2)])
  then show ?thesis using r by (cases r) (simp_all add: graph_result_def)
qed

lemma graph_order:
  assumes "graph_wired view defs ns es fed"
  shows "\<exists>order. topological_order ns es = Inr order \<and> set order = node_id ` set ns \<and> distinct order \<and> ordered_by (edge_relation es) order"
proof -
  have e: "set (edge_pairs es) = edge_relation es" by (simp add: edge_pairs_def edge_relation_def)
  have g: "distinct (map node_id ns)" "set (edge_pairs es) \<subseteq> set (map node_id ns) \<times> set (map node_id ns)" "acyclic (set (edge_pairs es))"
    using assms unfolding graph_wired_def e by simp_all
  from order_ids_acyclic[OF g(1,2)] g(3) obtain order where o: "order_ids (map node_id ns) (edge_pairs es) = Inr order" by blast
  then show ?thesis using order_ids_Inr(4-6)[OF o] by (auto simp: topological_order_def e)
qed

lemma nodes_by_id_node: "distinct (map node_id ns) \<Longrightarrow> n \<in> set ns \<Longrightarrow> map_of (nodes_by_id ns) (node_id n) = Some n"
  by (simp add: nodes_by_id_def map_of_dict_of_distinct comp_def)

theorem execute_graph_sound:
  assumes "graph_wired registry defs ns es fed" "components_wired registry defs ns instances" "feeds_ok external fed" "view_ok dv"
    "instances_depth instances < fuel"
  shows "graph_result registry defs ns cpath (node_id ` set ns) ex
    (execute_graph fuel catalog dv ns es cpath params instances external ex)"
  using assms
proof (induction fuel arbitrary: defs ns es fed cpath params instances external ex)
  case (Suc fuel)
  obtain order where o: "topological_order ns es = Inr order" "set order = node_id ` set ns" "distinct order"
    "ordered_by (edge_relation es) order" using graph_order[OF Suc.prems(1)] by blast
  have ids: "distinct (map node_id ns)" using Suc.prems(1) by (simp add: graph_wired_def)
  let ?run = "run_node (execute_graph fuel catalog dv) catalog dv ns es cpath params instances external"
  have "graph_result registry defs ns cpath {i} ex (?run i ex)"
    if i: "i \<in> set order" and p: "outputs_present registry defs ns cpath (set vs) (ex_store ex)" "{u. (u, i) \<in> edge_relation es} \<subseteq> set vs"
    for i vs ex
  proof -
    obtain n where n: "n \<in> set ns" "i = node_id n" using i o(2) by auto
    note node = nodes_by_id_node[OF ids n(1)]
    show ?thesis
    proof (cases n)
      case (RegisteredNode j t v ps ui ext)
      then show ?thesis
        using run_node_registered[OF Suc.prems(1,3,4) n(1) RegisteredNode] p n(2) node by (simp add: run_node_def)
    next
      case (ComponentRefNode j rf ps ui ext)
      obtain c where c: "map_of instances j = Some c" "map_of defs j = Some (ci_definition c)" "instance_wired registry c"
        using Suc.prems(2) n(1) ComponentRefNode unfolding components_wired_def by blast
      from c(3) obtain defs' where w: "graph_wired registry defs' (graph_nodes (cd_graph (ci_definition c))) (graph_edges (cd_graph (ci_definition c)))
          (exposed_feeds (ci_definition c))" "outputs_exposed registry defs' (ci_definition c)"
        "components_wired registry defs' (graph_nodes (cd_graph (ci_definition c))) (ci_children c)"
        by (rule instance_wiredE) (unfold components_wired_def, blast)
      have "instance_depth c \<le> instances_depth instances" using c(1) instances_depth_child map_of_SomeD by metis
      moreover have "instance_depth c = Suc (instances_depth (ci_children c))" by (cases c) (simp add: instances_depth_def)
      ultimately have "instances_depth (ci_children c) < fuel" using Suc.prems(5) by simp
      then have "graph_result registry defs ns cpath {j} ex
          (run_component (execute_graph fuel catalog dv) j cpath (edge_sources es) instances external ex)"
        using run_node_component[OF Suc.prems(1,3) n(1) ComponentRefNode _ _ c(1,2) w(2)] p n(2) ComponentRefNode
          Suc.IH[OF w(1,3) _ Suc.prems(4)] by simp
      then show ?thesis using node n(2) ComponentRefNode by (simp add: run_node_def)
    qed
  qed
  from execute_in_order_sound[of "edge_relation es" "[]" order, OF _ _ _ this] o
  have "graph_result registry defs ns cpath (set order) ex (execute_in_order ?run order ex)"
    by (simp add: outputs_present_def)
  then show ?case using o(1,2) by simp
qed simp

end

end
