(* ===== verification/Execution.thy ===== *)
theory Execution
  imports Soundness
begin

section \<open>Evaluations that cannot go wrong by construction\<close>

text \<open>
  The executor's promises lifted to \<open>evaluate_strategy\<close>: over a sound catalog whose terminal node
  takes one portfolio, a document that passes the pre-flight either yields its targets or the
  failure of one node. The core catalog meets the contract. The recorder keeps its invariant
  through every run.
\<close>

subsection \<open>The recorder through a run\<close>

definition keeps_recorder :: "execution \<Rightarrow> bool" where
  "keeps_recorder m \<longleftrightarrow> (\<forall>ex r ex'. m ex = (r, ex') \<longrightarrow> node_recorder_ok (run_recorder (ex_run ex)) \<longrightarrow>
     node_recorder_ok (run_recorder (ex_run ex')) \<and> same_recorder (run_recorder (ex_run ex)) (run_recorder (ex_run ex')))"

lemma execute_in_order_keeps:
  assumes "\<And>i. keeps_recorder (run i)"
  shows "keeps_recorder (execute_in_order run is)"
proof (induction "is")
  case (Cons i "is")
  show ?case unfolding keeps_recorder_def
  proof (intro allI impI)
    fix ex r ex' assume run: "execute_in_order run (i # is) ex = (r, ex')" and ok: "node_recorder_ok (run_recorder (ex_run ex))"
    obtain r1 ex1 where one: "run i ex = (r1, ex1)" by (metis surj_pair)
    have k1: "node_recorder_ok (run_recorder (ex_run ex1))" "same_recorder (run_recorder (ex_run ex)) (run_recorder (ex_run ex1))"
      using assms[of i] one ok unfolding keeps_recorder_def by blast+
    show "node_recorder_ok (run_recorder (ex_run ex')) \<and> same_recorder (run_recorder (ex_run ex)) (run_recorder (ex_run ex'))"
    proof (cases "r1 = Inr None")
      case True
      then have "execute_in_order run is ex1 = (r, ex')" using run one by simp
      then show ?thesis using Cons k1 same_recorder_trans unfolding keeps_recorder_def by blast
    next
      case False
      then have "ex' = ex1" using run one by (auto split: sum.splits option.splits)
      then show ?thesis using k1 by simp
    qed
  qed
qed (simp add: keeps_recorder_def)

lemma run_registered_keeps:
  assumes "\<And>key ni iv. map_of (ic_bindings catalog) key = Some ni \<Longrightarrow> act_safe (ni_evaluate ni iv)"
  shows "keeps_recorder (run_registered catalog view nid t v cpath sources params external)"
proof -
  have "act_safe (ni_evaluate ni iv)" if "rs_found (resolve_implementation catalog t v) = Some ni" for ni iv
  proof -
    have "map_of (ic_bindings catalog) (t, v) = Some ni"
      using that by (simp add: resolve_implementation_def resolve_exact_value split: if_splits)
    then show ?thesis by (rule assms)
  qed
  note safe = this
  show ?thesis
  proof (cases "rs_status (resolve_implementation catalog t v) = ResolvedOk \<and> rs_found (resolve_implementation catalog t v) \<noteq> None")
    case True
    then obtain ni where ni: "rs_status (resolve_implementation catalog t v) = ResolvedOk"
      "rs_found (resolve_implementation catalog t v) = Some ni" by blast
    show ?thesis unfolding keeps_recorder_def
      by (simp add: run_registered_def Let_def ni split: prod.split sum.split) (blast dest: act_safeD[OF safe[OF ni(2)]])
  next
    case False
    then show ?thesis unfolding keeps_recorder_def
      by (auto simp: run_registered_def Let_def split: resolution_status.splits option.splits)
  qed
qed

lemma run_component_keeps:
  assumes "\<And>ns es path params instances fed. keeps_recorder (execute ns es path params instances fed)"
  shows "keeps_recorder (run_component execute nid cpath sources instances external)"
  using assms unfolding keeps_recorder_def run_component_def Let_def
  by (auto split: prod.splits sum.splits option.splits; blast)

lemma execute_graph_keeps:
  assumes "\<And>key ni iv. map_of (ic_bindings catalog) key = Some ni \<Longrightarrow> act_safe (ni_evaluate ni iv)"
  shows "keeps_recorder (execute_graph fuel catalog view ns es cpath params instances external)"
proof (induction fuel arbitrary: ns es cpath params instances external)
  case (Suc fuel)
  have node: "keeps_recorder (run_node (execute_graph fuel catalog view) catalog view ns es cpath params instances external i)" for i
  proof (cases "map_of (nodes_by_id ns) i")
    case None
    then show ?thesis by (simp add: keeps_recorder_def run_node_def)
  next
    case (Some n)
    then show ?thesis
      using run_registered_keeps[OF assms] run_component_keeps[OF Suc.IH]
      by (cases n) (simp_all add: keeps_recorder_def run_node_def)
  qed
  from execute_in_order_keeps[OF node] show ?case
    by (cases "topological_order ns es") (simp_all add: keeps_recorder_def)
qed (simp add: keeps_recorder_def)

subsection \<open>The contract with its terminal\<close>

text \<open>A run of a wired document: the targets, or the failure of one node.\<close>

definition run_verdict :: "evaluation_outcome \<Rightarrow> bool" where
  "run_verdict out \<longleftrightarrow>
     (if ev_ok out then ev_diagnostics out = [] \<and> ev_targets out \<noteq> None
      else ev_targets out = None \<and> (\<exists>diag. ev_diagnostics out = [diag] \<and> diag_code diag = ''node_execution_failed''))"

locale terminal_catalog = sound_catalog +
  assumes terminal_input: "map_of (ic_bindings catalog) (terminal_type_id, v) = Some ni \<Longrightarrow>
    \<exists>p. nd_inputs (ni_descriptor ni) = [p] \<and> ip_type p = PortfolioTargetsType \<and> ip_required p"
begin

lemma portfolio_value: "is_compatible (port_type_of v) PortfolioTargetsType \<longleftrightarrow> (\<exists>ws. v = TargetsV ws)"
  by (cases v) (auto simp: is_compatible_iff)

lemma terminal_delivered:
  assumes "graph_wired registry defs (sd_nodes doc) (sd_edges doc) {}"
    and out: "outputs_present registry defs (sd_nodes doc) [] (node_id ` set (sd_nodes doc)) store"
    and one: "length (terminal_nodes doc) = 1"
  shows "\<exists>nid ws. terminal_targets doc catalog store = Inr (nid, Some ws)"
proof -
  obtain n where n: "terminal_nodes doc = [n]" using one by (cases "terminal_nodes doc") auto
  then have "n \<in> set (filter is_terminal (sd_nodes doc))" by (simp add: terminal_nodes_def)
  then have mem: "n \<in> set (sd_nodes doc)" "is_terminal n" by simp_all
  obtain i v ps ui ext where node: "n = RegisteredNode i terminal_type_id v ps ui ext"
    using mem(2) by (cases n) simp_all
  obtain d where d: "node_descriptor_of registry (RegisteredNode i terminal_type_id v ps ui ext) = Some d"
    using graph_wired_node(1)[OF assms(1) mem(1)] node by (auto simp del: node_descriptor_of.simps)
  obtain ni where ni: "map_of (ic_bindings catalog) (terminal_type_id, v) = Some ni" "ni_descriptor ni = d"
    "resolve_implementation catalog terminal_type_id v = resolution_ok ni" using resolved_binding[OF d] by blast
  obtain p where p: "nd_inputs d = [p]" "ip_type p = PortfolioTargetsType" "ip_required p"
    using terminal_input[OF ni(1)] ni(2) by blast
  have "ip_name p \<in> required_ports registry defs n" using d p node by (simp del: node_descriptor_of.simps)
  then obtain e where e: "e \<in> set (sd_edges doc)" "edge_to e = (i, ip_name p)" "map_of (edge_sources (sd_edges doc)) (i, ip_name p) = Some (edge_from e)"
    using graph_wired_node(2)[OF assms(1) mem(1)] edge_sources_cases[of "sd_edges doc" "(i, ip_name p)"] node by auto
  obtain s t where st: "output_type registry defs (sd_nodes doc) (edge_from e) = Some s"
    "input_type registry defs (sd_nodes doc) (edge_to e) = Some t" "is_compatible s t" using graph_wired_edge[OF assms(1) e(1)] by blast
  have ids: "distinct (map node_id (sd_nodes doc))" using assms(1) by (simp add: graph_wired_def)
  have "t = PortfolioTargetsType"
    using st(2) output_type_node(2)[OF ids mem(1), of registry defs "ip_name p"] d p e(2) node
    by (simp add: input_table_def dict_of_def del: node_descriptor_of.simps)
  moreover have "has_value store [fst (edge_from e)] (snd (edge_from e)) s"
    using out st(1) output_type_known[OF st(1)] unfolding outputs_present_def by (metis append_Nil prod.collapse)
  ultimately obtain ws where "map_of store ([fst (edge_from e)], snd (edge_from e)) = Some (TargetsV ws)"
    using st(3) is_compatible_trans portfolio_value unfolding has_value_def by metis
  then have "delivered_targets d i (sd_edges doc) store = Some ws"
    using e(3) p(1) by (cases "edge_from e") (simp add: delivered_targets_def)
  then show ?thesis using n node ni by (simp add: terminal_targets_def resolution_ok_def)
qed

lemma run_concludes:
  assumes "component_catalog_ok comps" "view_consistent registry" "view_ok dv"
    "run_document_preflight lib doc registry (Some comps) = Inr p" "preflight_ok p"
  shows "\<exists>out. conclude run t doc catalog (execute_document catalog dv doc (pf_resolution p) ex) = Inr out \<and> run_verdict out"
proof -
  let ?r = "execute_document catalog dv doc (pf_resolution p) ex"
  note wired = preflight_wired[OF assms(1,2,4,5)]
  have facts: "length (terminal_nodes doc) = 1" using preflight_ok_facts[OF assms(1,2,4,5)] by (simp add: preflight_facts_def)
  have "graph_result registry (instance_definitions (rst_instances (pf_resolution p))) (sd_nodes doc) [] (node_id ` set (sd_nodes doc)) ex ?r"
    unfolding execute_document_def
    by (rule execute_graph_sound[OF wired _ assms(3)]) (simp_all add: feeds_ok_def execution_fuel_def)
  then obtain failure ex' where r: "?r = (Inr failure, ex')"
    "failure = None \<Longrightarrow> outputs_present registry (instance_definitions (rst_instances (pf_resolution p))) (sd_nodes doc) [] (node_id ` set (sd_nodes doc)) (ex_store ex')"
    "\<And>diag. failure = Some diag \<Longrightarrow> diag_code diag = ''node_execution_failed''" by (auto elim: graph_resultE)
  show ?thesis
  proof (cases failure)
    case None
    obtain nid ws where "terminal_targets doc catalog (ex_store ex') = Inr (nid, Some ws)"
      using terminal_delivered[OF wired(1) r(2)[OF None] facts] by blast
    then show ?thesis using r(1) None by (simp add: conclude_def run_verdict_def Let_def)
  qed (use r in \<open>simp add: conclude_def run_verdict_def Let_def\<close>)
qed

theorem evaluate_at_verdict:
  assumes "component_catalog_ok comps" "ds_ok ds" "run_document_preflight lib doc registry (Some comps) = Inr p"
    "\<And>m. memo = Some m \<Longrightarrow> (\<exists>m'. assert_monotonic t m = (Inr (), m'))"
  shows "\<exists>out memo'. evaluate_at lib doc catalog ds run t (Some comps) collect memo = (Inr out, memo') \<and>
    (run_verdict out \<or> \<not> ev_ok out \<and> ev_targets out = None \<and> ev_diagnostics out \<noteq> [] \<and>
       ev_diagnostics out = sort_runtime_diagnostics (preflight_diagnostics p (as_of_utc ds t)))"
proof -
  let ?view = "as_of_utc ds t"
  obtain m' where memo: "(case memo of None \<Rightarrow> (Inr (), None) | Some m \<Rightarrow> map_prod id Some (assert_monotonic t m)) = (Inr (), m')"
    using assms(4) by (cases memo) auto
  show ?thesis
  proof (cases "preflight_diagnostics p ?view = []")
    case False
    then have "sort_runtime_diagnostics (preflight_diagnostics p ?view) \<noteq> []"
      unfolding sort_runtime_diagnostics_def by (metis set_empty set_sort)
    then show ?thesis using False memo assms(3) by (simp add: evaluate_at_def Let_def)
  next
    case True
    then have ok: "preflight_ok p" by (simp add: preflight_diagnostics_def preflight_ok_def)
    have "view_ok ?view" using assms(2) by (auto simp: view_ok_def)
    from run_concludes[OF assms(1) descriptor_registry_consistent this assms(3) ok] show ?thesis
      using memo assms(3) True by (simp add: evaluate_at_def Let_def) blast
  qed
qed

end

text \<open>The trace of an evaluation, whatever its outcome.\<close>

lemma conclude_trace: "conclude run t doc catalog done = Inr out \<Longrightarrow>
    ev_trace out = rec_events (run_recorder (ex_run (snd done))) \<and> ev_run_id out = run \<and> ev_instant out = t"
proof -
  assume c: "conclude run t doc catalog done = Inr out"
  obtain r ex where d: "done = (r, ex)" by (metis surj_pair)
  obtain failure where f: "r = Inr failure" using c d by (cases r) (simp_all add: conclude_def)
  show ?thesis
  proof (cases failure)
    case None
    then obtain nid ts where "terminal_targets doc catalog (ex_store ex) = Inr (nid, ts)"
      using c d f by (cases "terminal_targets doc catalog (ex_store ex)") (auto simp: conclude_def)
    then show ?thesis using c d f None by (cases ts) (auto simp: conclude_def Let_def)
  next
    case (Some diag)
    then show ?thesis using c d f by (auto simp: conclude_def Let_def)
  qed
qed

lemma evaluate_at_trace:
  assumes "\<And>key ni iv. map_of (ic_bindings catalog) key = Some ni \<Longrightarrow> act_safe (ni_evaluate ni iv)"
    and run: "evaluate_at lib doc catalog ds run t comps collect memo = (Inr out, memo')"
  shows "ev_run_id out = run \<and> ev_instant out = t \<and> (\<not> collect \<longrightarrow> ev_trace out = []) \<and>
    (\<forall>e \<in> set (ev_trace out). event_ok e \<and> te_run_id e = run \<and> te_timestamp e = t \<and> \<not> starts_with (te_event_type e) engine_event_prefix)"
proof -
  have body: ?thesis if c: "conclude run t doc catalog (execute_document catalog (as_of_utc ds t) doc res
      \<lparr>ex_run = \<lparr>run_recorder = new_recorder run t collect, run_memo = m\<rparr>, ex_store = []\<rparr>) = Inr out" for res m
  proof -
    let ?ex = "\<lparr>ex_run = \<lparr>run_recorder = new_recorder run t collect, run_memo = m\<rparr>, ex_store = []\<rparr>"
    obtain r ex' where e: "execute_document catalog (as_of_utc ds t) doc res ?ex = (r, ex')" by (metis surj_pair)
    have k: "keeps_recorder (execute_document catalog (as_of_utc ds t) doc res)"
      unfolding execute_document_def by (rule execute_graph_keeps[OF assms(1)])
    have "node_recorder_ok (new_recorder run t collect)" by (rule new_recorder_ok)
    then have "node_recorder_ok (run_recorder (ex_run ex'))" "same_recorder (new_recorder run t collect) (run_recorder (ex_run ex'))"
      using k e unfolding keeps_recorder_def by force+
    then show ?thesis
      using conclude_trace[OF c] e by (auto simp: node_recorder_ok_def recorder_ok_def same_recorder_def new_recorder_def)
  qed
  show ?thesis
  proof (cases "case memo of None \<Rightarrow> (Inr (), None) | Some m \<Rightarrow> map_prod id Some (assert_monotonic t m)")
    case (Pair r m)
    then obtain p where p: "r = Inr ()" "run_document_preflight lib doc (descriptor_registry catalog) comps = Inr p"
      using run by (cases r; cases "run_document_preflight lib doc (descriptor_registry catalog) comps") (simp_all add: evaluate_at_def)
    show ?thesis
    proof (cases "preflight_diagnostics p (as_of_utc ds t) = []")
      case True
      then have "conclude run t doc catalog (execute_document catalog (as_of_utc ds t) doc (pf_resolution p)
          \<lparr>ex_run = \<lparr>run_recorder = new_recorder run t collect, run_memo = m\<rparr>, ex_store = []\<rparr>) = Inr out"
        using run Pair p by (simp add: evaluate_at_def Let_def)
      then show ?thesis by (rule body)
    next
      case False
      then show ?thesis using run Pair p by (auto simp: evaluate_at_def Let_def)
    qed
  qed
qed

subsection \<open>The core catalog\<close>

lemma core_binding: "map_of (ic_bindings core_catalog) key = Some ni \<Longrightarrow> ni \<in> set core_node_implementations \<and> key = descriptor_key (ni_descriptor ni)"
  by (auto simp: core_catalog_def build_core_catalog_eq dest!: map_of_SomeD)

lemma core_outputs_distinct:
  "ni \<in> set core_node_implementations \<Longrightarrow> distinct (map op_name (nd_outputs (ni_descriptor ni)))"
  by (auto simp: core_node_implementations_def core_node_defs core_descriptor_def)

interpretation core: terminal_catalog core_catalog
proof unfold_locales
  fix key v ni and iv :: node_invocation
  show "catalog_ok core_catalog" by (rule core_catalog_ok(2))
  show "act_safe (ni_evaluate ni iv)" if "map_of (ic_bindings core_catalog) key = Some ni"
    using core_binding[OF that] core_node_safe by blast
  show "yields (outputs_typed (ni_descriptor ni)) (ni_evaluate ni iv)"
    if "map_of (ic_bindings core_catalog) key = Some ni" "view_ok (inv_view iv)"
    using core_binding[OF that(1)] core_node_typed[OF _ that(2)] by blast
  show "distinct (map op_name (nd_outputs (ni_descriptor ni)))" if "map_of (ic_bindings core_catalog) key = Some ni"
    using core_binding[OF that] core_outputs_distinct by blast
  show "\<exists>p. nd_inputs (ni_descriptor ni) = [p] \<and> ip_type p = PortfolioTargetsType \<and> ip_required p"
    if "map_of (ic_bindings core_catalog) (terminal_type_id, v) = Some ni"
    using core_binding[OF that] by (auto simp: core_node_implementations_def core_node_defs core_descriptor_def
      terminal_type_id_def descriptor_key_def in_port_def)
qed

end
