(* ===== verification/FixtureStrategy.thy ===== *)
theory FixtureStrategy
  imports Fixtures Forward Execution
begin

section \<open>A small strategy\<close>

text \<open>
  A strategy over the market of the fixtures: a fixed universe of two assets, weighted equally,
  into the terminal. A schema library that accepts everything stands for the third-party one,
  and the component catalog is empty.
\<close>

definition fx_lib :: schema_lib where
  "fx_lib = \<lparr>lib_check_schema = \<lambda>_. None, lib_iter_errors = \<lambda>_ _. []\<rparr>"

definition fx_provenance :: "'f provenance" where
  "fx_provenance = \<lparr>prov_owner = ''u'', prov_creator = ''u'', prov_contributors = [], prov_forked_from = None,
     prov_visibility = PrivateV, prov_duplicable = False, prov_created_at = 0\<rparr>"

definition fx_node :: "string \<Rightarrow> string \<Rightarrow> json_object \<Rightarrow> node_instance" where
  "fx_node i t ps = RegisteredNode i t ''1.0.0'' ps None None"

definition fx_universe :: node_instance where
  "fx_universe = fx_node ''universe'' ''universe.fixed_list'' [(''tickers'', JList [JStr ''B'', JStr ''A''])]"

definition fx_edge :: "string \<Rightarrow> string \<Rightarrow> string \<Rightarrow> string \<Rightarrow> edge" where
  "fx_edge i p j q = \<lparr>edge_from = (i, p), edge_to = (j, q)\<rparr>"

definition fx_document :: "node_instance list \<Rightarrow> edge list \<Rightarrow> strategy_document" where
  "fx_document ns es = \<lparr>sd_schema_version = ''0.1.0'', sd_id = ''s'', sd_version = 1, sd_name = ''Equal'', sd_description = None,
     sd_provenance = fx_provenance, sd_bps = Fin 10, sd_schedule = ScheduleDaily, sd_nodes = ns, sd_edges = es,
     sd_component_refs = [], sd_extensions = None\<rparr>"

definition fx_doc :: strategy_document where
  "fx_doc = fx_document
     [fx_universe, fx_node ''weight'' ''portfolio.equal_weight'' [], fx_node ''out'' ''output.target_portfolio'' []]
     [fx_edge ''universe'' ''assets'' ''weight'' ''assets'', fx_edge ''weight'' ''targets'' ''out'' ''targets'']"

definition fx_run :: "engine_config" where
  "fx_run = engine_config_of fx_doc core_catalog fx_data ''run'' (Some []) None (Some fx_mon) True"

text \<open>The same weighting wrapped in a component, and a document that uses it.\<close>

definition fx_component :: component_definition where
  "fx_component = \<lparr>cd_component_id = ''weighting'', cd_version = ''1.0.0'', cd_schema_version = ''0.1.0'', cd_name = ''Weighting'',
     cd_description = None, cd_component_refs = [],
     cd_graph = \<lparr>graph_nodes = [fx_node ''inner'' ''portfolio.equal_weight'' []], graph_edges = []\<rparr>,
     cd_exposed_inputs = [\<lparr>ep_name = ''universe'', ep_type = AssetSetType, ep_maps_to = (''inner'', ''assets'')\<rparr>],
     cd_exposed_outputs = [\<lparr>ep_name = ''targets'', ep_type = PortfolioTargetsType, ep_maps_to = (''inner'', ''targets'')\<rparr>],
     cd_exposed_params = [], cd_provenance = fx_provenance, cd_extensions = None\<rparr>"

definition fx_components :: component_catalog where
  "fx_components = [(definition_key fx_component, fx_component)]"

definition fx_ref :: component_ref where
  "fx_ref = \<lparr>ref_id = ''w'', ref_component_id = ''weighting'', ref_version = ''1.0.0''\<rparr>"

definition fx_composed :: strategy_document where
  "fx_composed = (fx_document
     [fx_universe, ComponentRefNode ''weight'' ''w'' [] None None, fx_node ''out'' ''output.target_portfolio'' []]
     [fx_edge ''universe'' ''assets'' ''weight'' ''universe'', fx_edge ''weight'' ''targets'' ''out'' ''targets''])
     \<lparr>sd_component_refs := [fx_ref]\<rparr>"

lemma component_catalog_ok_Nil [simp]: "component_catalog_ok []"
  by (simp add: component_catalog_ok_def)

lemma fx_components_ok: "component_catalog_ok fx_components"
  by (simp add: component_catalog_ok_def fx_components_def)

lemma fx_composed_preflight:
  "\<exists>p. run_document_preflight fx_lib fx_composed (descriptor_registry core_catalog) (Some fx_components) = Inr p \<and> preflight_ok p"
proof -
  have "case run_document_preflight fx_lib fx_composed (descriptor_registry core_catalog) (Some fx_components) of
    Inr p \<Rightarrow> preflight_ok p | Inl _ \<Rightarrow> False" by code_simp
  then show ?thesis by (cases "run_document_preflight fx_lib fx_composed (descriptor_registry core_catalog) (Some fx_components)") auto
qed

text \<open>A call of a node, and the surroundings of its run.\<close>

definition fx_invocation :: node_invocation where
  "fx_invocation = \<lparr>inv_node_id = ''weight'', inv_component_path = [], inv_params = [],
     inv_inputs = [(''assets'', AssetSetV [''A'', ''B''])], inv_view = as_of_utc fx_data 2400\<rparr>"

definition fx_run_state :: run_state where
  "fx_run_state = \<lparr>run_recorder = new_recorder ''run'' 2400 True, run_memo = None\<rparr>"

text \<open>A backtest that holds: the schedule fires on the last session of the month only, outside the
  window, so the opening portfolio is valued at both closes and nothing trades.\<close>

definition fx_catalog :: implementation_catalog where
  "fx_catalog = (let nis = [fixed_list_node, equal_weight_node, target_portfolio_node] in
     \<lparr>ic_bindings = map (\<lambda>ni. (descriptor_key (ni_descriptor ni), ni)) nis,
      ic_descriptors = map (\<lambda>ni. (descriptor_key (ni_descriptor ni), ni_descriptor ni)) nis\<rparr>)"

definition fx_monthly :: strategy_document where
  "fx_monthly = fx_doc\<lparr>sd_schedule := ScheduleMonthly\<rparr>"

lemma fx_hold:
  "\<exists>out. run_backtest fx_lib fx_monthly fx_catalog fx_data ''run'' fx_state (Some []) None (Some fx_fri) True = Inr out \<and>
     br_ok out \<and> map fst (br_valuations out) = [fx_thu, fx_fri]"
proof -
  have "case run_backtest fx_lib fx_monthly fx_catalog fx_data ''run'' fx_state (Some []) None (Some fx_fri) True of
    Inr out \<Rightarrow> br_ok out \<and> map fst (br_valuations out) = [fx_thu, fx_fri] | Inl _ \<Rightarrow> False" by code_simp
  then show ?thesis
    by (cases "run_backtest fx_lib fx_monthly fx_catalog fx_data ''run'' fx_state (Some []) None (Some fx_fri) True") auto
qed

lemma fx_calendar_of: "calendar fx_data = fx_calendar"
  by (simp add: fx_data_def)

text \<open>The market with other prices on the last session, and a driver holding an asset without prices.\<close>

definition fx_other :: market_data_set where
  "fx_other = \<lparr>calendar = fx_calendar, observations =
     [(''A'', [fx_obs fx_thu 0 (Fin 10) (Fin 11), fx_obs fx_fri 1440 (Fin 12) (Fin 13), fx_obs fx_mon 5760 (Fin 1) (Fin 2)]),
      (''B'', [fx_obs fx_thu 0 (Fin 20) (Fin 21), fx_obs fx_fri 1440 (Fin 22) (Fin 20), fx_obs fx_mon 5760 (Fin 3) (Fin 4)])]\<rparr>"

lemma fx_other_ok: "ds_ok fx_other"
proof (rule mk_market_data_set_ok)
  show "mk_market_data_set fx_calendar (observations fx_other) = Inr fx_other"
    by (simp add: mk_market_data_set_def fx_other_def fx_defs session_on_def)
  show "\<And>a series ob. (a, series) \<in> set (observations fx_other) \<Longrightarrow> ob \<in> set series \<Longrightarrow> obs_prices_ok ob"
    by (auto simp: fx_other_def fx_defs obs_prices_ok_def valid_price_def is_double_Fin)
qed (simp_all add: fx_calendar_ok fx_other_def)

definition fx_unpriced :: forward_replay where
  "fx_unpriced = (let cfg = engine_config_of fx_monthly fx_catalog fx_data ''run'' (Some []) None (Some fx_fri) True in
     \<lparr>fr_config = cfg, fr_engine = new_engine fx_data \<lparr>cash = 0, positions = [(''C'', Fin 1)]\<rparr>, fr_cursor = 0, fr_failure = None\<rparr>)"

text \<open>A liquidation: the portfolio against no targets at all; and a cross section.\<close>

lemma fx_liquidation:
  "\<exists>out. reconcile fx_state [] [(''A'', PyFloat (Fin 8))] = Inr out \<and> out_ok out \<and>
     out_orders out = [\<lparr>ord_side = Sell, ord_asset = ''A'', ord_quantity = Fin 5\<rparr>]"
proof -
  let ?prices = "[(''A'', PyFloat (Fin 8))]"
  define p where "p = plan_asset_row fx_state [] ?prices (value_portfolio fx_state ?prices) ''A''"
  have u: "live_weights [] = []" "union_assets fx_state [] = [''A'']" by (simp_all add: live_weights_def union_assets_def held_assets_def fx_state_def)
  have q: "price_diags ?prices [''A''] = Inr []" by code_simp
  have row: "plan_action p = ActSell" "sell_quantity p = Fin 5" "plan_asset p = ''A''"
    using liquidation_row[OF fx_state_ok, of "''A''" "[]" ?prices "value_portfolio fx_state ?prices"]
    by (simp_all add: p_def held_assets_def fx_state_def weight_of_def quantity_of_def)
  have "mk_order Sell ''A'' (PyFloat (Fin 5)) = Inr \<lparr>ord_side = Sell, ord_asset = ''A'', ord_quantity = Fin 5\<rparr>"
    by (simp add: mk_order_def is_double_Fin) code_simp
  then show ?thesis using u q row by (simp add: reconcile_def Let_def p_def[symmetric])
qed

definition fx_scores :: cross_section where
  "fx_scores = \<lparr>cs_dtype = NumberX, cs_domain = [''A'', ''B''], cs_values = [(''A'', PyFloat (Fin 3)), (''B'', PyFloat (Fin 2))]\<rparr>"

end
