(* ===== verification/EngineRuns.thy ===== *)
theory EngineRuns
  imports Forward
begin

section \<open>Two runs of the engine\<close>

text \<open>
  A relation between two engines that every phase preserves, with equal results, is preserved by
  a run. Instantiated with equality of everything but the data cursor, over two datasets that
  agree until the last close of the window, it gives the absence of look-ahead of a whole
  backtest, and the independence of a run from the reads its cursor has answered before.
\<close>

subsection \<open>Related phases\<close>

definition phase_rel :: "(engine_state \<Rightarrow> engine_state \<Rightarrow> bool) \<Rightarrow> phase \<Rightarrow> phase \<Rightarrow> bool" where
  "phase_rel R p q \<longleftrightarrow> (\<forall>es es'. R es es' \<longrightarrow> fst (p es) = fst (q es') \<and> R (snd (p es)) (snd (q es')))"

named_theorems phase_intros \<open>composition rules of related phases\<close>

lemma phase_relD: "phase_rel R p q \<Longrightarrow> R es es' \<Longrightarrow> fst (p es) = fst (q es') \<and> R (snd (p es)) (snd (q es'))"
  by (simp add: phase_rel_def)

lemma phase_rel_then [phase_intros]: "phase_rel R p p' \<Longrightarrow> phase_rel R q q' \<Longrightarrow> phase_rel R (then_phase p q) (then_phase p' q')"
  unfolding phase_rel_def then_phase_def by (fastforce split: prod.splits sum.splits option.splits)

lemma phase_rel_run_sessions:
  "(\<And>s. s \<in> set ss \<Longrightarrow> phase_rel R (engine_step lib cfg s) (engine_step lib cfg' s)) \<Longrightarrow>
   phase_rel R (run_sessions lib cfg ss) (run_sessions lib cfg' ss)"
proof (induction ss)
  case Nil
  then show ?case by (simp add: phase_rel_def)
next
  case (Cons s ss)
  then have "phase_rel R (then_phase (engine_step lib cfg s) (run_sessions lib cfg ss)) (then_phase (engine_step lib cfg' s) (run_sessions lib cfg' ss))"
    by (intro phase_intros) simp_all
  then show ?case by (simp add: phase_rel_def)
qed

subsection \<open>Reads that agree\<close>

definition cursors_agree :: "market_data_set \<Rightarrow> market_data_set \<Rightarrow> cursor \<Rightarrow> cursor \<Rightarrow> bool" where
  "cursors_agree ds ds' c c' \<longleftrightarrow> cursor_ok ds c \<and> cursor_ok ds' c'"

lemma latest_close_agree:
  assumes "cursors_agree ds ds' c c'" "as_of_utc ds t = as_of_utc ds' t"
  shows "fst (latest_close c a t) = fst (latest_close c' a t)" "cursors_agree ds ds' (snd (latest_close c a t)) (snd (latest_close c' a t))"
    "fst (session_close c a d t) = fst (session_close c' a d t)" "cursors_agree ds ds' (snd (session_close c a d t)) (snd (session_close c' a d t))"
    "fst (cursor_open_price c a d t) = fst (cursor_open_price c' a d t)"
    "cursors_agree ds ds' (snd (cursor_open_price c a d t)) (snd (cursor_open_price c' a d t))"
  using assms latest_close_as_of[of ds c] latest_close_as_of[of ds' c'] session_close_as_of[of ds c] session_close_as_of[of ds' c']
    cursor_open_price_as_of[of ds c] cursor_open_price_as_of[of ds' c']
  by (simp_all add: cursors_agree_def)

lemma mark_positions_agree:
  "as_of_utc ds t = as_of_utc ds' t \<Longrightarrow> cursors_agree ds ds' c c' \<Longrightarrow>
    fst (mark_positions ps c t d v ms) = fst (mark_positions ps c' t d v ms) \<and>
    cursors_agree ds ds' (snd (mark_positions ps c t d v ms)) (snd (mark_positions ps c' t d v ms))"
proof (induction ps c t d v ms arbitrary: c' rule: mark_positions.induct)
  case (2 a q rest cur t d v ms)
  obtain r c1 where l: "latest_close cur a t = (r, c1)" by (metis surj_pair)
  obtain r' c1' where l': "latest_close c' a t = (r', c1')" by (metis surj_pair)
  have "r = r'" "cursors_agree ds ds' c1 c1'" using latest_close_agree(1,2)[OF 2(3,2), of a] l l' by simp_all
  then show ?case using 2(1)[OF l[symmetric] _ _ 2(2)] l l' by (cases r) auto
qed simp

lemma closes_at_agree:
  assumes "as_of_utc ds t = as_of_utc ds' t"
  shows "cursors_agree ds ds' c c' \<Longrightarrow> fst (closes_at c t d as) = fst (closes_at c' t d as) \<and>
    cursors_agree ds ds' (snd (closes_at c t d as)) (snd (closes_at c' t d as))"
proof (induction "as" arbitrary: c c')
  case (Cons a "as")
  obtain r c1 where l: "session_close c a d t = (r, c1)" by (metis surj_pair)
  obtain r' c1' where l': "session_close c' a d t = (r', c1')" by (metis surj_pair)
  have e: "r = r'" "cursors_agree ds ds' c1 c1'" using latest_close_agree(3,4)[OF Cons(2) assms, of a d] l l' by (metis fst_conv, metis snd_conv)
  then show ?case using Cons.IH[OF e(2)] l l' by (auto split: prod.splits)
qed simp

text \<open>Two sources of opening prices whose reads agree fill alike.\<close>

locale paired_sources =
  fixes rel :: "'s \<Rightarrow> 't \<Rightarrow> bool"
    and open1 :: "'s \<Rightarrow> string \<Rightarrow> date \<Rightarrow> pyfloat option \<times> 's"
    and open2 :: "'t \<Rightarrow> string \<Rightarrow> date \<Rightarrow> pyfloat option \<times> 't"
  assumes read_same: "rel s t \<Longrightarrow> fst (open1 s a d) = fst (open2 t a d)"
    and read_rel: "rel s t \<Longrightarrow> rel (snd (open1 s a d)) (snd (open2 t a d))"
begin

lemma check_orders_same:
  "rel s t \<Longrightarrow> \<exists>ps ds s' t'. check_orders open1 st d ords seen prices diags s = (ps, ds, s') \<and>
     check_orders open2 st d ords seen prices diags t = (ps, ds, t') \<and> rel s' t'"
proof (induction ords arbitrary: seen prices diags s t)
  case (Cons ord ords)
  obtain r s1 where l: "open1 s (ord_asset ord) d = (r, s1)" by (metis surj_pair)
  obtain r' t1 where l': "open2 t (ord_asset ord) d = (r', t1)" by (metis surj_pair)
  have "r = r'" "rel s1 t1" using read_same[OF Cons.prems] read_rel[OF Cons.prems] l l' by (metis fst_conv, metis snd_conv)
  then show ?case using Cons.IH l l' by (cases r') (simp_all add: Let_def)
qed simp

lemma apply_orders_same:
  assumes "rel s t"
  shows "fst (apply_orders open1 st ords s d bps) = fst (apply_orders open2 st ords t d bps) \<and>
    rel (snd (apply_orders open1 st ords s d bps)) (snd (apply_orders open2 st ords t d bps))"
  using check_orders_same[OF assms, of st d ords "[]" Map.empty "[]"] assms
  by (auto simp: apply_orders_def split: sum.split bool.split)

end

definition sources_agree :: "market_data_set \<Rightarrow> market_data_set \<Rightarrow> cursor \<times> instant \<Rightarrow> cursor \<times> instant \<Rightarrow> bool" where
  "sources_agree ds ds' s t \<longleftrightarrow> cursors_agree ds ds' (fst s) (fst t) \<and> snd s = snd t \<and> as_of_utc ds (snd s) = as_of_utc ds' (snd t)"

interpretation paired_cursors: paired_sources "sources_agree ds ds'" open_prices_at open_prices_at for ds ds'
proof
  fix s t :: "cursor \<times> instant" and a d
  assume r: "sources_agree ds ds' s t"
  obtain c i c' where st: "s = (c, i)" "t = (c', i)" using r by (cases s; cases t) (simp add: sources_agree_def)
  have c: "cursors_agree ds ds' c c'" "as_of_utc ds i = as_of_utc ds' i" using r by (simp_all add: sources_agree_def st)
  show "fst (open_prices_at s a d) = fst (open_prices_at t a d)" using latest_close_agree(5)[OF c] by (simp add: st)
  show "sources_agree ds ds' (snd (open_prices_at s a d)) (snd (open_prices_at t a d))"
    using latest_close_agree(6)[OF c] c(2) by (simp add: st sources_agree_def)
qed

text \<open>A cursor reads as the view of its dataset at the instant.\<close>

definition source_reads_view :: "cursor \<times> instant \<Rightarrow> data_view \<Rightarrow> bool" where
  "source_reads_view s v \<longleftrightarrow> (\<exists>ds. cursor_ok ds (fst s) \<and> v = as_of_utc ds (snd s))"

interpretation cursor_view: paired_sources source_reads_view open_prices_at view_source
proof
  fix s v a d
  assume r: "source_reads_view s v"
  obtain c i where s: "s = (c, i)" by (cases s)
  obtain ds where ds: "cursor_ok ds c" "v = as_of_utc ds i" using r by (auto simp: source_reads_view_def s)
  note q = cursor_open_price_as_of[OF ds(1)]
  show "fst (open_prices_at s a d) = fst (view_source v a d)" using q(1) by (simp add: s ds view_source_def)
  show "source_reads_view (snd (open_prices_at s a d)) (snd (view_source v a d))"
    using q(2) ds(2) by (auto simp: s view_source_def source_reads_view_def)
qed

subsection \<open>The phases over two datasets\<close>

text \<open>Two engines equal but for their cursors, each over its dataset.\<close>

definition engines_agree :: "market_data_set \<Rightarrow> market_data_set \<Rightarrow> engine_state \<Rightarrow> engine_state \<Rightarrow> bool" where
  "engines_agree ds ds' es es' \<longleftrightarrow> es' = es\<lparr>es_cursor := es_cursor es'\<rparr> \<and> cursors_agree ds ds' (es_cursor es) (es_cursor es')"

lemma engines_agreeE:
  assumes "engines_agree ds ds' es es'"
  obtains c where "es' = es\<lparr>es_cursor := c\<rparr>" "cursors_agree ds ds' (es_cursor es) c"
  using assms unfolding engines_agree_def by blast

lemma cursor_last:
  "es\<lparr>es_cursor := c, es_notes := n\<rparr> = es\<lparr>es_notes := n, es_cursor := c\<rparr>"
  "es\<lparr>es_cursor := c, es_memo := m\<rparr> = es\<lparr>es_memo := m, es_cursor := c\<rparr>"
  "es\<lparr>es_cursor := c, es_trace := t\<rparr> = es\<lparr>es_trace := t, es_cursor := c\<rparr>"
  "es\<lparr>es_cursor := c, es_evaluations := v\<rparr> = es\<lparr>es_evaluations := v, es_cursor := c\<rparr>"
  by simp_all

lemma engines_agreeI [intro]: "cursors_agree ds ds' (es_cursor es) c \<Longrightarrow> engines_agree ds ds' es (es\<lparr>es_cursor := c\<rparr>)"
  by (simp add: engines_agree_def)

lemma phase_agreeI:
  assumes "\<And>es c. cursors_agree ds ds' (es_cursor es) c \<Longrightarrow>
    fst (p es) = fst (q (es\<lparr>es_cursor := c\<rparr>)) \<and> engines_agree ds ds' (snd (p es)) (snd (q (es\<lparr>es_cursor := c\<rparr>)))"
  shows "phase_rel (engines_agree ds ds') p q"
  unfolding phase_rel_def using assms by (auto elim!: engines_agreeE)

lemma engine_event_agree:
  "cursors_agree ds ds' (es_cursor es) c \<Longrightarrow>
    fst (engine_event cfg t ty load es) = fst (engine_event (cfg\<lparr>ec_market_data := ds'\<rparr>) t ty load (es\<lparr>es_cursor := c\<rparr>)) \<and>
    engines_agree ds ds' (snd (engine_event cfg t ty load es)) (snd (engine_event (cfg\<lparr>ec_market_data := ds'\<rparr>) t ty load (es\<lparr>es_cursor := c\<rparr>)))"
  by (auto simp: engine_event_def engines_agree_def split: sum.split)

lemma emit_phase_agree [phase_intros]:
  "phase_rel (engines_agree ds ds') (emit_phase cfg t ty load) (emit_phase (cfg\<lparr>ec_market_data := ds'\<rparr>) t ty load)"
proof (rule phase_agreeI)
  fix es :: engine_state and c assume "cursors_agree ds ds' (es_cursor es) c"
  from engine_event_agree[OF this, of cfg t ty load]
  show "fst (emit_phase cfg t ty load es) = fst (emit_phase (cfg\<lparr>ec_market_data := ds'\<rparr>) t ty load (es\<lparr>es_cursor := c\<rparr>)) \<and>
    engines_agree ds ds' (snd (emit_phase cfg t ty load es)) (snd (emit_phase (cfg\<lparr>ec_market_data := ds'\<rparr>) t ty load (es\<lparr>es_cursor := c\<rparr>)))"
    by (auto simp: emit_phase_def split: prod.split sum.split)
qed

lemma engine_note_agree [phase_intros]:
  "phase_rel (engines_agree ds ds') (engine_note cfg s code message) (engine_note (cfg\<lparr>ec_market_data := ds'\<rparr>) s code message)"
proof (rule phase_agreeI)
  fix es :: engine_state and c assume c: "cursors_agree ds ds' (es_cursor es) c"
  let ?es = "es\<lparr>es_notes := es_notes es @ [\<lparr>sn_session = session_date s, sn_code = code, sn_message = message\<rparr>]\<rparr>"
  let ?emit = "\<lambda>cfg. emit_phase cfg (close_at s) ''engine.note''
      (engine_payload (session_date s) [(''code'', JStr code), (''message'', JStr message)])"
  have n: "engine_note cfg s code message es = ?emit cfg ?es"
    "engine_note (cfg\<lparr>ec_market_data := ds'\<rparr>) s code message (es\<lparr>es_cursor := c\<rparr>) = ?emit (cfg\<lparr>ec_market_data := ds'\<rparr>) (?es\<lparr>es_cursor := c\<rparr>)"
    by (simp_all add: engine_note_def emit_phase_def cursor_last)
  have "engines_agree ds ds' ?es (?es\<lparr>es_cursor := c\<rparr>)" using c by (simp add: engines_agree_def)
  from phase_relD[OF emit_phase_agree this]
  show "fst (engine_note cfg s code message es) = fst (engine_note (cfg\<lparr>ec_market_data := ds'\<rparr>) s code message (es\<lparr>es_cursor := c\<rparr>)) \<and>
    engines_agree ds ds' (snd (engine_note cfg s code message es)) (snd (engine_note (cfg\<lparr>ec_market_data := ds'\<rparr>) s code message (es\<lparr>es_cursor := c\<rparr>)))"
    unfolding n by blast
qed

lemma settle_fills_agree [phase_intros]:
  "phase_rel (engines_agree ds ds') (settle_fills cfg s after fs) (settle_fills (cfg\<lparr>ec_market_data := ds'\<rparr>) s after fs)"
  by (rule phase_agreeI) (simp add: settle_fills_def engines_agree_def)

lemma record_fills_agree [phase_intros]:
  "phase_rel (engines_agree ds ds') (record_fills cfg s prior after fs) (record_fills (cfg\<lparr>ec_market_data := ds'\<rparr>) s prior after fs)"
  unfolding record_fills_def by (intro phase_intros)

lemma open_phase_agree:
  assumes "as_of_utc ds (open_at s) = as_of_utc ds' (open_at s)"
  shows "phase_rel (engines_agree ds ds') (open_phase cfg s) (open_phase (cfg\<lparr>ec_market_data := ds'\<rparr>) s)"
proof (rule phase_agreeI)
  fix es :: engine_state and c assume c: "cursors_agree ds ds' (es_cursor es) c"
  let ?cfg = "cfg\<lparr>ec_market_data := ds'\<rparr>" and ?es = "es\<lparr>es_cursor := c\<rparr>"
  show "fst (open_phase cfg s es) = fst (open_phase ?cfg s ?es) \<and> engines_agree ds ds' (snd (open_phase cfg s es)) (snd (open_phase ?cfg s ?es))"
  proof (cases "es_pending es")
    case None
    then show ?thesis using c by (auto simp: open_phase_def)
  next
    case (Some pending)
    obtain orders d where p: "es_pending es = Some (orders, d)" using Some by (cases pending) auto
    let ?run = "\<lambda>c. apply_orders open_prices_at (es_portfolio es) orders (c, open_at s) (session_date s) (PyFloat (sd_bps (ec_document cfg)))"
    obtain r src where l: "?run (es_cursor es) = (r, src)" by (metis surj_pair)
    obtain r' src' where l': "?run c = (r', src')" by (metis surj_pair)
    have "sources_agree ds ds' (es_cursor es, open_at s) (c, open_at s)" using c assms by (simp add: sources_agree_def)
    from paired_cursors.apply_orders_same[OF this, of "es_portfolio es" orders "session_date s" "PyFloat (sd_bps (ec_document cfg))"]
    have r: "r' = r" "sources_agree ds ds' src src'" using l l' by simp_all
    then have c1: "cursors_agree ds ds' (fst src) (fst src')" by (simp add: sources_agree_def)
    show ?thesis
    proof (cases "d = session_date s \<and> (\<exists>after fs. r = Inr (after, fs, []))")
      case True
      then obtain after fs where a: "d = session_date s" "r = Inr (after, fs, [])" by blast
      have "engines_agree ds ds' (es\<lparr>es_cursor := fst src\<rparr>) (es\<lparr>es_cursor := fst src'\<rparr>)"
        using c1 by (simp add: engines_agree_def)
      from phase_relD[OF record_fills_agree this, of cfg s "es_portfolio es" after fs] show ?thesis
        using p a l l' r by (simp add: open_phase_def Let_def)
    next
      case False
      then show ?thesis using p l l' r c c1
        by (cases r) (auto simp: open_phase_def Let_def engines_agree_def split: prod.splits)
    qed
  qed
qed

lemma valuation_phase_agree:
  assumes "as_of_utc ds (close_at s) = as_of_utc ds' (close_at s)"
  shows "phase_rel (engines_agree ds ds') (valuation_phase cfg s) (valuation_phase (cfg\<lparr>ec_market_data := ds'\<rparr>) s)"
proof (rule phase_agreeI)
  fix es :: engine_state and c assume c: "cursors_agree ds ds' (es_cursor es) c"
  from mark_positions_agree[OF assms this, of "positions (es_portfolio es)" "session_date s" "cash (es_portfolio es)" "[]"]
  show "fst (valuation_phase cfg s es) = fst (valuation_phase (cfg\<lparr>ec_market_data := ds'\<rparr>) s (es\<lparr>es_cursor := c\<rparr>)) \<and>
    engines_agree ds ds' (snd (valuation_phase cfg s es)) (snd (valuation_phase (cfg\<lparr>ec_market_data := ds'\<rparr>) s (es\<lparr>es_cursor := c\<rparr>)))"
    by (auto simp: valuation_phase_def mark_to_market_def engines_agree_def split: prod.split)
qed

text \<open>An evaluation reads its dataset through the view of the instant only.\<close>

lemma evaluate_at_agree:
  "as_of_utc ds t = as_of_utc ds' t \<Longrightarrow>
   evaluate_at lib doc catalog ds run t components collect memo = evaluate_at lib doc catalog ds' run t components collect memo"
proof -
  assume e: "as_of_utc ds t = as_of_utc ds' t"
  show ?thesis unfolding evaluate_at_def e by (rule refl)
qed

lemma propose_phase_agree [phase_intros]:
  "phase_rel (engines_agree ds ds') (propose_phase cfg s out) (propose_phase (cfg\<lparr>ec_market_data := ds'\<rparr>) s out)"
  using emit_phase_agree[of ds ds' cfg] unfolding phase_rel_def propose_phase_def by (auto split: option.split)

lemma queue_orders_agree [phase_intros]:
  "phase_rel (engines_agree ds ds') (queue_orders nxt out) (queue_orders nxt out)"
  by (rule phase_agreeI) (simp add: queue_orders_def engines_agree_def)

lemma reconcile_phase_agree:
  assumes "as_of_utc ds (close_at s) = as_of_utc ds' (close_at s)"
  shows "phase_rel (engines_agree ds ds') (reconcile_phase cfg s nxt ws) (reconcile_phase (cfg\<lparr>ec_market_data := ds'\<rparr>) s nxt ws)"
proof (rule phase_agreeI)
  fix es :: engine_state and c assume c: "cursors_agree ds ds' (es_cursor es) c"
  let ?cfg = "cfg\<lparr>ec_market_data := ds'\<rparr>" and ?es = "es\<lparr>es_cursor := c\<rparr>"
  let ?reads = "\<lambda>c. closes_at c (close_at s) (session_date s) (union_assets (es_portfolio es) (map fst (live_weights ws)))"
  obtain prices c1 where l: "?reads (es_cursor es) = (prices, c1)" by (metis surj_pair)
  obtain prices' c2 where l': "?reads c = (prices', c2)" by (metis surj_pair)
  have r: "prices' = prices" "cursors_agree ds ds' c1 c2" using closes_at_agree[OF assms c] l l' by (metis fst_conv, metis snd_conv)
  show "fst (reconcile_phase cfg s nxt ws es) = fst (reconcile_phase ?cfg s nxt ws ?es) \<and>
    engines_agree ds ds' (snd (reconcile_phase cfg s nxt ws es)) (snd (reconcile_phase ?cfg s nxt ws ?es))"
  proof (cases "reconcile (es_portfolio es) ws prices")
    case (Inl e)
    then show ?thesis using l l' r by (simp add: reconcile_phase_def Let_def engines_agree_def)
  next
    case (Inr out)
    let ?rec = "\<lparr>er_session = session_date s, er_instant = close_at s, er_weights = ws, er_reconciliation = out,
        er_fill_session = Some (session_date nxt), er_fill_instant = Some (open_at nxt)\<rparr>"
    let ?es1 = "es\<lparr>es_cursor := c1, es_evaluations := es_evaluations es @ [?rec]\<rparr>"
    let ?es2 = "es\<lparr>es_cursor := c2, es_evaluations := es_evaluations es @ [?rec]\<rparr>"
    have e: "engines_agree ds ds' ?es1 ?es2" using r(2) by (simp add: engines_agree_def)
    have "phase_rel (engines_agree ds ds') (then_phase (propose_phase cfg s out) (queue_orders nxt out))
        (then_phase (propose_phase ?cfg s out) (queue_orders nxt out))" by (intro phase_intros)
    from phase_relD[OF this e] e show ?thesis using Inr l l' r by (simp add: reconcile_phase_def Let_def)
  qed
qed

lemma evaluate_phase_agree:
  assumes "as_of_utc (ec_market_data cfg) (close_at s) = as_of_utc ds' (close_at s)"
  shows "phase_rel (engines_agree (ec_market_data cfg) ds') (evaluate_phase lib cfg s nxt)
    (evaluate_phase lib (cfg\<lparr>ec_market_data := ds'\<rparr>) s nxt)"
proof (rule phase_agreeI)
  fix es :: engine_state and c assume c: "cursors_agree (ec_market_data cfg) ds' (es_cursor es) c"
  let ?cfg = "cfg\<lparr>ec_market_data := ds'\<rparr>" and ?es = "es\<lparr>es_cursor := c\<rparr>" and ?R = "engines_agree (ec_market_data cfg) ds'"
  let ?eval = "\<lambda>ds. evaluate_at lib (ec_document cfg) (ec_catalog cfg) ds (ec_run_id cfg) (close_at s)
         (ec_components cfg) (ec_collect_trace cfg) (es_memo es)"
  have same: "?eval ds' = ?eval (ec_market_data cfg)" using evaluate_at_agree[OF assms] by metis
  obtain r memo where e: "?eval (ec_market_data cfg) = (r, memo)" by (metis surj_pair)
  show "fst (evaluate_phase lib cfg s nxt es) = fst (evaluate_phase lib ?cfg s nxt ?es) \<and>
    ?R (snd (evaluate_phase lib cfg s nxt es)) (snd (evaluate_phase lib ?cfg s nxt ?es))"
  proof (cases r)
    case (Inl x)
    then show ?thesis using e same c by (simp add: evaluate_phase_def engines_agree_def)
  next
    case (Inr out)
    let ?up = "\<lambda>es. es\<lparr>es_memo := memo, es_trace := es_trace es @ ev_trace out\<rparr>"
    have R: "?R (?up es) (?up ?es)" using c by (simp add: engines_agree_def)
    show ?thesis
    proof (cases "ev_ok out \<and> ev_targets out \<noteq> None")
      case True
      then obtain ws where "ev_ok out" "ev_targets out = Some ws" by blast
      then show ?thesis using e same Inr phase_relD[OF reconcile_phase_agree[OF assms, where cfg = cfg and nxt = nxt and ws = ws] R]
        by (simp add: evaluate_phase_def Let_def)
    next
      case False
      then show ?thesis using e same Inr R by (auto simp: evaluate_phase_def Let_def split: bool.split option.split)
    qed
  qed
qed

lemma close_phase_agree:
  assumes "as_of_utc (ec_market_data cfg) (close_at s) = as_of_utc ds' (close_at s)"
    "calendar (ec_market_data cfg) = calendar ds'"
  shows "phase_rel (engines_agree (ec_market_data cfg) ds') (close_phase lib cfg s) (close_phase lib (cfg\<lparr>ec_market_data := ds'\<rparr>) s)"
proof -
  let ?cfg = "cfg\<lparr>ec_market_data := ds'\<rparr>" and ?R = "engines_agree (ec_market_data cfg) ds'"
  note parts = engine_note_agree[of "ec_market_data cfg" ds' cfg] evaluate_phase_agree[OF assms(1), of lib]
  show ?thesis unfolding phase_rel_def
  proof (intro allI impI)
    fix es es' assume R: "?R es es'"
    then have w: "es_warmup_total es' = es_warmup_total es" by (auto elim!: engines_agreeE)
    show "fst (close_phase lib cfg s es) = fst (close_phase lib ?cfg s es') \<and> ?R (snd (close_phase lib cfg s es)) (snd (close_phase lib ?cfg s es'))"
      using parts[THEN phase_relD, OF R] R assms(2) w
      by (simp add: close_phase_def Let_def split: option.split)
  qed
qed

lemma engine_step_agree:
  assumes "as_of_utc (ec_market_data cfg) (open_at s) = as_of_utc ds' (open_at s)"
    "as_of_utc (ec_market_data cfg) (close_at s) = as_of_utc ds' (close_at s)" "calendar (ec_market_data cfg) = calendar ds'"
  shows "phase_rel (engines_agree (ec_market_data cfg) ds') (engine_step lib cfg s) (engine_step lib (cfg\<lparr>ec_market_data := ds'\<rparr>) s)"
  unfolding engine_step_def
  by (intro phase_intros open_phase_agree valuation_phase_agree close_phase_agree assms)

subsection \<open>The whole run\<close>

lemma engine_preflight_agree [phase_intros]:
  "phase_rel (engines_agree ds ds') (engine_preflight lib cfg) (engine_preflight lib (cfg\<lparr>ec_market_data := ds''\<rparr>))"
proof (rule phase_agreeI)
  fix es :: engine_state and c assume c: "cursors_agree ds ds' (es_cursor es) c"
  show "fst (engine_preflight lib cfg es) = fst (engine_preflight lib (cfg\<lparr>ec_market_data := ds''\<rparr>) (es\<lparr>es_cursor := c\<rparr>)) \<and>
    engines_agree ds ds' (snd (engine_preflight lib cfg es)) (snd (engine_preflight lib (cfg\<lparr>ec_market_data := ds''\<rparr>) (es\<lparr>es_cursor := c\<rparr>)))"
    using c by (auto simp: engine_preflight_def Let_def engines_agree_def split: sum.split)
qed

lemma assemble_agree:
  assumes "fst r = fst r'" "engines_agree ds ds' (snd r) (snd r')" "calendar (ec_market_data cfg) = calendar ds''"
  shows "assemble cfg r = assemble (cfg\<lparr>ec_market_data := ds''\<rparr>) r'"
proof -
  obtain c where "snd r' = (snd r)\<lparr>es_cursor := c\<rparr>" using assms(2) by (auto elim: engines_agreeE)
  then show ?thesis using assms(1,3)
    by (cases r; cases r'; cases "fst r") (simp_all add: assemble_def finish_def Let_def split: option.split)
qed

lemma run_configured_agree:
  assumes "ds_ok (ec_market_data cfg)" "ds_ok ds'" "calendar (ec_market_data cfg) = calendar ds'"
    "\<And>s. s \<in> set (ec_sessions cfg) \<Longrightarrow> as_of_utc (ec_market_data cfg) (open_at s) = as_of_utc ds' (open_at s) \<and>
       as_of_utc (ec_market_data cfg) (close_at s) = as_of_utc ds' (close_at s)"
  shows "run_configured lib cfg initial = run_configured lib (cfg\<lparr>ec_market_data := ds'\<rparr>) initial"
proof -
  let ?cfg = "cfg\<lparr>ec_market_data := ds'\<rparr>" and ?R = "engines_agree (ec_market_data cfg) ds'"
  have start: "?R (new_engine (ec_market_data cfg) initial) (new_engine ds' initial)"
    using new_cursor_ok[OF assms(1)] new_cursor_ok[OF assms(2)] by (simp add: engines_agree_def new_engine_def cursors_agree_def)
  have rel: "phase_rel ?R (then_phase (engine_preflight lib cfg) (run_sessions lib cfg (ec_sessions cfg)))
      (then_phase (engine_preflight lib ?cfg) (run_sessions lib ?cfg (ec_sessions cfg)))"
    by (intro phase_intros phase_rel_run_sessions engine_step_agree) (use assms(3,4) in auto)
  note agree = phase_relD[OF rel start]
  show ?thesis
    using assemble_agree[OF agree[THEN conjunct1] agree[THEN conjunct2] assms(3)] by (simp add: run_configured_def)
qed

lemma run_window_mem: "s \<in> set (run_window cal f l) \<Longrightarrow> s \<in> set (sessions cal)"
  by (simp add: run_window_def)

lemma run_backtest_agree:
  assumes "ds_ok ds" "ds_ok ds'" "agree_until T ds ds'" "\<And>s. s \<in> set (run_window (calendar ds) f l) \<Longrightarrow> close_at s \<le> T"
  shows "run_backtest lib doc catalog ds run initial comps f l collect = run_backtest lib doc catalog ds' run initial comps f l collect"
proof -
  let ?cfg = "engine_config_of doc catalog ds run comps f l collect"
  have cal: "calendar ds = calendar ds'" using assms(3) by (simp add: agree_until_def)
  then have cfg: "engine_config_of doc catalog ds' run comps f l collect = ?cfg\<lparr>ec_market_data := ds'\<rparr>"
    by (simp add: engine_config_of_def)
  have "as_of_utc ds (open_at s) = as_of_utc ds' (open_at s) \<and> as_of_utc ds (close_at s) = as_of_utc ds' (close_at s)"
    if s: "s \<in> set (ec_sessions ?cfg)" for s
  proof -
    have w: "s \<in> set (run_window (calendar ds) f l)" using s by (simp add: engine_config_of_def)
    then have "session_ok s" using assms(1) run_window_mem unfolding ds_ok_def cal_ok_def by blast
    then have "open_at s \<le> T" "close_at s \<le> T" using assms(4)[OF w] by (simp_all add: session_ok_def)
    then show ?thesis using as_of_agree[OF assms(3)] by blast
  qed
  then show ?thesis unfolding run_backtest_def cfg
    by (intro run_configured_agree) (use assms(1,2) cal in \<open>simp_all add: engine_config_of_def\<close>)
qed

end
