(* ===== verification/EngineLaws.thy ===== *)
theory EngineLaws
  imports EngineRuns
begin

section \<open>Invariants of the session engine\<close>

text \<open>
  What holds between the sessions of a run: the portfolio is well formed, there is one valuation
  per session in order, every fill happened at the open of the session an earlier evaluation
  scheduled it for, and every order of an evaluation is either pending for the next session or
  filled. A completed run leaves nothing pending.
\<close>

subsection \<open>What each phase does\<close>

text \<open>The state a sequence of phases passes through.\<close>

lemma then_phase_cases:
  assumes "then_phase p q es = (r, es')"
  obtains es1 where "p es = (Inr None, es1)" "q es1 = (r, es')" | "p es = (r, es')" "r \<noteq> Inr None"
  using assms by (auto simp: then_phase_def split: prod.splits sum.splits option.splits)

text \<open>The part of the state the laws speak of.\<close>

definition core :: "engine_state \<Rightarrow> portfolio_state \<times> (order list \<times> date) option \<times> fill_event list \<times> evaluation_record list \<times> (date \<times> pyfloat) list" where
  "core es = (es_portfolio es, es_pending es, es_fills es, es_evaluations es, es_valuations es)"

lemma core_update [simp]:
  "core (es\<lparr>es_trace := t\<rparr>) = core es" "core (es\<lparr>es_notes := n\<rparr>) = core es" "core (es\<lparr>es_cursor := c\<rparr>) = core es"
  "core (es\<lparr>es_memo := m\<rparr>) = core es" "core (es\<lparr>es_warmup_total := w\<rparr>) = core es" "core (es\<lparr>es_stale_marks := ms\<rparr>) = core es"
  by (simp_all add: core_def)

lemma coreD:
  "core es' = core es \<Longrightarrow> es_portfolio es' = es_portfolio es \<and> es_pending es' = es_pending es \<and> es_fills es' = es_fills es \<and>
     es_evaluations es' = es_evaluations es \<and> es_valuations es' = es_valuations es"
  by (simp add: core_def)

lemma engine_event_core: "core (snd (engine_event cfg t ty load es)) = core es"
  by (simp add: engine_event_def split: sum.split)

lemma emit_phase_core:
  assumes "emit_phase cfg t ty load es = (r, es')"
  shows "core es' = core es" "r \<noteq> Inr (Some ds)"
  using assms engine_event_core[of cfg t ty load es] by (auto simp: emit_phase_def split: prod.splits sum.splits)

lemma engine_note_core:
  assumes "engine_note cfg s code message es = (r, es')"
  shows "core es' = core es"
proof -
  let ?es = "es\<lparr>es_notes := es_notes es @ [\<lparr>sn_session = session_date s, sn_code = code, sn_message = message\<rparr>]\<rparr>"
  have "core es' = core ?es"
    using assms engine_event_core[of cfg "close_at s" "''engine.note''"
        "engine_payload (session_date s) [(''code'', JStr code), (''message'', JStr message)]" ?es]
    by (auto simp: engine_note_def split: prod.splits sum.splits)
  then show ?thesis by simp
qed

lemma record_fills_core:
  assumes "record_fills cfg s prior after fs es = (r, es')"
  shows "core es' = (if r = Inr None then (after, None,
      es_fills es @ map (\<lambda>f. \<lparr>fe_session = session_date s, fe_instant = open_at s, fe_fill = f\<rparr>) fs, es_evaluations es, es_valuations es)
    else core es)"
  using assms unfolding record_fills_def
proof (cases rule: then_phase_cases)
  case (1 es1)
  from 1(2) show ?thesis
  proof (cases rule: then_phase_cases)
    case (1 es2)
    then have "core es2 = core es" using emit_phase_core(1) \<open>emit_phase _ _ _ _ es = _\<close> by metis
    then show ?thesis using 1(2) by (auto simp: settle_fills_def core_def)
  next
    case 2
    then show ?thesis using emit_phase_core(1) 1(1) by metis
  qed
next
  case 2
  then show ?thesis using emit_phase_core(1) by metis
qed

lemma open_phase_core:
  assumes "open_phase cfg s es = (r, es')"
  obtains (idle) "core es' = core es" "\<And>ords. es_pending es \<noteq> Some (ords, session_date s)"
    | (filled) ords after fs src where "es_pending es = Some (ords, session_date s)"
        "apply_orders open_prices_at (es_portfolio es) ords (es_cursor es, open_at s) (session_date s)
           (PyFloat (sd_bps (ec_document cfg))) = (Inr (after, fs, []), src)"
        "core es' = (after, None,
           es_fills es @ map (\<lambda>f. \<lparr>fe_session = session_date s, fe_instant = open_at s, fe_fill = f\<rparr>) fs, es_evaluations es, es_valuations es)"
    | (failed) "r \<noteq> Inr None" "core es' = core es"
proof (cases "\<exists>ords. es_pending es = Some (ords, session_date s)")
  case False
  then show ?thesis using assms idle by (cases "es_pending es") (auto simp: open_phase_def)
next
  case True
  then obtain ords where p: "es_pending es = Some (ords, session_date s)" by blast
  obtain res src where a: "apply_orders open_prices_at (es_portfolio es) ords (es_cursor es, open_at s) (session_date s)
      (PyFloat (sd_bps (ec_document cfg))) = (res, src)" by (metis surj_pair)
  show ?thesis
  proof (cases "\<exists>after fs. res = Inr (after, fs, [])")
    case False
    then have "r \<noteq> Inr None" "core es' = core es" using assms p a
      by (cases res; auto simp: open_phase_def Let_def)+
    then show ?thesis by (rule failed)
  next
    case True
    then obtain after fs where ok: "res = Inr (after, fs, [])" by blast
    have "record_fills cfg s (es_portfolio es) after fs (es\<lparr>es_cursor := fst src\<rparr>) = (r, es')"
      using assms p a ok by (simp add: open_phase_def Let_def)
    from record_fills_core[OF this] show ?thesis
      using filled[OF p a[unfolded ok]] failed by (cases "r = Inr None") simp_all
  qed
qed

lemma valuation_phase_core:
  assumes "valuation_phase cfg s es = (r, es')"
  shows "if r = Inr None then \<exists>value marks. fst (mark_to_market (es_portfolio es) (es_cursor es) (close_at s) (session_date s)) = (value, marks, []) \<and>
      core es' = (es_portfolio es, es_pending es, es_fills es, es_evaluations es, es_valuations es @ [(session_date s, value)])
    else core es' = core es"
  using assms by (auto simp: valuation_phase_def core_def split: prod.splits if_splits)

lemma propose_phase_core:
  assumes "propose_phase cfg s out es = (r, es')"
  shows "core es' = core es"
  using assms emit_phase_core(1) unfolding propose_phase_def by (auto split: option.splits)

text \<open>A phase that ends the run at most records the evaluation that failed.\<close>

definition extends :: "engine_state \<Rightarrow> engine_state \<Rightarrow> bool" where
  "extends es es' \<longleftrightarrow> es_portfolio es' = es_portfolio es \<and> es_pending es' = es_pending es \<and> es_fills es' = es_fills es \<and>
     es_valuations es' = es_valuations es \<and> set (es_evaluations es) \<subseteq> set (es_evaluations es')"

lemma core_extends: "core es' = core es \<Longrightarrow> extends es es'"
  by (auto simp: core_def extends_def)

text \<open>A close that evaluates appends one record and queues its orders, if any, for the next session.\<close>

definition evaluation_of :: "market_session \<Rightarrow> market_session \<Rightarrow> targets \<Rightarrow> outcome \<Rightarrow> evaluation_record" where
  "evaluation_of s nxt ws out = \<lparr>er_session = session_date s, er_instant = close_at s, er_weights = ws, er_reconciliation = out,
     er_fill_session = Some (session_date nxt), er_fill_instant = Some (open_at nxt)\<rparr>"

lemma reconcile_phase_core:
  assumes "reconcile_phase cfg s nxt ws es = (r, es')"
  obtains (failed) "r \<noteq> Inr None" "extends es es'"
    | (queued) prices out where "reconcile (es_portfolio es) ws prices = Inr out" "out_ok out"
      "core es' = (es_portfolio es, (if out_orders out = [] then es_pending es else Some (out_orders out, session_date nxt)),
         es_fills es, es_evaluations es @ [evaluation_of s nxt ws out], es_valuations es)"
proof -
  obtain prices cur where c: "closes_at (es_cursor es) (close_at s) (session_date s)
      (union_assets (es_portfolio es) (map fst (live_weights ws))) = (prices, cur)" by (metis surj_pair)
  show ?thesis
  proof (cases "reconcile (es_portfolio es) ws prices")
    case (Inl e)
    then have "r \<noteq> Inr None" "extends es es'"
      using assms c by (auto simp: reconcile_phase_def Let_def extends_def core_def)
    then show ?thesis by (rule failed)
  next
    case (Inr out)
    let ?es2 = "es\<lparr>es_cursor := cur, es_evaluations := es_evaluations es @ [evaluation_of s nxt ws out]\<rparr>"
    show ?thesis
    proof (cases "out_ok out")
      case False
      then have "r \<noteq> Inr None" "extends es es'"
        using assms c Inr by (auto simp: reconcile_phase_def Let_def extends_def core_def)
      then show ?thesis by (rule failed)
    next
      case True
      then have "then_phase (propose_phase cfg s out) (queue_orders nxt out) ?es2 = (r, es')"
        using assms c Inr by (simp add: reconcile_phase_def Let_def evaluation_of_def)
      then show ?thesis
      proof (cases rule: then_phase_cases)
        case (1 es1)
        then have "core es1 = core ?es2" using propose_phase_core by blast
        then show ?thesis using queued[OF Inr True] 1(2) by (auto simp: queue_orders_def core_def)
      next
        case 2
        then have "core es' = core ?es2" using propose_phase_core by blast
        then show ?thesis using 2(2) failed by (auto simp: core_def extends_def)
      qed
    qed
  qed
qed

lemma evaluate_phase_core:
  assumes "evaluate_phase lib cfg s nxt es = (r, es')"
  obtains (failed) "r \<noteq> Inr None" "extends es es'"
    | (queued) ws prices out where "reconcile (es_portfolio es) ws prices = Inr out" "out_ok out"
      "core es' = (es_portfolio es, (if out_orders out = [] then es_pending es else Some (out_orders out, session_date nxt)),
         es_fills es, es_evaluations es @ [evaluation_of s nxt ws out], es_valuations es)"
proof -
  obtain v memo where e: "evaluate_at lib (ec_document cfg) (ec_catalog cfg) (ec_market_data cfg) (ec_run_id cfg) (close_at s)
         (ec_components cfg) (ec_collect_trace cfg) (es_memo es) = (v, memo)" by (metis surj_pair)
  show ?thesis
  proof (cases "\<exists>out ws. v = Inr out \<and> ev_ok out \<and> ev_targets out = Some ws")
    case False
    then have "r \<noteq> Inr None" "core es' = core es"
      using assms e by (cases v; auto simp: evaluate_phase_def Let_def split: bool.splits option.splits)+
    then show ?thesis using failed by (auto simp: core_def extends_def)
  next
    case True
    then obtain out ws where o: "v = Inr out" "ev_ok out" "ev_targets out = Some ws" by blast
    let ?es1 = "es\<lparr>es_memo := memo, es_trace := es_trace es @ ev_trace out\<rparr>"
    have run: "reconcile_phase cfg s nxt ws ?es1 = (r, es')" using assms e o by (simp add: evaluate_phase_def Let_def)
    note outcome = queued failed
    from run show ?thesis
    proof (cases rule: reconcile_phase_core)
      case failed
      then show ?thesis using outcome(2) by (simp add: extends_def)
    next
      case (queued prices rec)
      then show ?thesis using outcome(1)[of ws prices rec] by simp
    qed
  qed
qed

lemma close_phase_core:
  assumes "close_phase lib cfg s es = (r, es')"
  obtains (failed) "r \<noteq> Inr None" "extends es es'"
    | (skipped) "core es' = core es"
    | (queued) nxt ws prices out where "session_date s \<in> set (ec_fires cfg)"
      "next_session_after (calendar (ec_market_data cfg)) (session_date s) = Some nxt"
      "\<And>d. ec_last_session cfg = Some d \<Longrightarrow> session_date nxt \<le> d"
      "reconcile (es_portfolio es) ws prices = Inr out" "out_ok out"
      "core es' = (es_portfolio es, (if out_orders out = [] then es_pending es else Some (out_orders out, session_date nxt)),
         es_fills es, es_evaluations es @ [evaluation_of s nxt ws out], es_valuations es)"
proof -
  let ?cal = "calendar (ec_market_data cfg)"
  note outcome = failed queued
  have idle: thesis if "engine_note cfg s code message es = (r, es')" for code message
    using skipped engine_note_core[OF that] by blast
  show ?thesis
  proof (cases "session_date s \<in> set (ec_fires cfg)")
    case False
    then show ?thesis using assms skipped by (simp add: close_phase_def)
  next
    case fires: True
    show ?thesis
    proof (cases "calendar_index ?cal (session_date s)")
      case None
      then have "r \<noteq> Inr None" "extends es es'" using assms fires by (auto simp: close_phase_def extends_def)
      then show ?thesis by (rule failed)
    next
      case (Some i)
      show ?thesis
      proof (cases "int i + 1 \<le> es_warmup_total es")
        case True
        then show ?thesis using assms fires Some idle by (simp add: close_phase_def Let_def)
      next
        case warm: False
        show ?thesis
        proof (cases "next_session_after ?cal (session_date s)")
          case None
          then show ?thesis using assms fires Some warm idle by (simp add: close_phase_def Let_def)
        next
          case nxt: (Some nxt)
          show ?thesis
          proof (cases "case ec_last_session cfg of None \<Rightarrow> False | Some d \<Rightarrow> d < session_date nxt")
            case True
            then show ?thesis using assms fires Some warm nxt idle by (simp add: close_phase_def Let_def)
          next
            case False
            then have run: "evaluate_phase lib cfg s nxt es = (r, es')"
              using assms fires Some warm nxt by (simp add: close_phase_def Let_def)
            have within: "session_date nxt \<le> d" if "ec_last_session cfg = Some d" for d using False that by simp
            show ?thesis
              using run by (cases rule: evaluate_phase_core) (use outcome(1) outcome(2)[OF fires nxt within] in blast)+
          qed
        qed
      qed
    qed
  qed
qed

subsection \<open>No fill without an earlier order\<close>

text \<open>An evaluation scheduled these orders for the open of a later session.\<close>

definition scheduled :: "engine_config \<Rightarrow> evaluation_record \<Rightarrow> order list \<Rightarrow> date \<Rightarrow> bool" where
  "scheduled cfg er ords d \<longleftrightarrow> ords = out_orders (er_reconciliation er) \<and> er_session er < d \<and> er_fill_session er = Some d \<and>
     (\<forall>s \<in> set (sessions (calendar (ec_market_data cfg))). session_date s = d \<longrightarrow> er_fill_instant er = Some (open_at s))"

text \<open>A fill carries out an order of an evaluation at the close of an earlier session, at the open the
  market showed at the fill instant.\<close>

definition fill_from :: "engine_config \<Rightarrow> evaluation_record \<Rightarrow> fill_event \<Rightarrow> bool" where
  "fill_from cfg er fe \<longleftrightarrow> er_session er < fe_session fe \<and> er_fill_session er = Some (fe_session fe) \<and>
     er_fill_instant er = Some (fe_instant fe) \<and>
     view_open_price (as_of_utc (ec_market_data cfg) (fe_instant fe)) (fill_asset (fe_fill fe)) (fe_session fe) = Some (fill_price (fe_fill fe)) \<and>
     (\<exists>ord \<in> set (out_orders (er_reconciliation er)). fill_side (fe_fill fe) = ord_side ord \<and>
        fill_asset (fe_fill fe) = ord_asset ord \<and> \<not> ord_quantity ord < fill_quantity (fe_fill fe))"

definition safe_run :: "engine_config \<Rightarrow> engine_state \<Rightarrow> bool" where
  "safe_run cfg es \<longleftrightarrow> state_ok (es_portfolio es) \<and>
     (\<forall>ords d. es_pending es = Some (ords, d) \<longrightarrow> (\<forall>ord \<in> set ords. order_ok ord) \<and>
        (\<exists>er \<in> set (es_evaluations es). scheduled cfg er ords d)) \<and>
     (\<forall>fe \<in> set (es_fills es). \<exists>er \<in> set (es_evaluations es). fill_from cfg er fe)"

lemma safe_run_core: "core es' = core es \<Longrightarrow> safe_run cfg es \<Longrightarrow> safe_run cfg es'"
  by (simp add: safe_run_def core_def)

lemma safe_run_extends: "extends es es' \<Longrightarrow> safe_run cfg es \<Longrightarrow> safe_run cfg es'"
  unfolding safe_run_def extends_def by (metis subsetD)

lemma executed_orders:
  assumes "list_all2 (executes prices) xs ys" "f \<in> set ys"
  obtains ord where "ord \<in> set xs" "executes prices ord f"
  using assms list_all2_in_right by (metis (no_types, lifting) in_set_conv_nth list_all2_conv_all_nth)

lemma fills_execute:
  assumes "cursor_ok ds cur" "state_ok st" "\<forall>ord \<in> set ords. order_ok ord"
    "apply_orders open_prices_at st ords (cur, t) d bps = (Inr (after, fs, []), src)"
  shows "state_ok after"
    "\<And>f. f \<in> set fs \<Longrightarrow> \<exists>ord \<in> set ords. executes (\<lambda>a. view_open_price (as_of_utc ds t) a d) ord f"
    "\<And>ord. ord \<in> set ords \<Longrightarrow> \<exists>f \<in> set fs. fill_side f = ord_side ord \<and> fill_asset f = ord_asset ord"
proof -
  have src: "cursor_source_ok (cur, t)" using assms(1) by (auto simp: cursor_source_ok_def)
  have reads: "(\<lambda>a. fst (open_prices_at (cur, t) a d)) = (\<lambda>a. view_open_price (as_of_utc ds t) a d)"
    using cursor_open_price_as_of(1)[OF assms(1)] by (simp add: fun_eq_iff)
  from cursor_feed.apply_orders_outcome[OF src assms(2-4)] obtain sells buys where o: "state_ok after" "fs = sells @ buys"
    "list_all2 (executes (\<lambda>a. view_open_price (as_of_utc ds t) a d)) (canonical_orders Sell ords) sells"
    "list_all2 (executes (\<lambda>a. view_open_price (as_of_utc ds t) a d)) (canonical_orders Buy ords) buys"
    unfolding reads by auto
  show "state_ok after" by (rule o(1))
  show "\<exists>ord \<in> set ords. executes (\<lambda>a. view_open_price (as_of_utc ds t) a d) ord f" if "f \<in> set fs" for f
  proof (cases "f \<in> set sells")
    case True
    then show ?thesis by (rule executed_orders[OF o(3)]) (auto simp: canonical_orders_set)
  next
    case False
    then have "f \<in> set buys" using that o(2) by simp
    then show ?thesis by (rule executed_orders[OF o(4)]) (auto simp: canonical_orders_set)
  qed
  show "\<exists>f \<in> set fs. fill_side f = ord_side ord \<and> fill_asset f = ord_asset ord" if "ord \<in> set ords" for ord
  proof -
    have hit: "\<exists>f \<in> set xs. fill_side f = ord_side ord \<and> fill_asset f = ord_asset ord"
      if "list_all2 (executes P) os xs" "ord \<in> set os" for P os xs
      using list_all2_in_left[OF that] by (auto simp: executes_def)
    show ?thesis
    proof (cases "ord_side ord")
      case Sell
      then have "ord \<in> set (canonical_orders Sell ords)" using that by (simp add: canonical_orders_set)
      from hit[OF o(3) this] show ?thesis unfolding o(2) set_append by blast
    next
      case Buy
      then have "ord \<in> set (canonical_orders Buy ords)" using that by (simp add: canonical_orders_set)
      from hit[OF o(4) this] show ?thesis unfolding o(2) set_append by blast
    qed
  qed
qed

lemma open_phase_safe:
  assumes "open_phase cfg s es = (r, es')" "safe_run cfg es" "cursor_ok (ec_market_data cfg) (es_cursor es)"
    "s \<in> set (sessions (calendar (ec_market_data cfg)))"
  shows "safe_run cfg es'"
  using assms(1)
proof (cases rule: open_phase_core)
  case (filled ords after fs src)
  have p: "\<forall>ord \<in> set ords. order_ok ord" "state_ok (es_portfolio es)"
    using assms(2) filled(1) unfolding safe_run_def by auto
  obtain er where er: "er \<in> set (es_evaluations es)" "scheduled cfg er ords (session_date s)"
    using assms(2) filled(1) unfolding safe_run_def by blast
  note ex = fills_execute[OF assms(3) p(2,1) filled(2)]
  have "fill_from cfg er \<lparr>fe_session = session_date s, fe_instant = open_at s, fe_fill = f\<rparr>" if "f \<in> set fs" for f
    using ex(2)[OF that] er(2) assms(4) unfolding fill_from_def scheduled_def executes_def by auto
  then show ?thesis using assms(2) ex(1) er(1) filled(3) unfolding safe_run_def core_def by auto
qed (use assms(2) safe_run_core in blast)+

lemma valuation_phase_safe:
  assumes "valuation_phase cfg s es = (r, es')" "safe_run cfg es"
  shows "safe_run cfg es'"
proof -
  have "es_portfolio es' = es_portfolio es" "es_pending es' = es_pending es" "es_fills es' = es_fills es" "es_evaluations es' = es_evaluations es"
    using valuation_phase_core[OF assms(1)] by (auto simp: core_def split: if_splits)
  then show ?thesis using assms(2) by (simp add: safe_run_def)
qed

lemma evaluation_scheduled:
  assumes "cal_ok (calendar (ec_market_data cfg))" "next_session_after (calendar (ec_market_data cfg)) (session_date s) = Some nxt"
  shows "scheduled cfg (evaluation_of s nxt ws out) (out_orders out) (session_date nxt)"
proof -
  note n = next_session_after_Some[OF assms]
  have "t = nxt" if "t \<in> set (sessions (calendar (ec_market_data cfg)))" "session_date t = session_date nxt" for t
    using session_on_Some[OF assms(1) that(1)] session_on_Some[OF assms(1) n(1)] that(2) by (metis option.inject)
  then show ?thesis using n(2) unfolding scheduled_def evaluation_of_def by simp blast
qed

lemma close_phase_safe:
  assumes "close_phase lib cfg s es = (r, es')" "safe_run cfg es" "cal_ok (calendar (ec_market_data cfg))"
  shows "safe_run cfg es'"
  using assms(1)
proof (cases rule: close_phase_core)
  case (queued nxt ws prices out)
  have st: "state_ok (es_portfolio es)" using assms(2) by (simp add: safe_run_def)
  have "\<forall>ord \<in> set (out_orders out). order_ok ord" using reconcile_orders[OF st queued(4,5)] by blast
  then show ?thesis
    using assms(2) queued(6) evaluation_scheduled[OF assms(3) queued(2), of ws out]
    unfolding safe_run_def core_def by (auto split: if_splits)
qed (use assms(2) safe_run_core safe_run_extends in blast)+

text \<open>The cursor stays one of the dataset, whatever is read.\<close>

lemma phase_cursor_ok:
  assumes "phase_rel (engines_agree ds ds) p p" "cursor_ok ds (es_cursor es)" "p es = (r, es')"
  shows "cursor_ok ds (es_cursor es')"
proof -
  have "engines_agree ds ds es es" using assms(2) by (simp add: engines_agree_def cursors_agree_def)
  from phase_relD[OF assms(1) this] assms(3) show ?thesis by (simp add: engines_agree_def cursors_agree_def)
qed

lemma own_data: "cfg\<lparr>ec_market_data := ec_market_data cfg\<rparr> = (cfg :: engine_config)"
  by simp

lemma phases_cursor_ok:
  fixes cfg :: engine_config
  assumes "cursor_ok (ec_market_data cfg) (es_cursor es)"
  shows "open_phase cfg s es = (r, es') \<Longrightarrow> cursor_ok (ec_market_data cfg) (es_cursor es')"
    "valuation_phase cfg s es = (r, es') \<Longrightarrow> cursor_ok (ec_market_data cfg) (es_cursor es')"
    "close_phase lib cfg s es = (r, es') \<Longrightarrow> cursor_ok (ec_market_data cfg) (es_cursor es')"
    "engine_step lib cfg s es = (r, es') \<Longrightarrow> cursor_ok (ec_market_data cfg) (es_cursor es')"
  using phase_cursor_ok[OF _ assms] open_phase_agree[of "ec_market_data cfg" s "ec_market_data cfg" cfg, unfolded own_data]
    valuation_phase_agree[of "ec_market_data cfg" s "ec_market_data cfg" cfg, unfolded own_data]
    close_phase_agree[of cfg s "ec_market_data cfg" lib, unfolded own_data]
    engine_step_agree[of cfg s "ec_market_data cfg" lib, unfolded own_data] by blast+

lemma engine_step_safe:
  assumes "engine_step lib cfg s es = (r, es')" "safe_run cfg es" "cursor_ok (ec_market_data cfg) (es_cursor es)"
    "s \<in> set (sessions (calendar (ec_market_data cfg)))" "cal_ok (calendar (ec_market_data cfg))"
  shows "safe_run cfg es'"
  using assms(1) unfolding engine_step_def
proof (cases rule: then_phase_cases)
  case (1 es1)
  note s1 = open_phase_safe[OF 1(1) assms(2-4)] and c1 = phases_cursor_ok(1)[OF assms(3) 1(1)]
  from 1(2) show ?thesis
  proof (cases rule: then_phase_cases)
    case (1 es2)
    show ?thesis using close_phase_safe[OF 1(2) valuation_phase_safe[OF 1(1) s1] assms(5)] .
  qed (rule valuation_phase_safe[OF _ s1])
qed (rule open_phase_safe[OF _ assms(2-4)])

lemma run_sessions_safe:
  "run_sessions lib cfg ss es = (r, es') \<Longrightarrow> safe_run cfg es \<Longrightarrow> cursor_ok (ec_market_data cfg) (es_cursor es) \<Longrightarrow>
   set ss \<subseteq> set (sessions (calendar (ec_market_data cfg))) \<Longrightarrow> cal_ok (calendar (ec_market_data cfg)) \<Longrightarrow> safe_run cfg es'"
proof (induction ss arbitrary: es)
  case (Cons s ss)
  from Cons.prems(1) have "then_phase (engine_step lib cfg s) (run_sessions lib cfg ss) es = (r, es')" by simp
  then show ?case
  proof (cases rule: then_phase_cases)
    case (1 es1)
    show ?thesis
      by (rule Cons.IH[OF 1(2)]) (use Cons.prems engine_step_safe[OF 1(1)] phases_cursor_ok(4)[OF _ 1(1)] in auto)
  next
    case 2
    show ?thesis using engine_step_safe[OF 2(1)] Cons.prems by simp
  qed
qed simp

subsection \<open>A completed session\<close>

text \<open>Every order of an evaluation is pending for the session it was scheduled for, or filled there.\<close>

definition carried_out :: "engine_state \<Rightarrow> evaluation_record \<Rightarrow> order \<Rightarrow> bool" where
  "carried_out es er ord \<longleftrightarrow> (\<exists>fe \<in> set (es_fills es). er_fill_session er = Some (fe_session fe) \<and>
     fill_side (fe_fill fe) = ord_side ord \<and> fill_asset (fe_fill fe) = ord_asset ord)"

definition orders_tracked :: "engine_state \<Rightarrow> bool" where
  "orders_tracked es \<longleftrightarrow> (\<forall>er \<in> set (es_evaluations es). \<forall>ord \<in> set (out_orders (er_reconciliation er)).
     carried_out es er ord \<or> (\<exists>ords d. es_pending es = Some (ords, d) \<and> ord \<in> set ords \<and> er_fill_session er = Some d))"

definition pending_at :: "engine_state \<Rightarrow> date option \<Rightarrow> bool" where
  "pending_at es d \<longleftrightarrow> (case es_pending es of None \<Rightarrow> True | Some (ords, d') \<Rightarrow> d = Some d')"

lemma carried_out_mono: "set (es_fills es) \<subseteq> set (es_fills es') \<Longrightarrow> carried_out es er ord \<Longrightarrow> carried_out es' er ord"
  unfolding carried_out_def by blast

text \<open>After the open nothing is pending, when what was pending was for this session.\<close>

lemma open_phase_settles:
  assumes "open_phase cfg s es = (Inr None, es')" "safe_run cfg es" "cursor_ok (ec_market_data cfg) (es_cursor es)"
    "orders_tracked es" "pending_at es (Some (session_date s))"
  shows "orders_tracked es'" "es_pending es' = None" "es_valuations es' = es_valuations es"
proof -
  have "orders_tracked es' \<and> es_pending es' = None \<and> es_valuations es' = es_valuations es"
    using assms(1)
  proof (cases rule: open_phase_core)
    case idle
    then have "es_pending es = None" using assms(5) by (cases "es_pending es") (auto simp: pending_at_def)
    then show ?thesis using assms(4) coreD[OF idle(1)] by (simp add: orders_tracked_def carried_out_def)
  next
    case (filled ords after fs src)
    have p: "\<forall>ord \<in> set ords. order_ok ord" "state_ok (es_portfolio es)"
      using assms(2) filled(1) unfolding safe_run_def by auto
    note ex = fills_execute(3)[OF assms(3) p(2,1) filled(2)]
    have f: "es_fills es' = es_fills es @ map (\<lambda>f. \<lparr>fe_session = session_date s, fe_instant = open_at s, fe_fill = f\<rparr>) fs"
      "es_pending es' = None" "es_valuations es' = es_valuations es" "es_evaluations es' = es_evaluations es"
      using filled(3) by (simp_all add: core_def)
    have "carried_out es' er ord" if er: "er \<in> set (es_evaluations es)" and ord: "ord \<in> set (out_orders (er_reconciliation er))" for er ord
    proof (cases "carried_out es er ord")
      case True
      then show ?thesis by (rule carried_out_mono[rotated]) (simp add: f)
    next
      case False
      then have q: "ord \<in> set ords" "er_fill_session er = Some (session_date s)"
        using assms(4) er ord filled(1) unfolding orders_tracked_def by fastforce+
      obtain f where "f \<in> set fs" "fill_side f = ord_side ord" "fill_asset f = ord_asset ord" using ex[OF q(1)] by blast
      then show ?thesis using q(2) unfolding carried_out_def f(1) by force
    qed
    then show ?thesis using f by (auto simp: orders_tracked_def)
  qed simp
  then show "orders_tracked es'" "es_pending es' = None" "es_valuations es' = es_valuations es" by blast+
qed

lemma orders_tracked_same:
  "es_fills es' = es_fills es \<Longrightarrow> es_pending es' = es_pending es \<Longrightarrow> es_evaluations es' = es_evaluations es \<Longrightarrow>
   orders_tracked es \<Longrightarrow> orders_tracked es'"
  by (simp add: orders_tracked_def carried_out_def)

lemma close_phase_tracks:
  assumes "close_phase lib cfg s es = (Inr None, es')" "orders_tracked es" "es_pending es = None"
  shows "orders_tracked es'" "es_valuations es' = es_valuations es"
    "es_pending es' = None \<or> (\<exists>nxt ords. next_session_after (calendar (ec_market_data cfg)) (session_date s) = Some nxt \<and>
       es_pending es' = Some (ords, session_date nxt) \<and> (\<forall>d. ec_last_session cfg = Some d \<longrightarrow> session_date nxt \<le> d))"
proof -
  have "orders_tracked es' \<and> es_valuations es' = es_valuations es \<and>
    (es_pending es' = None \<or> (\<exists>nxt ords. next_session_after (calendar (ec_market_data cfg)) (session_date s) = Some nxt \<and>
       es_pending es' = Some (ords, session_date nxt) \<and> (\<forall>d. ec_last_session cfg = Some d \<longrightarrow> session_date nxt \<le> d)))"
    using assms(1)
  proof (cases rule: close_phase_core)
    case skipped
    then show ?thesis using assms(2,3) orders_tracked_same coreD[OF skipped] by metis
  next
    case (queued nxt ws prices out)
    have c: "es_fills es' = es_fills es" "es_evaluations es' = es_evaluations es @ [evaluation_of s nxt ws out]" "es_valuations es' = es_valuations es"
      "es_pending es' = (if out_orders out = [] then None else Some (out_orders out, session_date nxt))"
      using queued(6) assms(3) by (simp_all add: core_def)
    have "carried_out es' er ord" if "er \<in> set (es_evaluations es)" "ord \<in> set (out_orders (er_reconciliation er))" for er ord
      using assms(2,3) that carried_out_mono[of es es' er ord] c(1) unfolding orders_tracked_def by auto
    then have "orders_tracked es'" unfolding orders_tracked_def c(2) by (auto simp: c(4) evaluation_of_def)
    then show ?thesis using c queued(2,3) by auto
  qed simp
  then show "orders_tracked es'" "es_valuations es' = es_valuations es"
    "es_pending es' = None \<or> (\<exists>nxt ords. next_session_after (calendar (ec_market_data cfg)) (session_date s) = Some nxt \<and>
       es_pending es' = Some (ords, session_date nxt) \<and> (\<forall>d. ec_last_session cfg = Some d \<longrightarrow> session_date nxt \<le> d))" by blast+
qed

subsection \<open>A run over its window\<close>

text \<open>The window is a contiguous stretch of the calendar: the session after one of its sessions is the
  next of the window, or beyond its end.\<close>

lemma run_window_sorted: "cal_ok cal \<Longrightarrow> sorted_wrt (\<lambda>a b. session_date a < session_date b) (run_window cal f l)"
  unfolding run_window_def
  by (rule sorted_wrt_filter) (auto simp: cal_ok_def session_before_def elim!: sorted_wrt_mono_rel[rotated])

lemma run_window_next:
  assumes "cal_ok cal" "run_window cal f l = xs @ [a] @ ys" "next_session_after cal (session_date a) = Some nxt"
    "\<And>d. l = Some d \<Longrightarrow> session_date nxt \<le> d"
  shows "\<exists>ys'. ys = nxt # ys'"
proof -
  note n = next_session_after_Some[OF assms(1,3)]
  have a: "a \<in> set (run_window cal f l)" using assms(2) by simp
  then have "case f of None \<Rightarrow> True | Some d \<Rightarrow> d \<le> session_date a" by (simp add: run_window_def)
  then have "case f of None \<Rightarrow> True | Some d \<Rightarrow> d \<le> session_date nxt"
    using n(2) by (cases f) auto
  then have mem: "nxt \<in> set (run_window cal f l)"
    using n(1) assms(4) by (auto simp: run_window_def split: option.split)
  have sorted: "sorted_wrt (\<lambda>a b. session_date a < session_date b) (xs @ [a] @ ys)" using run_window_sorted[OF assms(1), of f l] assms(2) by simp
  have "nxt \<in> set ys" using mem n(2) sorted unfolding assms(2) by (auto simp: sorted_wrt_append)
  then obtain y ys' where ys: "ys = y # ys'" "y = nxt \<or> nxt \<in> set ys'" by (cases ys) auto
  have y: "y \<in> set (sessions cal)" "session_date a < session_date y"
    using assms(2) sorted ys run_window_mem[of y cal f l] by (auto simp: sorted_wrt_append)
  have "session_date nxt \<le> session_date y" using n(3)[OF y] .
  moreover have "session_date y < session_date nxt" if "nxt \<in> set ys'" using sorted that ys by (simp add: sorted_wrt_append)
  ultimately show ?thesis using ys by auto
qed

definition window_config :: "engine_config \<Rightarrow> bool" where
  "window_config cfg \<longleftrightarrow> ds_ok (ec_market_data cfg) \<and>
     (\<exists>f. ec_sessions cfg = run_window (calendar (ec_market_data cfg)) f (ec_last_session cfg))"

text \<open>Between sessions: what is pending is for the next session of the window.\<close>

definition between_sessions :: "engine_config \<Rightarrow> market_session list \<Rightarrow> market_session list \<Rightarrow> engine_state \<Rightarrow> bool" where
  "between_sessions cfg processed todo es \<longleftrightarrow> safe_run cfg es \<and> cursor_ok (ec_market_data cfg) (es_cursor es) \<and> orders_tracked es \<and>
     map fst (es_valuations es) = map session_date processed \<and>
     (es_pending es = None \<or> (\<exists>ords s ss. todo = s # ss \<and> es_pending es = Some (ords, session_date s)))"

lemma engine_step_between:
  assumes cfg: "window_config cfg" "ec_sessions cfg = processed @ s # todo"
    and inv: "between_sessions cfg processed (s # todo) es" and run: "engine_step lib cfg s es = (Inr None, es')"
  shows "between_sessions cfg (processed @ [s]) todo es'"
proof -
  let ?cal = "calendar (ec_market_data cfg)"
  obtain f where w: "ec_sessions cfg = run_window ?cal f (ec_last_session cfg)" using cfg(1) by (auto simp: window_config_def)
  have cal: "cal_ok ?cal" using cfg(1) by (simp add: window_config_def ds_ok_def)
  have s: "s \<in> set (sessions ?cal)" using cfg(2) w run_window_mem[of s ?cal f "ec_last_session cfg"] by simp
  have i: "safe_run cfg es" "cursor_ok (ec_market_data cfg) (es_cursor es)" "orders_tracked es"
    "map fst (es_valuations es) = map session_date processed" "pending_at es (Some (session_date s))"
    using inv by (auto simp: between_sessions_def pending_at_def)
  from run obtain es1 es2 where r: "open_phase cfg s es = (Inr None, es1)" "valuation_phase cfg s es1 = (Inr None, es2)"
    "close_phase lib cfg s es2 = (Inr None, es')"
    unfolding engine_step_def by (auto elim!: then_phase_cases)
  note o = open_phase_settles[OF r(1) i(1,2,3,5)]
  obtain v where v: "core es2 = (es_portfolio es1, es_pending es1, es_fills es1, es_evaluations es1, es_valuations es1 @ [(session_date s, v)])"
    using valuation_phase_core[OF r(2)] by auto
  have t: "orders_tracked es2" by (rule orders_tracked_same[OF _ _ _ o(1)]) (use v in \<open>simp_all add: core_def\<close>)
  have none: "es_pending es2 = None" using v o(2) by (simp add: core_def)
  note c = close_phase_tracks[OF r(3) t none]
  have "es_pending es' = None \<or> (\<exists>ords n ns. todo = n # ns \<and> es_pending es' = Some (ords, session_date n))"
  proof (cases "es_pending es' = None")
    case False
    then obtain nxt ords where n: "next_session_after ?cal (session_date s) = Some nxt" "es_pending es' = Some (ords, session_date nxt)"
      "\<forall>d. ec_last_session cfg = Some d \<longrightarrow> session_date nxt \<le> d" using c(3) by (elim disjE exE conjE) simp_all
    have split: "run_window ?cal f (ec_last_session cfg) = processed @ [s] @ todo" using cfg(2) w by simp
    from run_window_next[OF cal split n(1)] n(2,3) show ?thesis by blast
  qed simp
  moreover have "map fst (es_valuations es') = map session_date (processed @ [s])"
    using c(2) v o(3) i(4) by (simp add: core_def)
  moreover have "safe_run cfg es'" by (rule engine_step_safe[OF run i(1,2) s cal])
  moreover have "cursor_ok (ec_market_data cfg) (es_cursor es')" by (rule phases_cursor_ok(4)[OF i(2) run])
  ultimately show ?thesis using c(1) by (simp add: between_sessions_def)
qed

lemma run_sessions_between:
  "window_config cfg \<Longrightarrow> ec_sessions cfg = processed @ todo \<Longrightarrow> between_sessions cfg processed todo es \<Longrightarrow>
   run_sessions lib cfg todo es = (Inr None, es') \<Longrightarrow> between_sessions cfg (processed @ todo) [] es'"
proof (induction todo arbitrary: processed es)
  case (Cons s todo)
  from Cons.prems(4) have "then_phase (engine_step lib cfg s) (run_sessions lib cfg todo) es = (Inr None, es')" by simp
  then obtain es1 where r: "engine_step lib cfg s es = (Inr None, es1)" "run_sessions lib cfg todo es1 = (Inr None, es')"
    by (auto elim!: then_phase_cases)
  have "between_sessions cfg (processed @ [s]) todo es1" by (rule engine_step_between[OF Cons.prems(1-3) r(1)])
  from Cons.IH[OF Cons.prems(1) _ this r(2)] Cons.prems(2) show ?case by simp
qed simp

lemma engine_preflight_core: "engine_preflight lib cfg es = (r, es') \<Longrightarrow> core es' = core es \<and> es_cursor es' = es_cursor es"
  by (auto simp: engine_preflight_def Let_def split: sum.splits if_splits)

lemma new_engine_between:
  assumes "window_config cfg" "state_ok initial" "engine_preflight lib cfg (new_engine (ec_market_data cfg) initial) = (r, es)"
  shows "between_sessions cfg [] (ec_sessions cfg) es"
proof -
  have "cursor_ok (ec_market_data cfg) (es_cursor es)" using engine_preflight_core[OF assms(3)] assms(1) new_cursor_ok
    by (simp add: window_config_def new_engine_def)
  then show ?thesis using engine_preflight_core[OF assms(3)] assms(2)
    by (auto simp: core_def new_engine_def between_sessions_def safe_run_def orders_tracked_def)
qed

text \<open>Whatever the end of the run.\<close>

lemma run_configured_outcome:
  assumes "window_config cfg" "state_ok initial" "run_configured lib cfg initial = Inr out"
  obtains es where "safe_run cfg es" "br_final_state out = es_portfolio es" "br_fills out = es_fills es" "br_evaluations out = es_evaluations es"
    "br_valuations out = es_valuations es" "br_ok out \<Longrightarrow> between_sessions cfg (ec_sessions cfg) [] es"
proof -
  let ?es = "new_engine (ec_market_data cfg) initial"
  obtain r es where run: "then_phase (engine_preflight lib cfg) (run_sessions lib cfg (ec_sessions cfg)) ?es = (r, es)" by (metis surj_pair)
  then obtain failure where f: "r = Inr failure" "out = (case failure of None \<Rightarrow> finish cfg es True [] | Some ds \<Rightarrow> finish cfg es False ds)"
    using assms(3) by (cases r) (auto simp: run_configured_def assemble_def)
  have cal: "cal_ok (calendar (ec_market_data cfg))" "set (ec_sessions cfg) \<subseteq> set (sessions (calendar (ec_market_data cfg)))"
    using assms(1) run_window_mem by (auto simp: window_config_def ds_ok_def)
  have "safe_run cfg es \<and> (failure = None \<longrightarrow> between_sessions cfg (ec_sessions cfg) [] es)"
    using run
  proof (cases rule: then_phase_cases)
    case (1 es1)
    note b = new_engine_between[OF assms(1,2) 1(1)]
    have "safe_run cfg es" by (rule run_sessions_safe[OF 1(2) _ _ cal(2,1)]) (use b in \<open>simp_all add: between_sessions_def\<close>)
    then show ?thesis using run_sessions_between[OF assms(1) _ b] 1(2) f(1) by auto
  next
    case 2
    from new_engine_between[OF assms(1,2) 2(1)] show ?thesis using 2(2) f(1) by (auto simp: between_sessions_def)
  qed
  then show ?thesis using that[of es] f(2) by (cases failure) (simp_all add: finish_def Let_def)
qed

lemma engine_config_of_window: "ds_ok ds \<Longrightarrow> window_config (engine_config_of doc catalog ds run comps f l collect)"
  by (auto simp: window_config_def engine_config_of_def)

end
