(* ===== verification/Summaries.thy ===== *)
theory Summaries
  imports Values
begin

section \<open>Summaries of runtime values\<close>

text \<open>\<open>quantize/runtime/summarize.py\<close>: the digest of a node's output that is served to a
  client. \<open>min\<close> and \<open>max\<close> of a list keep the first of equal elements.\<close>

definition series_preview_cap :: nat where
  "series_preview_cap = 64"

record cross_summary =
  xs_dtype :: cross_dtype
  xs_domain_count :: nat
  xs_present_count :: nat
  xs_missing :: "string list"
  xs_min :: "pyfloat option"
  xs_max :: "pyfloat option"
  xs_true_count :: "nat option"
  xs_false_count :: "nat option"
  xs_values :: "(string \<times> pynum) list"

record series_summary =
  ts_asset_count :: nat
  ts_total_points :: nat
  ts_first_date :: "date option"
  ts_last_date :: "date option"
  ts_preview :: time_series

record targets_summary =
  pt_count :: nat
  pt_weight_sum :: pyfloat
  pt_cash :: pyfloat
  pt_values :: targets

datatype value_summary =
    ScalarSummary scalar
  | AssetSetSummary nat "string list"
  | CrossSectionSummary cross_summary
  | TimeSeriesSummary series_summary
  | TargetsSummary targets_summary

definition py_min_list :: "pyfloat list \<Rightarrow> pyfloat option" where
  "py_min_list xs = (case xs of [] \<Rightarrow> None | y # ys \<Rightarrow> Some (foldl py_min y ys))"

definition py_max_list :: "pyfloat list \<Rightarrow> pyfloat option" where
  "py_max_list xs = (case xs of [] \<Rightarrow> None | y # ys \<Rightarrow> Some (foldl py_max y ys))"

definition cell_number :: "pynum \<Rightarrow> pyfloat" where
  "cell_number v = (case v of PyFloat x \<Rightarrow> x | _ \<Rightarrow> NaN)"

definition summarize_cross :: "cross_section \<Rightarrow> cross_summary" where
  "summarize_cross cs =
     (let present = cs_values cs;
          numbers = (if cs_dtype cs = NumberX then map (\<lambda>(a, v). cell_number v) present else []);
          trues = length (filter (\<lambda>(a, v). v = PyBool True) present)
      in \<lparr>xs_dtype = cs_dtype cs, xs_domain_count = length (cs_domain cs), xs_present_count = length present,
          xs_missing = missing_assets cs, xs_min = py_min_list numbers, xs_max = py_max_list numbers,
          xs_true_count = (if cs_dtype cs = BooleanX then Some trues else None),
          xs_false_count = (if cs_dtype cs = BooleanX then Some (length present - trues) else None),
          xs_values = present\<rparr>)"

fun series_span :: "time_series \<Rightarrow> date option \<Rightarrow> date option \<Rightarrow> date option \<times> date option" where
  "series_span [] first_date last_date = (first_date, last_date)"
| "series_span ((asset, history) # rest) first_date last_date =
     (if history = [] then series_span rest first_date last_date
      else series_span rest
        (Some (case first_date of None \<Rightarrow> fst (hd history) | Some d \<Rightarrow> min d (fst (hd history))))
        (Some (case last_date of None \<Rightarrow> fst (last history) | Some d \<Rightarrow> max d (fst (last history)))))"

definition preview_of :: "history_points \<Rightarrow> history_points" where
  "preview_of history = drop (length history - series_preview_cap) history"

definition summarize_series :: "time_series \<Rightarrow> series_summary" where
  "summarize_series ts =
     (let (first_date, last_date) = series_span ts None None
      in \<lparr>ts_asset_count = length ts, ts_total_points = sum_list (map (\<lambda>(a, h). length h) ts),
          ts_first_date = first_date, ts_last_date = last_date,
          ts_preview = map (\<lambda>(a, h). (a, preview_of h)) ts\<rparr>)"

fun summarize :: "runtime_value \<Rightarrow> value_summary" where
  "summarize (ScalarV s) = ScalarSummary s"
| "summarize (AssetSetV assets) = AssetSetSummary (length assets) assets"
| "summarize (CrossSectionV cs) = CrossSectionSummary (summarize_cross cs)"
| "summarize (TimeSeriesV ts) = TimeSeriesSummary (summarize_series ts)"
| "summarize (TargetsV ws) = TargetsSummary
     \<lparr>pt_count = length ws, pt_weight_sum = invested_weight ws, pt_cash = cash_weight ws, pt_values = ws\<rparr>"

subsection \<open>What the digests say\<close>

lemma foldl_py_min:
  "\<forall>x \<in> set (y # ys). x \<noteq> NaN \<Longrightarrow> foldl py_min y ys \<in> set (y # ys) \<and> (\<forall>x \<in> set (y # ys). foldl py_min y ys \<le> x)"
proof (induction ys arbitrary: y)
  case (Cons z zs)
  have "py_min y z \<noteq> NaN" using Cons.prems by (simp add: py_min_def)
  then have "foldl py_min (py_min y z) zs \<in> set (py_min y z # zs) \<and>
      (\<forall>x \<in> set (py_min y z # zs). foldl py_min (py_min y z) zs \<le> x)"
    using Cons.prems by (intro Cons.IH) auto
  moreover have "py_min y z \<le> y" "py_min y z \<le> z" using Cons.prems py_min_le[of y z] by auto
  ultimately show ?case using py_min_cases[of y z] by (auto intro: pf_le_trans)
qed (simp add: pf_refl)

lemma foldl_py_max:
  "\<forall>x \<in> set (y # ys). x \<noteq> NaN \<Longrightarrow> foldl py_max y ys \<in> set (y # ys) \<and> (\<forall>x \<in> set (y # ys). x \<le> foldl py_max y ys)"
proof (induction ys arbitrary: y)
  case (Cons z zs)
  have "py_max y z \<noteq> NaN" using Cons.prems by (simp add: py_max_def)
  then have "foldl py_max (py_max y z) zs \<in> set (py_max y z # zs) \<and>
      (\<forall>x \<in> set (py_max y z # zs). x \<le> foldl py_max (py_max y z) zs)"
    using Cons.prems by (intro Cons.IH) auto
  moreover have "y \<le> py_max y z" "z \<le> py_max y z" using Cons.prems py_max_ge[of y z] by auto
  ultimately show ?case using py_max_cases[of y z] by (auto intro: pf_le_trans)
qed (simp add: pf_refl)

lemma cross_ok_numbers:
  "cross_ok cs \<Longrightarrow> cs_dtype cs = NumberX \<Longrightarrow> (a, v) \<in> set (cs_values cs) \<Longrightarrow>
   v = PyFloat (cell_number v) \<and> cell_number v \<noteq> NaN"
  by (fastforce simp: cross_ok_def cell_ok_def cell_number_def number_ok_def split: pynum.splits)

lemma summarize_cross_range:
  assumes "cross_ok cs" "cs_dtype cs = NumberX" "cs_values cs \<noteq> []"
  shows "\<exists>lo hi. xs_min (summarize_cross cs) = Some lo \<and> xs_max (summarize_cross cs) = Some hi \<and>
    PyFloat lo \<in> snd ` set (cs_values cs) \<and> PyFloat hi \<in> snd ` set (cs_values cs) \<and>
    (\<forall>(a, v) \<in> set (cs_values cs). lo \<le> cell_number v \<and> cell_number v \<le> hi)"
proof -
  obtain y ys where l: "map (\<lambda>(a, v). cell_number v) (cs_values cs) = y # ys"
    using assms(3) by (cases "cs_values cs") auto
  have mem: "x \<in> set (y # ys) \<longleftrightarrow> (\<exists>(a, v) \<in> set (cs_values cs). x = cell_number v)" for x
    unfolding l[symmetric] by auto
  have ok: "\<forall>x \<in> set (y # ys). x \<noteq> NaN" using cross_ok_numbers[OF assms(1,2)] by (metis (mono_tags, lifting) mem case_prodE)
  have img: "PyFloat x \<in> snd ` set (cs_values cs)" if "x \<in> set (y # ys)" for x
    using that cross_ok_numbers[OF assms(1,2)] unfolding mem by (force intro: rev_image_eqI)
  have "xs_min (summarize_cross cs) = Some (foldl py_min y ys)" "xs_max (summarize_cross cs) = Some (foldl py_max y ys)"
    using assms(2) l by (simp_all add: summarize_cross_def py_min_list_def py_max_list_def Let_def)
  moreover have "\<forall>(a, v) \<in> set (cs_values cs). cell_number v \<in> set (y # ys)"
    unfolding l[symmetric] by force
  ultimately show ?thesis
    using foldl_py_min[OF ok] foldl_py_max[OF ok] img
    by (intro exI[of _ "foldl py_min y ys"] exI[of _ "foldl py_max y ys"]) blast
qed

lemma summarize_cross_tally:
  assumes "cross_ok cs" "cs_dtype cs = BooleanX"
  shows "\<exists>t f. xs_true_count (summarize_cross cs) = Some t \<and> xs_false_count (summarize_cross cs) = Some f \<and>
    t = length (filter (\<lambda>(a, v). v = PyBool True) (cs_values cs)) \<and>
    f = length (filter (\<lambda>(a, v). v = PyBool False) (cs_values cs)) \<and> t + f = xs_present_count (summarize_cross cs)"
proof -
  have "(\<not> (case x of (a, v) \<Rightarrow> v = PyBool True)) = (case x of (a, v) \<Rightarrow> v = PyBool False)"
    if "x \<in> set (cs_values cs)" for x
  proof -
    obtain a v where x: "x = (a, v)" by (cases x)
    then have "cell_ok BooleanX v" using assms that by (auto simp: cross_ok_def)
    then show ?thesis by (cases v) (auto simp: x cell_ok_def)
  qed
  then have f: "filter (\<lambda>x. \<not> (case x of (a, v) \<Rightarrow> v = PyBool True)) (cs_values cs) =
      filter (\<lambda>(a, v). v = PyBool False) (cs_values cs)" by (intro filter_cong) auto
  have "length (filter (\<lambda>(a, v). v = PyBool True) (cs_values cs)) +
      length (filter (\<lambda>(a, v). v = PyBool False) (cs_values cs)) = length (cs_values cs)"
    using sum_length_filter_compl[of "\<lambda>(a, v). v = PyBool True" "cs_values cs"] unfolding f .
  then show ?thesis
    using assms(2) by (intro exI conjI) (simp_all add: summarize_cross_def Let_def)
qed

lemma preview_suffix: "\<exists>older. h = older @ preview_of h" "length (preview_of h) \<le> series_preview_cap"
  by (auto simp: preview_of_def intro: exI[of _ "take (length h - series_preview_cap) h"])

end
