(* ===== verification/Instants.thy ===== *)
theory Instants
  imports Dates
begin

section \<open>ISO text of dates and instants\<close>

text \<open>
  What the store uses of \<open>datetime\<close>: the ISO text of dates and UTC instants, its parsers and the
  UTC date of an instant. An instant counts microseconds from \<open>0001-01-01T00:00:00+00:00\<close>. The parsers
  read the extended format that \<open>isoformat\<close> writes (date, \<open>T\<close>, time, optional six-digit fraction,
  optional offset); other spellings of ISO 8601 are not modelled and are rejected.
\<close>

subsection \<open>The date of an ordinal\<close>

definition year_of_ordinal :: "int \<Rightarrow> int" where
  "year_of_ordinal n =
     (let y = ((n - 1) * 400) div 146097 + 1 in if days_before_year (y + 1) < n then y + 1 else y)"

fun month_from :: "int \<Rightarrow> int \<Rightarrow> nat \<Rightarrow> int" where
  "month_from y k (Suc m) =
     (if m = 0 \<or> days_before_month y (int (Suc m)) < k then int (Suc m) else month_from y k m)"
| "month_from y k 0 = 1"

definition ordinal_date :: "int \<Rightarrow> date" where
  "ordinal_date n =
     (let y = year_of_ordinal n; k = n - days_before_year y; m = month_from y k 12
      in Date y m (k - days_before_month y m))"

lemma year_of_ordinal_bounds:
  "days_before_year (year_of_ordinal n) < n \<and> n \<le> days_before_year (year_of_ordinal n + 1)"
proof -
  define k where "k = ((n - 1) * 400) div 146097"
  have lo: "146097 * k \<le> (n - 1) * 400" "(n - 1) * 400 < 146097 * (k + 1)"
    using div_mult_mod_eq[of "(n - 1) * 400" 146097] pos_mod_sign[of 146097 "(n - 1) * 400"]
      pos_mod_bound[of 146097 "(n - 1) * 400"] by (simp_all add: k_def)
  have q: "c * (j div c) \<le> j" "j < c * (j div c) + c" if "0 < c" for j c :: int
    using mult_div_mod_eq[of c j] pos_mod_sign[OF that, of j] pos_mod_bound[OF that, of j] by linarith+
  have below: "365 * k + k div 4 - k div 100 + k div 400 < n"
    using lo q[of 4 k] q[of 100 k] q[of 400 k] by simp
  have above: "n \<le> 365 * (k + 2) + (k + 2) div 4 - (k + 2) div 100 + (k + 2) div 400"
    using lo q[of 4 "k + 2"] q[of 100 "k + 2"] q[of 400 "k + 2"] by simp
  have at: "days_before_year (j + 1) = 365 * j + j div 4 - j div 100 + j div 400" for j
    by (simp add: days_before_year_def)
  have two: "days_before_year (k + 3) = 365 * (k + 2) + (k + 2) div 4 - (k + 2) div 100 + (k + 2) div 400"
    using at[of "k + 2"] by (simp add: add.commute)
  have one: "days_before_year (k + 1) < n" "n \<le> days_before_year (k + 3)" using below above at[of k] two by simp_all
  have y: "year_of_ordinal n = (if days_before_year (k + 2) < n then k + 2 else k + 1)"
    by (simp add: year_of_ordinal_def k_def Let_def add.commute)
  have sums: "k + 1 + 1 = k + 2" "k + 2 + 1 = k + 3" by simp_all
  show ?thesis unfolding y using one by (auto simp only: sums split: if_splits)
qed

lemma month_from_ok:
  assumes "1 \<le> k" "k \<le> (if is_leap y then 366 else 365)"
  shows "1 \<le> month_from y k 12 \<and> month_from y k 12 \<le> 12 \<and> days_before_month y (month_from y k 12) < k \<and>
    k \<le> days_before_month y (month_from y k 12) + days_in_month y (month_from y k 12)"
  using assms by (auto simp: numeral_eq_Suc days_before_month_def days_in_month_def)

lemma ordinal_date_ok: "date_ok (ordinal_date n)" and ymd2ord_ordinal_date: "ymd2ord (ordinal_date n) = n"
proof -
  let ?y = "year_of_ordinal n"
  let ?k = "n - days_before_year ?y"
  have "1 \<le> ?k" "?k \<le> (if is_leap ?y then 366 else 365)"
    using year_of_ordinal_bounds[of n] days_before_year_step[of ?y] by (auto split: if_splits)
  from month_from_ok[OF this] show "date_ok (ordinal_date n)" "ymd2ord (ordinal_date n) = n"
    by (auto simp: ordinal_date_def Let_def)
qed

lemma ordinal_date_ymd2ord: "date_ok d \<Longrightarrow> ordinal_date (ymd2ord d) = d"
  using ymd2ord_strict_mono[OF ordinal_date_ok] ymd2ord_strict_mono[OF _ ordinal_date_ok] ymd2ord_ordinal_date
  by (metis less_irrefl linorder_neqE)

subsection \<open>Digits\<close>

fun digit_value :: "char \<Rightarrow> nat option" where
  "digit_value c = (let n = of_char c :: nat in if 48 \<le> n \<and> n \<le> 57 then Some (n - 48) else None)"

fun digits_from :: "nat \<Rightarrow> string \<Rightarrow> nat option" where
  "digits_from acc [] = Some acc"
| "digits_from acc (c # cs) = (case digit_value c of None \<Rightarrow> None | Some d \<Rightarrow> digits_from (10 * acc + d) cs)"

definition undigits :: "string \<Rightarrow> int option" where
  "undigits s = (if s = [] then None else map_option int (digits_from 0 s))"

declare digit_value.simps [simp del]

lemma digit_value_digit: "d < 10 \<Longrightarrow> digit_value (digit_char d) = Some d"
  by (simp add: digit_value.simps digit_char_def)

lemma digits_from_append:
  "digits_from a (xs @ ys) = (case digits_from a xs of None \<Rightarrow> None | Some b \<Rightarrow> digits_from b ys)"
  by (induction a xs rule: digits_from.induct) (auto split: option.splits)

lemma digits_from_dec_nat: "digits_from 0 (dec_nat n) = Some n"
proof (induction n rule: dec_nat.induct)
  case (1 n)
  show ?case
  proof (cases "n < 10")
    case True
    then show ?thesis by (simp add: dec_nat.simps[of n] digit_value_digit)
  next
    case False
    then show ?thesis using 1 by (simp add: dec_nat.simps[of n] digits_from_append digit_value_digit)
  qed
qed

lemma digits_from_zeros: "digits_from 0 (replicate k (CHR ''0'') @ s) = digits_from 0 s"
  by (induction k) (simp_all add: digit_value.simps)

lemma dec_nat_length: "n < 10 ^ k \<Longrightarrow> 0 < k \<Longrightarrow> 0 < length (dec_nat n) \<and> length (dec_nat n) \<le> k"
proof (induction n arbitrary: k rule: dec_nat.induct)
  case (1 n)
  show ?case
  proof (cases "n < 10")
    case True
    then show ?thesis using 1(3) by (simp add: dec_nat.simps[of n])
  next
    case False
    then have k: "1 < k" using 1(2,3) by (cases k; cases "k - 1") auto
    then have "n div 10 < 10 ^ (k - 1)" using 1(2)
      by (metis One_nat_def Suc_pred div_less_iff_less_mult less_imp_Suc_add mult.commute power_Suc zero_less_numeral zero_less_Suc)
    then show ?thesis using 1(1)[OF False, of "k - 1"] k False by (cases k) (simp_all add: dec_nat.simps[of n])
  qed
qed

lemma pad_digits_length: "0 \<le> i \<Longrightarrow> i < 10 ^ k \<Longrightarrow> 0 < k \<Longrightarrow> length (pad_digits k i) = k"
proof -
  assume i: "0 \<le> i" "i < 10 ^ k" "0 < k"
  then have "nat i < 10 ^ k" by (simp add: nat_less_iff)
  from dec_nat_length[OF this i(3)] i show ?thesis by (simp add: pad_digits_def dec_int_def Let_def)
qed

lemma undigits_pad: "0 \<le> i \<Longrightarrow> i < 10 ^ k \<Longrightarrow> 0 < k \<Longrightarrow> undigits (pad_digits k i) = Some i"
proof -
  assume i: "0 \<le> i" "i < 10 ^ k" "0 < k"
  have "pad_digits k i \<noteq> []" using pad_digits_length[OF i] i(3) by auto
  then show ?thesis using i(1)
    by (simp add: undigits_def pad_digits_def dec_int_def Let_def digits_from_zeros digits_from_dec_nat)
qed

subsection \<open>\<open>isoformat\<close> and \<open>fromisoformat\<close>\<close>

fun valid_date :: "date \<Rightarrow> bool" where
  "valid_date (Date y m d) \<longleftrightarrow> 1 \<le> y \<and> y \<le> 9999 \<and> date_ok (Date y m d)"

definition date_fromisoformat :: "string \<Rightarrow> date res" where
  "date_fromisoformat s =
     (let bad = Inl (ValueError (''Invalid isoformat string: '' @ repr_str s)) in
      if length s = 10 \<and> s ! 4 = CHR ''-'' \<and> s ! 7 = CHR ''-''
      then (case (undigits (take 4 s), undigits (take 2 (drop 5 s)), undigits (drop 8 s)) of
          (Some y, Some m, Some d) \<Rightarrow> if valid_date (Date y m d) then Inr (Date y m d) else bad
        | _ \<Rightarrow> bad)
      else bad)"

abbreviation day_microseconds :: int where
  "day_microseconds \<equiv> 86400000000"

definition instant_date :: "instant \<Rightarrow> date" where
  "instant_date t = ordinal_date (t div day_microseconds + 1)"

definition clock_text :: "int \<Rightarrow> string" where
  "clock_text u =
     (let s = u div 1000000; f = u mod 1000000 in
      pad_digits 2 (s div 3600) @ '':'' @ pad_digits 2 (s div 60 mod 60) @ '':'' @ pad_digits 2 (s mod 60) @
      (if f = 0 then '''' else ''.'' @ pad_digits 6 f))"

definition instant_isoformat :: "instant \<Rightarrow> string" where
  "instant_isoformat t = isoformat (instant_date t) @ ''T'' @ clock_text (t mod day_microseconds) @ ''+00:00''"

definition parse_fraction :: "string \<Rightarrow> (int \<times> string) option" where
  "parse_fraction s =
     (if s \<noteq> [] \<and> hd s = CHR ''.'' then
        (if length s < 7 then None else map_option (\<lambda>f. (f, drop 7 s)) (undigits (take 6 (drop 1 s))))
      else Some (0, s))"

definition parse_offset :: "string \<Rightarrow> int option option" where
  "parse_offset s =
     (if s = [] then Some None
      else if length s = 6 \<and> hd s \<in> {CHR ''+'', CHR ''-''} \<and> s ! 3 = CHR '':'' then
        (case (undigits (take 2 (drop 1 s)), undigits (drop 4 s)) of
           (Some h, Some m) \<Rightarrow> if h < 24 \<and> m < 60
             then Some (Some ((if hd s = CHR ''-'' then - 1 else 1) * (h * 60 + m))) else None
         | _ \<Rightarrow> None)
      else None)"

definition parse_clock :: "string \<Rightarrow> (int \<times> int option) option" where
  "parse_clock s =
     (if length s < 8 \<or> s ! 2 \<noteq> CHR '':'' \<or> s ! 5 \<noteq> CHR '':'' then None else
      (case (undigits (take 2 s), undigits (take 2 (drop 3 s)), undigits (take 2 (drop 6 s)), parse_fraction (drop 8 s)) of
         (Some h, Some m, Some sec, Some (f, rest)) \<Rightarrow>
           if h < 24 \<and> m < 60 \<and> sec < 60
           then map_option (Pair (((h * 60 + m) * 60 + sec) * 1000000 + f)) (parse_offset rest) else None
       | _ \<Rightarrow> None))"

definition datetime_fromisoformat :: "string \<Rightarrow> datetime res" where
  "datetime_fromisoformat s =
     (let bad = Inl (ValueError (''Invalid isoformat string: '' @ repr_str s)) in
      if length s < 19 \<or> s ! 10 \<noteq> CHR ''T'' then bad else
      (case (date_fromisoformat (take 10 s), parse_clock (drop 11 s)) of
         (Inr d, Some (u, offset)) \<Rightarrow>
           (let wall = (ymd2ord d - 1) * day_microseconds + u in
            case offset of None \<Rightarrow> Inr (Naive wall) | Some m \<Rightarrow> Inr (Aware (wall - m * 60000000) m))
       | _ \<Rightarrow> bad))"

subsection \<open>Round trips\<close>

lemma valid_date_bounds: "valid_date (Date y m d) \<Longrightarrow> 0 \<le> y \<and> y < 10 ^ 4 \<and> 0 \<le> m \<and> m < 10 ^ 2 \<and> 0 \<le> d \<and> d < 10 ^ 2"
  using month_cases[of m] by (auto simp: days_in_month_def split: if_splits)

lemma isoformat_length: "valid_date d \<Longrightarrow> length (isoformat d) = 10"
proof (cases d)
  case (Date y m k)
  assume "valid_date d"
  from valid_date_bounds[OF this[unfolded Date]] show ?thesis by (simp add: Date pad_digits_length)
qed

lemma date_fromisoformat_isoformat: "valid_date d \<Longrightarrow> date_fromisoformat (isoformat d) = Inr d"
proof (cases d)
  case (Date y m k)
  assume "valid_date d"
  then have v: "valid_date (Date y m k)" by (simp add: Date)
  have b: "0 \<le> y" "y < 10 ^ 4" "0 \<le> m" "m < 10 ^ 2" "0 \<le> k" "k < 10 ^ 2" using valid_date_bounds[OF v] by auto
  have len: "length (pad_digits 4 y) = 4" "length (pad_digits 2 m) = 2" "length (pad_digits 2 k) = 2"
    using b by (simp_all add: pad_digits_length)
  have un: "undigits (pad_digits 4 y) = Some y" "undigits (pad_digits 2 m) = Some m" "undigits (pad_digits 2 k) = Some k"
    using b by (simp_all add: undigits_pad)
  have len5: "length (pad_digits 4 y @ ''-'' @ pad_digits 2 m @ ''-'' @ pad_digits 2 k) = 10" by (simp add: len)
  show ?thesis unfolding Date date_fromisoformat_def Let_def isoformat.simps
    by (simp add: len un nth_append v[unfolded valid_date.simps] del: date_ok.simps)
qed

lemma isoformat_inj: "valid_date d \<Longrightarrow> valid_date d' \<Longrightarrow> isoformat d = isoformat d' \<longleftrightarrow> d = d'"
  using date_fromisoformat_isoformat by (metis Inr_inject)

definition valid_instant :: "instant \<Rightarrow> bool" where
  "valid_instant t \<longleftrightarrow> 0 \<le> t \<and> valid_date (instant_date t)"

lemma parse_clock_parts:
  assumes "0 \<le> h" "h < 24" "0 \<le> m" "m < 60" "0 \<le> s" "s < 60" "0 \<le> f" "f < 1000000"
  shows "parse_clock (pad_digits 2 h @ '':'' @ pad_digits 2 m @ '':'' @ pad_digits 2 s @
    (if f = 0 then '''' else ''.'' @ pad_digits 6 f) @ ''+00:00'') = Some (((h * 60 + m) * 60 + s) * 1000000 + f, Some 0)"
proof -
  have len: "length (pad_digits 2 h) = 2" "length (pad_digits 2 m) = 2" "length (pad_digits 2 s) = 2" "length (pad_digits 6 f) = 6"
    using assms by (auto intro!: pad_digits_length)
  have un: "undigits (pad_digits 2 h) = Some h" "undigits (pad_digits 2 m) = Some m" "undigits (pad_digits 2 s) = Some s"
    "undigits (pad_digits 6 f) = Some f" using assms by (auto intro!: undigits_pad)
  have zone: "parse_offset ''+00:00'' = Some (Some 0)" by code_simp
  define rest where "rest = (if f = 0 then '''' else ''.'' @ pad_digits 6 f) @ ''+00:00''"
  have frac: "parse_fraction rest = Some (f, ''+00:00'')" by (simp add: rest_def parse_fraction_def len un)
  have "parse_clock (pad_digits 2 h @ '':'' @ pad_digits 2 m @ '':'' @ pad_digits 2 s @ rest) =
      Some (((h * 60 + m) * 60 + s) * 1000000 + f, Some 0)"
    unfolding parse_clock_def using assms by (simp add: len un nth_append frac zone)
  then show ?thesis by (simp add: rest_def)
qed

lemma div_range: "0 < c \<Longrightarrow> 0 \<le> u \<Longrightarrow> u < c * n \<Longrightarrow> 0 \<le> u div c \<and> u div c < n" for c u n :: int
  by (smt (verit) mult_div_mod_eq mult_less_cancel_left_pos pos_imp_zdiv_nonneg_iff pos_mod_sign)

lemma minutes_split: "s div 3600 * 60 + s div 60 mod 60 = s div (60::int)"
proof -
  have "s div 3600 = s div 60 div 60" using zdiv_zmult2_eq[of 60 s 60] by simp
  then show ?thesis using div_mult_mod_eq[of "s div 60" 60] by (simp only:)
qed

lemma parse_clock_text:
  assumes "0 \<le> u" "u < day_microseconds"
  shows "parse_clock (clock_text u @ ''+00:00'') = Some (u, Some 0)"
proof -
  let ?s = "u div 1000000" and ?f = "u mod 1000000"
  have b: "0 \<le> ?s div 3600" "?s div 3600 < 24" "0 \<le> ?s div 60 mod 60" "?s div 60 mod 60 < 60" "0 \<le> ?s mod 60" "?s mod 60 < 60"
    "0 \<le> ?f" "?f < 1000000"
    using div_range[of 1000000 u 86400] div_range[of 3600 ?s 24] assms by simp_all
  have whole: "?s div 3600 * 60 + ?s div 60 mod 60 = ?s div 60" by (rule minutes_split)
  have "(?s div 60 * 60 + ?s mod 60) * 1000000 + ?f = u" by simp
  then have sum: "((?s div 3600 * 60 + ?s div 60 mod 60) * 60 + ?s mod 60) * 1000000 + ?f = u" by (simp only: whole)
  show ?thesis using parse_clock_parts[OF b] unfolding sum clock_text_def Let_def append_assoc .
qed

lemma instant_date_valid: "valid_instant t \<Longrightarrow> ymd2ord (instant_date t) = t div day_microseconds + 1"
  by (simp add: instant_date_def ymd2ord_ordinal_date)

lemma datetime_fromisoformat_isoformat:
  assumes "valid_instant t"
  shows "datetime_fromisoformat (instant_isoformat t) = Inr (Aware t 0)"
proof -
  let ?d = "instant_date t" and ?u = "t mod day_microseconds"
  have d: "valid_date ?d" using assms by (simp add: valid_instant_def)
  have clock: "parse_clock (clock_text ?u @ ''+00:00'') = Some (?u, Some 0)" by (rule parse_clock_text) simp_all
  have len: "length (isoformat ?d) = 10" by (rule isoformat_length[OF d])
  have long: "8 \<le> length (clock_text ?u @ ''+00:00'')" using clock by (auto simp: parse_clock_def not_less split: if_splits)
  have wall: "(ymd2ord ?d - 1) * day_microseconds + ?u = t" by (simp add: instant_date_valid[OF assms])
  show ?thesis unfolding datetime_fromisoformat_def instant_isoformat_def Let_def
    using long by (simp add: len nth_append date_fromisoformat_isoformat[OF d] clock) (use wall in \<open>simp add: algebra_simps\<close>)
qed

lemma instant_isoformat_inj:
  "valid_instant t \<Longrightarrow> valid_instant u \<Longrightarrow> instant_isoformat t = instant_isoformat u \<longleftrightarrow> t = u"
  using datetime_fromisoformat_isoformat by (metis Inr_inject datetime.inject(2))

end
