(* ===== verification/Serialization.thy ===== *)
theory Serialization
  imports Tracing Instants
begin

section \<open>Canonical serialisation\<close>

text \<open>
  \<open>quantize/schema/serialization.py\<close>, \<open>quantize/schema/semantics.py\<close> and
  \<open>quantize/persistence/serialize.py\<close>. A governed model is first dumped to a Python value by
  field (\<open>model_dump\<close>), made portable, and printed. The printer and the parser of JSON text and
  SHA-256 are native code: they are the parameters of \<open>json_text\<close>, and \<open>text_faithful\<close> states what
  the program relies on: parsing the text of a clean value gives the value back. A model float has no
  signed zero, so the canonical-zero rule is the identity on its values.
\<close>

subsection \<open>Python values and their portable form\<close>

datatype py_key = StrKey string | OtherKey string

datatype py_value =
    PyNone
  | PyTruth bool
  | PyInteger int
  | PyReal pyfloat
  | PyStr string
  | PyInstant instant
  | PyDate date
  | PyList "py_value list"
  | PyDict "(py_key \<times> py_value) list"
  | PyForeign string

fun to_portable :: "py_value \<Rightarrow> json res" and portable_items :: "py_value list \<Rightarrow> json list res"
  and portable_entries :: "(py_key \<times> py_value) list \<Rightarrow> json_object res" where
  "to_portable PyNone = Inr JNull"
| "to_portable (PyTruth b) = Inr (JBool b)"
| "to_portable (PyStr s) = Inr (JStr s)"
| "to_portable (PyInteger i) =
     (if - js_max_safe_int \<le> i \<and> i \<le> js_max_safe_int then Inr (JInt i)
      else Inl (ValueError (''integer '' @ dec_int i @ '' is outside the JS-safe range; cannot persist'')))"
| "to_portable (PyReal x) =
     (if \<not> isfinite x then Inl (ValueError ''NaN/Infinity is not portable JSON; cannot persist'')
      else if feq x 0 then Inr (JFloat 0) else Inr (JFloat x))"
| "to_portable (PyInstant t) = Inr (JStr (instant_isoformat t))"
| "to_portable (PyDate d) = Inr (JStr (isoformat d))"
| "to_portable (PyList vs) = try_bind (portable_items vs) (\<lambda>js. Inr (JList js))"
| "to_portable (PyDict kvs) = try_bind (portable_entries kvs) (\<lambda>out. Inr (JObj out))"
| "to_portable (PyForeign t) = Inl (ValueError (t @ '' is not portable JSON and cannot be persisted''))"
| "portable_items [] = Inr []"
| "portable_items (v # vs) = try_bind (to_portable v) (\<lambda>j. try_bind (portable_items vs) (\<lambda>js. Inr (j # js)))"
| "portable_entries [] = Inr []"
| "portable_entries ((OtherKey t, v) # kvs) = Inl (ValueError ''JSON object keys must be strings; cannot persist'')"
| "portable_entries ((StrKey k, v) # kvs) =
     try_bind (to_portable v) (\<lambda>j. try_bind (portable_entries kvs) (\<lambda>out. Inr ((k, j) # out)))"

lemma feq_zero: "feq (Fin r) (Fin 0) \<longleftrightarrow> r = 0"
  by (simp add: feq_def)

lemma to_portable_portable:
  "to_portable v = Inr j \<Longrightarrow> portable j"
  "portable_items vs = Inr js \<Longrightarrow> list_all portable js"
  "portable_entries kvs = Inr out \<Longrightarrow> list_all (\<lambda>kv. portable (snd kv)) out"
  by (induction v and vs and kvs arbitrary: j and js and out
      rule: to_portable_portable_items_portable_entries.induct)
    (fastforce simp: res_simps list_all_iff abs_le_iff split: if_splits)+

subsection \<open>The dump of a JSON object of a document\<close>

fun py_of_json :: "json \<Rightarrow> py_value" where
  "py_of_json JNull = PyNone"
| "py_of_json (JBool b) = PyTruth b"
| "py_of_json (JInt i) = PyInteger i"
| "py_of_json (JFloat x) = PyReal x"
| "py_of_json (JStr s) = PyStr s"
| "py_of_json (JList js) = PyList (map py_of_json js)"
| "py_of_json (JObj kvs) = PyDict (map (\<lambda>(k, v). (StrKey k, py_of_json v)) kvs)"
| "py_of_json (JOther t) = PyForeign t"

lemma to_portable_of_json: "portable j \<Longrightarrow> to_portable (py_of_json j) = Inr j"
proof (induction j rule: py_of_json.induct)
  case (6 js)
  have "portable_items (map py_of_json ks) = Inr ks" if "set ks \<subseteq> set js" for ks
    using that 6 by (induction ks) auto
  then show ?case by simp
next
  case (7 kvs)
  have "portable_entries (map (\<lambda>(k, v). (StrKey k, py_of_json v)) ls) = Inr ls" if "set ls \<subseteq> set kvs" for ls
    using that 7 by (induction ls) force+
  then show ?case by simp
qed (auto simp: feq_zero abs_le_iff)

subsection \<open>JSON text\<close>

record json_text =
  jt_dumps :: "json \<Rightarrow> string"
  jt_loads :: "string \<Rightarrow> json res"
  jt_sha256 :: "string \<Rightarrow> string"

text \<open>Clean values: portable, with floats that are doubles and objects without repeated keys.\<close>

fun json_clean :: "json \<Rightarrow> bool" where
  "json_clean (JInt i) \<longleftrightarrow> \<bar>i\<bar> \<le> js_max_safe_int"
| "json_clean (JFloat x) \<longleftrightarrow> isfinite x \<and> is_double x"
| "json_clean (JList xs) \<longleftrightarrow> (\<forall>x \<in> set xs. json_clean x)"
| "json_clean (JObj kvs) \<longleftrightarrow> distinct (map fst kvs) \<and> (\<forall>kv \<in> set kvs. json_clean (snd kv))"
| "json_clean (JOther t) \<longleftrightarrow> False"
| "json_clean _ \<longleftrightarrow> True"

definition text_faithful :: "json_text \<Rightarrow> bool" where
  "text_faithful T \<longleftrightarrow> (\<forall>j. json_clean j \<longrightarrow> jt_loads T (jt_dumps T j) = Inr j)"

definition is_sha256_hex :: "string \<Rightarrow> bool" where
  "is_sha256_hex s \<longleftrightarrow> length s = 64 \<and> list_all (\<lambda>c. is_digit c \<or> CHR ''a'' \<le> c \<and> c \<le> CHR ''f'') s"

lemma text_faithfulD: "text_faithful T \<Longrightarrow> json_clean j \<Longrightarrow> jt_loads T (jt_dumps T j) = Inr j"
  by (simp add: text_faithful_def)

text \<open>\<open>json.dumps\<close> with \<open>allow_nan=False\<close>: a float that is not finite raises \<open>ValueError\<close>, a value of
  another type \<open>TypeError\<close>.\<close>

fun dumps_error :: "json \<Rightarrow> exn option" and dumps_items :: "json list \<Rightarrow> exn option"
  and dumps_entries :: "json_object \<Rightarrow> exn option" where
  "dumps_error (JFloat x) = (if isfinite x then None else Some (ValueError ''Out of range float values are not JSON compliant''))"
| "dumps_error (JOther t) = Some (TypeError (''Object of type '' @ t @ '' is not JSON serializable''))"
| "dumps_error (JList js) = dumps_items js"
| "dumps_error (JObj kvs) = dumps_entries kvs"
| "dumps_error _ = None"
| "dumps_items [] = None"
| "dumps_items (j # js) = (case dumps_error j of None \<Rightarrow> dumps_items js | Some e \<Rightarrow> Some e)"
| "dumps_entries [] = None"
| "dumps_entries ((k, j) # kvs) = (case dumps_error j of None \<Rightarrow> dumps_entries kvs | Some e \<Rightarrow> Some e)"

definition json_dumps :: "json_text \<Rightarrow> json \<Rightarrow> string res" where
  "json_dumps T j = (case dumps_error j of Some e \<Rightarrow> Inl e | None \<Rightarrow> Inr (jt_dumps T j))"

lemma portable_dumps:
  "portable j \<Longrightarrow> dumps_error j = None"
  "list_all portable js \<Longrightarrow> dumps_items js = None"
  "list_all (\<lambda>kv. portable (snd kv)) kvs \<Longrightarrow> dumps_entries kvs = None"
  by (induction j and js and kvs rule: dumps_error_dumps_items_dumps_entries.induct)
    (auto simp: list_all_iff split: option.splits)

text \<open>\<open>sort_keys=True\<close> orders the entries of every object by key.\<close>

fun sort_keys :: "json \<Rightarrow> json" where
  "sort_keys (JList js) = JList (map sort_keys js)"
| "sort_keys (JObj kvs) = JObj (sort_key fst (map (\<lambda>(k, v). (k, sort_keys v)) kvs))"
| "sort_keys j = j"

lemma fst_sort_keys: "map fst (map (\<lambda>(k, v). (k, f v)) kvs) = map fst kvs"
  by (induction kvs) auto

lemma sort_keys_clean: "json_clean j \<Longrightarrow> json_clean (sort_keys j)"
proof (induction j rule: sort_keys.induct)
  case (2 kvs)
  have "distinct (map fst (sort_key fst (map (\<lambda>(k, v). (k, sort_keys v)) kvs)))"
    using 2(2) unfolding map_sort_key_fst fst_sort_keys by simp
  then show ?case using 2 by force
qed auto

subsection \<open>\<open>to_ir_dict\<close> and \<open>to_ir_json\<close>\<close>

definition to_ir_dict :: "py_value \<Rightarrow> json res" where
  "to_ir_dict raw = try_bind (to_portable raw) (\<lambda>j. case j of JObj kvs \<Rightarrow> Inr (JObj kvs) | _ \<Rightarrow> Inl AssertionError)"

definition to_ir_json :: "json_text \<Rightarrow> py_value \<Rightarrow> string res" where
  "to_ir_json T raw = try_bind (to_ir_dict raw) (json_dumps T)"

lemma to_ir_dict_PyDict: "to_ir_dict (PyDict kvs) = try_bind (portable_entries kvs) (\<lambda>out. Inr (JObj out))"
  by (cases "portable_entries kvs") (simp_all add: to_ir_dict_def)

lemma to_ir_json_Inr: "to_ir_dict raw = Inr j \<Longrightarrow> to_ir_json T raw = Inr (jt_dumps T j)"
proof -
  assume j: "to_ir_dict raw = Inr j"
  then obtain k where "to_portable raw = Inr k" "k = j"
    by (cases "to_portable raw") (auto simp: to_ir_dict_def split: json.splits)
  then have "to_portable raw = Inr j" by simp
  then show ?thesis using j portable_dumps(1)[OF to_portable_portable(1)] by (simp add: to_ir_json_def json_dumps_def)
qed

subsection \<open>\<open>persistence/serialize.py\<close>\<close>

fun canonical_zeroes :: "json \<Rightarrow> json" where
  "canonical_zeroes (JFloat x) = (if feq x 0 then JFloat 0 else JFloat x)"
| "canonical_zeroes (JObj kvs) = JObj (map (\<lambda>(k, v). (k, canonical_zeroes v)) kvs)"
| "canonical_zeroes (JList js) = JList (map canonical_zeroes js)"
| "canonical_zeroes j = j"

definition canonical_json_bytes :: "json_text \<Rightarrow> json_object \<Rightarrow> string res" where
  "canonical_json_bytes T payload = json_dumps T (sort_keys (canonical_zeroes (JObj payload)))"

definition strict_json_loads :: "json_text \<Rightarrow> string \<Rightarrow> json res" where
  "strict_json_loads T text = jt_loads T text"

definition content_hash :: "json_text \<Rightarrow> string \<Rightarrow> string" where
  "content_hash T stored = jt_sha256 T stored"

lemma canonical_zeroes_clean: "json_clean j \<Longrightarrow> canonical_zeroes j = j"
proof (induction j rule: canonical_zeroes.induct)
  case (2 kvs)
  then have "map (\<lambda>(k, v). (k, canonical_zeroes v)) kvs = kvs" by (intro map_idI) force
  then show ?case by simp
next
  case (3 js)
  then show ?case by (simp add: map_idI)
qed (auto simp: feq_zero)

lemma json_clean_portable: "json_clean j \<Longrightarrow> portable j"
  by (induction j rule: json_clean.induct) auto

lemma canonical_json_bytes_clean:
  assumes "json_clean (JObj payload)"
  shows "canonical_json_bytes T payload = Inr (jt_dumps T (sort_keys (JObj payload)))"
  using portable_dumps(1)[OF json_clean_portable[OF sort_keys_clean[OF assms]]] canonical_zeroes_clean[OF assms]
  unfolding canonical_json_bytes_def json_dumps_def by simp

subsection \<open>The portable image of a dump\<close>

text \<open>What \<open>to_portable\<close> returns when it does not raise, and when that is.\<close>

fun json_of :: "py_value \<Rightarrow> json" where
  "json_of PyNone = JNull"
| "json_of (PyTruth b) = JBool b"
| "json_of (PyStr s) = JStr s"
| "json_of (PyInteger i) = JInt i"
| "json_of (PyReal x) = JFloat x"
| "json_of (PyInstant t) = JStr (instant_isoformat t)"
| "json_of (PyDate d) = JStr (isoformat d)"
| "json_of (PyList vs) = JList (map json_of vs)"
| "json_of (PyDict kvs) = JObj (map (\<lambda>(k, v). (case k of StrKey s \<Rightarrow> s | OtherKey s \<Rightarrow> s, json_of v)) kvs)"
| "json_of (PyForeign t) = JOther t"

fun py_portable :: "py_value \<Rightarrow> bool" where
  "py_portable (PyInteger i) \<longleftrightarrow> \<bar>i\<bar> \<le> js_max_safe_int"
| "py_portable (PyReal x) \<longleftrightarrow> isfinite x"
| "py_portable (PyList vs) \<longleftrightarrow> (\<forall>v \<in> set vs. py_portable v)"
| "py_portable (PyDict kvs) \<longleftrightarrow> (\<forall>(k, v) \<in> set kvs. (case k of StrKey s \<Rightarrow> True | OtherKey s \<Rightarrow> False) \<and> py_portable v)"
| "py_portable (PyForeign t) \<longleftrightarrow> False"
| "py_portable _ \<longleftrightarrow> True"

lemma to_portable_json_of: "py_portable v \<Longrightarrow> to_portable v = Inr (json_of v)"
proof (induction v rule: json_of.induct)
  case (8 vs)
  have "portable_items us = Inr (map json_of us)" if "set us \<subseteq> set vs" for us
    using that 8 by (induction us) auto
  then show ?case by simp
next
  case (9 kvs)
  have "portable_entries us = Inr (map (\<lambda>(k, v). (case k of StrKey s \<Rightarrow> s | OtherKey s \<Rightarrow> s, json_of v)) us)"
    if "set us \<subseteq> set kvs" for us
    using that
  proof (induction us)
    case (Cons kv us)
    obtain k v where kv: "kv = (k, v)" by (cases kv)
    then have m: "(k, v) \<in> set kvs" using Cons.prems by simp
    then obtain s where "k = StrKey s" "py_portable v" using 9(2) by (cases k) fastforce+
    then show ?case using kv Cons 9(1)[OF m] by simp
  qed simp
  then show ?case by simp
qed (auto simp: feq_zero abs_le_iff)

lemma to_ir_dict_json_of: "py_portable (PyDict kvs) \<Longrightarrow> to_ir_dict (PyDict kvs) = Inr (json_of (PyDict kvs))"
  using to_portable_json_of[of "PyDict kvs"] by (simp add: to_ir_dict_def del: to_portable.simps py_portable.simps)

lemma json_of_json [simp]: "json_of (py_of_json j) = j"
proof (induction j rule: py_of_json.induct)
  case (6 js)
  then show ?case by (simp add: map_idI)
next
  case (7 kvs)
  have "map (\<lambda>x. case x of (k, v) \<Rightarrow> (k, json_of (py_of_json v))) kvs = kvs" using 7 by (intro map_idI) fastforce
  then show ?case by (simp add: case_prod_beta comp_def)
qed auto

lemma py_portable_json [simp]: "py_portable (py_of_json j) \<longleftrightarrow> portable j"
  by (induction j rule: py_of_json.induct) (force)+

end
