(* ===== verification/ModelDump.thy ===== *)
theory ModelDump
  imports Serialization "HOL-Library.Multiset"
begin

section \<open>Dumping documents; their semantic projection\<close>

text \<open>
  The dump of every governed model by field, in the order and under the aliases its class declares
  (\<open>quantize/schema/document.py\<close>, \<open>components.py\<close>, \<open>nodes.py\<close>, \<open>provenance.py\<close>, \<open>types.py\<close>,
  \<open>schedule.py\<close> and \<open>quantize/tracing/events.py\<close>), and the projections of \<open>quantize/schema/semantics.py\<close>.
\<close>

subsection \<open>Dumps\<close>

abbreviation entry :: "string \<Rightarrow> py_value \<Rightarrow> py_key \<times> py_value" where
  "entry k v \<equiv> (StrKey k, v)"

definition py_optional :: "('a \<Rightarrow> py_value) \<Rightarrow> 'a option \<Rightarrow> py_value" where
  "py_optional f v = (case v of None \<Rightarrow> PyNone | Some x \<Rightarrow> f x)"

definition py_object :: "json_object \<Rightarrow> py_value" where
  "py_object kvs = py_of_json (JObj kvs)"

definition py_pair :: "string \<times> string \<Rightarrow> py_value" where
  "py_pair p = PyList [PyStr (fst p), PyStr (snd p)]"

fun dump_node :: "node_instance \<Rightarrow> py_value" where
  "dump_node (RegisteredNode i t v ps ui ext) = PyDict [entry ''id'' (PyStr i), entry ''type_id'' (PyStr t),
     entry ''type_version'' (PyStr v), entry ''params'' (py_object ps), entry ''ui'' (py_optional py_object ui),
     entry ''extensions'' (py_optional py_object ext)]"
| "dump_node (ComponentRefNode i r ps ui ext) = PyDict [entry ''id'' (PyStr i), entry ''type_id'' (PyStr ''component''),
     entry ''ref'' (PyStr r), entry ''params'' (py_object ps), entry ''ui'' (py_optional py_object ui),
     entry ''extensions'' (py_optional py_object ext)]"

definition dump_edge :: "edge \<Rightarrow> py_value" where
  "dump_edge e = PyDict [entry ''from'' (py_pair (edge_from e)), entry ''to'' (py_pair (edge_to e))]"

fun visibility_str :: "visibility \<Rightarrow> string" where
  "visibility_str PrivateV = ''private''"
| "visibility_str UnlistedReadonly = ''unlisted_readonly''"
| "visibility_str UnlistedDuplicable = ''unlisted_duplicable''"

definition dump_strategy_fork :: "strategy_fork \<Rightarrow> py_value" where
  "dump_strategy_fork f = PyDict [entry ''id'' (PyStr (fst f)), entry ''version'' (PyInteger (snd f))]"

definition dump_component_fork :: "component_fork \<Rightarrow> py_value" where
  "dump_component_fork f = PyDict [entry ''id'' (PyStr (fst f)), entry ''version'' (PyStr (snd f))]"

definition dump_provenance :: "('f \<Rightarrow> py_value) \<Rightarrow> 'f provenance \<Rightarrow> py_value" where
  "dump_provenance fork p = PyDict [entry ''owner'' (PyStr (prov_owner p)), entry ''creator'' (PyStr (prov_creator p)),
     entry ''contributors'' (PyList (map PyStr (prov_contributors p))),
     entry ''forked_from'' (py_optional fork (prov_forked_from p)),
     entry ''visibility'' (PyStr (visibility_str (prov_visibility p))), entry ''duplicable'' (PyTruth (prov_duplicable p)),
     entry ''created_at'' (PyInstant (prov_created_at p))]"

definition dump_ref :: "component_ref \<Rightarrow> py_value" where
  "dump_ref r = PyDict [entry ''id'' (PyStr (ref_id r)), entry ''component_id'' (PyStr (ref_component_id r)),
     entry ''version'' (PyStr (ref_version r))]"

fun scalar_dtype_str :: "scalar_dtype \<Rightarrow> string" where
  "scalar_dtype_str NumberS = ''Number''"
| "scalar_dtype_str IntegerS = ''Integer''"
| "scalar_dtype_str BooleanS = ''Boolean''"

fun dump_port_type :: "port_type \<Rightarrow> py_value" where
  "dump_port_type (ScalarType d) = PyDict [entry ''kind'' (PyStr ''Scalar''), entry ''dtype'' (PyStr (scalar_dtype_str d))]"
| "dump_port_type AssetSetType = PyDict [entry ''kind'' (PyStr ''AssetSet'')]"
| "dump_port_type (CrossSectionType d) = PyDict [entry ''kind'' (PyStr ''CrossSection''),
     entry ''dtype'' (PyStr (case d of NumberX \<Rightarrow> ''Number'' | BooleanX \<Rightarrow> ''Boolean''))]"
| "dump_port_type TimeSeriesType = PyDict [entry ''kind'' (PyStr ''TimeSeries''), entry ''dtype'' (PyStr ''Number'')]"
| "dump_port_type PortfolioTargetsType = PyDict [entry ''kind'' (PyStr ''PortfolioTargets'')]"

definition dump_exposed_port :: "exposed_port \<Rightarrow> py_value" where
  "dump_exposed_port p = PyDict [entry ''name'' (PyStr (ep_name p)), entry ''type'' (dump_port_type (ep_type p)),
     entry ''maps_to'' (py_pair (ep_maps_to p))]"

definition dump_exposed_param :: "exposed_param \<Rightarrow> py_value" where
  "dump_exposed_param p = PyDict [entry ''name'' (PyStr (ex_name p)), entry ''binds_to'' (py_pair (ex_binds_to p)),
     entry ''schema'' (py_object (ex_schema p))]"

definition dump_graph :: "graph \<Rightarrow> py_value" where
  "dump_graph g = PyDict [entry ''nodes'' (PyList (map dump_node (graph_nodes g))),
     entry ''edges'' (PyList (map dump_edge (graph_edges g)))]"

definition dump_component :: "component_definition \<Rightarrow> py_value" where
  "dump_component d = PyDict [entry ''component_id'' (PyStr (cd_component_id d)), entry ''version'' (PyStr (cd_version d)),
     entry ''schema_version'' (PyStr (cd_schema_version d)), entry ''name'' (PyStr (cd_name d)),
     entry ''description'' (py_optional PyStr (cd_description d)),
     entry ''component_refs'' (PyList (map dump_ref (cd_component_refs d))),
     entry ''implementation'' (PyDict [entry ''kind'' (PyStr ''graph''), entry ''graph'' (dump_graph (cd_graph d))]),
     entry ''exposed_inputs'' (PyList (map dump_exposed_port (cd_exposed_inputs d))),
     entry ''exposed_outputs'' (PyList (map dump_exposed_port (cd_exposed_outputs d))),
     entry ''exposed_params'' (PyList (map dump_exposed_param (cd_exposed_params d))),
     entry ''provenance'' (dump_provenance dump_component_fork (cd_provenance d)),
     entry ''extensions'' (py_optional py_object (cd_extensions d))]"

fun schedule_kind :: "schedule \<Rightarrow> string" where
  "schedule_kind ScheduleDaily = ''daily''"
| "schedule_kind ScheduleWeekly = ''weekly''"
| "schedule_kind ScheduleMonthly = ''monthly''"

definition dump_meta :: "strategy_document \<Rightarrow> py_value" where
  "dump_meta d = PyDict [entry ''id'' (PyStr (sd_id d)), entry ''version'' (PyInteger (sd_version d)),
     entry ''name'' (PyStr (sd_name d)), entry ''description'' (py_optional PyStr (sd_description d)),
     entry ''provenance'' (dump_provenance dump_strategy_fork (sd_provenance d))]"

definition dump_policy :: "strategy_document \<Rightarrow> py_value" where
  "dump_policy d = PyDict [entry ''policy'' (PyStr ''close_signal_next_session_open''),
     entry ''valuation'' (PyStr ''session_close''),
     entry ''transaction_costs'' (PyDict [entry ''model'' (PyStr ''bps''), entry ''bps'' (PyReal (sd_bps d))])]"

definition dump_strategy :: "strategy_document \<Rightarrow> py_value" where
  "dump_strategy d = PyDict [entry ''schema_version'' (PyStr (sd_schema_version d)), entry ''strategy'' (dump_meta d),
     entry ''execution_policy'' (dump_policy d), entry ''schedule'' (PyDict [entry ''kind'' (PyStr (schedule_kind (sd_schedule d)))]),
     entry ''nodes'' (PyList (map dump_node (sd_nodes d))), entry ''edges'' (PyList (map dump_edge (sd_edges d))),
     entry ''component_refs'' (PyList (map dump_ref (sd_component_refs d))),
     entry ''extensions'' (py_optional py_object (sd_extensions d))]"

definition dump_event :: "trace_event \<Rightarrow> py_value" where
  "dump_event e = PyDict [entry ''run_id'' (PyStr (te_run_id e)), entry ''timestamp'' (PyInstant (te_timestamp e)),
     entry ''node_id'' (PyStr (te_node_id e)), entry ''component_path'' (PyList (map PyStr (te_component_path e))),
     entry ''event_type'' (PyStr (te_event_type e)), entry ''payload'' (py_object (te_payload e))]"

subsection \<open>Access to a decoded dict\<close>

fun json_get :: "string \<Rightarrow> json \<Rightarrow> json res" where
  "json_get k (JObj kvs) = (case map_of kvs k of Some v \<Rightarrow> Inr v | None \<Rightarrow> Inl (KeyError (repr_str k)))"
| "json_get k _ = Inl (TypeError ''not a mapping'')"

fun json_at :: "nat \<Rightarrow> json \<Rightarrow> json res" where
  "json_at i (JList js) = (if i < length js then Inr (js ! i) else Inl (IndexError ''list index out of range''))"
| "json_at i _ = Inl (TypeError ''not a sequence'')"

fun json_items :: "json \<Rightarrow> json list res" where
  "json_items (JList js) = Inr js"
| "json_items _ = Inl (TypeError ''not iterable'')"

fun json_str :: "json \<Rightarrow> string res" where
  "json_str (JStr s) = Inr s"
| "json_str _ = Inl (TypeError ''unorderable sort keys'')"

fun json_set :: "string \<Rightarrow> json \<Rightarrow> json \<Rightarrow> json res" where
  "json_set k v (JObj kvs) = Inr (JObj (AList.update k v kvs))"
| "json_set k v _ = Inl (TypeError ''not a mapping'')"

definition sort_json_by :: "(json \<Rightarrow> 'k::linorder res) \<Rightarrow> json list \<Rightarrow> json list res" where
  "sort_json_by key js = try_bind (traverse key js) (\<lambda>ks. Inr (map snd (sort_key fst (zip ks js))))"

subsection \<open>The projections\<close>

fun without_ui :: "json \<Rightarrow> json" where
  "without_ui (JObj kvs) = JObj (filter (\<lambda>kv. fst kv \<noteq> ''ui'') kvs)"
| "without_ui j = j"

definition id_key :: "json \<Rightarrow> string res" where
  "id_key j = try_bind (json_get ''id'' j) json_str"

definition canonicalize_nodes :: "json list \<Rightarrow> json list res" where
  "canonicalize_nodes nodes = sort_json_by id_key (map without_ui nodes)"

definition endpoint_key :: "string \<Rightarrow> json \<Rightarrow> (string \<times> string) res" where
  "endpoint_key side e = try_bind (json_get side e) (\<lambda>p.
     try_bind (try_bind (json_at 0 p) json_str) (\<lambda>n. try_bind (try_bind (json_at 1 p) json_str) (\<lambda>q. Inr (n, q))))"

definition edge_key :: "json \<Rightarrow> (string \<times> string \<times> string \<times> string) res" where
  "edge_key e = try_bind (endpoint_key ''from'' e) (\<lambda>(a, b). try_bind (endpoint_key ''to'' e) (\<lambda>(c, d). Inr (a, b, c, d)))"

definition sort_edges :: "json list \<Rightarrow> json list res" where
  "sort_edges edges = sort_json_by edge_key edges"

text \<open>\<open>data[k] = f(data[k])\<close> for a list field.\<close>

definition rewrite_list :: "string \<Rightarrow> (json list \<Rightarrow> json list res) \<Rightarrow> json \<Rightarrow> json res" where
  "rewrite_list k f data = try_bind (try_bind (try_bind (json_get k data) json_items) f) (\<lambda>js. json_set k (JList js) data)"

definition canonical_json :: "json_text \<Rightarrow> json \<Rightarrow> string res" where
  "canonical_json T data = json_dumps T (sort_keys data)"

definition project_strategy :: "json \<Rightarrow> json res" where
  "project_strategy data =
     try_bind (rewrite_list ''nodes'' canonicalize_nodes data) (\<lambda>d.
     try_bind (rewrite_list ''edges'' sort_edges d) (\<lambda>d. rewrite_list ''component_refs'' (sort_json_by id_key) d))"

definition semantic_projection :: "json_text \<Rightarrow> strategy_document \<Rightarrow> string res" where
  "semantic_projection T document =
     try_bind (to_ir_dict (dump_strategy document)) (\<lambda>data. try_bind (project_strategy data) (canonical_json T))"

definition documents_semantically_equal :: "json_text \<Rightarrow> strategy_document \<Rightarrow> strategy_document \<Rightarrow> bool res" where
  "documents_semantically_equal T a b =
     try_bind (semantic_projection T a) (\<lambda>p. try_bind (semantic_projection T b) (\<lambda>q. Inr (p = q)))"

definition project_component :: "json \<Rightarrow> json res" where
  "project_component data =
     try_bind (json_get ''implementation'' data) (\<lambda>impl. try_bind (json_get ''graph'' impl) (\<lambda>g.
     try_bind (rewrite_list ''nodes'' canonicalize_nodes g) (\<lambda>g. try_bind (rewrite_list ''edges'' sort_edges g) (\<lambda>g.
     try_bind (json_set ''graph'' g impl) (\<lambda>impl. try_bind (json_set ''implementation'' impl data) (\<lambda>d.
       rewrite_list ''component_refs'' (sort_json_by id_key) d))))))"

definition component_semantic_projection :: "json_text \<Rightarrow> component_definition \<Rightarrow> string res" where
  "component_semantic_projection T component =
     try_bind (to_ir_dict (dump_component component)) (\<lambda>data. try_bind (project_component data) (canonical_json T))"

definition components_semantically_equal :: "json_text \<Rightarrow> component_definition \<Rightarrow> component_definition \<Rightarrow> bool res" where
  "components_semantically_equal T a b =
     try_bind (component_semantic_projection T a) (\<lambda>p. try_bind (component_semantic_projection T b) (\<lambda>q. Inr (p = q)))"

subsection \<open>What the projection ignores\<close>

fun strip_ui :: "node_instance \<Rightarrow> node_instance" where
  "strip_ui (RegisteredNode i t v ps ui ext) = RegisteredNode i t v ps None ext"
| "strip_ui (ComponentRefNode i r ps ui ext) = ComponentRefNode i r ps None ext"

text \<open>Two documents with the same content: equal but for the presentation of nodes and the order in
  which nodes, edges and references are listed.\<close>

definition same_content :: "strategy_document \<Rightarrow> strategy_document \<Rightarrow> bool" where
  "same_content a b \<longleftrightarrow> a\<lparr>sd_nodes := [], sd_edges := [], sd_component_refs := []\<rparr> = b\<lparr>sd_nodes := [], sd_edges := [], sd_component_refs := []\<rparr> \<and>
     mset (map strip_ui (sd_nodes a)) = mset (map strip_ui (sd_nodes b)) \<and> mset (sd_edges a) = mset (sd_edges b) \<and>
     mset (sd_component_refs a) = mset (sd_component_refs b)"

lemma node_id_strip [simp]: "node_id (strip_ui n) = node_id n"
  by (cases n) simp_all

lemma sort_json_by_map:
  assumes "\<And>x. x \<in> set xs \<Longrightarrow> key (f x) = Inr (k x)"
  shows "sort_json_by key (map f xs) = Inr (map f (sort_key k xs))"
proof -
  have keys: "traverse key (map f xs) = Inr (map k xs)"
    using assms by (induction xs) auto
  have ins: "insort_key fst (k x, f x) (map (\<lambda>x. (k x, f x)) ys) = map (\<lambda>x. (k x, f x)) (insort_key k x ys)" for x ys
    by (induction ys) auto
  have "sort_key fst (map (\<lambda>x. (k x, f x)) ys) = map (\<lambda>x. (k x, f x)) (sort_key k ys)" for ys
    by (induction ys) (simp_all add: ins)
  moreover have "zip (map k xs) (map f xs) = map (\<lambda>x. (k x, f x)) xs" by (induction xs) auto
  ultimately show ?thesis by (simp add: sort_json_by_def keys comp_def)
qed

lemma sort_key_mset:
  assumes "mset xs = mset ys" "inj_on k (set xs)"
  shows "sort_key k xs = sort_key k ys"
  using properties_for_sort_key[of "sort_key k ys" xs k] assms
  by (metis (mono_tags, lifting) mset_eq_setD mset_sort sort_key_inj_key_eq sorted_sort_key)

definition node_json :: "node_instance \<Rightarrow> json" where
  "node_json n = json_of (dump_node n)"

definition plain_node :: "node_instance \<Rightarrow> json" where
  "plain_node n = without_ui (node_json n)"

lemma plain_node_strip: "plain_node (strip_ui n) = plain_node n"
  by (cases n) (simp_all add: plain_node_def node_json_def)

lemma id_key_plain: "id_key (plain_node n) = Inr (node_id n)"
  by (cases n) (simp_all add: plain_node_def node_json_def id_key_def)

lemma canonicalize_nodes_json:
  "canonicalize_nodes (map node_json ns) = Inr (map plain_node (sort_key node_id ns))"
proof -
  have "map without_ui (map node_json ns) = map plain_node ns" by (simp add: plain_node_def)
  then show ?thesis unfolding canonicalize_nodes_def by (simp only: sort_json_by_map[where k = node_id, OF id_key_plain])
qed

lemma plain_nodes_mset:
  assumes "mset (map strip_ui ns) = mset (map strip_ui ms)" "distinct (map node_id ns)"
  shows "map plain_node (sort_key node_id ns) = map plain_node (sort_key node_id ms)"
proof -
  have ins: "insort_key node_id (strip_ui x) (map strip_ui ys) = map strip_ui (insort_key node_id x ys)" for x ys
    by (induction ys) auto
  have strip: "sort_key node_id (map strip_ui ys) = map strip_ui (sort_key node_id ys)" for ys
    by (induction ys) (simp_all add: ins)
  have "distinct (map node_id (map strip_ui ns))" using assms(2) by (simp add: comp_def)
  then have "inj_on node_id (set (map strip_ui ns))" by (simp only: distinct_map)
  from sort_key_mset[OF assms(1) this] have "map strip_ui (sort_key node_id ns) = map strip_ui (sort_key node_id ms)"
    by (simp only: strip)
  then have "map plain_node (map strip_ui (sort_key node_id ns)) = map plain_node (map strip_ui (sort_key node_id ms))" by simp
  then show ?thesis by (simp add: comp_def plain_node_strip)
qed

definition edge_json :: "edge \<Rightarrow> json" where
  "edge_json e = json_of (dump_edge e)"

definition edge_ends :: "edge \<Rightarrow> string \<times> string \<times> string \<times> string" where
  "edge_ends e = (fst (edge_from e), snd (edge_from e), fst (edge_to e), snd (edge_to e))"

lemma sort_edges_json: "sort_edges (map edge_json es) = Inr (map edge_json (sort_key edge_ends es))"
  unfolding sort_edges_def
  by (rule sort_json_by_map)
    (simp add: edge_json_def dump_edge_def py_pair_def edge_key_def endpoint_key_def edge_ends_def split_def)

lemma sort_edges_mset: "mset es = mset fs \<Longrightarrow> sort_key edge_ends es = sort_key edge_ends fs"
  by (rule sort_key_mset) (auto simp: inj_on_def edge_ends_def prod_eq_iff intro: edge.equality)

definition ref_json :: "component_ref \<Rightarrow> json" where
  "ref_json r = json_of (dump_ref r)"

lemma sort_refs_json: "sort_json_by id_key (map ref_json rs) = Inr (map ref_json (sort_key ref_id rs))"
  by (rule sort_json_by_map) (simp add: ref_json_def dump_ref_def id_key_def)

lemma sort_refs_mset:
  "mset rs = mset qs \<Longrightarrow> distinct (map ref_id rs) \<Longrightarrow> sort_key ref_id rs = sort_key ref_id qs"
  by (rule sort_key_mset) (simp_all add: distinct_map)

text \<open>A document whose dump is portable.\<close>

definition strategy_portable :: "strategy_document \<Rightarrow> bool" where
  "strategy_portable d \<longleftrightarrow> py_portable (dump_strategy d)"

definition strategy_json :: "strategy_document \<Rightarrow> json" where
  "strategy_json d = json_of (dump_strategy d)"

lemma to_ir_dict_strategy: "strategy_portable d \<Longrightarrow> to_ir_dict (dump_strategy d) = Inr (strategy_json d)"
  unfolding strategy_portable_def strategy_json_def dump_strategy_def by (rule to_ir_dict_json_of)

lemma project_strategy_json:
  "project_strategy (strategy_json d) = Inr (JObj [(''schema_version'', JStr (sd_schema_version d)), (''strategy'', json_of (dump_meta d)),
     (''execution_policy'', json_of (dump_policy d)), (''schedule'', JObj [(''kind'', JStr (schedule_kind (sd_schedule d)))]),
     (''nodes'', JList (map plain_node (sort_key node_id (sd_nodes d)))),
     (''edges'', JList (map edge_json (sort_key edge_ends (sd_edges d)))),
     (''component_refs'', JList (map ref_json (sort_key ref_id (sd_component_refs d)))),
     (''extensions'', json_of (py_optional py_object (sd_extensions d)))])"
proof -
  have lists: "map (json_of \<circ> dump_node) ns = map node_json ns" "map (json_of \<circ> dump_edge) es = map edge_json es"
    "map (json_of \<circ> dump_ref) rs = map ref_json rs" for ns es rs
    by (simp_all add: node_json_def edge_json_def ref_json_def)
  show ?thesis unfolding strategy_json_def dump_strategy_def project_strategy_def rewrite_list_def
    by (simp add: lists canonicalize_nodes_json sort_edges_json sort_refs_json)
qed

lemma same_content_projection:
  assumes "same_content a b" "distinct (map node_id (sd_nodes a))" "distinct (map ref_id (sd_component_refs a))"
  shows "project_strategy (strategy_json a) = project_strategy (strategy_json b)"
proof -
  have frame: "a\<lparr>sd_nodes := [], sd_edges := [], sd_component_refs := []\<rparr> = b\<lparr>sd_nodes := [], sd_edges := [], sd_component_refs := []\<rparr>"
    using assms(1) by (simp add: same_content_def)
  have same: "sd_schema_version a = sd_schema_version b" "sd_id a = sd_id b" "sd_version a = sd_version b" "sd_name a = sd_name b"
    "sd_description a = sd_description b" "sd_provenance a = sd_provenance b" "sd_bps a = sd_bps b" "sd_schedule a = sd_schedule b"
    "sd_extensions a = sd_extensions b"
    using arg_cong[OF frame, of sd_schema_version] arg_cong[OF frame, of sd_id] arg_cong[OF frame, of sd_version]
      arg_cong[OF frame, of sd_name] arg_cong[OF frame, of sd_description] arg_cong[OF frame, of sd_provenance]
      arg_cong[OF frame, of sd_bps] arg_cong[OF frame, of sd_schedule] arg_cong[OF frame, of sd_extensions] by simp_all
  have parts: "map plain_node (sort_key node_id (sd_nodes a)) = map plain_node (sort_key node_id (sd_nodes b))"
    "sort_key edge_ends (sd_edges a) = sort_key edge_ends (sd_edges b)"
    "sort_key ref_id (sd_component_refs a) = sort_key ref_id (sd_component_refs b)"
    using assms(1) plain_nodes_mset[OF _ assms(2)] sort_edges_mset sort_refs_mset[OF _ assms(3)]
    unfolding same_content_def by blast+
  have docs: "dump_meta a = dump_meta b" "dump_policy a = dump_policy b" by (simp_all add: dump_meta_def dump_policy_def same)
  show ?thesis by (simp only: project_strategy_json same parts docs)
qed

lemma semantic_projection_same:
  assumes "strategy_portable a" "strategy_portable b" "same_content a b" "distinct (map node_id (sd_nodes a))"
    "distinct (map ref_id (sd_component_refs a))"
  shows "semantic_projection T a = semantic_projection T b"
  by (simp add: semantic_projection_def to_ir_dict_strategy assms same_content_projection[OF assms(3-5)])

end
