(* ===== verification/Records.thy ===== *)
theory Records
  imports Engine ModelDump
begin

section \<open>Persisted run records and input provenance\<close>

text \<open>
  \<open>quantize/persistence/records.py\<close> and \<open>quantize/persistence/provenance.py\<close>: the durable shape of a
  completed run, copied field by field from the result of the engine, and the identity of its input
  data by canonical content hash.
\<close>

subsection \<open>Fault codes\<close>

definition dataset_mismatch :: string where "dataset_mismatch = ''dataset_mismatch''"
definition calendar_mismatch :: string where "calendar_mismatch = ''calendar_mismatch''"
definition unknown_provenance :: string where "unknown_provenance = ''unknown_provenance''"

subsection \<open>Fingerprints\<close>

definition calendar_payload :: "exchange_calendar \<Rightarrow> json_object" where
  "calendar_payload cal = [(''exchange'', JStr (exchange cal)), (''timezone'', JStr (cal_timezone cal)),
     (''sessions'', JList (map (\<lambda>s. JList [JStr (isoformat (session_date s)), JStr (instant_isoformat (open_at s)),
        JStr (instant_isoformat (close_at s))]) (sessions cal)))]"

definition calendar_fingerprint :: "json_text \<Rightarrow> exchange_calendar \<Rightarrow> string res" where
  "calendar_fingerprint T cal = try_bind (canonical_json_bytes T (calendar_payload cal)) (\<lambda>b. Inr (content_hash T b))"

definition observations_payload :: "market_data_set \<Rightarrow> json_object" where
  "observations_payload ds = [(''observations'', JObj (map (\<lambda>(asset, series). (asset, JList (map (\<lambda>ob.
     JList [JStr (isoformat (obs_date ob)), JFloat (open_price ob), JFloat (close_price ob),
       JStr (instant_isoformat (open_available_at ob)), JStr (instant_isoformat (close_available_at ob))]) series)))
     (observations ds)))]"

definition dataset_fingerprint :: "json_text \<Rightarrow> market_data_set \<Rightarrow> string res" where
  "dataset_fingerprint T ds = try_bind (canonical_json_bytes T (observations_payload ds)) (\<lambda>b. Inr (content_hash T b))"

subsection \<open>Input provenance\<close>

datatype provenance_status = ProvenanceRecorded | ProvenanceUnknown

record run_input_provenance =
  ip_status :: provenance_status
  ip_dataset_hash :: "string option"
  ip_calendar_hash :: "string option"

definition hashes_match_status :: "run_input_provenance \<Rightarrow> unit res" where
  "hashes_match_status p =
     (let recorded = (ip_status p = ProvenanceRecorded);
          has_hashes = (ip_dataset_hash p \<noteq> None \<and> ip_calendar_hash p \<noteq> None);
          has_none = (ip_dataset_hash p = None \<and> ip_calendar_hash p = None);
          well_formed = (\<lambda>h. case h of None \<Rightarrow> True | Some v \<Rightarrow> is_sha256_hex v) in
      if recorded \<and> \<not> has_hashes
      then Inl (ValidationError ''recorded provenance requires both dataset and calendar hashes'')
      else if \<not> recorded \<and> \<not> has_none
      then Inl (ValidationError ''unknown provenance must not carry hashes (never fabricated)'')
      else if \<not> well_formed (ip_dataset_hash p)
      then Inl (ValidationError ''dataset_hash must be a 64-character lowercase hex SHA-256 digest'')
      else if \<not> well_formed (ip_calendar_hash p)
      then Inl (ValidationError ''calendar_hash must be a 64-character lowercase hex SHA-256 digest'')
      else Inr ())"

definition mk_provenance :: "provenance_status \<Rightarrow> string option \<Rightarrow> string option \<Rightarrow> run_input_provenance res" where
  "mk_provenance s d c = (let p = \<lparr>ip_status = s, ip_dataset_hash = d, ip_calendar_hash = c\<rparr> in
     try_bind (hashes_match_status p) (\<lambda>_. Inr p))"

definition recorded_input_provenance :: "json_text \<Rightarrow> market_data_set \<Rightarrow> run_input_provenance res" where
  "recorded_input_provenance T ds =
     try_bind (dataset_fingerprint T ds) (\<lambda>d. try_bind (calendar_fingerprint T (calendar ds)) (\<lambda>c.
       mk_provenance ProvenanceRecorded (Some d) (Some c)))"

definition unknown_input_provenance :: "run_input_provenance res" where
  "unknown_input_provenance = mk_provenance ProvenanceUnknown None None"

definition input_provenance_mismatches :: "json_text \<Rightarrow> run_input_provenance \<Rightarrow> market_data_set \<Rightarrow> string list res" where
  "input_provenance_mismatches T p ds =
     (if ip_status p = ProvenanceUnknown then Inr [unknown_provenance]
      else try_bind (calendar_fingerprint T (calendar ds)) (\<lambda>c. try_bind (dataset_fingerprint T ds) (\<lambda>d.
        Inr (sort ((if ip_calendar_hash p \<noteq> Some c then [calendar_mismatch] else []) @
          (if ip_dataset_hash p \<noteq> Some d then [dataset_mismatch] else []))))))"

subsection \<open>The persisted record\<close>

definition record_format :: int where "record_format = 2"
definition trace_format :: int where "trace_format = 1"
definition run_mode_backtest :: string where "run_mode_backtest = ''backtest''"
definition run_mode_forward :: string where "run_mode_forward = ''forward''"

record plan_row =
  pr_asset :: string
  pr_price :: pyfloat
  pr_current_quantity :: pyfloat
  pr_target_weight :: pyfloat
  pr_target_notional :: pyfloat
  pr_target_quantity :: pyfloat
  pr_delta_quantity :: pyfloat
  pr_action :: string

record persisted_order =
  po_side :: string
  po_asset :: string
  po_quantity :: pyfloat

record persisted_evaluation =
  pe_session :: date
  pe_instant :: instant
  pe_target_weights :: "(string \<times> pyfloat) list"
  pe_ok :: bool
  pe_portfolio_value :: "pyfloat option"
  pe_target_cash :: "pyfloat option"
  pe_projected_cash :: "pyfloat option"
  pe_plans :: "plan_row list"
  pe_orders :: "persisted_order list"
  pe_fill_session :: "date option"
  pe_fill_instant :: "instant option"

record persisted_fill =
  pf_session :: date
  pf_instant :: instant
  pf_side :: string
  pf_asset :: string
  pf_quantity :: pyfloat
  pf_price :: pyfloat
  pf_cost :: pyfloat
  pf_cash_delta :: pyfloat
  pf_scaled :: bool

record persisted_diagnostic =
  pd_code :: string
  pd_message :: string
  pd_node_path :: "string list"
  pd_subject :: "string option"

record run_record =
  rr_record_format :: int
  rr_run_id :: string
  rr_mode :: string
  rr_strategy_id :: string
  rr_strategy_version :: int
  rr_ok :: bool
  rr_input_provenance :: run_input_provenance
  rr_exchange :: string
  rr_timezone :: string
  rr_first_session :: "date option"
  rr_last_session :: "date option"
  rr_valuations :: "(date \<times> pyfloat) list"
  rr_returns :: "pyfloat list"
  rr_total_return :: pyfloat
  rr_max_drawdown :: pyfloat
  rr_final_cash :: pyfloat
  rr_final_positions :: "(string \<times> pyfloat) list"
  rr_evaluations :: "persisted_evaluation list"
  rr_fills :: "persisted_fill list"
  rr_stale_marks :: "stale_mark list"
  rr_notes :: "session_note list"
  rr_diagnostics :: "persisted_diagnostic list"

definition persisted_plan :: "asset_plan \<Rightarrow> plan_row" where
  "persisted_plan p = \<lparr>pr_asset = plan_asset p, pr_price = plan_price p, pr_current_quantity = current_quantity p,
     pr_target_weight = target_weight p, pr_target_notional = target_notional p, pr_target_quantity = target_quantity p,
     pr_delta_quantity = delta_quantity p, pr_action = action_str (plan_action p)\<rparr>"

definition persisted_order_of :: "order \<Rightarrow> persisted_order" where
  "persisted_order_of ord = \<lparr>po_side = side_str (ord_side ord), po_asset = ord_asset ord, po_quantity = ord_quantity ord\<rparr>"

definition persisted_evaluation_of :: "evaluation_record \<Rightarrow> persisted_evaluation" where
  "persisted_evaluation_of r = (let out = er_reconciliation r in
     \<lparr>pe_session = er_session r, pe_instant = er_instant r, pe_target_weights = er_weights r, pe_ok = out_ok out,
      pe_portfolio_value = portfolio_value out, pe_target_cash = target_cash out, pe_projected_cash = projected_cash out,
      pe_plans = map persisted_plan (out_plans out), pe_orders = map persisted_order_of (out_orders out),
      pe_fill_session = er_fill_session r, pe_fill_instant = er_fill_instant r\<rparr>)"

definition persisted_fill_of :: "fill_event \<Rightarrow> persisted_fill" where
  "persisted_fill_of e = (let f = fe_fill e in
     \<lparr>pf_session = fe_session e, pf_instant = fe_instant e, pf_side = side_str (fill_side f), pf_asset = fill_asset f,
      pf_quantity = fill_quantity f, pf_price = fill_price f, pf_cost = fill_cost f, pf_cash_delta = fill_cash_delta f,
      pf_scaled = fill_scaled f\<rparr>)"

definition persisted_diagnostic_of :: "runtime_diagnostic \<Rightarrow> persisted_diagnostic" where
  "persisted_diagnostic_of d = \<lparr>pd_code = diag_code d, pd_message = diag_message d, pd_node_path = diag_path d,
     pd_subject = diag_subject d\<rparr>"

definition record_from_result ::
    "backtest_result \<Rightarrow> string \<Rightarrow> int \<Rightarrow> run_input_provenance \<Rightarrow> string \<Rightarrow> run_record" where
  "record_from_result result strategy_id strategy_version input_provenance mode =
     \<lparr>rr_record_format = record_format, rr_run_id = br_run_id result, rr_mode = mode, rr_strategy_id = strategy_id,
      rr_strategy_version = strategy_version, rr_ok = br_ok result, rr_input_provenance = input_provenance,
      rr_exchange = exchange (br_calendar result), rr_timezone = cal_timezone (br_calendar result),
      rr_first_session = br_first_session result, rr_last_session = br_last_session result,
      rr_valuations = br_valuations result, rr_returns = br_returns result, rr_total_return = br_total_return result,
      rr_max_drawdown = br_max_drawdown result, rr_final_cash = cash (br_final_state result),
      rr_final_positions = positions (br_final_state result),
      rr_evaluations = map persisted_evaluation_of (br_evaluations result), rr_fills = map persisted_fill_of (br_fills result),
      rr_stale_marks = br_stale_marks result, rr_notes = br_notes result,
      rr_diagnostics = map persisted_diagnostic_of (br_diagnostics result)\<rparr>"

subsection \<open>The dump of a record\<close>

definition py_date_value :: "date \<times> pyfloat \<Rightarrow> py_value" where
  "py_date_value p = PyList [PyDate (fst p), PyReal (snd p)]"

definition py_asset_value :: "string \<times> pyfloat \<Rightarrow> py_value" where
  "py_asset_value p = PyList [PyStr (fst p), PyReal (snd p)]"

fun status_str :: "provenance_status \<Rightarrow> string" where
  "status_str ProvenanceRecorded = ''recorded''"
| "status_str ProvenanceUnknown = ''unknown''"

definition dump_input_provenance :: "run_input_provenance \<Rightarrow> py_value" where
  "dump_input_provenance p = PyDict [entry ''status'' (PyStr (status_str (ip_status p))),
     entry ''dataset_hash'' (py_optional PyStr (ip_dataset_hash p)), entry ''calendar_hash'' (py_optional PyStr (ip_calendar_hash p))]"

definition dump_plan_row :: "plan_row \<Rightarrow> py_value" where
  "dump_plan_row p = PyDict [entry ''asset'' (PyStr (pr_asset p)), entry ''price'' (PyReal (pr_price p)),
     entry ''current_quantity'' (PyReal (pr_current_quantity p)), entry ''target_weight'' (PyReal (pr_target_weight p)),
     entry ''target_notional'' (PyReal (pr_target_notional p)), entry ''target_quantity'' (PyReal (pr_target_quantity p)),
     entry ''delta_quantity'' (PyReal (pr_delta_quantity p)), entry ''action'' (PyStr (pr_action p))]"

definition dump_order :: "persisted_order \<Rightarrow> py_value" where
  "dump_order ord = PyDict [entry ''side'' (PyStr (po_side ord)), entry ''asset'' (PyStr (po_asset ord)),
     entry ''quantity'' (PyReal (po_quantity ord))]"

definition dump_evaluation :: "persisted_evaluation \<Rightarrow> py_value" where
  "dump_evaluation r = PyDict [entry ''session_date'' (PyDate (pe_session r)), entry ''evaluation_instant'' (PyInstant (pe_instant r)),
     entry ''target_weights'' (PyList (map py_asset_value (pe_target_weights r))), entry ''ok'' (PyTruth (pe_ok r)),
     entry ''portfolio_value'' (py_optional PyReal (pe_portfolio_value r)), entry ''target_cash'' (py_optional PyReal (pe_target_cash r)),
     entry ''projected_cash'' (py_optional PyReal (pe_projected_cash r)), entry ''plans'' (PyList (map dump_plan_row (pe_plans r))),
     entry ''orders'' (PyList (map dump_order (pe_orders r))), entry ''fill_session'' (py_optional PyDate (pe_fill_session r)),
     entry ''scheduled_fill_instant'' (py_optional PyInstant (pe_fill_instant r))]"

definition dump_fill :: "persisted_fill \<Rightarrow> py_value" where
  "dump_fill f = PyDict [entry ''session_date'' (PyDate (pf_session f)), entry ''actual_fill_instant'' (PyInstant (pf_instant f)),
     entry ''side'' (PyStr (pf_side f)), entry ''asset'' (PyStr (pf_asset f)), entry ''quantity'' (PyReal (pf_quantity f)),
     entry ''price'' (PyReal (pf_price f)), entry ''cost'' (PyReal (pf_cost f)), entry ''cash_delta'' (PyReal (pf_cash_delta f)),
     entry ''scaled'' (PyTruth (pf_scaled f))]"

definition dump_stale_mark :: "stale_mark \<Rightarrow> py_value" where
  "dump_stale_mark m = PyDict [entry ''session_date'' (PyDate (sm_session m)), entry ''asset'' (PyStr (sm_asset m)),
     entry ''mark_date'' (PyDate (sm_mark_date m))]"

definition dump_note :: "session_note \<Rightarrow> py_value" where
  "dump_note n = PyDict [entry ''session_date'' (PyDate (sn_session n)), entry ''code'' (PyStr (sn_code n)),
     entry ''message'' (PyStr (sn_message n))]"

definition dump_diagnostic :: "persisted_diagnostic \<Rightarrow> py_value" where
  "dump_diagnostic d = PyDict [entry ''code'' (PyStr (pd_code d)), entry ''message'' (PyStr (pd_message d)),
     entry ''node_path'' (PyList (map PyStr (pd_node_path d))), entry ''subject'' (py_optional PyStr (pd_subject d))]"

definition dump_record :: "run_record \<Rightarrow> py_value" where
  "dump_record r = PyDict [entry ''record_format'' (PyInteger (rr_record_format r)), entry ''run_id'' (PyStr (rr_run_id r)),
     entry ''mode'' (PyStr (rr_mode r)), entry ''strategy_id'' (PyStr (rr_strategy_id r)),
     entry ''strategy_version'' (PyInteger (rr_strategy_version r)), entry ''ok'' (PyTruth (rr_ok r)),
     entry ''input_provenance'' (dump_input_provenance (rr_input_provenance r)), entry ''exchange'' (PyStr (rr_exchange r)),
     entry ''timezone'' (PyStr (rr_timezone r)), entry ''first_session'' (py_optional PyDate (rr_first_session r)),
     entry ''last_session'' (py_optional PyDate (rr_last_session r)), entry ''valuations'' (PyList (map py_date_value (rr_valuations r))),
     entry ''returns'' (PyList (map PyReal (rr_returns r))), entry ''total_return'' (PyReal (rr_total_return r)),
     entry ''max_drawdown'' (PyReal (rr_max_drawdown r)), entry ''final_cash'' (PyReal (rr_final_cash r)),
     entry ''final_positions'' (PyList (map py_asset_value (rr_final_positions r))),
     entry ''evaluations'' (PyList (map dump_evaluation (rr_evaluations r))), entry ''fills'' (PyList (map dump_fill (rr_fills r))),
     entry ''stale_marks'' (PyList (map dump_stale_mark (rr_stale_marks r))), entry ''notes'' (PyList (map dump_note (rr_notes r))),
     entry ''diagnostics'' (PyList (map dump_diagnostic (rr_diagnostics r)))]"

end
