(* ===== verification/Database.thy ===== *)
theory Database
  imports Records
begin

section \<open>The database: tables, transactions and migrations\<close>

text \<open>
  \<open>quantize/persistence/database.py\<close> and \<open>quantize/persistence/migrations.py\<close>, over the part of SQLite the
  program uses: tables with \<open>NOT NULL\<close>, primary and foreign keys, \<open>INSERT\<close>, and reads given as a
  filter, an order and a projection. A cell may hold a value of any storage class, so a row changed
  behind the program's back is a row of the model. One operation runs in an \<open>environment\<close>: which of its
  phases meet a lock of another connection, and what other connections commit between the reads of
  the operation and the begin of its transaction.
\<close>

subsection \<open>Faults\<close>

datatype fault =
    PersistenceError string string
  | IntegrityViolationError string
  | SqliteIntegrityError string
  | SqliteLocked string
  | SqliteOperationalError string
  | SqliteDatabaseError string
  | RuntimeError string
  | Raised exn

definition artifact_not_found :: string where "artifact_not_found = ''artifact_not_found''"
definition artifact_conflict :: string where "artifact_conflict = ''artifact_conflict''"
definition invalid_artifact :: string where "invalid_artifact = ''invalid_artifact''"
definition corrupt_artifact :: string where "corrupt_artifact = ''corrupt_artifact''"
definition unsupported_artifact_version :: string where "unsupported_artifact_version = ''unsupported_artifact_version''"
definition unsupported_database_version :: string where "unsupported_database_version = ''unsupported_database_version''"
definition corrupt_database :: string where "corrupt_database = ''corrupt_database''"
definition database_locked :: string where "database_locked = ''database_locked''"

text \<open>A fallible computation of the other components, raised here.\<close>

definition raising :: "'a res \<Rightarrow> fault + 'a" where
  "raising r = (case r of Inl e \<Rightarrow> Inl (Raised e) | Inr x \<Rightarrow> Inr x)"

lemma raising_simps [simp]: "raising (Inr x) = Inr x" "raising (Inl e) = Inl (Raised e)"
  by (simp_all add: raising_def)

lemma raising_Inr [res_simps]: "raising r = Inr x \<longleftrightarrow> r = Inr x"
  by (cases r) simp_all

subsection \<open>Tables\<close>

datatype sql_value = SqlNull | SqlInt int | SqlReal pyfloat | SqlText string | SqlBlob string

type_synonym sql_row = "(string \<times> sql_value) list"

record table =
  tb_columns :: "(string \<times> bool) list"
  tb_key :: "string list"
  tb_foreign :: "(string list \<times> string \<times> string list) list"
  tb_rows :: "sql_row list"

type_synonym database = "(string \<times> table) list"

definition cell :: "sql_row \<Rightarrow> string \<Rightarrow> sql_value" where
  "cell r c = (case map_of r c of Some v \<Rightarrow> v | None \<Rightarrow> SqlNull)"

definition cells :: "string list \<Rightarrow> sql_row \<Rightarrow> sql_value list" where
  "cells cs r = map (cell r) cs"

definition rows_of :: "database \<Rightarrow> string \<Rightarrow> sql_row list" where
  "rows_of db name = (case map_of db name of None \<Rightarrow> [] | Some t \<Rightarrow> tb_rows t)"

text \<open>\<open>NULL\<close> equals nothing; a NaN is bound as \<open>NULL\<close>.\<close>

fun sql_equal :: "sql_value \<Rightarrow> sql_value \<Rightarrow> bool" where
  "sql_equal SqlNull v = False"
| "sql_equal u v = (u = v)"

fun bind_value :: "sql_value \<Rightarrow> sql_value" where
  "bind_value (SqlReal NaN) = SqlNull"
| "bind_value v = v"

fun sql_order :: "sql_value \<Rightarrow> nat \<times> int \<times> rat \<times> string" where
  "sql_order SqlNull = (0, 0, 0, [])"
| "sql_order (SqlInt i) = (1, 0, of_int i, [])"
| "sql_order (SqlReal (Fin r)) = (1, 0, r, [])"
| "sql_order (SqlReal PInf) = (1, 1, 0, [])"
| "sql_order (SqlReal _) = (1, - 1, 0, [])"
| "sql_order (SqlText s) = (2, 0, 0, s)"
| "sql_order (SqlBlob s) = (3, 0, 0, s)"

definition sql_keys :: "string list \<Rightarrow> sql_row \<Rightarrow> (nat \<times> int \<times> rat \<times> string) list" where
  "sql_keys cs r = map sql_order (cells cs r)"

subsection \<open>Statements\<close>

datatype statement =
    CreateTable string "(string \<times> bool) list" "string list" "(string list \<times> string \<times> string list) list"
  | Insert string sql_row

definition join_columns :: "string \<Rightarrow> string list \<Rightarrow> string" where
  "join_columns name cs = join_str '', '' (map (\<lambda>c. name @ ''.'' @ c) cs)"

definition null_violation :: "table \<Rightarrow> sql_row \<Rightarrow> string option" where
  "null_violation t r = map_option fst (find (\<lambda>(c, required). required \<and> cell r c = SqlNull) (tb_columns t))"

definition same_key :: "string list \<Rightarrow> sql_row \<Rightarrow> sql_row \<Rightarrow> bool" where
  "same_key cs r r' \<longleftrightarrow> list_all (\<lambda>c. sql_equal (cell r c) (cell r' c)) cs"

definition foreign_ok :: "database \<Rightarrow> sql_row \<Rightarrow> string list \<times> string \<times> string list \<Rightarrow> bool" where
  "foreign_ok db r f = (case f of (cs, parent, ps) \<Rightarrow>
     (\<exists>v \<in> set (cells cs r). v = SqlNull) \<or>
     (\<exists>p \<in> set (rows_of db parent). list_all2 sql_equal (cells cs r) (cells ps p)))"

definition execute_statement :: "statement \<Rightarrow> database \<Rightarrow> fault + database" where
  "execute_statement st db = (case st of
     CreateTable name columns key foreign \<Rightarrow>
       if name \<in> fst ` set db then Inl (SqliteOperationalError (''table '' @ name @ '' already exists''))
       else Inr (db @ [(name, \<lparr>tb_columns = columns, tb_key = key, tb_foreign = foreign, tb_rows = []\<rparr>)])
   | Insert name row \<Rightarrow>
       (case map_of db name of
          None \<Rightarrow> Inl (SqliteOperationalError (''no such table: '' @ name))
        | Some t \<Rightarrow>
            let r = map (\<lambda>(c, v). (c, bind_value v)) row in
            (case null_violation t r of
               Some c \<Rightarrow> Inl (SqliteIntegrityError (''NOT NULL constraint failed: '' @ name @ ''.'' @ c))
             | None \<Rightarrow>
                 if \<exists>r' \<in> set (tb_rows t). same_key (tb_key t) r r'
                 then Inl (SqliteIntegrityError (''UNIQUE constraint failed: '' @ join_columns name (tb_key t)))
                 else let db' = AList.update name (t\<lparr>tb_rows := tb_rows t @ [r]\<rparr>) db in
                   if list_all (foreign_ok db' r) (tb_foreign t) then Inr db'
                   else Inl (SqliteIntegrityError ''FOREIGN KEY constraint failed''))))"

subsection \<open>Environment and connection\<close>

record environment =
  env_lock_open :: bool
  env_lock_query :: bool
  env_lock_begin :: bool
  env_lock_statement :: "nat option"
  env_lock_commit :: bool
  env_race :: "database \<Rightarrow> database"
  env_now :: string

definition quiet :: "string \<Rightarrow> environment" where
  "quiet now = \<lparr>env_lock_open = False, env_lock_query = False, env_lock_begin = False, env_lock_statement = None,
     env_lock_commit = False, env_race = (\<lambda>db. db), env_now = now\<rparr>"

record connection =
  cn_tables :: database
  cn_in_transaction :: bool

definition locked :: "string \<Rightarrow> fault" where
  "locked phase = PersistenceError database_locked
     (''the database is locked by another connection ('' @ phase @ ''): database is locked'')"

fun execute_all :: "nat \<Rightarrow> nat option \<Rightarrow> statement list \<Rightarrow> database \<Rightarrow> fault + database" where
  "execute_all i lock [] db = Inr db"
| "execute_all i lock (st # sts) db =
     (if lock = Some i then Inl (SqliteLocked ''database is locked'')
      else try_bind (execute_statement st db) (execute_all (Suc i) lock sts))"

text \<open>What leaves a transaction whose body raised, after the rollback.\<close>

fun body_fault :: "fault \<Rightarrow> fault" where
  "body_fault (SqliteIntegrityError m) = IntegrityViolationError (''database constraint violated: '' @ m)"
| "body_fault (SqliteLocked m) = locked ''statement''"
| "body_fault e = e"

definition transaction :: "environment \<Rightarrow> statement list \<Rightarrow> connection \<Rightarrow> (fault + unit) \<times> connection" where
  "transaction env body cn =
     (if cn_in_transaction cn then (Inl (RuntimeError ''nested transactions are not supported''), cn)
      else
        let committed = cn\<lparr>cn_tables := env_race env (cn_tables cn)\<rparr> in
        if env_lock_begin env then (Inl (locked ''begin''), committed)
        else (case execute_all 0 (env_lock_statement env) body (cn_tables committed) of
            Inl e \<Rightarrow> (Inl (body_fault e), committed)
          | Inr db \<Rightarrow> if env_lock_commit env then (Inl (locked ''commit''), committed)
              else (Inr (), committed\<lparr>cn_tables := db\<rparr>)))"

definition select ::
    "environment \<Rightarrow> string \<Rightarrow> string list \<Rightarrow> (sql_row \<Rightarrow> bool) \<Rightarrow> string list \<Rightarrow> connection \<Rightarrow> fault + sql_value list list" where
  "select env name columns cond order cn =
     (if env_lock_query env then Inl (locked ''query'')
      else case map_of (cn_tables cn) name of
        None \<Rightarrow> Inl (SqliteOperationalError (''no such table: '' @ name))
      | Some t \<Rightarrow> Inr (map (cells columns) (sort_key (sql_keys order) (filter cond (tb_rows t)))))"

definition where_equal :: "sql_row \<Rightarrow> sql_row \<Rightarrow> bool" where
  "where_equal conds r = list_all (\<lambda>(c, v). sql_equal (cell r c) v) conds"

subsection \<open>Migrations of the structure\<close>

record database_migration =
  dm_version :: int
  dm_statements :: "statement list"

definition strategies_table :: statement where
  "strategies_table = CreateTable ''strategies''
     [(''strategy_id'', True), (''version'', True), (''schema_version'', True), (''name'', True), (''content_hash'', True),
      (''document'', True), (''saved_at'', True)] [''strategy_id'', ''version''] []"

definition components_table :: statement where
  "components_table = CreateTable ''components''
     [(''component_id'', True), (''version'', True), (''schema_version'', True), (''name'', True), (''content_hash'', True),
      (''document'', True), (''saved_at'', True)] [''component_id'', ''version''] []"

definition runs_table :: statement where
  "runs_table = CreateTable ''runs''
     [(''run_id'', True), (''strategy_id'', True), (''strategy_version'', True), (''mode'', True), (''record_format'', True),
      (''ok'', True), (''first_session'', False), (''last_session'', False), (''total_return'', True), (''content_hash'', True),
      (''trace_content_hash'', True), (''trace_count'', True), (''record'', True), (''saved_at'', True)] [''run_id'']
     [([''strategy_id'', ''strategy_version''], ''strategies'', [''strategy_id'', ''version''])]"

definition trace_events_table :: statement where
  "trace_events_table = CreateTable ''trace_events''
     [(''run_id'', True), (''seq'', True), (''trace_format'', True), (''timestamp'', True), (''event'', True)]
     [''run_id'', ''seq''] [([''run_id''], ''runs'', [''run_id''])]"

definition datasets_table :: statement where
  "datasets_table = CreateTable ''datasets''
     [(''dataset_id'', True), (''dataset_fingerprint'', True), (''calendar_fingerprint'', True), (''payload'', True),
      (''saved_at'', True)] [''dataset_id''] []"

definition schema_migrations_table :: statement where
  "schema_migrations_table = CreateTable ''schema_migrations'' [(''version'', True), (''applied_at'', True)] [''version''] []"

definition database_migrations :: "database_migration list" where
  "database_migrations =
     [\<lparr>dm_version = 1, dm_statements = [strategies_table, components_table, runs_table, trace_events_table]\<rparr>,
      \<lparr>dm_version = 2, dm_statements = [datasets_table]\<rparr>]"

definition current_database_version :: int where
  "current_database_version = dm_version (last database_migrations)"

definition current_version :: "environment \<Rightarrow> connection \<Rightarrow> fault + int" where
  "current_version env cn =
     (if env_lock_query env then Inl (locked ''query'')
      else if ''schema_migrations'' \<notin> fst ` set (cn_tables cn) then Inr 0
      else try_bind (select env ''schema_migrations'' [''version''] (\<lambda>r. cell r ''version'' \<noteq> SqlNull) [''version''] cn) (\<lambda>rows.
        case rows of [] \<Rightarrow> Inr 0
        | _ \<Rightarrow> (case hd (last rows) of SqlInt v \<Rightarrow> Inr v | _ \<Rightarrow> Inl (Raised AssertionError))))"

definition migration_body :: "string \<Rightarrow> database_migration \<Rightarrow> statement list" where
  "migration_body now m = (if dm_version m = 1 then [schema_migrations_table] else []) @ dm_statements m @
     [Insert ''schema_migrations'' [(''version'', SqlInt (dm_version m)), (''applied_at'', SqlText now)]]"

fun run_migrations :: "environment \<Rightarrow> int \<Rightarrow> database_migration list \<Rightarrow> connection \<Rightarrow> (fault + unit) \<times> connection" where
  "run_migrations env version [] cn = (Inr (), cn)"
| "run_migrations env version (m # ms) cn =
     (if dm_version m \<le> version then run_migrations env version ms cn
      else case transaction env (migration_body (env_now env) m) cn of
        (Inl e, cn') \<Rightarrow> (Inl e, cn')
      | (Inr _, cn') \<Rightarrow> run_migrations env version ms cn')"

definition apply_migrations :: "environment \<Rightarrow> connection \<Rightarrow> (fault + unit) \<times> connection" where
  "apply_migrations env cn = (case current_version env cn of
     Inl e \<Rightarrow> (Inl e, cn)
   | Inr version \<Rightarrow>
       if version > current_database_version
       then (Inl (PersistenceError unsupported_database_version (''database is at version '' @ dec_int version @
         '', newer than supported '' @ dec_int current_database_version)), cn)
       else run_migrations env version database_migrations cn)"

text \<open>Opening a file: one that is not a database is a structured fault.\<close>

datatype database_file = Garbage string | Tables database

definition open_database :: "environment \<Rightarrow> database_file \<Rightarrow> (fault + connection) \<times> database_file" where
  "open_database env file = (case file of
     Garbage m \<Rightarrow> (Inl (PersistenceError corrupt_database (''file is not readable as a SQLite database: '' @ m)), file)
   | Tables db \<Rightarrow>
       if env_lock_open env then (Inl (locked ''open''), file)
       else (case apply_migrations env \<lparr>cn_tables = db, cn_in_transaction = False\<rparr> of
           (Inl e, cn) \<Rightarrow> (Inl e, Tables (cn_tables cn))
         | (Inr _, cn) \<Rightarrow> (Inr cn, Tables (cn_tables cn))))"

subsection \<open>Migrations of the artifact formats\<close>

record artifact_migration =
  am_kind :: string
  am_from_version :: int
  am_migrate :: "json_object \<Rightarrow> json_object"
  am_dropped_keys :: "string list"

type_synonym migration_registry = "((string \<times> int) \<times> artifact_migration) list"

definition register_migration :: "artifact_migration \<Rightarrow> migration_registry \<Rightarrow> migration_registry res" where
  "register_migration m steps =
     (let key = (am_kind m, am_from_version m) in
      if key \<in> fst ` set steps
      then Inl (ValueError (''duplicate migration registered for ('' @ repr_str (am_kind m) @ '', '' @ dec_int (am_from_version m) @ '')''))
      else Inr (steps @ [(key, m)]))"

function migrate_steps ::
    "migration_registry \<Rightarrow> string \<Rightarrow> int \<Rightarrow> int \<Rightarrow> json_object \<Rightarrow> fault + json_object" where
  "migrate_steps steps kind version current payload =
     (if \<not> version < current then Inr payload
      else case map_of steps (kind, version) of
        None \<Rightarrow> Inl (PersistenceError unsupported_artifact_version
          (''no migration registered for '' @ kind @ '' format '' @ dec_int version))
      | Some step \<Rightarrow> migrate_steps steps kind (version + 1) current (am_migrate step payload))"
  by pat_completeness auto

termination by (relation "measure (\<lambda>(_, _, v, c, _). nat (c - v))") auto

definition migrate_to_current ::
    "migration_registry \<Rightarrow> string \<Rightarrow> json_object \<Rightarrow> int \<Rightarrow> int \<Rightarrow> fault + json_object" where
  "migrate_to_current steps kind payload stored current =
     (if stored = current then Inr payload
      else if stored > current
      then Inl (PersistenceError unsupported_artifact_version
        (kind @ '' format '' @ dec_int stored @ '' is newer than supported '' @ dec_int current))
      else migrate_steps steps kind stored current payload)"

definition run_record_1_to_2 :: "json_object \<Rightarrow> json_object" where
  "run_record_1_to_2 payload = AList.update ''input_provenance''
     (JObj [(''status'', JStr ''unknown''), (''dataset_hash'', JNull), (''calendar_hash'', JNull)])
     (AList.update ''record_format'' (JInt 2) payload)"

definition artifact_migrations :: migration_registry where
  "artifact_migrations = [((''run_record'', 1),
     \<lparr>am_kind = ''run_record'', am_from_version = 1, am_migrate = run_record_1_to_2, am_dropped_keys = []\<rparr>)]"

declare migrate_steps.simps [simp del]

end
