(* ===== verification/Documents.thy ===== *)
theory Documents
  imports Database Resolve
begin

section \<open>Stored documents and the closure fetch\<close>

text \<open>
  \<open>quantize/persistence/documents.py\<close> and \<open>quantize/persistence/closure.py\<close>. Parsing a decoded dict
  into a governed model is pydantic's \<open>model_validate\<close>, a parameter: it gives the model or the number
  of its errors. Text and bytes are one type, as UTF-8 encodes every string of the model.
\<close>

record validators =
  va_strategy :: "json \<Rightarrow> nat + strategy_document"
  va_component :: "json \<Rightarrow> nat + component_definition"
  va_record :: "json \<Rightarrow> nat + run_record"
  va_event :: "json \<Rightarrow> nat + trace_event"

type_synonym strategy_key = "string \<times> int"

record strategy_summary =
  ss_strategy_id :: string
  ss_version :: int
  ss_name :: string
  ss_schema_version :: string
  ss_saved_at :: string

record component_summary =
  cm_component_id :: string
  cm_version :: string
  cm_name :: string
  cm_schema_version :: string
  cm_saved_at :: string

subsection \<open>Shared steps\<close>

definition artifact_bytes :: "json_text \<Rightarrow> py_value \<Rightarrow> string \<Rightarrow> fault + string" where
  "artifact_bytes T dump kind = (case to_ir_json T dump of
     Inr s \<Rightarrow> Inr s
   | Inl (ValueError m) \<Rightarrow> Inl (PersistenceError invalid_artifact (kind @ '' cannot be persisted: '' @ m))
   | Inl e \<Rightarrow> Inl (Raised e))"

definition decode_json :: "json_text \<Rightarrow> string \<Rightarrow> string \<Rightarrow> fault + json_object" where
  "decode_json T raw kind = (case strict_json_loads T raw of
     Inl (ValueError m) \<Rightarrow> Inl (PersistenceError corrupt_artifact (''stored '' @ kind @ '' is not portable JSON: '' @ m))
   | Inl e \<Rightarrow> Inl (Raised e)
   | Inr (JObj kvs) \<Rightarrow> Inr kvs
   | Inr _ \<Rightarrow> Inl (PersistenceError corrupt_artifact (''stored '' @ kind @ '' is not a JSON object'')))"

definition gate_schema_version :: "json_object \<Rightarrow> sql_value \<Rightarrow> string \<Rightarrow> fault + unit" where
  "gate_schema_version payload row_version kind = (case map_of payload ''schema_version'' of
     Some (JStr v) \<Rightarrow>
       if \<not> is_supported_schema_version v
       then Inl (PersistenceError unsupported_artifact_version
         (''stored '' @ kind @ '' payload has unsupported schema_version '' @ repr_str v))
       else if row_version \<noteq> SqlText v
       then Inl (PersistenceError corrupt_artifact
         (''stored '' @ kind @ '' row schema_version does not match the payload's '' @ repr_str v))
       else Inr ()
   | _ \<Rightarrow> Inl (PersistenceError unsupported_artifact_version (''stored '' @ kind @ '' payload has unsupported schema_version'')))"

definition require_supported_for_save :: "string \<Rightarrow> string \<Rightarrow> fault + unit" where
  "require_supported_for_save version kind =
     (if is_supported_schema_version version then Inr ()
      else Inl (PersistenceError invalid_artifact
        (kind @ '' schema_version '' @ repr_str version @ '' is not supported and cannot be persisted'')))"

definition verify_hash :: "json_text \<Rightarrow> string \<Rightarrow> sql_value \<Rightarrow> string \<Rightarrow> fault + unit" where
  "verify_hash T stored recorded kind =
     (if SqlText (content_hash T stored) \<noteq> recorded
      then Inl (PersistenceError corrupt_artifact (''stored '' @ kind @ '' bytes do not match their recorded content hash''))
      else Inr ())"

text \<open>The read side of both repositories, from the row of the document to its validated model.\<close>

definition load_document ::
    "json_text \<Rightarrow> (json \<Rightarrow> nat + 'a) \<Rightarrow> string \<Rightarrow> sql_value list list \<Rightarrow> string \<Rightarrow> fault + 'a" where
  "load_document T validate kind rows missing = (case rows of
     [] \<Rightarrow> Inl (PersistenceError artifact_not_found missing)
   | (raw # recorded_hash # schema_version # _) # _ \<Rightarrow>
       (case raw of
          SqlText text \<Rightarrow>
            try_bind (verify_hash T text recorded_hash kind) (\<lambda>_.
            try_bind (decode_json T text kind) (\<lambda>payload.
            try_bind (gate_schema_version payload schema_version kind) (\<lambda>_.
              case validate (JObj payload) of
                Inr x \<Rightarrow> Inr x
              | Inl n \<Rightarrow> Inl (PersistenceError corrupt_artifact
                  (''stored '' @ kind @ '' failed domain validation: '' @ dec_nat n @ '' error(s)'')))))
        | _ \<Rightarrow> Inl (PersistenceError corrupt_artifact (''stored '' @ kind @ '' is not text'')))
   | _ \<Rightarrow> Inl (Raised (ValueError ''not enough values to unpack'')))"

subsection \<open>Strategies\<close>

definition strategy_name_of :: "strategy_key \<Rightarrow> string" where
  "strategy_name_of k = ''strategy '' @ fst k @ '' v'' @ dec_int (snd k)"

definition strategy_where :: "strategy_key \<Rightarrow> sql_row \<Rightarrow> bool" where
  "strategy_where k = where_equal [(''strategy_id'', SqlText (fst k)), (''version'', SqlInt (snd k))]"

definition strategy_row :: "environment \<Rightarrow> strategy_document \<Rightarrow> string \<Rightarrow> string \<Rightarrow> sql_row" where
  "strategy_row env d digest stored = [(''strategy_id'', SqlText (sd_id d)), (''version'', SqlInt (sd_version d)),
     (''schema_version'', SqlText (sd_schema_version d)), (''name'', SqlText (sd_name d)), (''content_hash'', SqlText digest),
     (''document'', SqlText stored), (''saved_at'', SqlText (env_now env))]"

definition already_different :: "string \<Rightarrow> fault" where
  "already_different what = PersistenceError artifact_conflict
     (what @ '' already exists with different content; persisted artifacts are immutable'')"

definition concurrently_saved :: "string \<Rightarrow> fault" where
  "concurrently_saved what = PersistenceError artifact_conflict (what @ '' was concurrently saved with different content'')"

definition prepare_save ::
    "environment \<Rightarrow> json_text \<Rightarrow> strategy_document \<Rightarrow> connection \<Rightarrow> fault + strategy_key \<times> statement option" where
  "prepare_save env T d cn =
     (let key = (sd_id d, sd_version d) in
      try_bind (require_supported_for_save (sd_schema_version d) ''strategy'') (\<lambda>_.
      try_bind (artifact_bytes T (dump_strategy d) ''strategy'') (\<lambda>stored.
      let digest = content_hash T stored in
      try_bind (select env ''strategies'' [''content_hash''] (strategy_where key) [] cn) (\<lambda>existing.
        case existing of
          row # _ \<Rightarrow> if row = [SqlText digest] then Inr (key, None) else Inl (already_different (strategy_name_of key))
        | [] \<Rightarrow> Inr (key, Some (Insert ''strategies'' (strategy_row env d digest stored)))))))"

text \<open>\<open>except IntegrityViolationError\<close> around the transaction of a save.\<close>

definition on_violation :: "fault \<Rightarrow> fault + 'a \<Rightarrow> fault + 'a" where
  "on_violation conflict r = (case r of Inl (IntegrityViolationError m) \<Rightarrow> Inl conflict | _ \<Rightarrow> r)"

definition save_strategy ::
    "environment \<Rightarrow> json_text \<Rightarrow> strategy_document \<Rightarrow> connection \<Rightarrow> (fault + strategy_key) \<times> connection" where
  "save_strategy env T d cn = (case prepare_save env T d cn of
     Inl e \<Rightarrow> (Inl e, cn)
   | Inr (key, None) \<Rightarrow> (Inr key, cn)
   | Inr (key, Some insertion) \<Rightarrow>
       (case transaction env [insertion] cn of (r, cn') \<Rightarrow>
          (try_bind (on_violation (concurrently_saved (strategy_name_of key)) r) (\<lambda>_. Inr key), cn')))"

definition load_strategy ::
    "environment \<Rightarrow> json_text \<Rightarrow> validators \<Rightarrow> string \<Rightarrow> int \<Rightarrow> connection \<Rightarrow> fault + strategy_document" where
  "load_strategy env T va strategy_id version cn =
     try_bind (select env ''strategies'' [''document'', ''content_hash'', ''schema_version''] (strategy_where (strategy_id, version)) [] cn)
       (\<lambda>rows. load_document T (va_strategy va) ''strategy'' rows (strategy_name_of (strategy_id, version) @ '' is not stored''))"

text \<open>\<open>str\<close> and \<open>int\<close> of a fetched cell. (A text cell in an integer column is read by the decimal
  grammar; other spellings raise.)\<close>

fun cell_str :: "sql_value \<Rightarrow> string" where
  "cell_str SqlNull = ''None''"
| "cell_str (SqlInt i) = dec_int i"
| "cell_str (SqlReal x) = repr_float x"
| "cell_str (SqlText s) = s"
| "cell_str (SqlBlob s) = ''b'' @ repr_str s"

fun cell_int :: "sql_value \<Rightarrow> int res" where
  "cell_int (SqlInt i) = Inr i"
| "cell_int (SqlReal (Fin r)) = Inr (if r < 0 then - \<lfloor>- r\<rfloor> else \<lfloor>r\<rfloor>)"
| "cell_int (SqlReal NaN) = Inl (ValueError ''cannot convert float NaN to integer'')"
| "cell_int (SqlReal _) = Inl (OverflowError ''cannot convert float infinity to integer'')"
| "cell_int (SqlText s) = (case undigits s of Some i \<Rightarrow> Inr i
     | None \<Rightarrow> Inl (ValueError (''invalid literal for int() with base 10: '' @ repr_str s)))"
| "cell_int (SqlBlob s) = Inl (ValueError ''invalid literal for int() with base 10'')"
| "cell_int SqlNull = Inl (TypeError ''int() argument must be a string or a number'')"

definition list_strategies :: "environment \<Rightarrow> connection \<Rightarrow> fault + strategy_summary list" where
  "list_strategies env cn =
     try_bind (select env ''strategies'' [''strategy_id'', ''version'', ''name'', ''schema_version'', ''saved_at''] (\<lambda>_. True)
       [''strategy_id'', ''version''] cn) (\<lambda>rows. raising (traverse (\<lambda>r.
         try_bind (cell_int (r ! 1)) (\<lambda>v. Inr \<lparr>ss_strategy_id = cell_str (r ! 0), ss_version = v, ss_name = cell_str (r ! 2),
           ss_schema_version = cell_str (r ! 3), ss_saved_at = cell_str (r ! 4)\<rparr>)) rows))"

definition list_versions :: "environment \<Rightarrow> string \<Rightarrow> connection \<Rightarrow> fault + int list" where
  "list_versions env strategy_id cn =
     try_bind (select env ''strategies'' [''version''] (where_equal [(''strategy_id'', SqlText strategy_id)]) [''version''] cn)
       (\<lambda>rows. raising (traverse (\<lambda>r. cell_int (r ! 0)) rows))"

subsection \<open>Components\<close>

definition component_name_of :: "component_key \<Rightarrow> string" where
  "component_name_of k = ''component '' @ key_component_id k @ '' v'' @ key_version k"

definition component_where :: "component_key \<Rightarrow> sql_row \<Rightarrow> bool" where
  "component_where k = where_equal [(''component_id'', SqlText (key_component_id k)), (''version'', SqlText (key_version k))]"

definition component_row :: "environment \<Rightarrow> component_definition \<Rightarrow> string \<Rightarrow> string \<Rightarrow> sql_row" where
  "component_row env d digest stored = [(''component_id'', SqlText (cd_component_id d)), (''version'', SqlText (cd_version d)),
     (''schema_version'', SqlText (cd_schema_version d)), (''name'', SqlText (cd_name d)), (''content_hash'', SqlText digest),
     (''document'', SqlText stored), (''saved_at'', SqlText (env_now env))]"

definition save_component ::
    "environment \<Rightarrow> json_text \<Rightarrow> component_definition \<Rightarrow> connection \<Rightarrow> (fault + component_key) \<times> connection" where
  "save_component env T d cn =
     (let key = definition_key d;
          prepared = try_bind (require_supported_for_save (cd_schema_version d) ''component'') (\<lambda>_.
            try_bind (artifact_bytes T (dump_component d) ''component'') (\<lambda>stored.
            try_bind (select env ''components'' [''content_hash''] (component_where key) [] cn) (\<lambda>existing. Inr (stored, existing))))
      in case prepared of
        Inl e \<Rightarrow> (Inl e, cn)
      | Inr (stored, row # _) \<Rightarrow>
          (if row = [SqlText (content_hash T stored)] then Inr key else Inl (already_different (component_name_of key)), cn)
      | Inr (stored, []) \<Rightarrow>
          (case transaction env [Insert ''components'' (component_row env d (content_hash T stored) stored)] cn of (r, cn') \<Rightarrow>
            (try_bind (on_violation (concurrently_saved (component_name_of key)) r) (\<lambda>_. Inr key), cn')))"

definition load_component ::
    "environment \<Rightarrow> json_text \<Rightarrow> validators \<Rightarrow> component_key \<Rightarrow> connection \<Rightarrow> fault + component_definition" where
  "load_component env T va key cn =
     try_bind (select env ''components'' [''document'', ''content_hash'', ''schema_version''] (component_where key) [] cn)
       (\<lambda>rows. load_document T (va_component va) ''component'' rows (component_name_of key @ '' is not stored''))"

definition list_components :: "environment \<Rightarrow> connection \<Rightarrow> fault + component_summary list" where
  "list_components env cn =
     try_bind (select env ''components'' [''component_id'', ''version'', ''name'', ''schema_version'', ''saved_at''] (\<lambda>_. True)
       [''component_id'', ''version''] cn) (\<lambda>rows. Inr (map (\<lambda>r.
         \<lparr>cm_component_id = cell_str (r ! 0), cm_version = cell_str (r ! 1), cm_name = cell_str (r ! 2),
          cm_schema_version = cell_str (r ! 3), cm_saved_at = cell_str (r ! 4)\<rparr>) rows))"

subsection \<open>The closure of a document's pins\<close>

text \<open>The breadth-first walk. A visited key is not fetched again; the walk ends because the keys that
  can be queued come from stored rows: \<open>closure_fuel\<close> bounds its steps.\<close>

fun fetch_queue ::
    "nat \<Rightarrow> (component_key \<Rightarrow> fault + component_definition) \<Rightarrow> component_key list \<Rightarrow> component_key list
     \<Rightarrow> component_definition list \<Rightarrow> (fault + component_definition list) option" where
  "fetch_queue fuel load visited [] definitions = Some (Inr definitions)"
| "fetch_queue 0 load visited (key # queue) definitions = None"
| "fetch_queue (Suc fuel) load visited (key # queue) definitions =
     (if key \<in> set visited then fetch_queue fuel load visited queue definitions
      else case load key of
        Inl (PersistenceError code m) \<Rightarrow>
          if code = artifact_not_found then fetch_queue fuel load (key # visited) queue definitions
          else Some (Inl (PersistenceError code m))
      | Inl e \<Rightarrow> Some (Inl e)
      | Inr d \<Rightarrow> fetch_queue fuel load (key # visited) (queue @ map ref_key (cd_component_refs d)) (definitions @ [d]))"

definition stored_component_keys :: "database \<Rightarrow> component_key list" where
  "stored_component_keys db = remdups (concat (map (\<lambda>r. case (cell r ''component_id'', cell r ''version'') of
     (SqlText i, SqlText v) \<Rightarrow> [ComponentKey i v] | _ \<Rightarrow> []) (rows_of db ''components'')))"

definition pins_loaded :: "(component_key \<Rightarrow> fault + component_definition) \<Rightarrow> component_key \<Rightarrow> nat" where
  "pins_loaded load key = (case load key of Inr d \<Rightarrow> length (cd_component_refs d) | Inl _ \<Rightarrow> 0)"

definition closure_fuel :: "(component_key \<Rightarrow> fault + component_definition) \<Rightarrow> database \<Rightarrow> component_ref list \<Rightarrow> nat" where
  "closure_fuel load db refs = length refs + (\<Sum>k \<leftarrow> stored_component_keys db. pins_loaded load k)"

definition load_component_catalog ::
    "environment \<Rightarrow> json_text \<Rightarrow> validators \<Rightarrow> component_ref list \<Rightarrow> connection \<Rightarrow> fault + component_catalog" where
  "load_component_catalog env T va refs cn =
     (let load = (\<lambda>key. load_component env T va key cn) in
      case fetch_queue (closure_fuel load (cn_tables cn) refs) load [] (map ref_key refs) [] of
        None \<Rightarrow> Inl (RuntimeError ''the closure walk did not end'')
      | Some r \<Rightarrow> try_bind r (\<lambda>ds. raising (mk_component_catalog ds)))"

text \<open>The fuel is enough: every dequeued key is one of the document's pins or a pin of a stored
  definition that is loaded once.\<close>

lemma load_component_stored:
  assumes "load_component env T va key cn = Inr d"
  shows "key \<in> set (stored_component_keys (cn_tables cn))"
proof -
  obtain rows where sel: "select env ''components'' [''document'', ''content_hash'', ''schema_version''] (component_where key) [] cn = Inr rows"
    and doc: "load_document T (va_component va) ''component'' rows (component_name_of key @ '' is not stored'') = Inr d"
    using assms by (auto simp: load_component_def res_simps)
  have "rows \<noteq> []" using doc by (intro notI) (simp add: load_document_def)
  from sel obtain t where t: "map_of (cn_tables cn) ''components'' = Some t"
    and rows: "rows = map (cells [''document'', ''content_hash'', ''schema_version'']) (sort_key (sql_keys []) (filter (component_where key) (tb_rows t)))"
    by (auto simp: select_def split: if_splits option.splits)
  have "filter (component_where key) (tb_rows t) \<noteq> []" using \<open>rows \<noteq> []\<close> unfolding rows by (intro notI) simp
  then obtain r where r: "r \<in> set (tb_rows t)" "component_where key r" by (auto simp: filter_empty_conv)
  have eq: "sql_equal u (SqlText s) \<longleftrightarrow> u = SqlText s" for u s by (cases u) auto
  have c: "cell r ''component_id'' = SqlText (key_component_id key)" "cell r ''version'' = SqlText (key_version key)"
    using r(2) by (simp_all add: component_where_def where_equal_def eq)
  have "r \<in> set (rows_of (cn_tables cn) ''components'')" using r(1) t by (simp add: rows_of_def)
  then show ?thesis unfolding stored_component_keys_def set_remdups set_concat set_map
    by (intro UN_I[of "case (cell r ''component_id'', cell r ''version'') of (SqlText i, SqlText v) \<Rightarrow> [ComponentKey i v] | _ \<Rightarrow> []"])
      (use c in \<open>auto intro!: image_eqI[where x = r]\<close>)
qed

definition unvisited_pins ::
    "(component_key \<Rightarrow> fault + component_definition) \<Rightarrow> component_key list \<Rightarrow> component_key list \<Rightarrow> nat" where
  "unvisited_pins load stored visited = (\<Sum>k \<leftarrow> filter (\<lambda>k. k \<notin> set visited) stored. pins_loaded load k)"

lemma unvisited_pins_visit:
  "distinct stored \<Longrightarrow> key \<in> set stored \<Longrightarrow> key \<notin> set visited \<Longrightarrow>
   unvisited_pins load stored (key # visited) + pins_loaded load key = unvisited_pins load stored visited"
proof (induction stored)
  case (Cons k ks)
  show ?case
  proof (cases "k = key")
    case True
    then have "filter (\<lambda>x. x \<notin> set (key # visited)) ks = filter (\<lambda>x. x \<notin> set visited) ks"
      using Cons.prems(1) by (intro filter_cong) auto
    then show ?thesis using True Cons.prems by (simp add: unvisited_pins_def)
  qed (use Cons in \<open>auto simp: unvisited_pins_def\<close>)
qed simp

lemma unvisited_pins_mono: "unvisited_pins load stored (key # visited) \<le> unvisited_pins load stored visited"
  by (induction stored) (auto simp: unvisited_pins_def)

lemma fetch_queue_enough:
  assumes "\<And>k d. load k = Inr d \<Longrightarrow> k \<in> set stored" "distinct stored"
    "length queue + unvisited_pins load stored visited \<le> fuel"
  shows "fetch_queue fuel load visited queue definitions \<noteq> None"
  using assms(3)
proof (induction fuel arbitrary: visited queue definitions)
  case 0
  then show ?case by simp
next
  case (Suc fuel)
  show ?case
  proof (cases queue)
    case (Cons key q)
    have bound: "length q + unvisited_pins load stored visited \<le> fuel" using Suc.prems Cons by simp
    have skip: "fetch_queue fuel load (key # visited) q definitions \<noteq> None"
      using bound unvisited_pins_mono[of load stored key visited] by (intro Suc.IH) linarith
    show ?thesis
    proof (cases "key \<in> set visited")
      case True
      then show ?thesis using Suc.IH[OF bound] Cons by simp
    next
      case new: False
      show ?thesis
      proof (cases "load key")
        case (Inl e)
        then show ?thesis using new Cons skip by (cases e) simp_all
      next
        case (Inr d)
        have "unvisited_pins load stored (key # visited) + length (cd_component_refs d) = unvisited_pins load stored visited"
          using unvisited_pins_visit[OF assms(2) assms(1)[OF Inr] new, of load] by (simp add: pins_loaded_def Inr)
        then have "fetch_queue fuel load (key # visited) (q @ map ref_key (cd_component_refs d)) (definitions @ [d]) \<noteq> None"
          using bound by (intro Suc.IH) simp
        then show ?thesis using new Cons Inr by simp
      qed
    qed
  qed simp
qed

lemma load_component_catalog_ends:
  "\<exists>r. fetch_queue (closure_fuel (\<lambda>key. load_component env T va key cn) (cn_tables cn) refs)
     (\<lambda>key. load_component env T va key cn) [] (map ref_key refs) [] = Some r"
proof -
  have "distinct (stored_component_keys (cn_tables cn))" by (simp add: stored_component_keys_def)
  then have "fetch_queue (closure_fuel (\<lambda>key. load_component env T va key cn) (cn_tables cn) refs)
     (\<lambda>key. load_component env T va key cn) [] (map ref_key refs) [] \<noteq> None"
    by (intro fetch_queue_enough[where stored = "stored_component_keys (cn_tables cn)"])
      (auto simp: closure_fuel_def unvisited_pins_def dest: load_component_stored)
  then show ?thesis by blast
qed

end
