(* ===== verification/Runs.thy ===== *)
theory Runs
  imports Documents
begin

section \<open>Stored runs and their traces\<close>

text \<open>
  \<open>quantize/persistence/runs.py\<close>: the record and the trace of a run are saved in one transaction, with
  the strategy when it is new, and loaded through their hashes, the format migrations and validation.
\<close>

definition trace_identity :: "json_text \<Rightarrow> string list \<Rightarrow> string \<times> nat" where
  "trace_identity T rows = (jt_sha256 T (concat (map (\<lambda>s. s @ [char_of (0::nat)]) rows)), length rows)"

record run_summary =
  rs_run_id :: string
  rs_strategy_id :: string
  rs_strategy_version :: int
  rs_mode :: string
  rs_run_ok :: bool
  rs_first_session :: "string option"
  rs_last_session :: "string option"
  rs_total_return :: pyfloat
  rs_saved_at :: string

subsection \<open>Saving\<close>

definition invalid_run :: "string \<Rightarrow> fault" where
  "invalid_run m = PersistenceError invalid_artifact m"

definition require_recorded :: "string \<Rightarrow> run_input_provenance \<Rightarrow> fault + unit" where
  "require_recorded run p = (if ip_status p \<noteq> ProvenanceRecorded
     then Inl (invalid_run (''run '' @ run @ '' cannot be saved with '' @ repr_str (status_str (ip_status p)) @ '' input provenance: unknown is reserved for migrated legacy (format-1) rows - a new save must record real dataset/calendar identity''))
     else Inr ())"

text \<open>A run that claims success must have valued its last session.\<close>

definition require_complete :: "run_record \<Rightarrow> fault + unit" where
  "require_complete r = (case rr_last_session r of
     Some d \<Rightarrow>
       if rr_ok r \<and> (case rr_valuations r of [] \<Rightarrow> True | vs \<Rightarrow> fst (last vs) \<noteq> d)
       then Inl (invalid_run (''run '' @ rr_run_id r @ '' claims ok through '' @ isoformat d @ '' but its facts stop at '' @
         (case rr_valuations r of [] \<Rightarrow> ''nowhere'' | vs \<Rightarrow> isoformat (fst (last vs))) @
         ''; a non-exhausted replay peek is not a completed run''))
       else Inr ()
   | None \<Rightarrow> Inr ())"

definition run_where :: "string \<Rightarrow> sql_row \<Rightarrow> bool" where
  "run_where run = where_equal [(''run_id'', SqlText run)]"

definition optional_text :: "date option \<Rightarrow> sql_value" where
  "optional_text d = (case d of None \<Rightarrow> SqlNull | Some d \<Rightarrow> SqlText (isoformat d))"

definition run_row :: "json_text \<Rightarrow> environment \<Rightarrow> run_record \<Rightarrow> string \<Rightarrow> string list \<Rightarrow> sql_row" where
  "run_row T env r stored events = [(''run_id'', SqlText (rr_run_id r)), (''strategy_id'', SqlText (rr_strategy_id r)),
     (''strategy_version'', SqlInt (rr_strategy_version r)), (''mode'', SqlText (rr_mode r)), (''record_format'', SqlInt record_format),
     (''ok'', SqlInt (if rr_ok r then 1 else 0)), (''first_session'', optional_text (rr_first_session r)),
     (''last_session'', optional_text (rr_last_session r)), (''total_return'', SqlReal (rr_total_return r)),
     (''content_hash'', SqlText (content_hash T stored)), (''trace_content_hash'', SqlText (fst (trace_identity T events))),
     (''trace_count'', SqlInt (int (snd (trace_identity T events)))), (''record'', SqlText stored), (''saved_at'', SqlText (env_now env))]"

definition event_row :: "string \<Rightarrow> nat \<Rightarrow> trace_event \<Rightarrow> string \<Rightarrow> sql_row" where
  "event_row run n e stored = [(''run_id'', SqlText run), (''seq'', SqlInt (int n)), (''trace_format'', SqlInt trace_format),
     (''timestamp'', SqlText (instant_isoformat (te_timestamp e))), (''event'', SqlText stored)]"

definition event_inserts :: "string \<Rightarrow> trace_event list \<Rightarrow> string list \<Rightarrow> statement list" where
  "event_inserts run events rows =
     map (\<lambda>(n, e, s). Insert ''trace_events'' (event_row run n e s)) (enumerate 0 (zip events rows))"

definition save_body ::
    "json_text \<Rightarrow> environment \<Rightarrow> run_record \<Rightarrow> trace_event list \<Rightarrow> string \<Rightarrow> string list \<Rightarrow> statement option \<Rightarrow> statement list" where
  "save_body T env r events stored rows pending =
     (case pending of None \<Rightarrow> [] | Some st \<Rightarrow> [st]) @ [Insert ''runs'' (run_row T env r stored rows)] @
     event_inserts (rr_run_id r) events rows"

text \<open>Everything before the transaction: the statements to run, or \<open>None\<close> for a duplicate.\<close>

definition plan_save ::
    "environment \<Rightarrow> json_text \<Rightarrow> strategy_document \<Rightarrow> backtest_result \<Rightarrow> run_input_provenance \<Rightarrow> string \<Rightarrow> connection
     \<Rightarrow> fault + statement list option" where
  "plan_save env T d result provenance mode cn =
     (let r = record_from_result result (sd_id d) (sd_version d) provenance mode in
      try_bind (require_recorded (br_run_id result) provenance) (\<lambda>_.
      try_bind (require_complete r) (\<lambda>_.
      try_bind (artifact_bytes T (dump_record r) ''run_record'') (\<lambda>stored.
      try_bind (traverse (\<lambda>e. artifact_bytes T (dump_event e) ''trace_event'') (br_trace result)) (\<lambda>rows.
      let identity = trace_identity T rows in
      try_bind (select env ''runs'' [''content_hash'', ''trace_content_hash'', ''trace_count''] (run_where (rr_run_id r)) [] cn) (\<lambda>existing.
        case existing of
          row # _ \<Rightarrow>
            if row = [SqlText (content_hash T stored), SqlText (fst identity), SqlInt (int (snd identity))] then Inr None
            else Inl (PersistenceError artifact_conflict (''run '' @ rr_run_id r @
              '' already exists with different record or trace content; persisted artifacts are immutable''))
        | [] \<Rightarrow> try_bind (prepare_save env T d cn) (\<lambda>(_, pending). Inr (Some (save_body T env r (br_trace result) stored rows pending)))))))))"

definition save_run ::
    "environment \<Rightarrow> json_text \<Rightarrow> strategy_document \<Rightarrow> backtest_result \<Rightarrow> run_input_provenance \<Rightarrow> string \<Rightarrow> connection
     \<Rightarrow> (fault + string) \<times> connection" where
  "save_run env T d result provenance mode cn = (case plan_save env T d result provenance mode cn of
     Inl e \<Rightarrow> (Inl e, cn)
   | Inr None \<Rightarrow> (Inr (br_run_id result), cn)
   | Inr (Some body) \<Rightarrow>
       (case transaction env body cn of (r, cn') \<Rightarrow>
          (try_bind (on_violation (concurrently_saved (''run '' @ br_run_id result)) r) (\<lambda>_. Inr (br_run_id result)), cn')))"

subsection \<open>Loading a record\<close>

definition run_not_stored :: "string \<Rightarrow> fault" where
  "run_not_stored run = PersistenceError artifact_not_found (''run '' @ run @ '' is not stored'')"

text \<open>Python's equality of a decoded value with an integer.\<close>

fun json_equals_int :: "json \<Rightarrow> int \<Rightarrow> bool" where
  "json_equals_int (JInt i) n \<longleftrightarrow> i = n"
| "json_equals_int (JBool b) n \<longleftrightarrow> (if b then 1 else 0) = n"
| "json_equals_int (JFloat x) n \<longleftrightarrow> x = Fin (of_int n)"
| "json_equals_int _ n \<longleftrightarrow> False"

fun cell_equals_int :: "sql_value \<Rightarrow> int \<Rightarrow> bool" where
  "cell_equals_int (SqlInt i) n \<longleftrightarrow> i = n"
| "cell_equals_int (SqlReal x) n \<longleftrightarrow> x = Fin (of_int n)"
| "cell_equals_int _ n \<longleftrightarrow> False"

definition format_agrees :: "json_object \<Rightarrow> int \<Rightarrow> bool" where
  "format_agrees payload n = (case map_of payload ''record_format'' of None \<Rightarrow> False | Some v \<Rightarrow> json_equals_int v n)"

definition corrupt :: "string \<Rightarrow> fault" where
  "corrupt m = PersistenceError corrupt_artifact m"

definition load_record_row ::
    "json_text \<Rightarrow> validators \<Rightarrow> migration_registry \<Rightarrow> string \<Rightarrow> string \<Rightarrow> sql_value \<Rightarrow> sql_value \<Rightarrow> fault + run_record" where
  "load_record_row T va steps run text recorded_hash stored_format =
     (if SqlText (content_hash T text) \<noteq> recorded_hash
      then Inl (corrupt ''stored run record bytes do not match their recorded content hash'')
      else try_bind (decode_json T text ''run record'') (\<lambda>payload.
        case stored_format of
          SqlInt n \<Rightarrow>
            if \<not> format_agrees payload n
            then Inl (corrupt (''run record row format '' @ dec_int n @ '' does not match the payload''))
            else try_bind (migrate_to_current steps ''run_record'' payload n record_format) (\<lambda>migrated.
              if \<not> format_agrees migrated record_format
              then Inl (corrupt (''migrated run record claims another format, expected '' @ dec_int record_format))
              else (case va_record va (JObj migrated) of
                  Inr r \<Rightarrow> Inr r
                | Inl k \<Rightarrow> Inl (corrupt (''stored run record failed domain validation: '' @ dec_nat k @ '' error(s)''))))
        | _ \<Rightarrow> Inl (corrupt ''stored run record_format column is not an integer'')))"

definition load_run ::
    "environment \<Rightarrow> json_text \<Rightarrow> validators \<Rightarrow> migration_registry \<Rightarrow> string \<Rightarrow> connection \<Rightarrow> fault + run_record" where
  "load_run env T va steps run cn =
     try_bind (select env ''runs'' [''record'', ''content_hash'', ''record_format''] (run_where run) [] cn) (\<lambda>rows. case rows of
       [] \<Rightarrow> Inl (run_not_stored run)
     | (SqlText text # recorded_hash # stored_format # _) # _ \<Rightarrow> load_record_row T va steps run text recorded_hash stored_format
     | _ \<Rightarrow> Inl (corrupt ''stored run record is not text''))"

subsection \<open>Loading a trace\<close>

definition row_texts :: "sql_value list list \<Rightarrow> string list" where
  "row_texts rows = concat (map (\<lambda>r. case r ! 2 of SqlText s \<Rightarrow> [s] | _ \<Rightarrow> []) rows)"

definition load_event ::
    "json_text \<Rightarrow> validators \<Rightarrow> migration_registry \<Rightarrow> string \<Rightarrow> nat \<times> sql_value list \<Rightarrow> fault + trace_event" where
  "load_event T va steps run = (\<lambda>(position, r).
     if \<not> cell_equals_int (r ! 0) (int position)
     then Inl (corrupt (''trace stream for run '' @ run @ '' has a gap at seq '' @ dec_nat position))
     else case r ! 1 of
       SqlInt stored_format \<Rightarrow>
         (case r ! 2 of
            SqlText raw \<Rightarrow>
              try_bind (decode_json T raw ''trace event'') (\<lambda>payload.
              try_bind (migrate_to_current steps ''trace_event'' payload stored_format trace_format) (\<lambda>migrated.
                case va_event va (JObj migrated) of
                  Inr e \<Rightarrow> Inr e
                | Inl k \<Rightarrow> Inl (corrupt (''stored trace event failed validation: '' @ dec_nat k @ '' error(s)''))))
          | _ \<Rightarrow> Inl (corrupt ''stored trace event is not text''))
     | _ \<Rightarrow> Inl (corrupt ''stored trace_format column is not an integer''))"

definition on_session :: "date option \<Rightarrow> trace_event list \<Rightarrow> trace_event list" where
  "on_session session events = (case session of None \<Rightarrow> events
     | Some d \<Rightarrow> filter (\<lambda>e. instant_date (te_timestamp e) = d) events)"

definition load_trace ::
    "environment \<Rightarrow> json_text \<Rightarrow> validators \<Rightarrow> migration_registry \<Rightarrow> string \<Rightarrow> date option \<Rightarrow> connection \<Rightarrow> fault + trace_event list" where
  "load_trace env T va steps run session cn =
     try_bind (select env ''runs'' [''trace_content_hash'', ''trace_count''] (run_where run) [] cn) (\<lambda>run_rows. case run_rows of
       [] \<Rightarrow> Inl (run_not_stored run)
     | identity # _ \<Rightarrow>
         try_bind (select env ''trace_events'' [''seq'', ''trace_format'', ''event''] (run_where run) [''seq''] cn) (\<lambda>rows.
           if \<not> cell_equals_int (identity ! 1) (int (length rows))
           then Inl (corrupt (''trace stream for run '' @ run @ '' has '' @ dec_nat (length rows) @ '' events; another number was recorded''))
           else if SqlText (fst (trace_identity T (row_texts rows))) \<noteq> identity ! 0
           then Inl (corrupt (''trace stream for run '' @ run @ '' does not match its recorded content hash''))
           else try_bind (traverse (load_event T va steps run) (enumerate 0 rows)) (\<lambda>events. Inr (on_session session events))))"

subsection \<open>Listing\<close>

definition optional_str :: "sql_value \<Rightarrow> string option" where
  "optional_str v = (if v = SqlNull then None else Some (cell_str v))"

fun cell_bool :: "sql_value \<Rightarrow> bool" where
  "cell_bool SqlNull = False"
| "cell_bool (SqlInt i) = (i \<noteq> 0)"
| "cell_bool (SqlReal x) = (x \<noteq> Fin 0)"
| "cell_bool (SqlText s) = (s \<noteq> [])"
| "cell_bool (SqlBlob s) = (s \<noteq> [])"

text \<open>\<open>float\<close> of a fetched cell; text other than a number the column's affinity would have converted
  already raises.\<close>

fun cell_float :: "sql_value \<Rightarrow> pyfloat res" where
  "cell_float (SqlReal x) = Inr x"
| "cell_float (SqlInt i) = float_of_int i"
| "cell_float (SqlText s) = Inl (ValueError (''could not convert string to float: '' @ repr_str s))"
| "cell_float _ = Inl (TypeError ''float() argument must be a string or a real number'')"

definition list_runs :: "environment \<Rightarrow> string option \<Rightarrow> connection \<Rightarrow> fault + run_summary list" where
  "list_runs env strategy_id cn =
     try_bind (select env ''runs'' [''run_id'', ''strategy_id'', ''strategy_version'', ''mode'', ''ok'', ''first_session'',
         ''last_session'', ''total_return'', ''saved_at'']
       (case strategy_id of None \<Rightarrow> (\<lambda>_. True) | Some i \<Rightarrow> where_equal [(''strategy_id'', SqlText i)])
       [''saved_at'', ''run_id''] cn) (\<lambda>rows. raising (traverse (\<lambda>r.
         try_bind (cell_int (r ! 2)) (\<lambda>v. try_bind (cell_float (r ! 7)) (\<lambda>x.
           Inr \<lparr>rs_run_id = cell_str (r ! 0), rs_strategy_id = cell_str (r ! 1), rs_strategy_version = v,
             rs_mode = cell_str (r ! 3), rs_run_ok = cell_bool (r ! 4), rs_first_session = optional_str (r ! 5),
             rs_last_session = optional_str (r ! 6), rs_total_return = x, rs_saved_at = cell_str (r ! 8)\<rparr>))) rows))"

end
