(* ===== verification/Datasets.thy ===== *)
theory Datasets
  imports Documents
begin

section \<open>Stored market datasets\<close>

text \<open>
  \<open>quantize/persistence/datasets.py\<close>: a dataset is stored under the hash of its canonical payload and
  rebuilt through the constructors of the market data. A payload whose \<open>observations\<close> are no mapping
  raises outside the exceptions the code catches.
\<close>

record stored_dataset_info =
  di_dataset_id :: string
  di_dataset_fingerprint :: string
  di_calendar_fingerprint :: string
  di_sessions :: nat
  di_assets :: nat
  di_first_session :: date
  di_last_session :: date
  di_asset_tickers :: "string list"

record dataset_summary =
  dy_dataset_id :: string
  dy_dataset_fingerprint :: string
  dy_calendar_fingerprint :: string
  dy_saved_at :: string

definition introspection :: "market_data_set \<Rightarrow> (date \<times> date \<times> string list) res" where
  "introspection ds = (let dates = session_dates (calendar ds) in
     if dates = [] then Inl (IndexError ''tuple index out of range'') else Inr (hd dates, last dates, ds_assets ds))"

subsection \<open>The payload\<close>

definition session_payload :: "market_session \<Rightarrow> json" where
  "session_payload s = JObj [(''session_date'', JStr (isoformat (session_date s))),
     (''open_at'', JStr (instant_isoformat (open_at s))), (''close_at'', JStr (instant_isoformat (close_at s)))]"

definition observation_payload :: "price_observation \<Rightarrow> json" where
  "observation_payload ob = JObj [(''session_date'', JStr (isoformat (obs_date ob))), (''open_price'', JFloat (open_price ob)),
     (''close_price'', JFloat (close_price ob)), (''open_available_at'', JStr (instant_isoformat (open_available_at ob))),
     (''close_available_at'', JStr (instant_isoformat (close_available_at ob)))]"

definition canonical_payload :: "market_data_set \<Rightarrow> json_object" where
  "canonical_payload ds = (let cal = calendar ds in
     [(''calendar'', JObj [(''exchange'', JStr (exchange cal)), (''timezone'', JStr (cal_timezone cal)),
        (''sessions'', JList (map session_payload (sessions cal)))]),
      (''observations'', JObj (map (\<lambda>(asset, series). (asset, JList (map observation_payload series))) (observations ds)))])"

subsection \<open>Rebuilding a dataset\<close>

fun parse_text :: "(string \<Rightarrow> 'a res) \<Rightarrow> json \<Rightarrow> 'a res" where
  "parse_text f (JStr s) = f s"
| "parse_text f _ = Inl (TypeError ''fromisoformat: argument must be str'')"

fun json_number :: "json \<Rightarrow> pynum" where
  "json_number (JInt i) = PyInt i"
| "json_number (JFloat x) = PyFloat x"
| "json_number (JBool b) = PyBool b"
| "json_number j = PyOther (json_type_name j)"

definition field_of :: "string \<Rightarrow> (json \<Rightarrow> 'a res) \<Rightarrow> json \<Rightarrow> 'a res" where
  "field_of k f j = try_bind (json_get k j) f"

definition session_of_payload :: "json \<Rightarrow> market_session res" where
  "session_of_payload j =
     try_bind (field_of ''session_date'' (parse_text date_fromisoformat) j) (\<lambda>d.
     try_bind (field_of ''open_at'' (parse_text datetime_fromisoformat) j) (\<lambda>op.
     try_bind (field_of ''close_at'' (parse_text datetime_fromisoformat) j) (\<lambda>cl. mk_market_session d op cl)))"

definition observation_of_payload :: "json \<Rightarrow> price_observation res" where
  "observation_of_payload j =
     try_bind (field_of ''session_date'' (parse_text date_fromisoformat) j) (\<lambda>d.
     try_bind (json_get ''open_price'' j) (\<lambda>op. try_bind (json_get ''close_price'' j) (\<lambda>cl.
     try_bind (field_of ''open_available_at'' (parse_text datetime_fromisoformat) j) (\<lambda>oa.
     try_bind (field_of ''close_available_at'' (parse_text datetime_fromisoformat) j) (\<lambda>ca.
       mk_price_observation d (json_number op) (json_number cl) oa ca)))))"

definition calendar_of_payload :: "json \<Rightarrow> exchange_calendar res" where
  "calendar_of_payload j =
     try_bind (try_bind (json_get ''sessions'' j) json_items) (\<lambda>js. try_bind (traverse session_of_payload js) (\<lambda>ss.
     try_bind (field_of ''exchange'' json_str j) (\<lambda>ex. try_bind (field_of ''timezone'' json_str j) (\<lambda>tz.
       mk_exchange_calendar ex tz ss))))"

definition series_of_payload :: "string \<times> json \<Rightarrow> (string \<times> price_observation list) res" where
  "series_of_payload kv = try_bind (json_items (snd kv)) (\<lambda>js.
     try_bind (traverse observation_of_payload js) (\<lambda>obs. Inr (fst kv, obs)))"

definition irreconstructable :: "string \<Rightarrow> fault" where
  "irreconstructable i = PersistenceError corrupt_artifact (''stored dataset '' @ i @ '' is not a reconstructable MarketDataSet'')"

text \<open>\<open>except (KeyError, TypeError, ValueError)\<close>.\<close>

definition catching :: "fault \<Rightarrow> 'a res \<Rightarrow> fault + 'a" where
  "catching fallback r = (case r of Inr x \<Rightarrow> Inr x
   | Inl (KeyError m) \<Rightarrow> Inl fallback | Inl (TypeError m) \<Rightarrow> Inl fallback | Inl (ValueError m) \<Rightarrow> Inl fallback
   | Inl e \<Rightarrow> Inl (Raised e))"

definition attribute_error :: "fault + 'a" where
  "attribute_error = Inl (RuntimeError ''AttributeError: object has no attribute items'')"

definition market_from_payload :: "json_object \<Rightarrow> string \<Rightarrow> fault + market_data_set" where
  "market_from_payload payload i =
     try_bind (catching (irreconstructable i) (try_bind (json_get ''calendar'' (JObj payload)) calendar_of_payload)) (\<lambda>cal.
     try_bind (catching (irreconstructable i) (json_get ''observations'' (JObj payload))) (\<lambda>observed. case observed of
       JObj kvs \<Rightarrow> catching (irreconstructable i) (try_bind (traverse series_of_payload kvs) (mk_market_data_set cal))
     | _ \<Rightarrow> attribute_error))"

subsection \<open>The repository\<close>

definition dataset_info :: "json_text \<Rightarrow> market_data_set \<Rightarrow> string \<Rightarrow> stored_dataset_info res" where
  "dataset_info T ds i =
     try_bind (introspection ds) (\<lambda>(first, last, tickers).
     try_bind (dataset_fingerprint T ds) (\<lambda>d. try_bind (calendar_fingerprint T (calendar ds)) (\<lambda>c.
       Inr \<lparr>di_dataset_id = i, di_dataset_fingerprint = d, di_calendar_fingerprint = c, di_sessions = length (sessions (calendar ds)),
         di_assets = length (observations ds), di_first_session = first, di_last_session = last, di_asset_tickers = tickers\<rparr>)))"

definition dataset_where :: "string \<Rightarrow> sql_row \<Rightarrow> bool" where
  "dataset_where i = where_equal [(''dataset_id'', SqlText i)]"

definition dataset_row :: "environment \<Rightarrow> stored_dataset_info \<Rightarrow> string \<Rightarrow> sql_row" where
  "dataset_row env info payload = [(''dataset_id'', SqlText (di_dataset_id info)),
     (''dataset_fingerprint'', SqlText (di_dataset_fingerprint info)),
     (''calendar_fingerprint'', SqlText (di_calendar_fingerprint info)), (''payload'', SqlText payload),
     (''saved_at'', SqlText (env_now env))]"

definition save_dataset ::
    "environment \<Rightarrow> json_text \<Rightarrow> market_data_set \<Rightarrow> connection \<Rightarrow> (fault + stored_dataset_info \<times> bool) \<times> connection" where
  "save_dataset env T ds cn =
     (let prepared = try_bind (raising (canonical_json_bytes T (canonical_payload ds))) (\<lambda>payload.
        try_bind (raising (dataset_info T ds (content_hash T payload))) (\<lambda>info.
        try_bind (select env ''datasets'' [] (dataset_where (di_dataset_id info)) [] cn) (\<lambda>existing. Inr (payload, info, existing))))
      in case prepared of
        Inl e \<Rightarrow> (Inl e, cn)
      | Inr (payload, info, _ # _) \<Rightarrow> (Inr (info, False), cn)
      | Inr (payload, info, []) \<Rightarrow>
          (case transaction env [Insert ''datasets'' (dataset_row env info payload)] cn of
             (Inl (IntegrityViolationError m), cn') \<Rightarrow> (Inr (info, False), cn')
           | (Inl e, cn') \<Rightarrow> (Inl e, cn')
           | (Inr _, cn') \<Rightarrow> (Inr (info, True), cn')))"

definition decode_payload :: "json_text \<Rightarrow> sql_value \<Rightarrow> string \<Rightarrow> fault + json_object" where
  "decode_payload T raw i = (case raw of
     SqlText text \<Rightarrow>
       if content_hash T text \<noteq> i
       then Inl (PersistenceError corrupt_artifact (''stored dataset '' @ i @ '' bytes do not match their content address''))
       else decode_json T text (''dataset '' @ i)
   | _ \<Rightarrow> Inl (PersistenceError corrupt_artifact ''stored dataset payload is not text''))"

definition dataset_not_stored :: "string \<Rightarrow> fault" where
  "dataset_not_stored i = PersistenceError artifact_not_found (''dataset '' @ i @ '' is not stored'')"

definition load_dataset :: "environment \<Rightarrow> json_text \<Rightarrow> string \<Rightarrow> connection \<Rightarrow> fault + market_data_set" where
  "load_dataset env T i cn =
     try_bind (select env ''datasets'' [''payload''] (dataset_where i) [] cn) (\<lambda>rows. case rows of
       [] \<Rightarrow> Inl (dataset_not_stored i)
     | r # _ \<Rightarrow> try_bind (decode_payload T (r ! 0) i) (\<lambda>payload. market_from_payload payload i))"

definition describe_dataset :: "environment \<Rightarrow> json_text \<Rightarrow> string \<Rightarrow> connection \<Rightarrow> fault + stored_dataset_info" where
  "describe_dataset env T i cn =
     try_bind (select env ''datasets'' [''dataset_fingerprint'', ''calendar_fingerprint'', ''payload''] (dataset_where i) [] cn)
       (\<lambda>rows. case rows of
         [] \<Rightarrow> Inl (dataset_not_stored i)
       | r # _ \<Rightarrow> try_bind (decode_payload T (r ! 2) i) (\<lambda>payload. try_bind (market_from_payload payload i) (\<lambda>ds.
           try_bind (raising (dataset_info T ds i)) (\<lambda>info.
             if cell_str (r ! 0) \<noteq> di_dataset_fingerprint info \<or> cell_str (r ! 1) \<noteq> di_calendar_fingerprint info
             then Inl (PersistenceError corrupt_artifact
               (''stored dataset '' @ i @ '' fingerprint columns do not match its payload''))
             else Inr info))))"

text \<open>Newest first: \<open>ORDER BY saved_at DESC, dataset_id\<close>.\<close>

definition newest_first :: "sql_value list list \<Rightarrow> sql_value list list" where
  "newest_first rows = rev (sort_key (\<lambda>r. sql_order (r ! 3)) (rev (sort_key (\<lambda>r. sql_order (r ! 0)) rows)))"

definition list_datasets :: "environment \<Rightarrow> connection \<Rightarrow> fault + dataset_summary list" where
  "list_datasets env cn =
     try_bind (select env ''datasets'' [''dataset_id'', ''dataset_fingerprint'', ''calendar_fingerprint'', ''saved_at''] (\<lambda>_. True) [] cn)
       (\<lambda>rows. Inr (map (\<lambda>r. \<lparr>dy_dataset_id = cell_str (r ! 0), dy_dataset_fingerprint = cell_str (r ! 1),
          dy_calendar_fingerprint = cell_str (r ! 2), dy_saved_at = cell_str (r ! 3)\<rparr>) (newest_first rows)))"

end
