(* ===== verification/StoreLaws.thy ===== *)
theory StoreLaws
  imports Runs Datasets
begin

section \<open>Laws of the store\<close>

text \<open>
  What every statement keeps of the tables, and what a transaction and each operation commit.
\<close>

subsection \<open>Rows are only added\<close>

definition with_rows :: "table \<Rightarrow> sql_row list \<Rightarrow> table" where
  "with_rows t rows = t\<lparr>tb_rows := tb_rows t @ rows\<rparr>"

definition extends :: "database \<Rightarrow> database \<Rightarrow> bool" where
  "extends db db' \<longleftrightarrow> (\<forall>name t. map_of db name = Some t \<longrightarrow> (\<exists>rows. map_of db' name = Some (with_rows t rows)))"

lemma with_rows_simps [simp]:
  "with_rows t [] = t" "with_rows (with_rows t rows) rows' = with_rows t (rows @ rows')"
  "tb_key (with_rows t rows) = tb_key t" "tb_columns (with_rows t rows) = tb_columns t"
  "tb_foreign (with_rows t rows) = tb_foreign t" "tb_rows (with_rows t rows) = tb_rows t @ rows"
  by (simp_all add: with_rows_def)

lemma extends_refl: "extends db db"
  unfolding extends_def using with_rows_simps(1) by metis

lemma extends_trans: "extends a b \<Longrightarrow> extends b c \<Longrightarrow> extends a c"
  unfolding extends_def by (metis with_rows_simps(2))

lemma extends_rows: "extends db db' \<Longrightarrow> \<exists>rows. rows_of db' name = rows_of db name @ rows"
  by (cases "map_of db name") (force simp: rows_of_def extends_def)+

subsection \<open>Well-formed tables\<close>

definition keys_unique :: "table \<Rightarrow> bool" where
  "keys_unique t \<longleftrightarrow> sorted_wrt (\<lambda>r r'. \<not> same_key (tb_key t) r' r) (tb_rows t)"

definition row_ok :: "database \<Rightarrow> table \<Rightarrow> sql_row \<Rightarrow> bool" where
  "row_ok db t r \<longleftrightarrow> null_violation t r = None \<and> list_all (foreign_ok db r) (tb_foreign t)"

definition tables_ok :: "database \<Rightarrow> bool" where
  "tables_ok db \<longleftrightarrow> (\<forall>name t. map_of db name = Some t \<longrightarrow> keys_unique t \<and> (\<forall>r \<in> set (tb_rows t). row_ok db t r))"

lemma foreign_ok_extends: "extends db db' \<Longrightarrow> foreign_ok db r f \<Longrightarrow> foreign_ok db' r f"
proof -
  assume e: "extends db db'" and f: "foreign_ok db r f"
  obtain cs parent ps where p: "f = (cs, parent, ps)" by (cases f)
  obtain rows where "rows_of db' parent = rows_of db parent @ rows" using extends_rows[OF e] by blast
  then show ?thesis using f by (auto simp: foreign_ok_def p)
qed

lemma row_ok_extends: "extends db db' \<Longrightarrow> row_ok db t r \<Longrightarrow> row_ok db' t r"
  by (auto simp: row_ok_def list_all_iff dest: foreign_ok_extends)

lemma row_ok_with_rows [simp]: "row_ok db (with_rows t rows) r = row_ok db t r"
  by (simp add: row_ok_def null_violation_def)

definition bound_row :: "sql_row \<Rightarrow> sql_row" where
  "bound_row row = map (\<lambda>(c, v). (c, bind_value v)) row"

text \<open>What a successful \<open>INSERT\<close> has checked and done.\<close>

lemma execute_insert_Inr:
  assumes "execute_statement (Insert name row) db = Inr db'"
  shows "\<exists>t. map_of db name = Some t \<and> db' = AList.update name (with_rows t [bound_row row]) db \<and>
    null_violation t (bound_row row) = None \<and> (\<forall>r \<in> set (tb_rows t). \<not> same_key (tb_key t) (bound_row row) r) \<and>
    list_all (foreign_ok db' (bound_row row)) (tb_foreign t)"
  using assms by (auto simp: execute_statement_def Let_def bound_row_def with_rows_def split: option.splits if_splits)

lemma update_extends:
  assumes "map_of db name = Some t"
  shows "extends db (AList.update name (with_rows t rows) db)"
proof -
  have "\<exists>more. map_of (AList.update name (with_rows t rows) db) n = Some (with_rows u more)" if "map_of db n = Some u" for n u
  proof (cases "n = name")
    case True
    then show ?thesis using that assms by (auto simp: update_conv')
  next
    case False
    then show ?thesis using that by (intro exI[of _ "[]"]) (simp add: update_conv')
  qed
  then show ?thesis by (simp add: extends_def)
qed

lemma execute_statement_extends: "execute_statement st db = Inr db' \<Longrightarrow> extends db db'"
proof (cases st)
  case (CreateTable name columns key foreign)
  assume "execute_statement st db = Inr db'"
  then have "db' = db @ [(name, \<lparr>tb_columns = columns, tb_key = key, tb_foreign = foreign, tb_rows = []\<rparr>)]"
    by (simp add: execute_statement_def CreateTable split: if_splits)
  then have "map_of db' n = Some (with_rows t [])" if "map_of db n = Some t" for n t using that by (simp add: map_add_def)
  then show ?thesis unfolding extends_def by blast
next
  case (Insert name row)
  assume "execute_statement st db = Inr db'"
  from execute_insert_Inr[OF this[unfolded Insert]] show ?thesis using update_extends by blast
qed

lemma execute_statement_ok: "execute_statement st db = Inr db' \<Longrightarrow> tables_ok db \<Longrightarrow> tables_ok db'"
proof -
  assume ex: "execute_statement st db = Inr db'" and ok: "tables_ok db"
  have ext: "extends db db'" by (rule execute_statement_extends[OF ex])
  have old: "\<forall>r \<in> set (tb_rows t). row_ok db' t r" if "map_of db name = Some t" for name t
    using ok that row_ok_extends[OF ext] by (auto simp: tables_ok_def)
  show ?thesis
  proof (cases st)
    case (CreateTable name columns key foreign)
    then have db': "db' = db @ [(name, \<lparr>tb_columns = columns, tb_key = key, tb_foreign = foreign, tb_rows = []\<rparr>)]"
      using ex by (simp add: execute_statement_def split: if_splits)
    show ?thesis unfolding tables_ok_def
    proof (intro allI impI)
      fix n t assume "map_of db' n = Some t"
      then consider "map_of db n = Some t" | "t = \<lparr>tb_columns = columns, tb_key = key, tb_foreign = foreign, tb_rows = []\<rparr>"
        by (auto simp: db' map_add_def split: option.splits if_splits)
      then show "keys_unique t \<and> (\<forall>r \<in> set (tb_rows t). row_ok db' t r)"
        using ok old by cases (auto simp: tables_ok_def keys_unique_def)
    qed
  next
    case (Insert name row)
    obtain t where t: "map_of db name = Some t" "db' = AList.update name (with_rows t [bound_row row]) db"
      "null_violation t (bound_row row) = None" "\<forall>r \<in> set (tb_rows t). \<not> same_key (tb_key t) (bound_row row) r"
      "list_all (foreign_ok db' (bound_row row)) (tb_foreign t)"
      using execute_insert_Inr[OF ex[unfolded Insert]] by blast
    have new: "keys_unique (with_rows t [bound_row row])"
      using ok t(1,4) by (auto simp: tables_ok_def keys_unique_def sorted_wrt_append)
    have fresh: "row_ok db' t (bound_row row)" using t(3,5) by (simp add: row_ok_def)
    show ?thesis unfolding tables_ok_def
    proof (intro allI impI)
      fix n u assume u: "map_of db' n = Some u"
      have upd: "map_of db' n = (if n = name then Some (with_rows t [bound_row row]) else map_of db n)"
        unfolding t(2) update_conv' by (rule fun_upd_apply)
      have "map_of db n = Some u \<or> u = with_rows t [bound_row row]"
        using u unfolding upd by (cases "n = name") (simp_all only: if_True if_False option.inject simp_thms eq_commute)
      then consider "map_of db n = Some u" | "u = with_rows t [bound_row row]" by blast
      then show "keys_unique u \<and> (\<forall>r \<in> set (tb_rows u). row_ok db' u r)"
      proof cases
        case 1
        then show ?thesis using ok old[OF 1] by (simp add: tables_ok_def)
      next
        case 2
        then show ?thesis using new fresh old[OF t(1)] by simp
      qed
    qed
  qed
qed

lemma execute_all_keeps:
  "execute_all i lock sts db = Inr db' \<Longrightarrow> extends db db' \<and> (tables_ok db \<longrightarrow> tables_ok db')"
proof (induction i lock sts db rule: execute_all.induct)
  case (2 i lock st sts db)
  then obtain db1 where "execute_statement st db = Inr db1" "execute_all (Suc i) lock sts db1 = Inr db'" "lock \<noteq> Some i"
    by (auto simp: res_simps split: if_splits)
  then show ?case using 2 execute_statement_extends execute_statement_ok extends_trans by blast
qed (simp add: extends_refl)

text \<open>A transaction commits all of its statements on top of what others committed, or nothing.\<close>

lemma transaction_cases:
  assumes "transaction env body cn = (r, cn')" "\<not> cn_in_transaction cn"
  shows "\<not> cn_in_transaction cn' \<and>
    ((\<exists>e. r = Inl e) \<and> cn_tables cn' = env_race env (cn_tables cn) \<or>
     r = Inr () \<and> execute_all 0 (env_lock_statement env) body (env_race env (cn_tables cn)) = Inr (cn_tables cn'))"
  using assms by (auto simp: transaction_def Let_def split: if_splits sum.splits)

end
