(* ===== verification/Histories.thy ===== *)
theory Histories
  imports StoreLaws
begin

section \<open>Histories of a store\<close>

text \<open>
  A history is a sequence of committed operations of any number of connections: an operation reads one
  state, other connections may commit further operations, and then its transaction commits all of its
  rows or none. Histories only add rows, keep every constraint, and never leave a run without its trace.
\<close>

subsection \<open>The operations\<close>

datatype operation =
    SaveStrategy strategy_document
  | SaveComponent component_definition
  | SaveRun strategy_document backtest_result run_input_provenance string
  | SaveDataset market_data_set

fun perform :: "environment \<Rightarrow> json_text \<Rightarrow> operation \<Rightarrow> connection \<Rightarrow> fault option \<times> connection" where
  "perform env T (SaveStrategy d) cn = (case save_strategy env T d cn of
     (Inl e, cn') \<Rightarrow> (Some e, cn') | (Inr _, cn') \<Rightarrow> (None, cn'))"
| "perform env T (SaveComponent d) cn = (case save_component env T d cn of
     (Inl e, cn') \<Rightarrow> (Some e, cn') | (Inr _, cn') \<Rightarrow> (None, cn'))"
| "perform env T (SaveRun d result provenance mode) cn = (case save_run env T d result provenance mode cn of
     (Inl e, cn') \<Rightarrow> (Some e, cn') | (Inr _, cn') \<Rightarrow> (None, cn'))"
| "perform env T (SaveDataset ds) cn = (case save_dataset env T ds cn of
     (Inl e, cn') \<Rightarrow> (Some e, cn') | (Inr _, cn') \<Rightarrow> (None, cn'))"

text \<open>What the constructors and the types of Python establish of a dataset.\<close>

definition storable_calendar :: "exchange_calendar \<Rightarrow> bool" where
  "storable_calendar cal \<longleftrightarrow> exchange cal \<noteq> [] \<and> cal_timezone cal \<noteq> [] \<and>
     (\<forall>s \<in> set (sessions cal). valid_date (session_date s) \<and> valid_instant (open_at s) \<and> valid_instant (close_at s))"

definition storable_observation :: "price_observation \<Rightarrow> bool" where
  "storable_observation ob \<longleftrightarrow> valid_date (obs_date ob) \<and> valid_instant (open_available_at ob) \<and> valid_instant (close_available_at ob)"

definition storable_dataset :: "market_data_set \<Rightarrow> bool" where
  "storable_dataset ds \<longleftrightarrow> ds_ok ds \<and> storable_calendar (calendar ds) \<and>
     (\<forall>(a, series) \<in> set (observations ds). \<forall>ob \<in> set series. storable_observation ob)"

text \<open>Every float of a Python value is a double and every dict has distinct keys, so the dump of a
  portable document is a clean value.\<close>

fun operation_clean :: "operation \<Rightarrow> bool" where
  "operation_clean (SaveStrategy d) \<longleftrightarrow> json_clean (strategy_json d)"
| "operation_clean (SaveComponent d) \<longleftrightarrow> json_clean (json_of (dump_component d))"
| "operation_clean (SaveRun d result provenance mode) \<longleftrightarrow> json_clean (strategy_json d)"
| "operation_clean (SaveDataset ds) \<longleftrightarrow> storable_dataset ds"

abbreviation idle :: "database \<Rightarrow> connection" where
  "idle db \<equiv> \<lparr>cn_tables = db, cn_in_transaction = False\<rparr>"

inductive history :: "json_text \<Rightarrow> database \<Rightarrow> database \<Rightarrow> bool" for T where
  started: "history T db db"
| performed: "\<lbrakk>history T db db1; history T db1 (env_race env db1); operation_clean op\<rbrakk> \<Longrightarrow> history T db (cn_tables (snd (perform env T op (idle db1))))"

subsection \<open>The bodies of the transactions\<close>

text \<open>The statements of an operation that has not found its row: inserts of one document, or of a run
  with its events and possibly its strategy.\<close>

definition strategy_insert :: "environment \<Rightarrow> json_text \<Rightarrow> statement \<Rightarrow> bool" where
  "strategy_insert env T st \<longleftrightarrow> (\<exists>d stored. st = Insert ''strategies'' (strategy_row env d (content_hash T stored) stored) \<and>
     json_clean (strategy_json d) \<and> to_ir_json T (dump_strategy d) = Inr stored \<and> is_supported_schema_version (sd_schema_version d))"

definition component_insert :: "environment \<Rightarrow> json_text \<Rightarrow> statement \<Rightarrow> bool" where
  "component_insert env T st \<longleftrightarrow> (\<exists>d stored. st = Insert ''components'' (component_row env d (content_hash T stored) stored) \<and>
     json_clean (json_of (dump_component d)) \<and> to_ir_json T (dump_component d) = Inr stored \<and>
     is_supported_schema_version (cd_schema_version d))"

definition dataset_insert :: "environment \<Rightarrow> json_text \<Rightarrow> statement \<Rightarrow> bool" where
  "dataset_insert env T st \<longleftrightarrow> (\<exists>ds info payload. st = Insert ''datasets'' (dataset_row env info payload) \<and> storable_dataset ds \<and>
     canonical_json_bytes T (canonical_payload ds) = Inr payload \<and> dataset_info T ds (content_hash T payload) = Inr info)"

inductive save_statements :: "environment \<Rightarrow> json_text \<Rightarrow> statement list \<Rightarrow> bool" for env T where
  one: "strategy_insert env T st \<or> component_insert env T st \<or> dataset_insert env T st \<Longrightarrow> save_statements env T [st]"
| run: "\<lbrakk>list_all (strategy_insert env T) pending; list_all2 (\<lambda>e s. to_ir_json T (dump_event e) = Inr s) events rows\<rbrakk> \<Longrightarrow>
    save_statements env T (pending @ [Insert ''runs'' (run_row T env r stored rows)] @ event_inserts (rr_run_id r) events rows)"

definition transacted :: "environment \<Rightarrow> json_text \<Rightarrow> database \<Rightarrow> database \<Rightarrow> bool" where
  "transacted env T db db' \<longleftrightarrow> db' = db \<or> db' = env_race env db \<or>
     (\<exists>body. save_statements env T body \<and> execute_all 0 (env_lock_statement env) body (env_race env db) = Inr db')"

lemma transaction_transacted:
  assumes "save_statements env T body"
  shows "transacted env T db (cn_tables (snd (transaction env body (idle db))))"
  using assms transaction_cases[of env body "idle db" "fst (transaction env body (idle db))" "snd (transaction env body (idle db))"]
  by (auto simp: transacted_def)

lemma transactedD:
  "transaction env body (idle db) = (r, cn) \<Longrightarrow> save_statements env T body \<Longrightarrow> transacted env T db (cn_tables cn)"
  using transaction_transacted[of env T body db] by simp

lemma transacted_same [simp]: "transacted env T db db"
  by (simp add: transacted_def)

lemma artifact_bytes_Inr: "artifact_bytes T dump kind = Inr s \<longleftrightarrow> to_ir_json T dump = Inr s"
  by (auto simp: artifact_bytes_def split: sum.splits exn.splits)

lemma require_supported_Inr: "require_supported_for_save v kind = Inr u \<longleftrightarrow> is_supported_schema_version v"
  by (simp add: require_supported_for_save_def)

lemma prepare_save_insert:
  assumes "prepare_save env T d cn = Inr (key, Some st)" "json_clean (strategy_json d)"
  shows "strategy_insert env T st"
proof -
  obtain stored existing where s: "is_supported_schema_version (sd_schema_version d)" "to_ir_json T (dump_strategy d) = Inr stored"
    and st: "(case existing of row # _ \<Rightarrow>
      if row = [SqlText (content_hash T stored)] then Inr ((sd_id d, sd_version d), None)
      else Inl (already_different (strategy_name_of (sd_id d, sd_version d)))
    | [] \<Rightarrow> Inr ((sd_id d, sd_version d), Some (Insert ''strategies'' (strategy_row env d (content_hash T stored) stored)))) = Inr (key, Some st)"
    using assms(1) by (auto simp: prepare_save_def Let_def try_bind_Inr artifact_bytes_Inr require_supported_Inr)
  then show ?thesis using assms(2) by (cases existing) (auto simp: strategy_insert_def split: if_splits)
qed

lemma save_strategy_transacted:
  assumes "json_clean (strategy_json d)"
  shows "transacted env T db (cn_tables (snd (save_strategy env T d (idle db))))"
proof (cases "prepare_save env T d (idle db)")
  case (Inr r)
  show ?thesis
  proof (cases r)
    case (Pair key pending)
    show ?thesis
    proof (cases pending)
      case (Some st)
      have "strategy_insert env T st" using prepare_save_insert[of env T d "idle db" key st] Inr Pair Some assms by simp
      then have "save_statements env T [st]" by (auto intro: save_statements.one)
      then show ?thesis using transactedD by (auto simp: save_strategy_def Inr Pair Some split: prod.splits)
    qed (simp add: save_strategy_def Inr Pair)
  qed
qed (simp add: save_strategy_def)

lemma save_component_transacted:
  assumes "json_clean (json_of (dump_component d))"
  shows "transacted env T db (cn_tables (snd (save_component env T d (idle db))))"
proof -
  define prepared where "prepared = try_bind (require_supported_for_save (cd_schema_version d) ''component'') (\<lambda>_.
    try_bind (artifact_bytes T (dump_component d) ''component'') (\<lambda>stored.
    try_bind (select env ''components'' [''content_hash''] (component_where (definition_key d)) [] (idle db)) (\<lambda>existing. Inr (stored, existing))))"
  have ins: "save_statements env T [Insert ''components'' (component_row env d (content_hash T stored) stored)]"
    if "prepared = Inr (stored, existing)" for stored existing
    using that assms by (intro save_statements.one)
      (auto simp: prepared_def component_insert_def try_bind_Inr artifact_bytes_Inr require_supported_Inr)
  show ?thesis
  proof (cases prepared)
    case (Inr p)
    obtain stored existing where p: "p = (stored, existing)" by (cases p)
    show ?thesis using transactedD[OF _ ins[OF Inr[unfolded p]]]
      by (cases existing) (auto simp: save_component_def Let_def prepared_def[symmetric] Inr p split: prod.splits)
  qed (simp add: save_component_def Let_def prepared_def[symmetric])
qed

lemma save_dataset_transacted:
  assumes "storable_dataset ds"
  shows "transacted env T db (cn_tables (snd (save_dataset env T ds (idle db))))"
proof -
  define prepared where "prepared = try_bind (raising (canonical_json_bytes T (canonical_payload ds))) (\<lambda>payload.
    try_bind (raising (dataset_info T ds (content_hash T payload))) (\<lambda>info.
    try_bind (select env ''datasets'' [] (dataset_where (di_dataset_id info)) [] (idle db)) (\<lambda>existing. Inr (payload, info, existing))))"
  have ins: "save_statements env T [Insert ''datasets'' (dataset_row env info payload)]"
    if "prepared = Inr (payload, info, existing)" for payload info existing
  proof -
    have "canonical_json_bytes T (canonical_payload ds) = Inr payload" "dataset_info T ds (content_hash T payload) = Inr info"
      using that by (auto simp: prepared_def res_simps)
    then have "dataset_insert env T (Insert ''datasets'' (dataset_row env info payload))"
      unfolding dataset_insert_def using assms by blast
    then show ?thesis by (intro save_statements.one) simp
  qed
  show ?thesis
  proof (cases prepared)
    case (Inr p)
    obtain payload info existing where p: "p = (payload, info, existing)" by (cases p)
    show ?thesis using transactedD[OF _ ins[OF Inr[unfolded p]]]
      by (cases existing)
        (auto simp: save_dataset_def Let_def prepared_def[symmetric] Inr p split: prod.splits sum.splits fault.splits)
  qed (simp add: save_dataset_def Let_def prepared_def[symmetric])
qed

lemma plan_save_statements:
  assumes "plan_save env T d result provenance mode cn = Inr (Some body)" "json_clean (strategy_json d)"
  shows "save_statements env T body"
proof -
  define r where "r = record_from_result result (sd_id d) (sd_version d) provenance mode"
  obtain stored rows existing where
    rows: "traverse (\<lambda>e. artifact_bytes T (dump_event e) ''trace_event'') (br_trace result) = Inr rows"
    and rest: "(case existing of row # _ \<Rightarrow>
        if row = [SqlText (content_hash T stored), SqlText (fst (trace_identity T rows)), SqlInt (int (snd (trace_identity T rows)))] then Inr None
        else Inl (PersistenceError artifact_conflict (''run '' @ rr_run_id r @
          '' already exists with different record or trace content; persisted artifacts are immutable''))
      | [] \<Rightarrow> try_bind (prepare_save env T d cn) (\<lambda>(_, pending). Inr (Some (save_body T env r (br_trace result) stored rows pending)))) = Inr (Some body)"
    using assms(1) unfolding plan_save_def Let_def r_def[symmetric] try_bind_Inr by blast
  obtain key pending where prep: "prepare_save env T d cn = Inr (key, pending)"
    and body: "body = save_body T env r (br_trace result) stored rows pending"
    using rest by (cases existing) (auto simp: res_simps split: if_splits)
  have printed: "list_all2 (\<lambda>e s. to_ir_json T (dump_event e) = Inr s) (br_trace result) rows"
    using rows by (simp add: traverse_Inr artifact_bytes_Inr)
  have "list_all (strategy_insert env T) (case pending of None \<Rightarrow> [] | Some st \<Rightarrow> [st])"
    using prepare_save_insert[OF _ assms(2)] prep by (cases pending) auto
  from save_statements.run[OF this printed] show ?thesis unfolding body save_body_def by simp
qed

lemma save_run_transacted:
  assumes "json_clean (strategy_json d)"
  shows "transacted env T db (cn_tables (snd (save_run env T d result provenance mode (idle db))))"
proof (cases "plan_save env T d result provenance mode (idle db)")
  case (Inr r)
  show ?thesis
  proof (cases r)
    case (Some body)
    have "save_statements env T body" using plan_save_statements[OF _ assms] Inr Some by blast
    then show ?thesis using transactedD by (auto simp: save_run_def Inr Some split: prod.splits)
  qed (simp add: save_run_def Inr)
qed (simp add: save_run_def)

lemma perform_transacted: "operation_clean op \<Longrightarrow> transacted env T db (cn_tables (snd (perform env T op (idle db))))"
proof (cases op)
  case (SaveStrategy d)
  moreover assume "operation_clean op"
  ultimately show ?thesis using save_strategy_transacted[of d env T db]
    by (cases "save_strategy env T d (idle db)") (auto split: sum.splits)
next
  case (SaveComponent d)
  moreover assume "operation_clean op"
  ultimately show ?thesis using save_component_transacted[of d env T db]
    by (cases "save_component env T d (idle db)") (auto split: sum.splits)
next
  case (SaveRun d result provenance mode)
  moreover assume "operation_clean op"
  ultimately show ?thesis using save_run_transacted[of d env T db result provenance mode]
    by (cases "save_run env T d result provenance mode (idle db)") (auto split: sum.splits)
next
  case (SaveDataset ds)
  moreover assume "operation_clean op"
  ultimately show ?thesis using save_dataset_transacted[of ds env T db]
    by (cases "save_dataset env T ds (idle db)") (auto split: sum.splits)
qed

subsection \<open>Invariants along a history\<close>

text \<open>An invariant of the transactions is an invariant of the histories.\<close>

lemma history_invariant:
  assumes "history T db db'"
    and step: "\<And>env body db db'. save_statements env T body \<Longrightarrow> execute_all 0 (env_lock_statement env) body db = Inr db' \<Longrightarrow> I db \<Longrightarrow> I db'"
    and "I db"
  shows "I db'"
  using assms(1,3)
proof (induction rule: history.induct)
  case (performed db db1 env op)
  then have "I db1" "I (env_race env db1)" by blast+
  then show ?case using perform_transacted[of op env T db1] performed.hyps step by (auto simp: transacted_def)
qed

lemma history_extends: "history T db db' \<Longrightarrow> extends db db'"
proof (induction rule: history.induct)
  case (performed db db1 env op)
  define after where "after = cn_tables (snd (perform env T op (idle db1)))"
  have "transacted env T db1 after" unfolding after_def using performed.hyps(3) by (rule perform_transacted)
  then consider "after = db1" | "after = env_race env db1"
    | body where "execute_all 0 (env_lock_statement env) body (env_race env db1) = Inr after"
    unfolding transacted_def by blast
  then have "extends db1 after"
  proof cases
    case 3
    then show ?thesis using execute_all_keeps extends_trans performed.IH(2) by blast
  qed (use performed.IH(2) extends_refl in simp_all)
  then show ?case using extends_trans[OF performed.IH(1)] by (simp add: after_def)
qed (rule extends_refl)

lemma history_tables_ok: "history T db db' \<Longrightarrow> tables_ok db \<Longrightarrow> tables_ok db'"
  by (erule history_invariant) (auto dest: execute_all_keeps)

subsection \<open>The structure of the tables\<close>

definition structured :: "database \<Rightarrow> statement \<Rightarrow> bool" where
  "structured db st = (case st of
     CreateTable name columns key foreign \<Rightarrow>
       \<exists>t. map_of db name = Some t \<and> tb_columns t = columns \<and> tb_key t = key \<and> tb_foreign t = foreign
   | Insert _ _ \<Rightarrow> True)"

definition store_structured :: "database \<Rightarrow> bool" where
  "store_structured db \<longleftrightarrow> list_all (structured db) [strategies_table, components_table, runs_table, trace_events_table, datasets_table]"

lemma structured_extends: "structured db st \<Longrightarrow> extends db db' \<Longrightarrow> structured db' st"
proof (cases st)
  case (CreateTable name columns key foreign)
  assume s: "structured db st" and e: "extends db db'"
  obtain t where t: "map_of db name = Some t" "tb_columns t = columns" "tb_key t = key" "tb_foreign t = foreign"
    using s by (auto simp: structured_def CreateTable)
  obtain rows where "map_of db' name = Some (with_rows t rows)" using e t(1) by (auto simp: extends_def)
  then show ?thesis using t by (simp add: structured_def CreateTable)
qed (simp add: structured_def)

lemma store_structured_extends: "store_structured db \<Longrightarrow> extends db db' \<Longrightarrow> store_structured db'"
  by (auto simp: store_structured_def structured_extends)

subsection \<open>The rows that a body adds\<close>

fun inserted :: "string \<Rightarrow> statement list \<Rightarrow> sql_row list" where
  "inserted name [] = []"
| "inserted name (Insert n row # sts) = (if n = name then bound_row row # inserted name sts else inserted name sts)"
| "inserted name (CreateTable _ _ _ _ # sts) = inserted name sts"

lemma inserted_append: "inserted name (xs @ ys) = inserted name xs @ inserted name ys"
  by (induction name xs rule: inserted.induct) auto

lemma execute_statement_rows:
  assumes "execute_statement st db = Inr db'"
  shows "rows_of db' name = rows_of db name @ inserted name [st]"
proof (cases st)
  case (CreateTable n columns key foreign)
  then have new: "n \<notin> fst ` set db"
    and db': "db' = db @ [(n, \<lparr>tb_columns = columns, tb_key = key, tb_foreign = foreign, tb_rows = []\<rparr>)]"
    using assms by (auto simp: execute_statement_def split: if_splits)
  have "map_of db n = None" using new by (simp add: map_of_eq_None_iff)
  then show ?thesis using CreateTable by (auto simp: db' rows_of_def map_add_def split: option.splits)
next
  case (Insert n row)
  from execute_insert_Inr[OF assms[unfolded Insert]] show ?thesis
    by (auto simp: Insert rows_of_def update_conv')
qed

lemma execute_all_rows: "execute_all i lock body db = Inr db' \<Longrightarrow> rows_of db' name = rows_of db name @ inserted name body"
proof (induction i lock body db rule: execute_all.induct)
  case (2 i lock st sts db)
  then obtain db1 where "execute_statement st db = Inr db1" "execute_all (Suc i) lock sts db1 = Inr db'" "lock \<noteq> Some i"
    by (auto simp: res_simps split: if_splits)
  then show ?case using 2 execute_statement_rows[of st db db1 name] inserted_append[of name "[st]" sts] by simp
qed simp

lemma inserted_strategies: "list_all (strategy_insert env T) sts \<Longrightarrow> name \<noteq> ''strategies'' \<Longrightarrow> inserted name sts = []"
  by (induction sts) (auto simp: strategy_insert_def)

lemma inserted_events:
  "inserted name (event_inserts run events rows) =
     (if name = ''trace_events'' then map (\<lambda>(n, e, s). event_row run n e s) (enumerate 0 (zip events rows)) else [])"
proof -
  have row: "bound_row (event_row run n e s) = event_row run n e s" for n e s by (simp add: bound_row_def event_row_def)
  have "inserted name (map (\<lambda>(n, e, s). Insert ''trace_events'' (event_row run n e s)) xs) =
      (if name = ''trace_events'' then map (\<lambda>(n, e, s). event_row run n e s) xs else [])" for xs
    by (induction xs) (auto simp: row)
  then show ?thesis by (simp add: event_inserts_def)
qed

subsection \<open>No run without its trace\<close>

definition events_of :: "database \<Rightarrow> string \<Rightarrow> sql_row list" where
  "events_of db run = filter (run_where run) (rows_of db ''trace_events'')"

definition trace_whole :: "json_text \<Rightarrow> database \<Rightarrow> sql_row \<Rightarrow> bool" where
  "trace_whole T db r = (case cell r ''run_id'' of
     SqlText run \<Rightarrow> (\<exists>texts.
       map (cells [''seq'', ''event'']) (events_of db run) = map (\<lambda>(n, s). [SqlInt (int n), SqlText s]) (enumerate 0 texts) \<and>
       cell r ''trace_count'' = SqlInt (int (length texts)) \<and> cell r ''trace_content_hash'' = SqlText (fst (trace_identity T texts)))
   | _ \<Rightarrow> False)"

definition traces_whole :: "json_text \<Rightarrow> database \<Rightarrow> bool" where
  "traces_whole T db \<longleftrightarrow> (\<forall>r \<in> set (rows_of db ''runs''). trace_whole T db r)"

lemma sql_equal_text [simp]: "sql_equal v (SqlText s) \<longleftrightarrow> v = SqlText s" "sql_equal (SqlText s) v \<longleftrightarrow> v = SqlText s"
  and sql_equal_int [simp]: "sql_equal v (SqlInt i) \<longleftrightarrow> v = SqlInt i" "sql_equal (SqlInt i) v \<longleftrightarrow> v = SqlInt i"
  by (cases v; auto)+

lemma run_where_iff: "run_where run r \<longleftrightarrow> cell r ''run_id'' = SqlText run"
  by (simp add: run_where_def where_equal_def)

text \<open>Through the foreign key, a run that is not stored has no event.\<close>

lemma no_run_no_events:
  assumes "tables_ok db" "store_structured db" "\<forall>r \<in> set (rows_of db ''runs''). cell r ''run_id'' \<noteq> SqlText run"
  shows "events_of db run = []"
proof -
  obtain t where t: "map_of db ''trace_events'' = Some t" "tb_foreign t = [([''run_id''], ''runs'', [''run_id''])]"
    using assms(2) by (auto simp: store_structured_def structured_def trace_events_table_def)
  have "cell e ''run_id'' \<noteq> SqlText run" if "e \<in> set (tb_rows t)" for e
  proof
    assume c: "cell e ''run_id'' = SqlText run"
    have "row_ok db t e" using assms(1) t(1) that by (auto simp: tables_ok_def)
    then have "\<exists>p \<in> set (rows_of db ''runs''). cell p ''run_id'' = SqlText run"
      using c by (auto simp: row_ok_def t(2) foreign_ok_def cells_def)
    then show False using assms(3) by blast
  qed
  then show ?thesis by (auto simp: events_of_def rows_of_def t(1) run_where_iff filter_empty_conv)
qed

lemma bound_run_row: "bound_row (run_row T env r stored texts) = (run_row T env r stored texts) \<or> rr_total_return r = NaN"
  by (cases "rr_total_return r") (auto simp: bound_row_def run_row_def optional_text_def split: option.splits)

lemma run_row_cells:
  "cell (bound_row (run_row T env r stored texts)) ''run_id'' = SqlText (rr_run_id r)"
  "cell (bound_row (run_row T env r stored texts)) ''trace_count'' = SqlInt (int (length texts))"
  "cell (bound_row (run_row T env r stored texts)) ''trace_content_hash'' = SqlText (fst (trace_identity T texts))"
  by (simp_all add: bound_row_def run_row_def cell_def trace_identity_def)

lemma event_row_cells:
  "cells [''seq'', ''event''] (event_row run n e s) = [SqlInt (int n), SqlText s]" "run_where run' (event_row run n e s) \<longleftrightarrow> run' = run"
  by (auto simp: event_row_def cells_def cell_def run_where_iff)

text \<open>A new run's key is fresh.\<close>

lemma insert_run_fresh:
  assumes "execute_statement (Insert ''runs'' row) db = Inr db'" "store_structured db" "cell (bound_row row) ''run_id'' = SqlText run"
  shows "\<forall>r \<in> set (rows_of db ''runs''). cell r ''run_id'' \<noteq> SqlText run"
proof -
  obtain t where t: "map_of db ''runs'' = Some t" "\<forall>r \<in> set (tb_rows t). \<not> same_key (tb_key t) (bound_row row) r"
    using execute_insert_Inr[OF assms(1)] by blast
  have "tb_key t = [''run_id'']" using assms(2) t(1) by (auto simp: store_structured_def structured_def runs_table_def)
  then show ?thesis using t assms(3) by (auto simp: rows_of_def same_key_def)
qed

lemma execute_all_append:
  "execute_all i lock (xs @ ys) db = Inr db' \<Longrightarrow> \<exists>db1. execute_all i lock xs db = Inr db1 \<and> execute_all (i + length xs) lock ys db1 = Inr db'"
  by (induction i lock xs db rule: execute_all.induct) (auto simp: res_simps split: if_splits)

lemma filter_event_rows:
  "filter (run_where run') (map (\<lambda>(n, e, s). event_row run n e s) xs) = (if run' = run then map (\<lambda>(n, e, s). event_row run n e s) xs else [])"
  by (induction xs) (auto simp: event_row_cells)

lemma cells_event_rows:
  assumes "length events = length texts"
  shows "map (cells [''seq'', ''event'']) (map (\<lambda>(n, e, s). event_row run n e s) (enumerate k (zip events texts))) =
    map (\<lambda>(n, s). [SqlInt (int n), SqlText s]) (enumerate k texts)"
  using assms by (induction events texts arbitrary: k rule: list_induct2) (simp_all add: event_row_cells)

text \<open>What the body of a saved run adds, over a store without that run.\<close>

lemma run_body_rows:
  assumes ex: "execute_all 0 lock (pending @ [Insert ''runs'' (run_row T env r stored texts)] @ event_inserts (rr_run_id r) events texts) db = Inr db'"
    and pending: "list_all (strategy_insert env T) pending" and store: "store_structured db"
  shows "rows_of db' ''runs'' = rows_of db ''runs'' @ [bound_row (run_row T env r stored texts)]"
    "rows_of db' ''trace_events'' = rows_of db ''trace_events'' @ map (\<lambda>(n, e, s). event_row (rr_run_id r) n e s) (enumerate 0 (zip events texts))"
    "\<forall>x \<in> set (rows_of db ''runs''). cell x ''run_id'' \<noteq> SqlText (rr_run_id r)"
proof -
  let ?row = "run_row T env r stored texts"
  show "rows_of db' ''runs'' = rows_of db ''runs'' @ [bound_row ?row]"
    "rows_of db' ''trace_events'' = rows_of db ''trace_events'' @ map (\<lambda>(n, e, s). event_row (rr_run_id r) n e s) (enumerate 0 (zip events texts))"
    using execute_all_rows[OF ex] inserted_strategies[OF pending] by (auto simp: inserted_append inserted_events)
  obtain db1 db2 where db1: "execute_all 0 lock pending db = Inr db1" and db2: "execute_statement (Insert ''runs'' ?row) db1 = Inr db2"
    using ex execute_all_append by (fastforce simp: res_simps split: if_splits)
  have "extends db db1" using execute_all_keeps[OF db1] by blast
  then have "store_structured db1" using store store_structured_extends by blast
  moreover have "rows_of db1 ''runs'' = rows_of db ''runs''" using execute_all_rows[OF db1] inserted_strategies[OF pending] by simp
  ultimately show "\<forall>x \<in> set (rows_of db ''runs''). cell x ''run_id'' \<noteq> SqlText (rr_run_id r)"
    using insert_run_fresh[OF db2 _ run_row_cells(1)] by simp
qed

lemma traces_whole_step:
  assumes body: "save_statements env T body" and ex: "execute_all 0 lock body db = Inr db'"
    and ok: "tables_ok db" "store_structured db" and whole: "traces_whole T db"
  shows "traces_whole T db'"
  using body
proof cases
  case (one st)
  have "inserted name [st] = []" if "name \<in> {''runs'', ''trace_events''}" for name
    using one(2) that by (auto simp: strategy_insert_def component_insert_def dataset_insert_def)
  then have "rows_of db' ''runs'' = rows_of db ''runs''" "rows_of db' ''trace_events'' = rows_of db ''trace_events''"
    using execute_all_rows[OF ex] by (simp_all add: one(1))
  then have "trace_whole T db' r = trace_whole T db r" "rows_of db' ''runs'' = rows_of db ''runs''" for r
    by (simp_all only: trace_whole_def events_of_def)
  then show ?thesis using whole by (simp add: traces_whole_def)
next
  case (run pending events texts r stored)
  let ?row = "run_row T env r stored texts" and ?run = "rr_run_id r"
  define added where "added = map (\<lambda>(n, e, s). event_row ?run n e s) (enumerate 0 (zip events texts))"
  have rows: "rows_of db' ''runs'' = rows_of db ''runs'' @ [bound_row ?row]"
    "rows_of db' ''trace_events'' = rows_of db ''trace_events'' @ added"
    and fresh: "\<forall>x \<in> set (rows_of db ''runs''). cell x ''run_id'' \<noteq> SqlText ?run"
    unfolding added_def by (rule run_body_rows[OF ex[unfolded run(1)] run(2) ok(2)])+
  have events: "events_of db' i = events_of db i @ (if i = ?run then added else [])" for i
    by (simp add: events_of_def rows(2) filter_event_rows added_def)
  show ?thesis unfolding traces_whole_def rows(1) set_append
  proof (rule ballI, elim UnE)
    fix x assume x: "x \<in> set (rows_of db ''runs'')"
    then have "trace_whole T db x" "cell x ''run_id'' \<noteq> SqlText ?run" using whole fresh by (auto simp: traces_whole_def)
    then show "trace_whole T db' x" by (auto simp: trace_whole_def events split: sql_value.splits)
  next
    fix x assume x: "x \<in> set [bound_row ?row]"
    have "map (cells [''seq'', ''event'']) (events_of db' ?run) = map (\<lambda>(n, s). [SqlInt (int n), SqlText s]) (enumerate 0 texts)"
      using no_run_no_events[OF ok fresh] cells_event_rows[of events texts ?run 0] list_all2_lengthD[OF run(3)] by (simp add: events added_def)
    then show "trace_whole T db' x" using x by (auto simp: trace_whole_def run_row_cells)
  qed
qed

lemma history_traces_whole:
  assumes "history T db db'" "tables_ok db" "store_structured db" "traces_whole T db"
  shows "traces_whole T db'"
proof -
  define I where "I = (\<lambda>x. tables_ok x \<and> store_structured x \<and> traces_whole T x)"
  have "I db'"
  proof (rule history_invariant[OF assms(1)])
    show "I db" using assms(2-4) by (simp add: I_def)
    fix env body x x' assume "save_statements env T body" "execute_all 0 (env_lock_statement env) body x = Inr x'" "I x"
    then show "I x'" using traces_whole_step execute_all_keeps store_structured_extends unfolding I_def by blast
  qed
  then show ?thesis by (simp add: I_def)
qed

subsection \<open>Stored artifacts never change\<close>

lemma sort_no_keys [simp]: "sort_key (sql_keys []) xs = xs"
proof -
  have "insort_key (sql_keys []) x ys = x # ys" for x ys by (cases ys) (simp_all add: sql_keys_def cells_def)
  then show ?thesis by (induction xs) simp_all
qed

lemma select_idle:
  assumes "\<not> env_lock_query env" "map_of db name = Some t"
  shows "select env name columns cond [] (idle db) = Inr (map (cells columns) (filter cond (tb_rows t)))"
  using assms by (simp add: select_def)

lemma select_Inr_idle:
  "select env name columns cond [] (idle db) = Inr rows \<Longrightarrow>
   \<not> env_lock_query env \<and> (\<exists>t. map_of db name = Some t \<and> rows = map (cells columns) (filter cond (tb_rows t)))"
  by (auto simp: select_def split: if_splits option.splits)

lemma select_extends:
  assumes "select env name columns cond [] (idle db) = Inr (row # rows)" "extends db db'"
  shows "\<exists>rows'. select env name columns cond [] (idle db') = Inr (row # rows')"
proof -
  obtain t where t: "\<not> env_lock_query env" "map_of db name = Some t" "row # rows = map (cells columns) (filter cond (tb_rows t))"
    using select_Inr_idle[OF assms(1)] by (elim conjE exE) (rule that)
  obtain more where "map_of db' name = Some (with_rows t more)" using assms(2) t(2) by (auto simp: extends_def)
  from select_idle[OF t(1) this, of columns cond]
  have "select env name columns cond [] (idle db') = Inr ((row # rows) @ map (cells columns) (filter cond more))"
    unfolding t(3) by simp
  then show ?thesis by auto
qed

lemma load_document_first:
  "rows \<noteq> [] \<Longrightarrow> load_document T v kind (hd rows # rows') missing = load_document T v kind rows missing"
  by (cases rows) (auto simp: load_document_def split: list.splits)

lemma load_document_nonempty: "load_document T v kind rows missing = Inr d \<Longrightarrow> rows \<noteq> []"
  by (auto simp: load_document_def)

lemma load_strategy_extends:
  assumes "load_strategy env T va i v (idle db) = Inr d" "extends db db'"
  shows "load_strategy env T va i v (idle db') = Inr d"
proof -
  obtain rows where sel: "select env ''strategies'' [''document'', ''content_hash'', ''schema_version''] (strategy_where (i, v)) [] (idle db) = Inr rows"
    and doc: "load_document T (va_strategy va) ''strategy'' rows (strategy_name_of (i, v) @ '' is not stored'') = Inr d"
    using assms(1) by (auto simp: load_strategy_def res_simps)
  obtain row rest where rows: "rows = row # rest" using load_document_nonempty[OF doc] by (cases rows) auto
  obtain rows' where "select env ''strategies'' [''document'', ''content_hash'', ''schema_version''] (strategy_where (i, v)) [] (idle db') = Inr (row # rows')"
    using select_extends[OF sel[unfolded rows] assms(2)] by blast
  then show ?thesis using doc load_document_first[of rows T "va_strategy va" _ rows'] by (simp add: load_strategy_def rows)
qed

lemma load_component_extends:
  assumes "load_component env T va k (idle db) = Inr d" "extends db db'"
  shows "load_component env T va k (idle db') = Inr d"
proof -
  obtain rows where sel: "select env ''components'' [''document'', ''content_hash'', ''schema_version''] (component_where k) [] (idle db) = Inr rows"
    and doc: "load_document T (va_component va) ''component'' rows (component_name_of k @ '' is not stored'') = Inr d"
    using assms(1) by (auto simp: load_component_def res_simps)
  obtain row rest where rows: "rows = row # rest" using load_document_nonempty[OF doc] by (cases rows) auto
  obtain rows' where "select env ''components'' [''document'', ''content_hash'', ''schema_version''] (component_where k) [] (idle db') = Inr (row # rows')"
    using select_extends[OF sel[unfolded rows] assms(2)] by blast
  then show ?thesis using doc load_document_first[of rows T "va_component va" _ rows'] by (simp add: load_component_def rows)
qed

lemma load_run_extends:
  assumes "load_run env T va steps run (idle db) = Inr r" "extends db db'"
  shows "load_run env T va steps run (idle db') = Inr r"
proof -
  obtain rows where sel: "select env ''runs'' [''record'', ''content_hash'', ''record_format''] (run_where run) [] (idle db) = Inr rows"
    and doc: "(case rows of [] \<Rightarrow> Inl (run_not_stored run)
     | (SqlText text # recorded_hash # stored_format # _) # _ \<Rightarrow> load_record_row T va steps run text recorded_hash stored_format
     | _ \<Rightarrow> Inl (corrupt ''stored run record is not text'')) = Inr r"
    using assms(1) unfolding load_run_def try_bind_Inr by blast
  obtain row rest where rows: "rows = row # rest" using doc by (cases rows) auto
  obtain rows' where "select env ''runs'' [''record'', ''content_hash'', ''record_format''] (run_where run) [] (idle db') = Inr (row # rows')"
    using select_extends[OF sel[unfolded rows] assms(2)] by blast
  then show ?thesis using doc by (auto simp: load_run_def rows split: list.splits sql_value.splits)
qed

lemma load_dataset_extends:
  assumes "load_dataset env T i (idle db) = Inr ds" "extends db db'"
  shows "load_dataset env T i (idle db') = Inr ds"
proof -
  obtain rows where sel: "select env ''datasets'' [''payload''] (dataset_where i) [] (idle db) = Inr rows"
    and doc: "(case rows of [] \<Rightarrow> Inl (dataset_not_stored i)
     | r # _ \<Rightarrow> try_bind (decode_payload T (r ! 0) i) (\<lambda>payload. market_from_payload payload i)) = Inr ds"
    using assms(1) unfolding load_dataset_def try_bind_Inr by blast
  obtain row rest where rows: "rows = row # rest" using doc by (cases rows) auto
  obtain rows' where "select env ''datasets'' [''payload''] (dataset_where i) [] (idle db') = Inr (row # rows')"
    using select_extends[OF sel[unfolded rows] assms(2)] by blast
  then show ?thesis using doc by (simp add: load_dataset_def rows)
qed

end
