(* ===== verification/StoredRows.thy ===== *)
theory StoredRows
  imports Histories
begin

section \<open>What the rows of a store hold\<close>

text \<open>
  Every row that an operation commits is honest: the hash it records is the hash of the text it holds,
  and the text of a document is the printed dump of a document with its schema version. A store that the
  migrations have just created is empty and well formed, so every store with a history is honest.
\<close>

subsection \<open>The printed dump\<close>

lemma to_portable_Inr:
  "to_portable v = Inr j \<Longrightarrow> j = json_of v"
  "portable_items vs = Inr js \<Longrightarrow> js = map json_of vs"
  "portable_entries kvs = Inr out \<Longrightarrow> out = map (\<lambda>(k, v). (case k of StrKey s \<Rightarrow> s | OtherKey s \<Rightarrow> s, json_of v)) kvs"
  by (induction v and vs and kvs arbitrary: j and js and out
      rule: to_portable_portable_items_portable_entries.induct)
    (auto simp: res_simps feq_zero elim!: isfiniteE split: if_splits)

lemma to_ir_json_stored:
  assumes "to_ir_json T raw = Inr s"
  shows "s = jt_dumps T (json_of raw)"
proof -
  obtain j where j: "to_ir_dict raw = Inr j" "json_dumps T j = Inr s" using assms by (auto simp: to_ir_json_def res_simps)
  obtain k where k: "to_portable raw = Inr k" "(case k of JObj kvs \<Rightarrow> Inr (JObj kvs) | _ \<Rightarrow> Inl AssertionError) = Inr j"
    using j(1) by (auto simp: to_ir_dict_def res_simps)
  then have "to_portable raw = Inr j" by (cases k) auto
  then have "j = json_of raw" by (rule to_portable_Inr)
  then show ?thesis using j(2) by (simp add: json_dumps_def split: option.splits)
qed

subsection \<open>Honest rows\<close>

definition document_row :: "json_text \<Rightarrow> json \<Rightarrow> string \<Rightarrow> sql_row \<Rightarrow> bool" where
  "document_row T j version r \<longleftrightarrow> json_clean j \<and> cell r ''document'' = SqlText (jt_dumps T j) \<and>
     cell r ''content_hash'' = SqlText (content_hash T (jt_dumps T j)) \<and> cell r ''schema_version'' = SqlText version"

definition hashed_row :: "json_text \<Rightarrow> string \<Rightarrow> string \<Rightarrow> sql_row \<Rightarrow> bool" where
  "hashed_row T column hash_column r \<longleftrightarrow> (\<exists>text. cell r column = SqlText text \<and> cell r hash_column = SqlText (content_hash T text))"

definition dataset_kept :: "json_text \<Rightarrow> market_data_set \<Rightarrow> sql_row \<Rightarrow> bool" where
  "dataset_kept T ds r \<longleftrightarrow> storable_dataset ds \<and> (\<exists>payload prices sessions.
     canonical_json_bytes T (canonical_payload ds) = Inr payload \<and> cell r ''payload'' = SqlText payload \<and>
     cell r ''dataset_id'' = SqlText (content_hash T payload) \<and>
     dataset_fingerprint T ds = Inr prices \<and> cell r ''dataset_fingerprint'' = SqlText prices \<and>
     calendar_fingerprint T (calendar ds) = Inr sessions \<and> cell r ''calendar_fingerprint'' = SqlText sessions)"

definition row_honest :: "json_text \<Rightarrow> string \<Rightarrow> sql_row \<Rightarrow> bool" where
  "row_honest T name r \<longleftrightarrow>
     (name = ''strategies'' \<longrightarrow> (\<exists>d. document_row T (strategy_json d) (sd_schema_version d) r)) \<and>
     (name = ''components'' \<longrightarrow> (\<exists>d. document_row T (json_of (dump_component d)) (cd_schema_version d) r)) \<and>
     (name = ''datasets'' \<longrightarrow> (\<exists>ds. dataset_kept T ds r)) \<and>
     (name = ''runs'' \<longrightarrow> hashed_row T ''record'' ''content_hash'' r \<and> cell r ''record_format'' = SqlInt record_format) \<and>
     (name = ''trace_events'' \<longrightarrow> (\<exists>e. cell r ''event'' = SqlText (jt_dumps T (json_of (dump_event e)))) \<and>
        cell r ''trace_format'' = SqlInt trace_format)"

definition store_honest :: "json_text \<Rightarrow> database \<Rightarrow> bool" where
  "store_honest T db \<longleftrightarrow> (\<forall>name. \<forall>r \<in> set (rows_of db name). row_honest T name r)"

lemma honest_row: "store_honest T db \<Longrightarrow> r \<in> set (rows_of db name) \<Longrightarrow> row_honest T name r"
  by (simp add: store_honest_def)

lemma row_honest_simps:
  "row_honest T ''strategies'' r \<longleftrightarrow> (\<exists>d. document_row T (strategy_json d) (sd_schema_version d) r)"
  "row_honest T ''components'' r \<longleftrightarrow> (\<exists>d. document_row T (json_of (dump_component d)) (cd_schema_version d) r)"
  "row_honest T ''datasets'' r \<longleftrightarrow> (\<exists>ds. dataset_kept T ds r)"
  "row_honest T ''runs'' r \<longleftrightarrow> hashed_row T ''record'' ''content_hash'' r \<and> cell r ''record_format'' = SqlInt record_format"
  "row_honest T ''trace_events'' r \<longleftrightarrow> (\<exists>e. cell r ''event'' = SqlText (jt_dumps T (json_of (dump_event e)))) \<and>
     cell r ''trace_format'' = SqlInt trace_format"
  by (simp_all add: row_honest_def)

lemmas honest_strategy = honest_row[where name = "''strategies''", unfolded row_honest_simps]
  and honest_component = honest_row[where name = "''components''", unfolded row_honest_simps]
  and honest_dataset = honest_row[where name = "''datasets''", unfolded row_honest_simps]
  and honest_run = honest_row[where name = "''runs''", unfolded row_honest_simps]
  and honest_event = honest_row[where name = "''trace_events''", unfolded row_honest_simps]

lemma strategy_insert_honest:
  assumes "strategy_insert env T (Insert n row)"
  shows "n = ''strategies'' \<and> row_honest T ''strategies'' (bound_row row)"
proof -
  obtain d stored where d: "n = ''strategies''" "row = strategy_row env d (content_hash T stored) stored"
    "json_clean (strategy_json d)" "to_ir_json T (dump_strategy d) = Inr stored"
    using assms by (auto simp: strategy_insert_def)
  have "document_row T (strategy_json d) (sd_schema_version d) (bound_row row)"
    using d(3) to_ir_json_stored[OF d(4)]
    by (simp add: d(2) document_row_def strategy_row_def bound_row_def cell_def strategy_json_def)
  then show ?thesis using d(1) by (auto simp: row_honest_def)
qed

lemma component_insert_honest:
  assumes "component_insert env T (Insert n row)"
  shows "n = ''components'' \<and> row_honest T ''components'' (bound_row row)"
proof -
  obtain d stored where d: "n = ''components''" "row = component_row env d (content_hash T stored) stored"
    "json_clean (json_of (dump_component d))" "to_ir_json T (dump_component d) = Inr stored"
    using assms by (auto simp: component_insert_def)
  have "document_row T (json_of (dump_component d)) (cd_schema_version d) (bound_row row)"
    using d(3) to_ir_json_stored[OF d(4)] by (simp add: d(2) document_row_def component_row_def bound_row_def cell_def)
  then show ?thesis using d(1) by (auto simp: row_honest_def)
qed

lemma dataset_insert_honest:
  assumes "dataset_insert env T (Insert n row)"
  shows "n = ''datasets'' \<and> row_honest T ''datasets'' (bound_row row)"
proof -
  obtain ds info payload where d: "n = ''datasets''" "row = dataset_row env info payload" "storable_dataset ds"
    "canonical_json_bytes T (canonical_payload ds) = Inr payload" "dataset_info T ds (content_hash T payload) = Inr info"
    using assms by (auto simp: dataset_insert_def)
  have "dataset_kept T ds (bound_row row)"
    using d(3-5) by (auto simp: d(2) dataset_kept_def dataset_row_def bound_row_def cell_def dataset_info_def res_simps)
  then show ?thesis unfolding row_honest_simps using d(1) by blast
qed

lemma run_row_honest: "row_honest T ''runs'' (bound_row (run_row T env r stored texts))"
  by (simp add: row_honest_def hashed_row_def run_row_def bound_row_def cell_def)

lemma event_row_honest: "to_ir_json T (dump_event e) = Inr s \<Longrightarrow> row_honest T ''trace_events'' (event_row run n e s)"
  using to_ir_json_stored[of T "dump_event e" s] by (auto simp: row_honest_simps event_row_def cell_def)

lemma inserted_row: "r \<in> set (inserted name sts) \<Longrightarrow> \<exists>row. Insert name row \<in> set sts \<and> r = bound_row row"
  by (induction name sts rule: inserted.induct) (auto split: if_splits)

lemma inserted_honest:
  assumes "save_statements env T body" "r \<in> set (inserted name body)"
  shows "row_honest T name r"
  using assms(1)
proof cases
  case (one st)
  obtain row where "Insert name row = st" "r = bound_row row" using inserted_row[OF assms(2)] one(1) by auto
  then show ?thesis using one(2) strategy_insert_honest component_insert_honest dataset_insert_honest by metis
next
  case (run pending events texts rec stored)
  let ?added = "map (\<lambda>(n, e, s). event_row (rr_run_id rec) n e s) (enumerate 0 (zip events texts))"
  consider "r \<in> set (inserted name pending)" | "name = ''runs''" "r = bound_row (run_row T env rec stored texts)"
    | "name = ''trace_events''" "r \<in> set ?added"
  proof -
    have "r \<in> set (inserted name pending) \<or> r \<in> set (if name = ''runs'' then [bound_row (run_row T env rec stored texts)] else []) \<or>
      r \<in> set (if name = ''trace_events'' then ?added else [])"
      using assms(2) by (simp add: run(1) inserted_append inserted_events split: if_splits)
    then show ?thesis by (elim disjE) (rule that; simp split: if_splits)+
  qed
  then show ?thesis
  proof cases
    case 1
    obtain row where "Insert name row \<in> set pending" "r = bound_row row" using inserted_row[OF 1] by blast
    then show ?thesis using run(2) strategy_insert_honest by (metis list_all_iff)
  next
    case 2
    then show ?thesis by (simp add: run_row_honest)
  next
    case 3
    obtain n e s where "(n, e, s) \<in> set (enumerate 0 (zip events texts))" and r: "r = event_row (rr_run_id rec) n e s"
      using 3(2) by auto
    then have "(e, s) \<in> set (zip events texts)" by (auto simp: in_set_enumerate_eq in_set_zip)
    then have "to_ir_json T (dump_event e) = Inr s" using run(3) by (auto simp: list_all2_iff)
    then show ?thesis using event_row_honest 3(1) r by simp
  qed
qed

lemma history_honest: "history T db db' \<Longrightarrow> store_honest T db \<Longrightarrow> store_honest T db'"
proof (erule history_invariant)
  fix env body x x'
  assume body: "save_statements env T body" and ex: "execute_all 0 (env_lock_statement env) body x = Inr x'" and "store_honest T x"
  then show "store_honest T x'"
    using inserted_honest[OF body] unfolding store_honest_def execute_all_rows[OF ex] by auto
qed

subsection \<open>A fresh store\<close>

definition fresh_store :: "string \<Rightarrow> database" where
  "fresh_store now = (case open_database (quiet now) (Tables []) of (Inr cn, _) \<Rightarrow> cn_tables cn | _ \<Rightarrow> [])"

fun empty_table :: "statement \<Rightarrow> string \<times> table" where
  "empty_table (CreateTable name columns key foreign) = (name, \<lparr>tb_columns = columns, tb_key = key, tb_foreign = foreign, tb_rows = []\<rparr>)"
| "empty_table (Insert name row) = (name, \<lparr>tb_columns = [], tb_key = [], tb_foreign = [], tb_rows = []\<rparr>)"

definition migration_rows :: "string \<Rightarrow> sql_row list" where
  "migration_rows now = map (\<lambda>v. [(''version'', SqlInt v), (''applied_at'', SqlText now)]) [1, 2]"

lemma fresh_store_eq:
  "open_database (quiet now) (Tables []) = (Inr (idle (fresh_store now)), Tables (fresh_store now)) \<and>
   fresh_store now = (case empty_table schema_migrations_table of (name, t) \<Rightarrow> (name, with_rows t (migration_rows now)))
     # map empty_table [strategies_table, components_table, runs_table, trace_events_table, datasets_table]"
proof -
  define db where "db = (case empty_table schema_migrations_table of (name, t) \<Rightarrow> (name, with_rows t (migration_rows now)))
     # map empty_table [strategies_table, components_table, runs_table, trace_events_table, datasets_table]"
  have "open_database (quiet now) (Tables []) = (Inr (idle db), Tables db)"
    unfolding db_def with_rows_def by code_simp
  then show ?thesis unfolding fresh_store_def db_def by simp
qed

lemma fresh_store_value:
  "fresh_store now = (case empty_table schema_migrations_table of (name, t) \<Rightarrow> (name, with_rows t (migration_rows now)))
     # map empty_table [strategies_table, components_table, runs_table, trace_events_table, datasets_table]"
  by (rule conjunct2[OF fresh_store_eq])

lemma fresh_store_structured: "store_structured (fresh_store now)"
  by (simp add: store_structured_def structured_def fresh_store_value strategies_table_def components_table_def runs_table_def
      trace_events_table_def datasets_table_def schema_migrations_table_def)

lemma fresh_store_rows: "name \<noteq> ''schema_migrations'' \<Longrightarrow> rows_of (fresh_store now) name = []"
  by (simp add: rows_of_def fresh_store_value strategies_table_def components_table_def runs_table_def
      trace_events_table_def datasets_table_def schema_migrations_table_def)

lemma fresh_store_tables_ok: "tables_ok (fresh_store now)"
proof -
  have "keys_unique t \<and> (\<forall>r \<in> set (tb_rows t). row_ok (fresh_store now) t r)" if t: "map_of (fresh_store now) name = Some t" for name t
  proof (cases "name = ''schema_migrations''")
    case True
    then have t: "tb_key t = [''version'']" "tb_rows t = migration_rows now" "tb_foreign t = []" "tb_columns t = [(''version'', True), (''applied_at'', True)]"
      using that by (auto simp: fresh_store_value schema_migrations_table_def)
    show ?thesis by (simp add: keys_unique_def t migration_rows_def same_key_def row_ok_def null_violation_def cell_def)
  next
    case False
    then have "tb_rows t = []" using fresh_store_rows[OF False, of now] t by (simp add: rows_of_def)
    then show ?thesis by (simp add: keys_unique_def)
  qed
  then show ?thesis by (simp add: tables_ok_def)
qed

lemma fresh_store_honest: "store_honest T (fresh_store now)"
proof -
  have "row_honest T name r" if "r \<in> set (rows_of (fresh_store now) name)" for name r
    using that fresh_store_rows[of name now] by (cases "name = ''schema_migrations''") (simp_all add: row_honest_def)
  then show ?thesis by (simp add: store_honest_def)
qed

text \<open>A store with a history.\<close>

definition kept_store :: "json_text \<Rightarrow> string \<Rightarrow> database \<Rightarrow> bool" where
  "kept_store T now db \<longleftrightarrow> history T (fresh_store now) db"

lemma kept_store_ok:
  assumes "kept_store T now db"
  shows "tables_ok db" "store_structured db" "traces_whole T db" "store_honest T db"
proof -
  have h: "history T (fresh_store now) db" using assms by (simp add: kept_store_def)
  have "traces_whole T (fresh_store now)" by (simp add: traces_whole_def fresh_store_rows)
  from history_traces_whole[OF h fresh_store_tables_ok fresh_store_structured this] show "traces_whole T db" .
  show "tables_ok db" by (rule history_tables_ok[OF h fresh_store_tables_ok])
  show "store_structured db" by (rule store_structured_extends[OF fresh_store_structured history_extends[OF h]])
  show "store_honest T db" by (rule history_honest[OF h fresh_store_honest])
qed

lemma history_trans: "history T a b \<Longrightarrow> history T b c \<Longrightarrow> history T a c"
proof (rotate_tac, induction rule: history.induct)
  case (performed db db1 env op)
  then show ?case using history.performed by blast
qed simp

lemma kept_store_history: "kept_store T now db \<Longrightarrow> history T db db' \<Longrightarrow> kept_store T now db'"
  unfolding kept_store_def by (rule history_trans)

text \<open>The tables a store has.\<close>


lemma select_store:
  assumes "store_structured db" "name \<in> {''strategies'', ''components'', ''runs'', ''trace_events'', ''datasets''}" "\<not> env_lock_query env"
  shows "select env name columns cond [] (idle db) = Inr (map (cells columns) (filter cond (rows_of db name)))"
proof -
  obtain t where "map_of db name = Some t"
    using assms(1,2) by (auto simp: store_structured_def structured_def strategies_table_def components_table_def runs_table_def
      trace_events_table_def datasets_table_def)
  then show ?thesis using select_idle[OF assms(3)] by (simp add: rows_of_def)
qed

end
