(* ===== verification/RoundTrips.thy ===== *)
theory RoundTrips
  imports StoredRows
begin

section \<open>Round trips through the store\<close>

text \<open>
  What is saved is what is loaded, at every later point of the history: datasets and strategies
  here, run records and traces in \<open>RunTrips\<close>.
\<close>

subsection \<open>Sorted keys do not matter to a reader\<close>

lemma map_of_sort_fst:
  assumes "distinct (map fst xs)"
  shows "map_of (sort_key fst xs) = map_of xs"
proof (rule map_of_inject_set[THEN iffD2])
  show "distinct (map fst (sort_key fst xs))" using assms unfolding map_sort_key_fst by simp
qed (simp_all add: assms)

lemma map_of_sort_keys:
  assumes "distinct (map fst kvs)"
  shows "map_of (sort_key fst (map (\<lambda>(k, v). (k, f v)) kvs)) k = map_option f (map_of kvs k)"
proof -
  have d: "distinct (map fst (map (\<lambda>(k, v). (k, f v)) kvs))" using assms by (simp only: fst_sort_keys)
  from map_of_sort_fst[OF d] show ?thesis by (simp add: map_of_map case_prod_beta)
qed

lemma json_get_sort_keys:
  "distinct (map fst kvs) \<Longrightarrow> json_get k (sort_keys (JObj kvs)) = map_sum id sort_keys (json_get k (JObj kvs))"
  by (simp add: map_of_sort_keys split: option.splits)

subsection \<open>Datasets\<close>

lemma session_payload_read:
  assumes "session_ok s" "valid_date (session_date s)" "valid_instant (open_at s)" "valid_instant (close_at s)"
  shows "session_of_payload (sort_keys (session_payload s)) = Inr s"
  using assms unfolding session_payload_def session_of_payload_def field_of_def
  by (simp add: json_get_sort_keys date_fromisoformat_isoformat datetime_fromisoformat_isoformat mk_market_session_Inr session_ok_def
      del: sort_keys.simps(2))

lemma mk_price_observation_read:
  assumes "obs_prices_ok ob"
  shows "mk_price_observation (obs_date ob) (PyFloat (open_price ob)) (PyFloat (close_price ob))
    (Aware (open_available_at ob) 0) (Aware (close_available_at ob) 0) = Inr ob"
proof -
  have "require_positive_finite (PyFloat p) l = Inr p" if "valid_price p" for p l
  proof -
    have "\<not> p \<le> 0" using that by (cases p) (auto simp: valid_price_def)
    then show ?thesis using that by (simp add: require_positive_finite_def valid_price_def to_double_id)
  qed
  then show ?thesis using assms by (simp add: mk_price_observation_def obs_prices_ok_def require_aware_utc_def)
qed

lemma observation_payload_read:
  assumes "obs_prices_ok ob" "storable_observation ob"
  shows "observation_of_payload (sort_keys (observation_payload ob)) = Inr ob"
  using assms mk_price_observation_read[OF assms(1)]
  unfolding observation_payload_def observation_of_payload_def field_of_def storable_observation_def
  by (simp add: json_get_sort_keys date_fromisoformat_isoformat datetime_fromisoformat_isoformat del: sort_keys.simps(2))

lemma traverse_read: "(\<And>x. x \<in> set xs \<Longrightarrow> f (g x) = Inr x) \<Longrightarrow> traverse f (map g xs) = Inr xs"
  by (induction xs) auto

lemma calendar_payload_read:
  assumes "cal_ok cal" "storable_calendar cal"
  shows "calendar_of_payload (sort_keys (JObj [(''exchange'', JStr (exchange cal)), (''timezone'', JStr (cal_timezone cal)),
    (''sessions'', JList (map session_payload (sessions cal)))])) = Inr cal"
proof -
  have "traverse session_of_payload (map (sort_keys \<circ> session_payload) (sessions cal)) = Inr (sessions cal)"
    using assms by (intro traverse_read) (auto simp: cal_ok_def storable_calendar_def intro: session_payload_read)
  moreover have "check_sessions None (sessions cal) = Inr ()" using assms(1) check_sessions_None by (auto simp: cal_ok_def)
  ultimately show ?thesis using assms(2) unfolding calendar_of_payload_def field_of_def
    by (simp add: json_get_sort_keys mk_exchange_calendar_def storable_calendar_def del: sort_keys.simps(2))
qed

lemma check_series_ok:
  assumes "series_ok cal series" "\<forall>p. prev = Some p \<longrightarrow> (\<forall>ob \<in> set series. p < obs_date ob)"
  shows "check_series cal a prev series = Inr ()"
  using assms
proof (induction series arbitrary: prev)
  case (Cons ob obs)
  obtain s where s: "session_on cal (obs_date ob) = Some s" "open_at s \<le> open_available_at ob" "close_at s \<le> close_available_at ob"
    using Cons.prems(1) by (auto simp: series_ok_def obs_ok_def)
  have "series_ok cal obs" "\<forall>x \<in> set obs. obs_date ob < obs_date x" using Cons.prems(1) by (auto simp: series_ok_def)
  then have "check_series cal a (Some (obs_date ob)) obs = Inr ()" by (intro Cons.IH) auto
  then show ?case using s Cons.prems(2) by (auto split: option.splits)
qed simp

lemma check_assets_ok:
  "\<forall>(a, series) \<in> set obs. a \<noteq> [] \<and> series_ok cal series \<Longrightarrow> check_assets cal obs = Inr ()"
  by (induction cal obs rule: check_assets.induct) (auto simp: check_series_ok)

lemma market_from_payload_read:
  assumes "storable_dataset ds" "sort_keys (JObj (canonical_payload ds)) = JObj stored"
  shows "market_from_payload stored i = Inr ds"
proof -
  have ok: "ds_ok ds" "storable_calendar (calendar ds)" "\<forall>(a, series) \<in> set (observations ds). \<forall>ob \<in> set series. storable_observation ob"
    using assms(1) by (auto simp: storable_dataset_def)
  have cal: "cal_ok (calendar ds)" "sessions (calendar ds) \<noteq> []" using ok(1) by (auto simp: ds_ok_def)
  let ?entry = "\<lambda>(asset, series). (asset, JList (map observation_payload series))"
  have prices: "obs_prices_ok ob" if "(a, series) \<in> set (observations ds)" "ob \<in> set series" for a series ob
    using ok(1) that by (auto simp: ds_ok_def series_ok_def obs_ok_def obs_prices_ok_def)
  have read: "series_of_payload (a, sort_keys (JList (map observation_payload series))) = Inr (a, series)"
    if "(a, series) \<in> set (observations ds)" for a series
  proof -
    have "traverse observation_of_payload (map (sort_keys \<circ> observation_payload) series) = Inr series"
    proof (intro traverse_read)
      fix ob assume ob: "ob \<in> set series"
      have "storable_observation ob" using ok(3) that ob by blast
      then show "observation_of_payload ((sort_keys \<circ> observation_payload) ob) = Inr ob"
        using observation_payload_read[OF prices[OF that ob]] by simp
    qed
    then show ?thesis by (simp add: series_of_payload_def)
  qed
  have sorted: "sorted (map fst (observations ds))" and distinct: "distinct (map fst (observations ds))"
    using ok(1) by (auto simp: ds_ok_def ds_assets_def strict_sorted_iff)
  define entries where "entries = map (\<lambda>(a, series). (a, sort_keys (JList (map observation_payload series)))) (observations ds)"
  have fst_entries: "map fst entries = map fst (observations ds)" by (simp add: entries_def case_prod_beta comp_def)
  have ordered: "sort_key fst entries = entries" using sorted fst_entries by (simp add: sort_key_id_if_sorted)
  have "map (\<lambda>(k, v). (k, sort_keys v)) (map ?entry (observations ds)) = entries"
    by (simp add: entries_def case_prod_beta comp_def)
  then have obs: "sort_keys (JObj (map ?entry (observations ds))) = JObj entries"
    by (simp only: sort_keys.simps ordered)
  have rebuilt: "traverse series_of_payload entries = Inr (observations ds)"
    unfolding entries_def using read by (intro traverse_read) auto
  have built: "mk_market_data_set (calendar ds) (observations ds) = Inr ds"
  proof -
    have "sort_key fst (observations ds) = observations ds" using sorted by (simp add: sort_key_id_if_sorted)
    moreover have "check_assets (calendar ds) (observations ds) = Inr ()" using ok(1) by (intro check_assets_ok) (auto simp: ds_ok_def)
    ultimately show ?thesis using cal(2) by (simp add: mk_market_data_set_def)
  qed
  have stored: "JObj stored = sort_keys (JObj [(''calendar'', JObj [(''exchange'', JStr (exchange (calendar ds))),
      (''timezone'', JStr (cal_timezone (calendar ds))), (''sessions'', JList (map session_payload (sessions (calendar ds))))]),
      (''observations'', JObj (map ?entry (observations ds)))])"
    using assms(2) by (simp add: canonical_payload_def Let_def del: sort_keys.simps)
  have "json_get ''calendar'' (JObj stored) = Inr (sort_keys (JObj [(''exchange'', JStr (exchange (calendar ds))),
      (''timezone'', JStr (cal_timezone (calendar ds))), (''sessions'', JList (map session_payload (sessions (calendar ds))))]))"
    unfolding stored by (subst json_get_sort_keys) (simp_all del: sort_keys.simps)
  moreover have "json_get ''observations'' (JObj stored) = Inr (JObj entries)"
    unfolding stored obs[symmetric] by (subst json_get_sort_keys) (simp_all del: sort_keys.simps)
  ultimately show ?thesis unfolding market_from_payload_def
    by (simp add: calendar_payload_read[OF cal(1) ok(2)] catching_def rebuilt built del: sort_keys.simps json_get.simps)
qed

subsection \<open>A row is found by its key\<close>

text \<open>Another text with the digest of \<open>s\<close>.\<close>

definition collides :: "json_text \<Rightarrow> string \<Rightarrow> bool" where
  "collides T s \<longleftrightarrow> (\<exists>s'. s' \<noteq> s \<and> content_hash T s' = content_hash T s)"

lemma collidesI: "content_hash T s' = content_hash T s \<Longrightarrow> s' = s \<or> collides T s"
  by (auto simp: collides_def)

lemma transaction_insert:
  assumes "transaction env [Insert name row] (idle db) = (Inr u, cn)"
  shows "execute_statement (Insert name row) (env_race env db) = Inr (cn_tables cn)"
  using assms by (auto simp: transaction_def Let_def res_simps split: if_splits sum.splits)

lemma inserted_only:
  assumes "execute_statement (Insert name row) db = Inr db'" "cond (bound_row row)"
    "\<And>t r. map_of db name = Some t \<Longrightarrow> cond r \<Longrightarrow> same_key (tb_key t) (bound_row row) r"
  shows "filter cond (rows_of db' name) = [bound_row row]"
proof -
  obtain t where t: "map_of db name = Some t" "db' = AList.update name (with_rows t [bound_row row]) db"
    "\<forall>r \<in> set (tb_rows t). \<not> same_key (tb_key t) (bound_row row) r"
    using execute_insert_Inr[OF assms(1)] by blast
  then have "filter cond (tb_rows t) = []" using assms(3) by (auto simp: filter_empty_conv)
  then show ?thesis using assms(2) by (simp add: t(2) rows_of_def update_conv')
qed

lemma filter_first: "filter cond xs = r # rs \<Longrightarrow> r \<in> set xs \<and> cond r"
  using filter_set[of cond xs] by auto

lemma found_later: "filter cond (rows_of db name) = r # rs \<Longrightarrow> extends db db' \<Longrightarrow> \<exists>rs'. filter cond (rows_of db' name) = r # rs'"
  using extends_rows[of db db' name] by auto

lemma strategy_where_iff: "strategy_where (i, v) r \<longleftrightarrow> cell r ''strategy_id'' = SqlText i \<and> cell r ''version'' = SqlInt v"
  by (simp add: strategy_where_def where_equal_def)

lemma component_where_iff:
  "component_where k r \<longleftrightarrow> cell r ''component_id'' = SqlText (key_component_id k) \<and> cell r ''version'' = SqlText (key_version k)"
  by (simp add: component_where_def where_equal_def)

lemma dataset_where_iff: "dataset_where i r \<longleftrightarrow> cell r ''dataset_id'' = SqlText i"
  by (simp add: dataset_where_def where_equal_def)

lemma key_columns:
  assumes "store_structured db"
  shows "map_of db ''strategies'' = Some t \<Longrightarrow> tb_key t = [''strategy_id'', ''version'']"
    "map_of db ''components'' = Some t \<Longrightarrow> tb_key t = [''component_id'', ''version'']"
    "map_of db ''datasets'' = Some t \<Longrightarrow> tb_key t = [''dataset_id'']"
    "map_of db ''runs'' = Some t \<Longrightarrow> tb_key t = [''run_id'']"
  using assms by (auto simp: store_structured_def structured_def strategies_table_def components_table_def datasets_table_def runs_table_def)

subsection \<open>Documents\<close>

lemma load_document_stored:
  assumes row: "document_row T (JObj kvs) v r" and faithful: "text_faithful T"
    and version: "map_of kvs ''schema_version'' = Some (JStr v)" "is_supported_schema_version v"
    and valid: "validate (JObj kvs) = Inr d"
  shows "load_document T validate kind (cells [''document'', ''content_hash'', ''schema_version''] r # rest) missing = Inr d"
proof -
  have "jt_loads T (jt_dumps T (JObj kvs)) = Inr (JObj kvs)"
    using row faithful by (intro text_faithfulD) (auto simp: document_row_def)
  then show ?thesis using row version valid
    by (simp add: document_row_def load_document_def cells_def verify_hash_def decode_json_def strict_json_loads_def gate_schema_version_def)
qed

text \<open>A row that records the hash of a document's text holds that document, unless the hash collides.\<close>

lemma document_row_same:
  assumes "document_row T j' v' r" "cell r ''content_hash'' = SqlText (content_hash T (jt_dumps T j))" "json_clean j" "text_faithful T"
  shows "j' = j \<or> collides T (jt_dumps T j)"
proof -
  have "jt_dumps T j' = jt_dumps T j \<or> collides T (jt_dumps T j)"
    using assms(1,2) by (intro collidesI) (simp add: document_row_def)
  moreover have "j' = j" if "jt_dumps T j' = jt_dumps T j"
    using text_faithfulD[OF assms(4), of j] text_faithfulD[OF assms(4), of j'] assms(1,3) that by (simp add: document_row_def)
  ultimately show ?thesis by blast
qed

lemma strategy_json_version: "\<exists>kvs. strategy_json d = JObj kvs \<and> map_of kvs ''schema_version'' = Some (JStr (sd_schema_version d))"
  by (simp add: strategy_json_def dump_strategy_def)

lemma save_strategy_found:
  assumes save: "save_strategy env T d (idle db) = (Inr key, cn)" and store: "store_structured db" "store_structured (env_race env db)"
  shows "key = (sd_id d, sd_version d) \<and> is_supported_schema_version (sd_schema_version d) \<and>
    (\<exists>r rs. filter (strategy_where key) (rows_of (cn_tables cn) ''strategies'') = r # rs \<and>
      cell r ''content_hash'' = SqlText (content_hash T (jt_dumps T (strategy_json d))))"
proof -
  define k digest where "k = (sd_id d, sd_version d)" and "digest = content_hash T (jt_dumps T (strategy_json d))"
  obtain key' pending where prep': "prepare_save env T d (idle db) = Inr (key', pending)"
    using save by (cases "prepare_save env T d (idle db)") (auto simp: save_strategy_def)
  then have "key' = key" using save by (cases pending) (auto simp: save_strategy_def try_bind_Inr split: prod.splits)
  then have prep: "prepare_save env T d (idle db) = Inr (key, pending)" using prep' by simp
  obtain stored existing where sup: "is_supported_schema_version (sd_schema_version d)" and printed: "to_ir_json T (dump_strategy d) = Inr stored"
    and sel: "select env ''strategies'' [''content_hash''] (strategy_where k) [] (idle db) = Inr existing"
    and rest: "(case existing of row # _ \<Rightarrow>
      if row = [SqlText (content_hash T stored)] then Inr (k, None) else Inl (already_different (strategy_name_of k))
    | [] \<Rightarrow> Inr (k, Some (Insert ''strategies'' (strategy_row env d (content_hash T stored) stored)))) = Inr (key, pending)"
    using prep unfolding prepare_save_def Let_def try_bind_Inr artifact_bytes_Inr require_supported_Inr k_def by blast
  have stored: "content_hash T stored = digest" using to_ir_json_stored[OF printed] by (simp add: digest_def strategy_json_def)
  have key: "key = k" using rest by (cases existing) (auto split: if_splits)
  have existing: "existing = map (cells [''content_hash'']) (filter (strategy_where k) (rows_of db ''strategies''))"
    using select_Inr_idle[OF sel] by (auto simp: rows_of_def)
  have "\<exists>r rs. filter (strategy_where k) (rows_of (cn_tables cn) ''strategies'') = r # rs \<and> cell r ''content_hash'' = SqlText digest"
  proof (cases existing)
    case (Cons row rows)
    then have "row = [SqlText digest]" "pending = None" using rest stored by (auto split: if_splits)
    moreover have "cn = idle db" using save prep calculation(2) by (simp add: save_strategy_def)
    ultimately show ?thesis using Cons existing
      by (cases "filter (strategy_where k) (rows_of db ''strategies'')") (auto simp: cells_def)
  next
    case Nil
    let ?row = "strategy_row env d digest stored"
    have "pending = Some (Insert ''strategies'' ?row)" using rest stored Nil by simp
    then obtain u where "transaction env [Insert ''strategies'' ?row] (idle db) = (Inr u, cn)"
      using save prep by (auto simp: save_strategy_def res_simps on_violation_def split: prod.splits sum.splits fault.splits)
    note ins = transaction_insert[OF this]
    have cells: "cell (bound_row ?row) ''strategy_id'' = SqlText (fst k)" "cell (bound_row ?row) ''version'' = SqlInt (snd k)"
      "cell (bound_row ?row) ''content_hash'' = SqlText digest" by (simp_all add: bound_row_def strategy_row_def cell_def k_def)
    have "filter (strategy_where k) (rows_of (cn_tables cn) ''strategies'') = [bound_row ?row]"
      using ins by (rule inserted_only)
        (auto simp: k_def strategy_where_iff same_key_def cells[unfolded k_def] dest: key_columns(1)[OF store(2)])
    then show ?thesis using cells by simp
  qed
  then show ?thesis using sup key by (simp add: k_def digest_def)
qed

lemma load_strategy_saved:
  assumes found: "filter (strategy_where (sd_id d, sd_version d)) (rows_of db ''strategies'') = r # rs"
    "cell r ''content_hash'' = SqlText (content_hash T (jt_dumps T (strategy_json d)))"
    and store: "store_structured db" "store_honest T db" and ok: "json_clean (strategy_json d)" "text_faithful T"
      "is_supported_schema_version (sd_schema_version d)" "va_strategy va (strategy_json d) = Inr d" "\<not> env_lock_query env"
  shows "load_strategy env T va (sd_id d) (sd_version d) (idle db) = Inr d \<or> collides T (jt_dumps T (strategy_json d))"
proof -
  have "r \<in> set (rows_of db ''strategies'')" using filter_first[OF found(1)] ..
  from honest_strategy[OF store(2) this] obtain d' where d': "document_row T (strategy_json d') (sd_schema_version d') r" ..
  show ?thesis
  proof (cases "strategy_json d' = strategy_json d")
    case True
    obtain kvs where kvs: "strategy_json d = JObj kvs" "map_of kvs ''schema_version'' = Some (JStr (sd_schema_version d))"
      using strategy_json_version by blast
    then have "sd_schema_version d' = sd_schema_version d" using True strategy_json_version[of d'] by auto
    then have row: "document_row T (JObj kvs) (sd_schema_version d) r" using d' True kvs(1) by simp
    have "load_strategy env T va (sd_id d) (sd_version d) (idle db) = Inr d"
      using load_document_stored[OF row ok(2) kvs(2) ok(3)] ok(4)
      by (simp add: load_strategy_def select_store[OF store(1) _ ok(5)] found(1) kvs(1))
    then show ?thesis ..
  qed (use document_row_same[OF d' found(2) ok(1,2)] in blast)
qed

subsection \<open>Datasets through the store\<close>

definition dataset_text :: "json_text \<Rightarrow> market_data_set \<Rightarrow> string" where
  "dataset_text T ds = jt_dumps T (sort_keys (JObj (canonical_payload ds)))"

lemma observation_payload_clean: "obs_prices_ok ob \<Longrightarrow> json_clean (observation_payload ob)"
  by (simp add: observation_payload_def obs_prices_ok_def valid_price_def)

lemma canonical_payload_clean:
  assumes "storable_dataset ds"
  shows "json_clean (JObj (canonical_payload ds))"
proof -
  have ok: "ds_ok ds" using assms by (simp add: storable_dataset_def)
  have "distinct (map fst (observations ds))" using ok by (auto simp: ds_ok_def ds_assets_def strict_sorted_iff)
  then have "distinct (map fst (map (\<lambda>(asset, series). (asset, JList (map observation_payload series))) (observations ds)))"
    by (simp only: fst_sort_keys[of "\<lambda>series. JList (map observation_payload series)" "observations ds"])
  moreover have "json_clean (JList (map observation_payload series))" if "(a, series) \<in> set (observations ds)" for a series
    using ok that by (auto simp: ds_ok_def series_ok_def obs_ok_def obs_prices_ok_def intro!: observation_payload_clean)
  ultimately have "json_clean (JObj (map (\<lambda>(asset, series). (asset, JList (map observation_payload series))) (observations ds)))"
    by (auto simp del: map_map)
  moreover have "json_clean (JList (map session_payload (sessions (calendar ds))))" by (simp add: session_payload_def)
  ultimately show ?thesis by (simp add: canonical_payload_def Let_def)
qed

lemma transaction_violation:
  assumes "transaction env [Insert name row] (idle db) = (Inl (IntegrityViolationError m), cn)"
  shows "cn_tables cn = env_race env db \<and> (\<exists>m'. execute_statement (Insert name row) (env_race env db) = Inl (SqliteIntegrityError m'))"
proof -
  obtain e where "execute_all 0 (env_lock_statement env) [Insert name row] (env_race env db) = Inl e"
    and e: "body_fault e = IntegrityViolationError m" "cn_tables cn = env_race env db"
    using assms by (auto simp: transaction_def Let_def locked_def split: if_splits sum.splits)
  then have "e = SqliteLocked ''database is locked'' \<or> execute_statement (Insert name row) (env_race env db) = Inl e"
    by (auto simp: res_simps split: if_splits)
  moreover have "\<exists>m'. e = SqliteIntegrityError m' \<or> e = SqliteOperationalError m'" if "execute_statement (Insert name row) (env_race env db) = Inl e"
    using that by (auto simp: execute_statement_def Let_def split: option.splits if_splits)
  ultimately show ?thesis using e by (auto simp: locked_def)
qed

lemma save_dataset_found:
  assumes save: "save_dataset env T ds (idle db) = (Inr (info, new), cn)" and ok: "storable_dataset ds"
    and store: "store_structured db" "store_structured (env_race env db)"
  shows "di_dataset_id info = content_hash T (dataset_text T ds) \<and>
    (\<exists>r rs. filter (dataset_where (di_dataset_id info)) (rows_of (cn_tables cn) ''datasets'') = r # rs)"
proof -
  define prepared where "prepared = try_bind (raising (canonical_json_bytes T (canonical_payload ds))) (\<lambda>payload.
    try_bind (raising (dataset_info T ds (content_hash T payload))) (\<lambda>info.
    try_bind (select env ''datasets'' [] (dataset_where (di_dataset_id info)) [] (idle db)) (\<lambda>existing. Inr (payload, info, existing))))"
  have unfolded: "save_dataset env T ds (idle db) = (case prepared of
      Inl e \<Rightarrow> (Inl e, idle db)
    | Inr (payload, info, _ # _) \<Rightarrow> (Inr (info, False), idle db)
    | Inr (payload, info, []) \<Rightarrow>
        (case transaction env [Insert ''datasets'' (dataset_row env info payload)] (idle db) of
           (Inl (IntegrityViolationError m), cn') \<Rightarrow> (Inr (info, False), cn')
         | (Inl e, cn') \<Rightarrow> (Inl e, cn')
         | (Inr _, cn') \<Rightarrow> (Inr (info, True), cn')))"
    by (simp add: save_dataset_def prepared_def)
  obtain payload info' existing where p: "prepared = Inr (payload, info', existing)"
    using save unfolded by (cases prepared) auto
  have info: "info' = info"
    using save unfolded p by (cases existing) (auto split: prod.splits sum.splits fault.splits)
  have payload: "payload = dataset_text T ds"
    using p canonical_json_bytes_clean[OF canonical_payload_clean[OF ok], of T] by (auto simp: prepared_def res_simps dataset_text_def)
  have i: "di_dataset_id info = content_hash T (dataset_text T ds)"
    using p payload info by (auto simp: prepared_def res_simps dataset_info_def)
  have sel: "select env ''datasets'' [] (dataset_where (di_dataset_id info)) [] (idle db) = Inr existing"
    using p info by (auto simp: prepared_def res_simps)
  let ?row = "dataset_row env info payload"
  have cells: "cell (bound_row ?row) ''dataset_id'' = SqlText (di_dataset_id info)"
    by (simp add: bound_row_def dataset_row_def cell_def)
  have "\<exists>r \<in> set (rows_of (cn_tables cn) ''datasets''). dataset_where (di_dataset_id info) r"
  proof (cases existing)
    case (Cons row rows)
    then have "cn = idle db" using save unfolded p by simp
    moreover have "filter (dataset_where (di_dataset_id info)) (rows_of db ''datasets'') \<noteq> []"
      using select_Inr_idle[OF sel] Cons by (auto simp: rows_of_def)
    ultimately show ?thesis by (auto simp: filter_empty_conv)
  next
    case Nil
    consider (committed) u where "transaction env [Insert ''datasets'' ?row] (idle db) = (Inr u, cn)"
      | (stored) m where "transaction env [Insert ''datasets'' ?row] (idle db) = (Inl (IntegrityViolationError m), cn)"
      using save unfolded p Nil info by (auto split: prod.splits sum.splits fault.splits)
    then show ?thesis
    proof cases
      case committed
      note ins = transaction_insert[OF committed]
      have "filter (dataset_where (di_dataset_id info)) (rows_of (cn_tables cn) ''datasets'') = [bound_row ?row]"
      proof (rule inserted_only[OF ins])
        show "dataset_where (di_dataset_id info) (bound_row ?row)" by (simp only: dataset_where_iff cells)
        fix t r assume t: "map_of (env_race env db) ''datasets'' = Some t" and r: "dataset_where (di_dataset_id info) r"
        show "same_key (tb_key t) (bound_row ?row) r"
          using r by (simp add: key_columns(3)[OF store(2) t] same_key_def cells dataset_where_iff)
      qed
      from filter_first[OF this] show ?thesis by (elim conjE) (rule bexI)
    next
      case stored
      obtain m' where race: "cn_tables cn = env_race env db"
        and fail: "execute_statement (Insert ''datasets'' ?row) (env_race env db) = Inl (SqliteIntegrityError m')"
        using transaction_violation[OF stored] by blast
      obtain t where t: "map_of (env_race env db) ''datasets'' = Some t" "tb_key t = [''dataset_id'']" "tb_foreign t = []"
        "tb_columns t = [(''dataset_id'', True), (''dataset_fingerprint'', True), (''calendar_fingerprint'', True), (''payload'', True), (''saved_at'', True)]"
        using store(2) by (auto simp: store_structured_def structured_def datasets_table_def)
      have "null_violation t (bound_row ?row) = None"
        by (simp add: null_violation_def t(4) bound_row_def dataset_row_def cell_def)
      then have "\<exists>r \<in> set (tb_rows t). same_key (tb_key t) (bound_row ?row) r"
        using fail t(1,3) by (auto simp: execute_statement_def Let_def bound_row_def[symmetric] split: if_splits)
      then show ?thesis using t(1) by (auto simp: race rows_of_def t(2) same_key_def cells dataset_where_iff)
    qed
  qed
  then obtain r rs where "filter (dataset_where (di_dataset_id info)) (rows_of (cn_tables cn) ''datasets'') = r # rs"
    by (metis filter_empty_conv neq_Nil_conv)
  then show ?thesis using i by blast
qed

lemma dataset_kept_text:
  assumes "dataset_kept T ds r"
  shows "storable_dataset ds" "cell r ''payload'' = SqlText (dataset_text T ds)" "cell r ''dataset_id'' = SqlText (content_hash T (dataset_text T ds))"
  using assms canonical_json_bytes_clean[OF canonical_payload_clean[of ds], of T] by (auto simp: dataset_kept_def dataset_text_def)

lemma loads_dataset_text:
  assumes "text_faithful T" "storable_dataset ds"
  shows "\<exists>stored. jt_loads T (dataset_text T ds) = Inr (JObj stored) \<and> (\<forall>i. market_from_payload stored i = Inr ds)"
proof -
  obtain stored where j: "sort_keys (JObj (canonical_payload ds)) = JObj stored" by simp
  have "jt_loads T (dataset_text T ds) = Inr (JObj stored)"
    using text_faithfulD[OF assms(1) sort_keys_clean[OF canonical_payload_clean[OF assms(2)]]] unfolding dataset_text_def j .
  then show ?thesis using market_from_payload_read[OF assms(2) j] by blast
qed

lemma load_dataset_row:
  assumes found: "filter (dataset_where i) (rows_of db ''datasets'') = r # rs" and kept: "dataset_kept T ds r"
    and ok: "store_structured db" "text_faithful T" "\<not> env_lock_query env"
  shows "load_dataset env T i (idle db) = Inr ds"
proof -
  note held = dataset_kept_text[OF kept]
  have i: "i = content_hash T (dataset_text T ds)" using filter_first[OF found] held(3) by (simp add: dataset_where_iff)
  obtain stored where stored: "jt_loads T (dataset_text T ds) = Inr (JObj stored)" "market_from_payload stored i = Inr ds"
    using loads_dataset_text[OF ok(2) held(1)] by blast
  then have "decode_payload T (SqlText (dataset_text T ds)) i = Inr stored"
    by (simp add: decode_payload_def decode_json_def strict_json_loads_def i)
  then show ?thesis using stored(2) held(2)
    by (simp add: load_dataset_def select_store[OF ok(1) _ ok(3)] found cells_def)
qed

lemma load_dataset_saved:
  assumes found: "filter (dataset_where (content_hash T (dataset_text T ds))) (rows_of db ''datasets'') = r # rs"
    and store: "store_structured db" "store_honest T db" and ok: "storable_dataset ds" "text_faithful T" "\<not> env_lock_query env"
  shows "load_dataset env T (content_hash T (dataset_text T ds)) (idle db) = Inr ds \<or> collides T (dataset_text T ds)"
proof -
  have r: "r \<in> set (rows_of db ''datasets'')" "cell r ''dataset_id'' = SqlText (content_hash T (dataset_text T ds))"
    using filter_first[OF found] by (auto simp: dataset_where_iff)
  obtain ds' where ds': "dataset_kept T ds' r" using honest_dataset[OF store(2) r(1)] by blast
  note held = dataset_kept_text[OF ds']
  have hash: "content_hash T (dataset_text T ds') = content_hash T (dataset_text T ds)" using held(3) r(2) by simp
  show ?thesis
  proof (cases "dataset_text T ds' = dataset_text T ds")
    case True
    then have "ds' = ds" using loads_dataset_text[OF ok(2) held(1)] loads_dataset_text[OF ok(2,1)] by auto
    then show ?thesis using load_dataset_row[OF found ds' store(1) ok(2,3)] by blast
  qed (use collidesI[OF hash] in blast)
qed

end
