(* ===== verification/RunTrips.thy ===== *)
theory RunTrips
  imports RoundTrips
begin

section \<open>Runs and traces through the store\<close>

text \<open>
  The record and the trace of a saved run are what is loaded later. The digest of a trace joins the
  printed events with NUL characters; printed JSON contains none, so the joined text determines the events.
\<close>

subsection \<open>The joined text of a trace\<close>

definition text_escaped :: "json_text \<Rightarrow> bool" where
  "text_escaped T \<longleftrightarrow> (\<forall>j. char_of (0::nat) \<notin> set (jt_dumps T j))"

definition joined :: "string list \<Rightarrow> string" where
  "joined rows = concat (map (\<lambda>s. s @ [char_of (0::nat)]) rows)"

lemma trace_identity_joined: "trace_identity T rows = (content_hash T (joined rows), length rows)"
  by (simp add: trace_identity_def joined_def content_hash_def)

lemma takeWhile_joined: "n \<notin> set s \<Longrightarrow> takeWhile (\<lambda>c. c \<noteq> n) (s @ n # t) = s"
  by (induction s) auto

lemma joined_inj:
  assumes "\<forall>s \<in> set xs. char_of (0::nat) \<notin> set s" "\<forall>s \<in> set ys. char_of (0::nat) \<notin> set s" "joined xs = joined ys"
  shows "xs = ys"
  using assms
proof (induction xs arbitrary: ys)
  case Nil
  then show ?case by (cases ys) (simp_all add: joined_def)
next
  case (Cons x xs)
  then obtain y zs where ys: "ys = y # zs" by (cases ys) (simp_all add: joined_def)
  have eq: "x @ char_of (0::nat) # joined xs = y @ char_of (0::nat) # joined zs" using Cons.prems(3) by (simp add: joined_def ys)
  have "x = y" using arg_cong[OF eq, of "takeWhile (\<lambda>c. c \<noteq> char_of (0::nat))"] Cons.prems(1,2) by (simp add: takeWhile_joined ys)
  moreover have "xs = zs" using Cons.IH[of zs] Cons.prems(1,2) eq calculation by (simp add: ys)
  ultimately show ?case by (simp add: ys)
qed

subsection \<open>What a saved run leaves\<close>

definition record_text :: "json_text \<Rightarrow> run_record \<Rightarrow> string" where
  "record_text T r = jt_dumps T (json_of (dump_record r))"

definition event_texts :: "json_text \<Rightarrow> trace_event list \<Rightarrow> string list" where
  "event_texts T events = map (\<lambda>e. jt_dumps T (json_of (dump_event e))) events"

lemma printed_events: "list_all2 (\<lambda>e s. to_ir_json T (dump_event e) = Inr s) events rows \<Longrightarrow> rows = event_texts T events"
  by (induction events rows rule: list_all2_induct) (auto simp: event_texts_def dest: to_ir_json_stored)

lemma plan_save_cases:
  assumes plan: "plan_save env T d result provenance mode cn = Inr p" and clean: "json_clean (strategy_json d)"
    and r: "r = record_from_result result (sd_id d) (sd_version d) provenance mode"
  obtains (duplicate) rows where "p = None" "select env ''runs'' [''content_hash'', ''trace_content_hash'', ''trace_count''] (run_where (rr_run_id r)) [] cn
      = Inr ([SqlText (content_hash T (record_text T r)), SqlText (content_hash T (joined (event_texts T (br_trace result)))),
          SqlInt (int (length (br_trace result)))] # rows)"
  | (planned) pending where "p = Some (pending @ [Insert ''runs'' (run_row T env r (record_text T r) (event_texts T (br_trace result)))] @
      event_inserts (rr_run_id r) (br_trace result) (event_texts T (br_trace result)))" "list_all (strategy_insert env T) pending"
proof -
  obtain stored rows existing where
    stored: "to_ir_json T (dump_record r) = Inr stored"
    and rows: "traverse (\<lambda>e. artifact_bytes T (dump_event e) ''trace_event'') (br_trace result) = Inr rows"
    and sel: "select env ''runs'' [''content_hash'', ''trace_content_hash'', ''trace_count''] (run_where (rr_run_id r)) [] cn = Inr existing"
    and rest: "(case existing of row # _ \<Rightarrow>
        if row = [SqlText (content_hash T stored), SqlText (fst (trace_identity T rows)), SqlInt (int (snd (trace_identity T rows)))] then Inr None
        else Inl (PersistenceError artifact_conflict (''run '' @ rr_run_id r @
          '' already exists with different record or trace content; persisted artifacts are immutable''))
      | [] \<Rightarrow> try_bind (prepare_save env T d cn) (\<lambda>(_, pending). Inr (Some (save_body T env r (br_trace result) stored rows pending)))) = Inr p"
    using plan unfolding plan_save_def Let_def r[symmetric] try_bind_Inr artifact_bytes_Inr by blast
  have "rows = event_texts T (br_trace result)" using rows printed_events by (simp add: traverse_Inr artifact_bytes_Inr)
  moreover have "stored = record_text T r" using to_ir_json_stored[OF stored] by (simp add: record_text_def)
  ultimately have texts: "stored = record_text T r" "rows = event_texts T (br_trace result)" "length rows = length (br_trace result)"
    by (simp_all add: event_texts_def)
  show thesis
  proof (cases existing)
    case Nil
    then obtain key pending where prep: "prepare_save env T d cn = Inr (key, pending)"
      and p: "p = Some (save_body T env r (br_trace result) stored rows pending)"
      using rest by (auto simp: res_simps)
    have "list_all (strategy_insert env T) (case pending of None \<Rightarrow> [] | Some st \<Rightarrow> [st])"
      using prepare_save_insert[OF _ clean] prep by (cases pending) auto
    then show thesis using planned p unfolding save_body_def texts by blast
  next
    case (Cons row more)
    then have "row = [SqlText (content_hash T stored), SqlText (fst (trace_identity T rows)), SqlInt (int (snd (trace_identity T rows)))]" "p = None"
      using rest by (auto split: if_splits)
    then show thesis using duplicate sel Cons by (simp add: trace_identity_joined texts event_texts_def)
  qed
qed

definition run_found :: "json_text \<Rightarrow> run_record \<Rightarrow> trace_event list \<Rightarrow> database \<Rightarrow> bool" where
  "run_found T r events db \<longleftrightarrow> (\<exists>x xs. filter (run_where (rr_run_id r)) (rows_of db ''runs'') = x # xs \<and>
     cell x ''content_hash'' = SqlText (content_hash T (record_text T r)) \<and>
     cell x ''trace_content_hash'' = SqlText (content_hash T (joined (event_texts T events))) \<and>
     cell x ''trace_count'' = SqlInt (int (length events)))"

lemma run_found_later: "run_found T r events db \<Longrightarrow> extends db db' \<Longrightarrow> run_found T r events db'"
  unfolding run_found_def using found_later by blast

lemma run_row_hashes:
  "cell (bound_row (run_row T env r stored texts)) ''content_hash'' = SqlText (content_hash T stored)"
  "cell (bound_row (run_row T env r stored texts)) ''trace_content_hash'' = SqlText (content_hash T (joined texts))"
  "cell (bound_row (run_row T env r stored texts)) ''trace_count'' = SqlInt (int (length texts))"
  by (simp_all add: bound_row_def run_row_def cell_def trace_identity_joined)

lemma save_run_found:
  assumes save: "save_run env T d result provenance mode (idle db) = (Inr run, cn)" and clean: "json_clean (strategy_json d)"
    and store: "store_structured (env_race env db)"
    and r: "r = record_from_result result (sd_id d) (sd_version d) provenance mode"
  shows "run = rr_run_id r \<and> run_found T r (br_trace result) (cn_tables cn)"
proof -
  have id: "rr_run_id r = br_run_id result" by (simp add: r record_from_result_def)
  obtain p where p: "plan_save env T d result provenance mode (idle db) = Inr p"
    using save by (cases "plan_save env T d result provenance mode (idle db)") (auto simp: save_run_def)
  have run: "run = br_run_id result" using save by (cases p) (auto simp: save_run_def p try_bind_Inr split: prod.splits)
  have "run_found T r (br_trace result) (cn_tables cn)"
  proof (cases rule: plan_save_cases[OF p clean r, case_names duplicate planned])
    case (duplicate rows)
    then have "cn = idle db" using save by (simp add: save_run_def p)
    then show ?thesis using select_Inr_idle[OF duplicate(2)]
      by (auto simp: run_found_def rows_of_def cells_def Cons_eq_map_conv)
  next
    case (planned pending)
    obtain body where body: "p = Some body" "body = pending @ [Insert ''runs'' (run_row T env r (record_text T r) (event_texts T (br_trace result)))] @
      event_inserts (rr_run_id r) (br_trace result) (event_texts T (br_trace result))" using planned(1) by blast
    obtain u where "transaction env body (idle db) = (Inr u, cn)"
      using save by (auto simp: save_run_def p body(1) try_bind_Inr on_violation_def split: prod.splits sum.splits fault.splits)
    then have "execute_all 0 (env_lock_statement env) body (env_race env db) = Inr (cn_tables cn)"
      using transaction_cases[of env body "idle db" "Inr u" cn] by simp
    note rows = run_body_rows[OF this[unfolded body(2)] planned(2) store]
    have "filter (run_where (rr_run_id r)) (rows_of (env_race env db) ''runs'') = []"
      using rows(3) by (simp add: filter_empty_conv run_where_iff)
    then show ?thesis by (simp add: run_found_def rows(1) run_where_iff run_row_cells(1) run_row_hashes event_texts_def)
  qed
  then show ?thesis using run id by simp
qed

subsection \<open>Loading the record\<close>

lemma record_json_format: "\<exists>kvs. json_of (dump_record r) = JObj kvs \<and> format_agrees kvs (rr_record_format r)"
  by (simp add: dump_record_def format_agrees_def)

lemma load_run_saved:
  assumes found: "run_found T r events db" and store: "store_structured db" "store_honest T db"
    and ok: "text_faithful T" "json_clean (json_of (dump_record r))" "rr_record_format r = record_format" "\<not> env_lock_query env"
    and valid: "va_record va (json_of (dump_record r)) = Inr r"
  shows "load_run env T va steps (rr_run_id r) (idle db) = Inr r \<or> collides T (record_text T r)"
proof -
  obtain x xs where x: "filter (run_where (rr_run_id r)) (rows_of db ''runs'') = x # xs"
    "cell x ''content_hash'' = SqlText (content_hash T (record_text T r))" using found by (auto simp: run_found_def)
  have "x \<in> set (rows_of db ''runs'')" using filter_first[OF x(1)] ..
  from honest_run[OF store(2) this] obtain s where s: "cell x ''record'' = SqlText s" "cell x ''content_hash'' = SqlText (content_hash T s)"
    "cell x ''record_format'' = SqlInt record_format" by (auto simp: hashed_row_def)
  have hash: "content_hash T s = content_hash T (record_text T r)" using s(2) x(2) by simp
  show ?thesis
  proof (cases "s = record_text T r")
    case True
    obtain kvs where kvs: "json_of (dump_record r) = JObj kvs" "format_agrees kvs record_format"
      using record_json_format[of r] ok(3) by auto
    have "jt_loads T s = Inr (JObj kvs)" using text_faithfulD[OF ok(1,2)] by (simp add: True record_text_def kvs(1))
    then have "decode_json T s ''run record'' = Inr kvs" by (simp add: decode_json_def strict_json_loads_def)
    then have "load_record_row T va steps (rr_run_id r) s (SqlText (content_hash T s)) (SqlInt record_format) = Inr r"
      using kvs valid by (simp add: load_record_row_def migrate_to_current_def)
    then have "load_run env T va steps (rr_run_id r) (idle db) = Inr r"
      using s by (simp add: load_run_def select_store[OF store(1) _ ok(4)] x(1) cells_def)
    then show ?thesis ..
  qed (use collidesI[OF hash] in blast)
qed

subsection \<open>Loading the trace\<close>

lemma select_ordered:
  assumes "store_structured db" "\<not> env_lock_query env" "sorted (map (sql_keys order) (filter cond (rows_of db ''trace_events'')))"
  shows "select env ''trace_events'' columns cond order (idle db) = Inr (map (cells columns) (filter cond (rows_of db ''trace_events'')))"
proof -
  obtain t where "map_of db ''trace_events'' = Some t"
    using assms(1) by (auto simp: store_structured_def structured_def trace_events_table_def)
  then show ?thesis using assms(2,3) by (simp add: select_def rows_of_def sort_key_id_if_sorted)
qed

text \<open>The stored events of a whole trace, in order.\<close>

lemma stored_events_nth:
  assumes "map (cells [''seq'', ''event'']) evs = map (\<lambda>(n, s). [SqlInt (int n), SqlText s]) (enumerate 0 texts)"
  shows "length evs = length texts"
    "\<And>k. k < length texts \<Longrightarrow> cell (evs ! k) ''seq'' = SqlInt (int k) \<and> cell (evs ! k) ''event'' = SqlText (texts ! k)"
proof -
  show len: "length evs = length texts" using arg_cong[OF assms, of length] by simp
  fix k assume k: "k < length texts"
  have "map (cells [''seq'', ''event'']) evs ! k = map (\<lambda>(n, s). [SqlInt (int n), SqlText s]) (enumerate 0 texts) ! k"
    using assms by simp
  then show "cell (evs ! k) ''seq'' = SqlInt (int k) \<and> cell (evs ! k) ''event'' = SqlText (texts ! k)"
    using k len by (simp add: cells_def nth_enumerate_eq)
qed

lemma stored_events_sorted:
  assumes "\<And>k. k < length evs \<Longrightarrow> cell (evs ! k) ''seq'' = SqlInt (int k)"
  shows "sorted (map (sql_keys [''seq'']) evs)"
  using assms by (auto simp: sorted_iff_nth_mono sql_keys_def cells_def)

lemma event_json_object: "\<exists>kvs. json_of (dump_event e) = JObj kvs"
  by (simp add: dump_event_def)

lemma load_event_saved:
  assumes "text_faithful T" "json_clean (json_of (dump_event e))" "va_event va (json_of (dump_event e)) = Inr e"
  shows "load_event T va steps run (k, [SqlInt (int k), SqlInt trace_format, SqlText (jt_dumps T (json_of (dump_event e)))]) = Inr e"
proof -
  obtain kvs where kvs: "json_of (dump_event e) = JObj kvs" using event_json_object by blast
  have "decode_json T (jt_dumps T (json_of (dump_event e))) ''trace event'' = Inr kvs"
    using text_faithfulD[OF assms(1,2)] by (simp add: decode_json_def strict_json_loads_def kvs)
  then show ?thesis using assms(3) by (simp add: load_event_def migrate_to_current_def kvs)
qed

lemma load_trace_saved:
  assumes found: "run_found T r events db" and store: "store_structured db" "store_honest T db" "traces_whole T db"
    and ok: "text_faithful T" "text_escaped T" "\<not> env_lock_query env"
    and valid: "\<And>e. e \<in> set events \<Longrightarrow> json_clean (json_of (dump_event e)) \<and> va_event va (json_of (dump_event e)) = Inr e"
  shows "load_trace env T va steps (rr_run_id r) session (idle db) = Inr (on_session session events) \<or>
    collides T (joined (event_texts T events))"
proof -
  let ?run = "rr_run_id r"
  define evs where "evs = events_of db ?run"
  obtain x xs where x: "filter (run_where ?run) (rows_of db ''runs'') = x # xs"
    "cell x ''trace_content_hash'' = SqlText (content_hash T (joined (event_texts T events)))"
    "cell x ''trace_count'' = SqlInt (int (length events))" using found by (auto simp: run_found_def)
  have "x \<in> set (rows_of db ''runs'')" "cell x ''run_id'' = SqlText ?run" using filter_first[OF x(1)] by (simp_all add: run_where_iff)
  then have "trace_whole T db x" "cell x ''run_id'' = SqlText ?run" using store(3) by (simp_all add: traces_whole_def)
  then obtain texts where texts: "map (cells [''seq'', ''event'']) evs = map (\<lambda>(n, s). [SqlInt (int n), SqlText s]) (enumerate 0 texts)"
    "cell x ''trace_count'' = SqlInt (int (length texts))" "cell x ''trace_content_hash'' = SqlText (content_hash T (joined texts))"
    by (auto simp: trace_whole_def evs_def trace_identity_joined)
  note nth = stored_events_nth[OF texts(1)]
  have hash: "content_hash T (joined texts) = content_hash T (joined (event_texts T events))" using texts(3) x(2) by simp
  have row: "\<exists>e. cell (evs ! k) ''event'' = SqlText (jt_dumps T (json_of (dump_event e)))" "cell (evs ! k) ''trace_format'' = SqlInt trace_format"
    if "k < length evs" for k
  proof -
    have "evs ! k \<in> set (rows_of db ''trace_events'')" using nth_mem[OF that] by (simp add: evs_def events_of_def)
    from honest_event[OF store(2) this] show "\<exists>e. cell (evs ! k) ''event'' = SqlText (jt_dumps T (json_of (dump_event e)))"
      "cell (evs ! k) ''trace_format'' = SqlInt trace_format" by blast+
  qed
  have "char_of (0::nat) \<notin> set s" if s: "s \<in> set texts" for s
  proof -
    obtain k where k: "k < length texts" "texts ! k = s" using s by (auto simp: in_set_conv_nth)
    then obtain e where "s = jt_dumps T (json_of (dump_event e))" using row(1)[of k] nth by auto
    then show ?thesis using ok(2) by (simp add: text_escaped_def)
  qed
  moreover have "char_of (0::nat) \<notin> set s" if "s \<in> set (event_texts T events)" for s
    using that ok(2) by (auto simp: event_texts_def text_escaped_def)
  ultimately have same: "texts = event_texts T events" if "joined texts = joined (event_texts T events)" using joined_inj that by blast
  show ?thesis
  proof (cases "joined texts = joined (event_texts T events)")
    case True
    note t = same[OF True]
    define rows where "rows = map (cells [''seq'', ''trace_format'', ''event'']) evs"
    have rows: "rows ! k = [SqlInt (int k), SqlInt trace_format, SqlText (jt_dumps T (json_of (dump_event (events ! k))))]"
      if "k < length events" for k using that nth row(2)[of k] by (simp add: rows_def cells_def t event_texts_def)
    have len: "length rows = length events" using nth(1) by (simp add: rows_def t event_texts_def)
    have "map (\<lambda>x. case x ! 2 of SqlText s \<Rightarrow> [s] | _ \<Rightarrow> []) rows = map (\<lambda>s. [s]) texts"
      using len rows by (intro nth_equalityI) (simp_all add: t event_texts_def)
    then have "row_texts rows = texts" by (simp add: row_texts_def comp_def)
    moreover have "traverse (load_event T va steps ?run) (enumerate 0 rows) = Inr events"
      unfolding traverse_Inr list_all2_conv_all_nth
      using load_event_saved[OF ok(1), of "events ! _" va steps ?run] valid rows len by (simp add: nth_enumerate_eq)
    moreover have "select env ''trace_events'' [''seq'', ''trace_format'', ''event''] (run_where ?run) [''seq''] (idle db) = Inr rows"
      unfolding rows_def evs_def events_of_def using nth stored_events_sorted[of evs]
      by (intro select_ordered[OF store(1) ok(3)]) (simp add: evs_def events_of_def)
    ultimately have "load_trace env T va steps ?run session (idle db) = Inr (on_session session events)"
      using x(2,3) len
      by (simp add: load_trace_def select_store[OF store(1) _ ok(3)] x(1) cells_def trace_identity_joined t)
    then show ?thesis ..
  qed (use collidesI[OF hash] in blast)
qed

end
