(* ===== verification/StoreReads.thy ===== *)
theory StoreReads
  imports RunTrips
begin

section \<open>What the reads accept\<close>

text \<open>
  A read succeeds exactly when the first row under its key holds a text with the recorded digest that
  parses, passes the version gates and validates; everything else is refused. Saves are atomic.
\<close>

subsection \<open>Documents\<close>

definition document_authentic :: "json_text \<Rightarrow> (json \<Rightarrow> nat + 'a) \<Rightarrow> sql_row \<Rightarrow> 'a \<Rightarrow> bool" where
  "document_authentic T validate r d \<longleftrightarrow> (\<exists>s payload version.
     cell r ''document'' = SqlText s \<and> cell r ''content_hash'' = SqlText (content_hash T s) \<and> jt_loads T s = Inr (JObj payload) \<and>
     map_of payload ''schema_version'' = Some (JStr version) \<and> is_supported_schema_version version \<and>
     cell r ''schema_version'' = SqlText version \<and> validate (JObj payload) = Inr d)"

lemma validated_Inr: "(case x of Inl n \<Rightarrow> Inl (f n) | Inr y \<Rightarrow> Inr y) = Inr d \<longleftrightarrow> x = Inr d"
  by (cases x) auto

lemma guarded_Inr: "(if b then Inl e else x) = Inr d \<longleftrightarrow> \<not> b \<and> x = Inr d"
  by simp

lemma decode_json_Inr: "decode_json T s kind = Inr payload \<longleftrightarrow> jt_loads T s = Inr (JObj payload)"
  by (auto simp: decode_json_def strict_json_loads_def split: sum.splits exn.splits json.splits)

lemma verify_hash_Inr: "verify_hash T s recorded kind = Inr u \<longleftrightarrow> recorded = SqlText (content_hash T s)"
  by (auto simp: verify_hash_def)

lemma gate_schema_version_Inr:
  "gate_schema_version payload row_version kind = Inr u \<longleftrightarrow>
   (\<exists>v. map_of payload ''schema_version'' = Some (JStr v) \<and> is_supported_schema_version v \<and> row_version = SqlText v)"
  by (auto simp: gate_schema_version_def split: option.splits json.splits)

lemma load_document_row_Inr:
  "load_document T validate kind (cells [''document'', ''content_hash'', ''schema_version''] r # rs) missing = Inr d \<longleftrightarrow>
   document_authentic T validate r d"
  by (cases "cell r ''document''")
    (auto simp: load_document_def cells_def document_authentic_def try_bind_Inr verify_hash_Inr decode_json_Inr gate_schema_version_Inr
      validated_Inr)

lemma load_document_Inr:
  "load_document T validate kind (map (cells [''document'', ''content_hash'', ''schema_version'']) rows) missing = Inr d \<longleftrightarrow>
   (\<exists>r rs. rows = r # rs \<and> document_authentic T validate r d)"
proof (cases rows)
  case (Cons r rs)
  then show ?thesis using load_document_row_Inr by simp
qed (simp add: load_document_def)

lemma load_strategy_Inr:
  assumes "store_structured db" "\<not> env_lock_query env"
  shows "load_strategy env T va i v (idle db) = Inr d \<longleftrightarrow>
    (\<exists>r rs. filter (strategy_where (i, v)) (rows_of db ''strategies'') = r # rs \<and> document_authentic T (va_strategy va) r d)"
  by (simp add: load_strategy_def select_store[OF assms(1) _ assms(2)] load_document_Inr)

lemma load_component_Inr:
  assumes "store_structured db" "\<not> env_lock_query env"
  shows "load_component env T va k (idle db) = Inr d \<longleftrightarrow>
    (\<exists>r rs. filter (component_where k) (rows_of db ''components'') = r # rs \<and> document_authentic T (va_component va) r d)"
  by (simp add: load_component_def select_store[OF assms(1) _ assms(2)] load_document_Inr)

subsection \<open>Datasets\<close>

definition dataset_authentic :: "json_text \<Rightarrow> string \<Rightarrow> sql_row \<Rightarrow> market_data_set \<Rightarrow> bool" where
  "dataset_authentic T i r ds \<longleftrightarrow> (\<exists>s payload. cell r ''payload'' = SqlText s \<and> content_hash T s = i \<and>
     jt_loads T s = Inr (JObj payload) \<and> market_from_payload payload i = Inr ds)"

lemma load_dataset_Inr:
  assumes "store_structured db" "\<not> env_lock_query env"
  shows "load_dataset env T i (idle db) = Inr ds \<longleftrightarrow>
    (\<exists>r rs. filter (dataset_where i) (rows_of db ''datasets'') = r # rs \<and> dataset_authentic T i r ds)"
proof -
  have decode: "decode_payload T raw i = Inr payload \<longleftrightarrow> (\<exists>s. raw = SqlText s \<and> content_hash T s = i \<and> jt_loads T s = Inr (JObj payload))"
    for raw payload by (cases raw) (auto simp: decode_payload_def decode_json_Inr)
  show ?thesis
  proof (cases "filter (dataset_where i) (rows_of db ''datasets'')")
    case (Cons r rs)
    then show ?thesis
      by (auto simp: load_dataset_def select_store[OF assms(1) _ assms(2)] cells_def try_bind_Inr decode dataset_authentic_def)
  qed (simp add: load_dataset_def select_store[OF assms(1) _ assms(2)] dataset_not_stored_def)
qed

subsection \<open>Runs\<close>

definition record_authentic :: "json_text \<Rightarrow> validators \<Rightarrow> migration_registry \<Rightarrow> sql_row \<Rightarrow> run_record \<Rightarrow> bool" where
  "record_authentic T va steps x r \<longleftrightarrow> (\<exists>s payload n migrated. cell x ''record'' = SqlText s \<and>
     cell x ''content_hash'' = SqlText (content_hash T s) \<and> jt_loads T s = Inr (JObj payload) \<and>
     cell x ''record_format'' = SqlInt n \<and> format_agrees payload n \<and>
     migrate_to_current steps ''run_record'' payload n record_format = Inr migrated \<and> format_agrees migrated record_format \<and>
     va_record va (JObj migrated) = Inr r)"

lemma load_record_row_Inr:
  "load_record_row T va steps run s recorded_hash stored_format = Inr r \<longleftrightarrow> recorded_hash = SqlText (content_hash T s) \<and>
   (\<exists>payload n migrated. jt_loads T s = Inr (JObj payload) \<and> stored_format = SqlInt n \<and> format_agrees payload n \<and>
     migrate_to_current steps ''run_record'' payload n record_format = Inr migrated \<and> format_agrees migrated record_format \<and>
     va_record va (JObj migrated) = Inr r)"
  by (cases stored_format) (auto simp: load_record_row_def try_bind_Inr decode_json_Inr validated_Inr guarded_Inr simp del: if_split)

lemma load_run_Inr:
  assumes "store_structured db" "\<not> env_lock_query env"
  shows "load_run env T va steps run (idle db) = Inr r \<longleftrightarrow>
    (\<exists>x xs. filter (run_where run) (rows_of db ''runs'') = x # xs \<and> record_authentic T va steps x r)"
proof (cases "filter (run_where run) (rows_of db ''runs'')")
  case (Cons x xs)
  then show ?thesis
    by (cases "cell x ''record''")
      (auto simp: load_run_def select_store[OF assms(1) _ assms(2)] cells_def load_record_row_Inr record_authentic_def)
qed (simp add: load_run_def select_store[OF assms(1) _ assms(2)] run_not_stored_def)

subsection \<open>Traces\<close>

definition trace_authentic ::
    "json_text \<Rightarrow> validators \<Rightarrow> migration_registry \<Rightarrow> string \<Rightarrow> sql_row \<Rightarrow> sql_value list list \<Rightarrow> trace_event list \<Rightarrow> bool" where
  "trace_authentic T va steps run x rows events \<longleftrightarrow> cell_equals_int (cell x ''trace_count'') (int (length rows)) \<and>
     cell x ''trace_content_hash'' = SqlText (content_hash T (joined (row_texts rows))) \<and>
     traverse (load_event T va steps run) (enumerate 0 rows) = Inr events"

definition stored_events :: "database \<Rightarrow> string \<Rightarrow> sql_value list list" where
  "stored_events db run = map (cells [''seq'', ''trace_format'', ''event'']) (sort_key (sql_keys [''seq'']) (events_of db run))"

lemma load_trace_Inr:
  assumes "store_structured db" "\<not> env_lock_query env"
  shows "load_trace env T va steps run session (idle db) = Inr events \<longleftrightarrow>
    (\<exists>x xs stored. filter (run_where run) (rows_of db ''runs'') = x # xs \<and>
      trace_authentic T va steps run x (stored_events db run) stored \<and> events = on_session session stored)"
proof (cases "filter (run_where run) (rows_of db ''runs'')")
  case (Cons x xs)
  obtain t where "map_of db ''trace_events'' = Some t"
    using assms(1) by (auto simp: store_structured_def structured_def trace_events_table_def)
  then have "select env ''trace_events'' [''seq'', ''trace_format'', ''event''] (run_where run) [''seq''] (idle db) = Inr (stored_events db run)"
    using assms(2) by (simp add: select_def stored_events_def events_of_def rows_of_def)
  then show ?thesis
    by (auto simp: load_trace_def select_store[OF assms(1) _ assms(2)] Cons cells_def try_bind_Inr trace_authentic_def
        trace_identity_joined guarded_Inr simp del: if_split)
qed (simp add: load_trace_def select_store[OF assms(1) _ assms(2)] run_not_stored_def)

subsection \<open>Saves are atomic\<close>

text \<open>After a failed save the tables hold what they held, with what others committed meanwhile; after
  another one possibly also all rows of one body.\<close>

definition atomic_outcome :: "environment \<Rightarrow> database \<Rightarrow> fault option \<Rightarrow> connection \<Rightarrow> bool" where
  "atomic_outcome env db err cn \<longleftrightarrow> \<not> cn_in_transaction cn \<and> (cn_tables cn = db \<or> cn_tables cn = env_race env db \<or>
     err = None \<and> (\<exists>body. execute_all 0 (env_lock_statement env) body (env_race env db) = Inr (cn_tables cn)))"

lemma atomic_idle: "atomic_outcome env db err (idle db)"
  by (simp add: atomic_outcome_def)

lemma atomic_transaction:
  assumes "transaction env body (idle db) = (r, cn)"
  shows "atomic_outcome env db (case r of Inl e \<Rightarrow> Some e | Inr _ \<Rightarrow> None) cn" "atomic_outcome env db None cn"
  using transaction_cases[OF assms] by (auto simp: atomic_outcome_def split: sum.splits)

lemma atomic_violation:
  "transaction env body (idle db) = (r, cn) \<Longrightarrow> try_bind (on_violation conflict r) (\<lambda>_. Inr k) = Inl e \<Longrightarrow> atomic_outcome env db (Some e) cn"
  using transaction_cases[of env body "idle db" r cn] by (cases r) (auto simp: atomic_outcome_def on_violation_def split: fault.splits)

lemma perform_outcome:
  "perform env T (SaveStrategy d) cn = (case save_strategy env T d cn of (r, cn') \<Rightarrow> (case r of Inl e \<Rightarrow> Some e | Inr _ \<Rightarrow> None, cn'))"
  "perform env T (SaveComponent c) cn = (case save_component env T c cn of (r, cn') \<Rightarrow> (case r of Inl e \<Rightarrow> Some e | Inr _ \<Rightarrow> None, cn'))"
  "perform env T (SaveRun d result provenance mode) cn =
     (case save_run env T d result provenance mode cn of (r, cn') \<Rightarrow> (case r of Inl e \<Rightarrow> Some e | Inr _ \<Rightarrow> None, cn'))"
  "perform env T (SaveDataset ds) cn = (case save_dataset env T ds cn of (r, cn') \<Rightarrow> (case r of Inl e \<Rightarrow> Some e | Inr _ \<Rightarrow> None, cn'))"
  by (auto split: prod.splits sum.splits)

lemma save_strategy_atomic: "save_strategy env T d (idle db) = (r, cn) \<Longrightarrow> atomic_outcome env db (case r of Inl e \<Rightarrow> Some e | Inr _ \<Rightarrow> None) cn"
  by (auto simp: save_strategy_def intro: atomic_idle atomic_violation atomic_transaction(2) split: sum.splits option.splits prod.splits)

lemma save_component_atomic: "save_component env T d (idle db) = (r, cn) \<Longrightarrow> atomic_outcome env db (case r of Inl e \<Rightarrow> Some e | Inr _ \<Rightarrow> None) cn"
  by (auto simp: save_component_def Let_def intro: atomic_idle atomic_violation atomic_transaction(2)
      split: sum.splits list.splits prod.splits)

lemma save_run_atomic:
  "save_run env T d result provenance mode (idle db) = (r, cn) \<Longrightarrow> atomic_outcome env db (case r of Inl e \<Rightarrow> Some e | Inr _ \<Rightarrow> None) cn"
  by (auto simp: save_run_def intro: atomic_idle atomic_violation atomic_transaction(2) split: sum.splits option.splits prod.splits)

lemma save_dataset_atomic: "save_dataset env T ds (idle db) = (r, cn) \<Longrightarrow> atomic_outcome env db (case r of Inl e \<Rightarrow> Some e | Inr _ \<Rightarrow> None) cn"
  by (auto simp: save_dataset_def Let_def intro: atomic_idle dest: atomic_transaction
      split: sum.splits list.splits prod.splits fault.splits)

lemma perform_atomic:
  assumes "perform env T op (idle db) = (err, cn)"
  shows "atomic_outcome env db err cn"
  using assms save_strategy_atomic save_component_atomic save_run_atomic save_dataset_atomic
  by (cases op) (fastforce simp: perform_outcome simp del: perform.simps split: prod.splits)+

lemma perform_all_or_nothing:
  assumes "operation_clean op" "perform env T op (idle db) = (err, cn)"
  shows "\<not> cn_in_transaction cn \<and> (cn_tables cn = db \<or> cn_tables cn = env_race env db \<or>
    err = None \<and> (\<exists>body. save_statements env T body \<and> execute_all 0 (env_lock_statement env) body (env_race env db) = Inr (cn_tables cn)))"
  using perform_atomic[OF assms(2)] perform_transacted[OF assms(1), of env T db] assms(2)
  by (auto simp: atomic_outcome_def transacted_def)

subsection \<open>Runs of a kept store\<close>

lemma run_has_strategy:
  assumes "tables_ok db" "store_structured db" "x \<in> set (rows_of db ''runs'')"
  shows "\<exists>p \<in> set (rows_of db ''strategies''). cell p ''strategy_id'' = cell x ''strategy_id'' \<and> cell p ''version'' = cell x ''strategy_version''"
proof -
  obtain t where t: "map_of db ''runs'' = Some t" "tb_foreign t = [([''strategy_id'', ''strategy_version''], ''strategies'', [''strategy_id'', ''version''])]"
    "tb_columns t = [(''run_id'', True), (''strategy_id'', True), (''strategy_version'', True), (''mode'', True), (''record_format'', True),
        (''ok'', True), (''first_session'', False), (''last_session'', False), (''total_return'', True), (''content_hash'', True),
        (''trace_content_hash'', True), (''trace_count'', True), (''record'', True), (''saved_at'', True)]"
    using assms(2) by (auto simp: store_structured_def structured_def runs_table_def)
  have "row_ok db t x" using assms(1,3) t(1) by (auto simp: tables_ok_def rows_of_def)
  then have "cell x ''strategy_id'' \<noteq> SqlNull" "cell x ''strategy_version'' \<noteq> SqlNull"
    and "foreign_ok db x ([''strategy_id'', ''strategy_version''], ''strategies'', [''strategy_id'', ''version''])"
    by (auto simp: row_ok_def null_violation_def t(2,3) split: if_splits)
  moreover have eq: "sql_equal u v \<Longrightarrow> v = u" for u v by (cases u) auto
  ultimately show ?thesis by (auto simp: foreign_ok_def cells_def dest!: eq)
qed

text \<open>A stored run gets no further events.\<close>

lemma events_kept:
  assumes "traces_whole T db" "traces_whole T db'" "extends db db'" "x \<in> set (rows_of db ''runs'')" "cell x ''run_id'' = SqlText run"
  shows "events_of db' run = events_of db run"
proof -
  obtain runs more where rows: "rows_of db' ''runs'' = rows_of db ''runs'' @ runs" "rows_of db' ''trace_events'' = rows_of db ''trace_events'' @ more"
    using extends_rows[OF assms(3)] by metis
  have "trace_whole T db x" "trace_whole T db' x" using assms(1,2,4) by (auto simp: traces_whole_def rows(1))
  then obtain texts texts' where
    "map (cells [''seq'', ''event'']) (events_of db run) = map (\<lambda>(n, s). [SqlInt (int n), SqlText s]) (enumerate 0 texts)"
    "map (cells [''seq'', ''event'']) (events_of db' run) = map (\<lambda>(n, s). [SqlInt (int n), SqlText s]) (enumerate 0 texts')"
    "cell x ''trace_count'' = SqlInt (int (length texts))" "cell x ''trace_count'' = SqlInt (int (length texts'))"
    by (auto simp: trace_whole_def assms(5))
  then have "length (events_of db' run) = length (events_of db run)"
    using stored_events_nth(1) by (metis int_int_eq sql_value.inject(1))
  then show ?thesis by (simp add: events_of_def rows(2))
qed

lemma load_trace_kept:
  assumes "load_trace env T va steps run session (idle db) = Inr events" "extends db db'"
    and store: "store_structured db" "traces_whole T db" "store_structured db'" "traces_whole T db'" "\<not> env_lock_query env"
  shows "load_trace env T va steps run session (idle db') = Inr events"
proof -
  obtain x xs stored where x: "filter (run_where run) (rows_of db ''runs'') = x # xs"
    "trace_authentic T va steps run x (stored_events db run) stored" "events = on_session session stored"
    using assms(1) load_trace_Inr[OF store(1,5)] by blast
  have "x \<in> set (rows_of db ''runs'')" "cell x ''run_id'' = SqlText run" using filter_first[OF x(1)] by (simp_all add: run_where_iff)
  from events_kept[OF store(2,4) assms(2) this] have "stored_events db' run = stored_events db run"
    by (simp add: stored_events_def)
  moreover obtain ys where "filter (run_where run) (rows_of db' ''runs'') = x # ys" using found_later[OF x(1) assms(2)] by blast
  ultimately show ?thesis unfolding load_trace_Inr[OF store(3,5)] using x(2,3) by auto
qed

end
