(* ===== verification/FixtureText.thy ===== *)
theory FixtureText
  imports Serialization
begin

section \<open>A small text format\<close>

text \<open>
  A concrete stand-in for the JSON printer and parser and for the digest, on which the properties of the
  store are instantiated: tagged values, numbers in decimal, strings quoted and escaped. It is faithful and
  prints no NUL character, so the hypotheses of the store's properties can hold. The digest is the text itself.
\<close>

subsection \<open>Numbers and strings\<close>

definition print_int :: "int \<Rightarrow> string" where
  "print_int i = dec_int i @ '';''"

fun take_int :: "bool \<Rightarrow> int \<Rightarrow> string \<Rightarrow> int \<times> string" where
  "take_int neg acc [] = (acc, [])"
| "take_int neg acc (c # cs) =
     (if c = CHR '';'' then (if neg then - acc else acc, cs)
      else if c = CHR ''-'' then take_int True acc cs
      else take_int neg (10 * acc + (int (of_char c) - 48)) cs)"

lemma digit_char_not: "d < 10 \<Longrightarrow> of_char c < (48::nat) \<or> 57 < (of_char c :: nat) \<Longrightarrow> digit_char d \<noteq> c"
proof
  assume "d < 10" "of_char c < (48::nat) \<or> 57 < (of_char c :: nat)" "digit_char d = c"
  then show False by (auto simp: digit_char_def)
qed

lemma take_digit: "d < 10 \<Longrightarrow> take_int neg acc (digit_char d # cs) = take_int neg (10 * acc + int d) cs"
  using digit_char_not[of d "CHR '';''"] digit_char_not[of d "CHR ''-''"] by (simp add: digit_char_def)

lemma take_dec_nat: "take_int neg 0 (dec_nat n @ cs) = take_int neg (int n) cs"
proof (induction n arbitrary: cs rule: dec_nat.induct)
  case (1 n)
  show ?case
  proof (cases "n < 10")
    case True
    then show ?thesis using take_digit[OF True, of neg 0 cs] by (simp add: dec_nat.simps[of n] del: take_int.simps)
  next
    case False
    have "int n = 10 * int (n div 10) + int (n mod 10)" by presburger
    moreover have "n mod 10 < 10" by simp
    ultimately show ?thesis using 1[OF False] False by (simp add: dec_nat.simps[of n] take_digit del: take_int.simps)
  qed
qed

lemma take_print_int [simp]: "take_int False 0 (print_int i @ cs) = (i, cs)"
  by (simp add: print_int_def dec_int_def take_dec_nat)

definition nul :: char where "nul = CHR 0x00"

lemma char_of_0: "char_of (0::nat) = nul"
  by (simp add: nul_def char_of_def)

fun escaped :: "string \<Rightarrow> string" where
  "escaped [] = [CHR 0x22]"
| "escaped (c # cs) = (if c = nul then CHR ''!'' # CHR ''0'' # escaped cs
     else if c = CHR 0x22 \<or> c = CHR ''!'' then CHR ''!'' # c # escaped cs else c # escaped cs)"

fun take_escaped :: "string \<Rightarrow> string \<times> string" where
  "take_escaped [] = ([], [])"
| "take_escaped (c # cs) = (if c = CHR 0x22 then ([], cs)
     else if c = CHR ''!'' then (case cs of [] \<Rightarrow> ([], [])
       | d # ds \<Rightarrow> (case take_escaped ds of (s, r) \<Rightarrow> ((if d = CHR ''0'' then nul else d) # s, r)))
     else (case take_escaped cs of (s, r) \<Rightarrow> (c # s, r)))"

lemma take_escaped_escaped [simp]: "take_escaped (escaped s @ r) = (s, r)"
  by (induction s) (auto simp: nul_def)

subsection \<open>Values\<close>

fun printed :: "json \<Rightarrow> string" where
  "printed JNull = ''n''"
| "printed (JBool b) = (if b then ''t'' else ''f'')"
| "printed (JInt i) = CHR ''i'' # print_int i"
| "printed (JFloat (Fin r)) = CHR ''x'' # print_int (fst (quotient_of r)) @ print_int (snd (quotient_of r))"
| "printed (JFloat _) = ''n''"
| "printed (JStr s) = CHR 0x22 # escaped s"
| "printed (JList js) = CHR ''['' # concat (map printed js) @ '']''"
| "printed (JObj kvs) = CHR ''{'' # concat (map (\<lambda>(k, v). CHR 0x22 # escaped k @ printed v) kvs) @ ''}''"
| "printed (JOther t) = ''n''"

fun parse_value :: "nat \<Rightarrow> string \<Rightarrow> (json \<times> string) option"
  and parse_values :: "nat \<Rightarrow> string \<Rightarrow> (json list \<times> string) option"
  and parse_fields :: "nat \<Rightarrow> string \<Rightarrow> (json_object \<times> string) option" where
  "parse_value f s = (if f = 0 then None else case s of [] \<Rightarrow> None | c # cs \<Rightarrow>
     if c = CHR ''n'' then Some (JNull, cs)
     else if c = CHR ''t'' then Some (JBool True, cs)
     else if c = CHR ''f'' then Some (JBool False, cs)
     else if c = CHR ''i'' then (case take_int False 0 cs of (i, r) \<Rightarrow> Some (JInt i, r))
     else if c = CHR ''x'' then (case take_int False 0 cs of (p, r) \<Rightarrow> (case take_int False 0 r of (q, r') \<Rightarrow>
       Some (JFloat (Fin (of_int p / of_int q)), r')))
     else if c = CHR 0x22 then (case take_escaped cs of (t, r) \<Rightarrow> Some (JStr t, r))
     else if c = CHR ''['' then map_option (\<lambda>(js, r). (JList js, r)) (parse_values (f - 1) cs)
     else map_option (\<lambda>(kvs, r). (JObj kvs, r)) (parse_fields (f - 1) cs))"
| "parse_values f s = (if f = 0 then None else case s of [] \<Rightarrow> None | c # cs \<Rightarrow>
     if c = CHR '']'' then Some ([], cs)
     else case parse_value (f - 1) s of None \<Rightarrow> None
       | Some (j, r) \<Rightarrow> map_option (\<lambda>(js, r'). (j # js, r')) (parse_values (f - 1) r))"
| "parse_fields f s = (if f = 0 then None else case s of [] \<Rightarrow> None | c # cs \<Rightarrow>
     if c = CHR ''}'' then Some ([], cs)
     else case take_escaped cs of (k, t) \<Rightarrow> (case parse_value (f - 1) t of None \<Rightarrow> None
       | Some (j, r) \<Rightarrow> map_option (\<lambda>(kvs, r'). ((k, j) # kvs, r')) (parse_fields (f - 1) r)))"

declare parse_value.simps [simp del] parse_values.simps [simp del] parse_fields.simps [simp del]

lemma printed_head: "\<exists>c cs. printed j = c # cs \<and> c \<noteq> CHR '']''"
  by (cases j rule: printed.cases) simp_all

lemma parse_values_printed:
  assumes "\<And>j f r. j \<in> set js \<Longrightarrow> length (printed j) \<le> f \<Longrightarrow> parse_value f (printed j @ r) = Some (j, r)"
  shows "length (concat (map printed js)) < f \<Longrightarrow> parse_values f (concat (map printed js) @ CHR '']'' # r) = Some (js, r)"
  using assms
proof (induction js arbitrary: f)
  case Nil
  then show ?case by (simp add: parse_values.simps[of f])
next
  case (Cons j js)
  obtain c cs where c: "printed j = c # cs" "c \<noteq> CHR '']''" using printed_head by blast
  obtain g where g: "f = Suc g" using Cons.prems(1) by (cases f) auto
  have "length (printed j) + length (concat (map printed js)) < Suc g" using Cons.prems(1) by (simp add: g)
  then have len: "length (printed j) \<le> g" "length (concat (map printed js)) < g" by (simp_all add: c(1))
  have "parse_values g (concat (map printed js) @ CHR '']'' # r) = Some (js, r)" using len(2) Cons.prems(2) by (intro Cons.IH) auto
  moreover have "parse_value g (printed j @ concat (map printed js) @ CHR '']'' # r) = Some (j, concat (map printed js) @ CHR '']'' # r)"
    using Cons.prems(2)[of j] len(1) by simp
  ultimately show ?case using c by (simp add: parse_values.simps[of "Suc g"] g)
qed

lemma parse_fields_printed:
  assumes "\<And>k j f r. (k, j) \<in> set kvs \<Longrightarrow> length (printed j) \<le> f \<Longrightarrow> parse_value f (printed j @ r) = Some (j, r)"
  shows "length (concat (map (\<lambda>(k, v). CHR 0x22 # escaped k @ printed v) kvs)) < f \<Longrightarrow>
    parse_fields f (concat (map (\<lambda>(k, v). CHR 0x22 # escaped k @ printed v) kvs) @ CHR ''}'' # r) = Some (kvs, r)"
  using assms
proof (induction kvs arbitrary: f)
  case Nil
  then show ?case by (simp add: parse_fields.simps[of f])
next
  case (Cons kv kvs)
  obtain k j where kv: "kv = (k, j)" by (cases kv)
  let ?rest = "concat (map (\<lambda>(k, v). CHR 0x22 # escaped k @ printed v) kvs)"
  obtain g where g: "f = Suc g" using Cons.prems(1) by (cases f) auto
  have len: "length (printed j) \<le> g" "length ?rest < g" using Cons.prems(1) by (simp_all add: g kv)
  have "parse_fields g (?rest @ CHR ''}'' # r) = Some (kvs, r)" using len(2) Cons.prems(2) by (intro Cons.IH) auto
  moreover have "parse_value g (printed j @ ?rest @ CHR ''}'' # r) = Some (j, ?rest @ CHR ''}'' # r)"
    using Cons.prems(2)[of k j] len(1) by (simp add: kv)
  ultimately show ?case by (simp add: parse_fields.simps[of "Suc g"] g kv)
qed

lemma parse_value_printed:
  assumes "json_clean j" "length (printed j) \<le> f"
  shows "parse_value f (printed j @ r) = Some (j, r)"
  using assms
proof (induction j arbitrary: f r rule: json.induct)
  case (JFloat x)
  then obtain q where q: "x = Fin q" by (auto elim: isfiniteE)
  have "of_int (fst (quotient_of q)) / of_int (snd (quotient_of q)) = q"
    by (metis prod.collapse quotient_of_div)
  then show ?case using JFloat.prems(2) by (simp add: q parse_value.simps[of f])
next
  case (JList js)
  then obtain g where g: "f = Suc g" by (cases f) auto
  have "parse_values g (concat (map printed js) @ CHR '']'' # r) = Some (js, r)"
    using JList g by (intro parse_values_printed) auto
  then show ?case using g by (simp add: parse_value.simps[of "Suc g"])
next
  case (JObj kvs)
  then obtain g where g: "f = Suc g" by (cases f) auto
  have "parse_fields g (concat (map (\<lambda>(k, v). CHR 0x22 # escaped k @ printed v) kvs) @ CHR ''}'' # r) = Some (kvs, r)"
  proof (rule parse_fields_printed)
    fix k j f r assume kj: "(k, j) \<in> set kvs" "length (printed j) \<le> f"
    have "json_clean j" using JObj.prems(1) kj(1) by fastforce
    then show "parse_value f (printed j @ r) = Some (j, r)" using JObj.IH[OF kj(1), of j] kj(2) by simp
  qed (use JObj g in simp)
  then show ?case using g by (simp add: parse_value.simps[of "Suc g"])
qed (auto simp: parse_value.simps split: if_splits)

subsection \<open>The text\<close>

definition fx_text :: json_text where
  "fx_text = \<lparr>jt_dumps = printed,
     jt_loads = \<lambda>s. (case parse_value (length s) s of Some (j, []) \<Rightarrow> Inr j | _ \<Rightarrow> Inl (ValueError ''no value'')),
     jt_sha256 = \<lambda>s. s\<rparr>"

lemma fx_text_faithful: "text_faithful fx_text"
  using parse_value_printed[where r = "[]"] by (simp add: text_faithful_def fx_text_def)

lemma fx_text_injective: "jt_sha256 fx_text s = jt_sha256 fx_text s' \<longleftrightarrow> s = s'"
  by (simp add: fx_text_def)

lemma nul_not_digit: "d < 10 \<Longrightarrow> nul \<noteq> digit_char d"
  using digit_char_not[of d nul] by (auto simp: nul_def)

lemma nul_not_int: "nul \<notin> set (print_int i)"
proof -
  have "nul \<notin> set (dec_nat n)" for n
  proof (induction n rule: dec_nat.induct)
    case (1 n)
    then show ?case using nul_not_digit by (simp add: dec_nat.simps[of n])
  qed
  then show ?thesis by (auto simp: print_int_def dec_int_def nul_def)
qed

lemma nul_not_escaped: "nul \<notin> set (escaped s)"
  by (induction s) (auto simp: nul_def)

lemma nul_not_printed: "nul \<notin> set (printed j)"
proof (induction j rule: json.induct)
  case (JFloat x)
  then show ?case using nul_not_int by (cases x) (auto simp: nul_def)
next
  case (JObj kvs)
  then show ?case using nul_not_escaped by (fastforce simp: nul_def)
qed (use nul_not_int nul_not_escaped in \<open>auto simp: nul_def\<close>)

end
