(* ===== verification/StoreWrites.thy ===== *)
theory StoreWrites
  imports RunTrips
begin

section \<open>Saves that succeed\<close>

text \<open>
  Without a lock and without a concurrent commit, a portable artifact under a new key is saved; a dataset
  always is.
\<close>

subsection \<open>Single inserts\<close>

lemma insert_succeeds:
  assumes "map_of db name = Some t" "null_violation t (bound_row row) = None" "\<And>r. r \<in> set (tb_rows t) \<Longrightarrow> \<not> same_key (tb_key t) (bound_row row) r"
    "list_all (foreign_ok (AList.update name (with_rows t [bound_row row]) db) (bound_row row)) (tb_foreign t)"
  shows "execute_statement (Insert name row) db = Inr (AList.update name (with_rows t [bound_row row]) db)"
  using assms by (auto simp: execute_statement_def Let_def bound_row_def[symmetric] with_rows_def)

text \<open>The tables by name.\<close>

lemma store_tables:
  assumes "store_structured db"
  shows "\<exists>t. map_of db ''strategies'' = Some t \<and> tb_key t = [''strategy_id'', ''version''] \<and> tb_foreign t = [] \<and>
      tb_columns t = [(''strategy_id'', True), (''version'', True), (''schema_version'', True), (''name'', True), (''content_hash'', True),
        (''document'', True), (''saved_at'', True)]"
    "\<exists>t. map_of db ''datasets'' = Some t \<and> tb_key t = [''dataset_id''] \<and> tb_foreign t = [] \<and>
      tb_columns t = [(''dataset_id'', True), (''dataset_fingerprint'', True), (''calendar_fingerprint'', True), (''payload'', True), (''saved_at'', True)]"
    "\<exists>t. map_of db ''runs'' = Some t \<and> tb_key t = [''run_id''] \<and>
      tb_foreign t = [([''strategy_id'', ''strategy_version''], ''strategies'', [''strategy_id'', ''version''])] \<and>
      tb_columns t = [(''run_id'', True), (''strategy_id'', True), (''strategy_version'', True), (''mode'', True), (''record_format'', True),
        (''ok'', True), (''first_session'', False), (''last_session'', False), (''total_return'', True), (''content_hash'', True),
        (''trace_content_hash'', True), (''trace_count'', True), (''record'', True), (''saved_at'', True)]"
    "\<exists>t. map_of db ''trace_events'' = Some t \<and> tb_key t = [''run_id'', ''seq''] \<and>
      tb_foreign t = [([''run_id''], ''runs'', [''run_id''])] \<and>
      tb_columns t = [(''run_id'', True), (''seq'', True), (''trace_format'', True), (''timestamp'', True), (''event'', True)]"
  using assms unfolding store_structured_def structured_def strategies_table_def datasets_table_def runs_table_def trace_events_table_def
  by auto

lemma insert_strategy_succeeds:
  assumes "store_structured db" "\<forall>r \<in> set (rows_of db ''strategies''). \<not> strategy_where (sd_id d, sd_version d) r"
  shows "\<exists>db'. execute_statement (Insert ''strategies'' (strategy_row env d digest stored)) db = Inr db'"
proof -
  let ?row = "strategy_row env d digest stored"
  obtain t where t: "map_of db ''strategies'' = Some t" "tb_key t = [''strategy_id'', ''version'']" "tb_foreign t = []"
    "tb_columns t = [(''strategy_id'', True), (''version'', True), (''schema_version'', True), (''name'', True), (''content_hash'', True),
      (''document'', True), (''saved_at'', True)]" using store_tables(1)[OF assms(1)] by blast
  have "null_violation t (bound_row ?row) = None" by (simp add: null_violation_def t(4) bound_row_def strategy_row_def cell_def)
  moreover have "\<not> same_key (tb_key t) (bound_row ?row) r" if "r \<in> set (tb_rows t)" for r
    using assms(2) that by (auto simp: rows_of_def t(1,2) same_key_def strategy_where_iff bound_row_def strategy_row_def cell_def)
  ultimately show ?thesis using insert_succeeds[OF t(1)] by (simp add: t(3))
qed

lemma insert_run_succeeds:
  assumes "store_structured db" "\<forall>x \<in> set (rows_of db ''runs''). cell x ''run_id'' \<noteq> SqlText (rr_run_id r)"
    "\<exists>x \<in> set (rows_of db ''strategies''). strategy_where (rr_strategy_id r, rr_strategy_version r) x" "rr_total_return r \<noteq> NaN"
  shows "\<exists>db'. execute_statement (Insert ''runs'' (run_row T env r stored texts)) db = Inr db'"
proof -
  let ?row = "run_row T env r stored texts"
  obtain t where t: "map_of db ''runs'' = Some t" "tb_key t = [''run_id'']"
    "tb_foreign t = [([''strategy_id'', ''strategy_version''], ''strategies'', [''strategy_id'', ''version''])]"
    "tb_columns t = [(''run_id'', True), (''strategy_id'', True), (''strategy_version'', True), (''mode'', True), (''record_format'', True),
        (''ok'', True), (''first_session'', False), (''last_session'', False), (''total_return'', True), (''content_hash'', True),
        (''trace_content_hash'', True), (''trace_count'', True), (''record'', True), (''saved_at'', True)]"
    using store_tables(3)[OF assms(1)] by blast
  have "null_violation t (bound_row ?row) = None"
    using assms(4) by (cases "rr_total_return r") (simp_all add: null_violation_def t(4) bound_row_def run_row_def cell_def)
  moreover have "\<not> same_key (tb_key t) (bound_row ?row) x" if "x \<in> set (tb_rows t)" for x
    using assms(2) that by (auto simp: rows_of_def t(1,2) same_key_def run_row_cells(1))
  moreover have "foreign_ok (AList.update ''runs'' (with_rows t [bound_row ?row]) db) (bound_row ?row)
      ([''strategy_id'', ''strategy_version''], ''strategies'', [''strategy_id'', ''version''])"
  proof -
    have "cells [''strategy_id'', ''strategy_version''] (bound_row ?row) = [SqlText (rr_strategy_id r), SqlInt (rr_strategy_version r)]"
      by (simp add: cells_def bound_row_def run_row_def cell_def)
    moreover have "rows_of (AList.update ''runs'' (with_rows t [bound_row ?row]) db) ''strategies'' = rows_of db ''strategies''"
      by (simp add: rows_of_def update_conv')
    moreover obtain x where "x \<in> set (rows_of db ''strategies'')" "strategy_where (rr_strategy_id r, rr_strategy_version r) x"
      using assms(3) by blast
    ultimately show ?thesis by (auto simp: foreign_ok_def cells_def strategy_where_iff intro!: bexI[of _ x])
  qed
  ultimately show ?thesis using insert_succeeds[OF t(1)] by (simp add: t(3))
qed

lemma insert_event_succeeds:
  assumes "store_structured db" "\<exists>x \<in> set (rows_of db ''runs''). cell x ''run_id'' = SqlText run"
    "\<forall>x \<in> set (events_of db run). cell x ''seq'' \<noteq> SqlInt (int n)"
  shows "\<exists>db'. execute_statement (Insert ''trace_events'' (event_row run n e s)) db = Inr db'"
proof -
  let ?row = "event_row run n e s"
  have bound: "bound_row ?row = ?row" by (simp add: bound_row_def event_row_def)
  obtain t where t: "map_of db ''trace_events'' = Some t" "tb_key t = [''run_id'', ''seq'']" "tb_foreign t = [([''run_id''], ''runs'', [''run_id''])]"
    "tb_columns t = [(''run_id'', True), (''seq'', True), (''trace_format'', True), (''timestamp'', True), (''event'', True)]"
    using store_tables(4)[OF assms(1)] by blast
  have cells: "cell ?row ''run_id'' = SqlText run" "cell ?row ''seq'' = SqlInt (int n)" by (simp_all add: event_row_def cell_def)
  have "null_violation t ?row = None" by (simp add: null_violation_def t(4) event_row_def cell_def)
  moreover have "\<not> same_key (tb_key t) ?row x" if "x \<in> set (tb_rows t)" for x
    using assms(3) that by (auto simp: events_of_def rows_of_def t(1,2) same_key_def cells run_where_iff)
  moreover have "foreign_ok (AList.update ''trace_events'' (with_rows t [?row]) db) ?row ([''run_id''], ''runs'', [''run_id''])"
  proof -
    have "rows_of (AList.update ''trace_events'' (with_rows t [?row]) db) ''runs'' = rows_of db ''runs''"
      by (simp add: rows_of_def update_conv')
    moreover obtain x where "x \<in> set (rows_of db ''runs'')" "cell x ''run_id'' = SqlText run" using assms(2) by blast
    ultimately show ?thesis by (auto simp: foreign_ok_def cells_def cells intro!: bexI[of _ x])
  qed
  ultimately show ?thesis using insert_succeeds[OF t(1), of ?row] by (simp add: t(3) bound)
qed

subsection \<open>The events of a run\<close>

lemma insert_events_succeed:
  assumes "store_structured db" "\<exists>x \<in> set (rows_of db ''runs''). cell x ''run_id'' = SqlText run"
    "\<forall>x \<in> set (events_of db run). \<forall>n \<ge> k. cell x ''seq'' \<noteq> SqlInt (int n)"
  shows "\<exists>db'. execute_all i None (map (\<lambda>(n, e, s). Insert ''trace_events'' (event_row run n e s)) (enumerate k es)) db = Inr db'"
  using assms
proof (induction es arbitrary: k i db)
  case (Cons es0 es)
  obtain e s where es0: "es0 = (e, s)" by (cases es0)
  obtain db1 where db1: "execute_statement (Insert ''trace_events'' (event_row run k e s)) db = Inr db1"
    using insert_event_succeeds[OF Cons.prems(1,2)] Cons.prems(3) by blast
  have bound: "bound_row (event_row run k e s) = event_row run k e s" by (simp add: bound_row_def event_row_def)
  have rows: "rows_of db1 ''runs'' = rows_of db ''runs''" "rows_of db1 ''trace_events'' = rows_of db ''trace_events'' @ [event_row run k e s]"
    using execute_statement_rows[OF db1] by (simp_all add: bound)
  have "store_structured db1" using Cons.prems(1) execute_statement_extends[OF db1] store_structured_extends by blast
  moreover have "\<forall>x \<in> set (events_of db1 run). \<forall>n \<ge> Suc k. cell x ''seq'' \<noteq> SqlInt (int n)"
    using Cons.prems(3) by (auto simp: events_of_def rows(2) event_row_def cell_def)
  ultimately obtain db' where "execute_all (Suc i) None (map (\<lambda>(n, e, s). Insert ''trace_events'' (event_row run n e s)) (enumerate (Suc k) es)) db1 = Inr db'"
    using Cons.IH[of db1 "Suc k" "Suc i"] Cons.prems(2) by (auto simp: rows(1))
  then show ?case using db1 by (simp add: es0)
qed simp

subsection \<open>Quiet saves\<close>

lemma transaction_quiet:
  "execute_all 0 None body db = Inr db' \<Longrightarrow> transaction (quiet now) body (idle db) = (Inr (), idle db')"
  by (simp add: transaction_def quiet_def)

lemma quiet_simps [simp]: "\<not> env_lock_query (quiet now)" "env_race (quiet now) db = db" "env_lock_statement (quiet now) = None" "env_now (quiet now) = now"
  by (simp_all add: quiet_def)

lemma prepare_save_new:
  assumes "is_supported_schema_version (sd_schema_version d)" "strategy_portable d" "store_structured db"
    "\<forall>r \<in> set (rows_of db ''strategies''). \<not> strategy_where (sd_id d, sd_version d) r" "\<not> env_lock_query env"
  shows "prepare_save env T d (idle db) = Inr ((sd_id d, sd_version d),
    Some (Insert ''strategies'' (strategy_row env d (content_hash T (jt_dumps T (strategy_json d))) (jt_dumps T (strategy_json d)))))"
proof -
  have "to_ir_json T (dump_strategy d) = Inr (jt_dumps T (strategy_json d))"
    by (rule to_ir_json_Inr[OF to_ir_dict_strategy[OF assms(2)]])
  then have "artifact_bytes T (dump_strategy d) ''strategy'' = Inr (jt_dumps T (strategy_json d))" by (simp add: artifact_bytes_def)
  moreover have "filter (strategy_where (sd_id d, sd_version d)) (rows_of db ''strategies'') = []"
    using assms(4) by (simp add: filter_empty_conv)
  ultimately show ?thesis using assms(1)
    by (simp add: prepare_save_def require_supported_for_save_def select_store[OF assms(3) _ assms(5)])
qed

lemma save_strategy_new:
  assumes "is_supported_schema_version (sd_schema_version d)" "strategy_portable d" "store_structured db"
    "\<forall>r \<in> set (rows_of db ''strategies''). \<not> strategy_where (sd_id d, sd_version d) r"
  shows "\<exists>db'. save_strategy (quiet now) T d (idle db) = (Inr (sd_id d, sd_version d), idle db')"
proof -
  obtain db' where "execute_statement (Insert ''strategies'' (strategy_row (quiet now) d (content_hash T (jt_dumps T (strategy_json d))) (jt_dumps T (strategy_json d)))) db = Inr db'"
    using insert_strategy_succeeds[OF assms(3,4)] by blast
  then have "transaction (quiet now) [Insert ''strategies'' (strategy_row (quiet now) d (content_hash T (jt_dumps T (strategy_json d))) (jt_dumps T (strategy_json d)))]
      (idle db) = (Inr (), idle db')"
    by (intro transaction_quiet) simp
  then show ?thesis using prepare_save_new[OF assms, of "quiet now" T] by (simp add: save_strategy_def on_violation_def)
qed

text \<open>A run under a new key, with a strategy under a new key.\<close>

lemma execute_all_appendI:
  "execute_all i None xs db = Inr db1 \<Longrightarrow> execute_all (i + length xs) None ys db1 = Inr db2 \<Longrightarrow> execute_all i None (xs @ ys) db = Inr db2"
  by (induction xs arbitrary: i db) (auto simp: try_bind_Inr)

lemma save_body_succeeds:
  assumes "store_structured db" "tables_ok db" "\<forall>x \<in> set (rows_of db ''strategies''). \<not> strategy_where (sd_id d, sd_version d) x"
    "\<forall>x \<in> set (rows_of db ''runs''). cell x ''run_id'' \<noteq> SqlText (rr_run_id r)"
    "rr_strategy_id r = sd_id d" "rr_strategy_version r = sd_version d" "rr_total_return r \<noteq> NaN"
  shows "\<exists>db'. execute_all 0 None (save_body T env r events stored texts (Some (Insert ''strategies'' (strategy_row env d digest document)))) db = Inr db'"
proof -
  let ?strategy = "Insert ''strategies'' (strategy_row env d digest document)" and ?run = "Insert ''runs'' (run_row T env r stored texts)"
  obtain db1 where db1: "execute_statement ?strategy db = Inr db1" using insert_strategy_succeeds[OF assms(1,3)] by blast
  have rows1: "rows_of db1 ''runs'' = rows_of db ''runs''" "rows_of db1 ''trace_events'' = rows_of db ''trace_events''"
    "bound_row (strategy_row env d digest document) \<in> set (rows_of db1 ''strategies'')"
    using execute_statement_rows[OF db1] by simp_all
  have s1: "store_structured db1" using assms(1) execute_statement_extends[OF db1] store_structured_extends by blast
  have "strategy_where (rr_strategy_id r, rr_strategy_version r) (bound_row (strategy_row env d digest document))"
    by (simp add: strategy_where_iff assms(5,6) bound_row_def strategy_row_def cell_def)
  then obtain db2 where db2: "execute_statement ?run db1 = Inr db2"
    using insert_run_succeeds[OF s1, of r T env stored texts] assms(4,7) rows1 by auto
  have s2: "store_structured db2" using s1 execute_statement_extends[OF db2] store_structured_extends by blast
  have rows2: "rows_of db2 ''runs'' = rows_of db ''runs'' @ [bound_row (run_row T env r stored texts)]"
    "rows_of db2 ''trace_events'' = rows_of db ''trace_events''"
    using execute_statement_rows[OF db2] rows1 by simp_all
  have "events_of db2 (rr_run_id r) = []" using no_run_no_events[OF assms(2,1,4)] by (simp add: events_of_def rows2(2))
  moreover have "\<exists>x \<in> set (rows_of db2 ''runs''). cell x ''run_id'' = SqlText (rr_run_id r)" by (simp add: rows2(1) run_row_cells(1))
  ultimately obtain db3 where "execute_all (Suc (Suc 0)) None (event_inserts (rr_run_id r) events texts) db2 = Inr db3"
    using insert_events_succeed[OF s2, of "rr_run_id r" 0] unfolding event_inserts_def by fastforce
  then show ?thesis using db1 db2 by (simp add: save_body_def)
qed

lemma save_run_new:
  assumes r: "r = record_from_result result (sd_id d) (sd_version d) provenance mode"
    and accepted: "ip_status provenance = ProvenanceRecorded" "require_complete r = Inr ()" "rr_total_return r \<noteq> NaN"
    and portable: "py_portable (dump_record r)" "\<forall>e \<in> set (br_trace result). py_portable (dump_event e)" "strategy_portable d"
      "is_supported_schema_version (sd_schema_version d)"
    and store: "store_structured db" "tables_ok db" "\<forall>x \<in> set (rows_of db ''strategies''). \<not> strategy_where (sd_id d, sd_version d) x"
      "\<forall>x \<in> set (rows_of db ''runs''). cell x ''run_id'' \<noteq> SqlText (rr_run_id r)"
  shows "\<exists>db'. save_run (quiet now) T d result provenance mode (idle db) = (Inr (br_run_id result), idle db') \<and>
    execute_all 0 None (save_body T (quiet now) r (br_trace result) (record_text T r) (event_texts T (br_trace result))
      (Some (Insert ''strategies'' (strategy_row (quiet now) d (content_hash T (jt_dumps T (strategy_json d))) (jt_dumps T (strategy_json d)))))) db = Inr db'"
proof -
  have stored: "artifact_bytes T (dump_record r) ''run_record'' = Inr (jt_dumps T (json_of (dump_record r)))"
    using portable(1) to_ir_json_Inr[of "dump_record r"] unfolding dump_record_def
    by (simp only: artifact_bytes_def to_ir_dict_json_of sum.case)
  have "artifact_bytes T (dump_event e) ''trace_event'' = Inr (jt_dumps T (json_of (dump_event e)))" if "e \<in> set (br_trace result)" for e
    using portable(2) that to_ir_json_Inr[of "dump_event e"] unfolding dump_event_def
    by (simp only: artifact_bytes_def to_ir_dict_json_of sum.case)
  then have rows: "traverse (\<lambda>e. artifact_bytes T (dump_event e) ''trace_event'') (br_trace result) = Inr (event_texts T (br_trace result))"
    by (simp add: traverse_Inr event_texts_def list_all2_conv_all_nth)
  define pending where "pending = Insert ''strategies'' (strategy_row (quiet now) d (content_hash T (jt_dumps T (strategy_json d))) (jt_dumps T (strategy_json d)))"
  define body where "body = save_body T (quiet now) r (br_trace result) (record_text T r) (event_texts T (br_trace result)) (Some pending)"
  have "filter (run_where (rr_run_id r)) (rows_of db ''runs'') = []" using store(4) by (simp add: filter_empty_conv run_where_iff)
  then have "plan_save (quiet now) T d result provenance mode (idle db) = Inr (Some body)"
    using accepted(1,2) prepare_save_new[OF portable(4,3) store(1,3), of "quiet now" T]
    by (simp add: plan_save_def Let_def r[symmetric] require_recorded_def stored rows select_store[OF store(1)] body_def pending_def record_text_def)
  moreover have ids: "rr_strategy_id r = sd_id d" "rr_strategy_version r = sd_version d" by (simp_all add: r record_from_result_def)
  obtain db' where "execute_all 0 None body db = Inr db'"
    using save_body_succeeds[OF store(1,2,3,4) ids accepted(3)] unfolding body_def pending_def by blast
  moreover note transaction_quiet[OF this]
  ultimately have "save_run (quiet now) T d result provenance mode (idle db) = (Inr (br_run_id result), idle db') \<and> execute_all 0 None body db = Inr db'"
    by (simp add: save_run_def on_violation_def)
  then show ?thesis unfolding body_def pending_def by blast
qed

text \<open>A dataset is always saved, whatever others commit meanwhile.\<close>

definition unlocked :: "environment \<Rightarrow> bool" where
  "unlocked env \<longleftrightarrow> \<not> env_lock_query env \<and> \<not> env_lock_begin env \<and> env_lock_statement env = None \<and> \<not> env_lock_commit env"

lemma unlocked_quiet [simp]: "unlocked (quiet now)"
  by (simp add: unlocked_def quiet_def)

lemma observations_payload_clean: "ds_ok ds \<Longrightarrow> json_clean (JObj (observations_payload ds))"
proof -
  assume ok: "ds_ok ds"
  have "distinct (map fst (observations ds))" using ok by (auto simp: ds_ok_def ds_assets_def strict_sorted_iff)
  moreover have "valid_price (open_price ob) \<and> valid_price (close_price ob)" if "(a, series) \<in> set (observations ds)" "ob \<in> set series" for a series ob
    using ok that by (auto simp: ds_ok_def series_ok_def obs_ok_def)
  ultimately show ?thesis by (auto simp: observations_payload_def case_prod_beta comp_def valid_price_def)
qed

lemma calendar_payload_clean: "json_clean (JObj (calendar_payload cal))"
  by (auto simp: calendar_payload_def)

lemma save_dataset_returns:
  assumes "storable_dataset ds" "store_structured db" "store_structured (env_race env db)" "unlocked env"
  shows "\<exists>info new cn. save_dataset env T ds (idle db) = (Inr (info, new), cn)"
proof -
  have ok: "ds_ok ds" using assms(1) by (simp add: storable_dataset_def)
  define payload where "payload = dataset_text T ds"
  have bytes: "canonical_json_bytes T (canonical_payload ds) = Inr payload"
    using canonical_json_bytes_clean[OF canonical_payload_clean[OF assms(1)]] by (simp add: payload_def dataset_text_def)
  have "session_dates (calendar ds) \<noteq> []" using ok by (auto simp: ds_ok_def session_dates_def)
  then obtain info where info: "dataset_info T ds (content_hash T payload) = Inr info"
    using canonical_json_bytes_clean[OF observations_payload_clean[OF ok], of T] canonical_json_bytes_clean[OF calendar_payload_clean, of T]
    by (auto simp: dataset_info_def introspection_def dataset_fingerprint_def calendar_fingerprint_def Let_def)
  let ?row = "dataset_row env info payload"
  obtain t where t: "map_of (env_race env db) ''datasets'' = Some t" "tb_foreign t = []"
    "tb_columns t = [(''dataset_id'', True), (''dataset_fingerprint'', True), (''calendar_fingerprint'', True), (''payload'', True), (''saved_at'', True)]"
    using store_tables(2)[OF assms(3)] by blast
  have "null_violation t (bound_row ?row) = None"
    by (simp add: null_violation_def t(3) bound_row_def dataset_row_def cell_def)
  then have "(\<exists>m. execute_statement (Insert ''datasets'' ?row) (env_race env db) = Inl (SqliteIntegrityError m)) \<or>
      (\<exists>db'. execute_statement (Insert ''datasets'' ?row) (env_race env db) = Inr db')"
    using t(1,2) by (auto simp: execute_statement_def Let_def bound_row_def[symmetric])
  then have "(\<exists>m cn. transaction env [Insert ''datasets'' ?row] (idle db) = (Inl (IntegrityViolationError m), cn)) \<or>
      (\<exists>cn. transaction env [Insert ''datasets'' ?row] (idle db) = (Inr (), cn))"
    using assms(4) by (auto simp: transaction_def unlocked_def)
  then show ?thesis
    by (cases "filter (dataset_where (di_dataset_id info)) (rows_of db ''datasets'')")
      (use assms(4) in \<open>auto simp: save_dataset_def bytes info select_store[OF assms(2)] unlocked_def\<close>)
qed

text \<open>What a first dataset leaves.\<close>

lemma save_dataset_first:
  assumes "storable_dataset ds" "store_structured db" "rows_of db ''datasets'' = []"
  shows "\<exists>info db'. save_dataset (quiet now) T ds (idle db) = (Inr (info, True), idle db') \<and>
    dataset_info T ds (content_hash T (dataset_text T ds)) = Inr info \<and>
    rows_of db' ''datasets'' = [bound_row (dataset_row (quiet now) info (dataset_text T ds))]"
proof -
  have bytes: "canonical_json_bytes T (canonical_payload ds) = Inr (dataset_text T ds)"
    using canonical_json_bytes_clean[OF canonical_payload_clean[OF assms(1)]] by (simp add: dataset_text_def)
  obtain info new cn where save: "save_dataset (quiet now) T ds (idle db) = (Inr (info, new), cn)"
    using save_dataset_returns[OF assms(1,2), where env = "quiet now" and T = T] assms(2) by auto
  obtain info' where info: "dataset_info T ds (content_hash T (dataset_text T ds)) = Inr info'"
    using save by (cases "dataset_info T ds (content_hash T (dataset_text T ds))") (auto simp: save_dataset_def bytes)
  let ?row = "dataset_row (quiet now) info' (dataset_text T ds)"
  obtain t where t: "map_of db ''datasets'' = Some t" "tb_foreign t = []"
    "tb_columns t = [(''dataset_id'', True), (''dataset_fingerprint'', True), (''calendar_fingerprint'', True), (''payload'', True), (''saved_at'', True)]"
    using store_tables(2)[OF assms(2)] by blast
  have "null_violation t (bound_row ?row) = None"
    by (simp add: null_violation_def t(3) bound_row_def dataset_row_def cell_def)
  then obtain db' where db': "execute_statement (Insert ''datasets'' ?row) db = Inr db'"
    using insert_succeeds[OF t(1), of ?row] assms(3) by (auto simp: rows_of_def t(1,2))
  then have "transaction (quiet now) [Insert ''datasets'' ?row] (idle db) = (Inr (), idle db')" by (intro transaction_quiet) simp
  then have "save_dataset (quiet now) T ds (idle db) = (Inr (info', True), idle db')"
    by (simp add: save_dataset_def bytes info select_store[OF assms(2)] assms(3))
  then show ?thesis using info execute_statement_rows[OF db', of "''datasets''"] assms(3) by auto
qed

end
