(* ===== verification/FixtureStore.thy ===== *)
theory FixtureStore
  imports FixtureText FixtureStrategy StoreWrites
begin

section \<open>A small store\<close>

text \<open>
  A fresh store with the small text format, the strategy of the fixtures, the record and the trace of a
  run, and validators that accept them.
\<close>

lemma fx_no_collision [simp]: "\<not> collides fx_text s"
  by (simp add: collides_def content_hash_def fx_text_def)

lemma fx_text_escaped: "text_escaped fx_text"
  using nul_not_printed by (simp add: text_escaped_def fx_text_def char_of_0)

lemma fx_fresh: "kept_store fx_text now (fresh_store now)"
  by (simp add: kept_store_def history.started)

subsection \<open>A dataset with real dates\<close>

definition kept_day :: "int \<Rightarrow> instant" where
  "kept_day k = (ymd2ord fx_thu - 1 + k) * day_microseconds"

definition kept_calendar :: exchange_calendar where
  "kept_calendar = \<lparr>exchange = ''XNYS'', cal_timezone = ''America/New_York'',
     sessions = [fx_session fx_thu (kept_day 0), fx_session fx_fri (kept_day 1), fx_session fx_mon (kept_day 4)]\<rparr>"

definition kept_data :: market_data_set where
  "kept_data = \<lparr>calendar = kept_calendar, observations =
     [(''A'', [fx_obs fx_thu (kept_day 0) (Fin 10) (Fin 11), fx_obs fx_fri (kept_day 1) (Fin 12) (Fin 13)]),
      (''B'', [fx_obs fx_thu (kept_day 0) (Fin 20) (Fin 21), fx_obs fx_fri (kept_day 1) (Fin 22) (Fin 20)])]\<rparr>"

lemma kept_day_code: "kept_day 0 = 63839923200000000" "kept_day 1 = 63840009600000000" "kept_day 4 = 63840268800000000"
  by code_simp+

lemma kept_calendar_ok: "cal_ok kept_calendar"
  by (simp add: cal_ok_def kept_calendar_def fx_defs session_ok_def session_before_def days_in_month_def kept_day_code)

lemma kept_data_ok: "ds_ok kept_data"
proof (rule mk_market_data_set_ok)
  show "mk_market_data_set kept_calendar (observations kept_data) = Inr kept_data"
    by (simp add: mk_market_data_set_def kept_data_def kept_calendar_def fx_defs session_on_def kept_day_code)
  show "\<And>a series ob. (a, series) \<in> set (observations kept_data) \<Longrightarrow> ob \<in> set series \<Longrightarrow> obs_prices_ok ob"
    by (auto simp: kept_data_def fx_defs obs_prices_ok_def valid_price_def is_double_Fin)
qed (simp_all add: kept_calendar_ok kept_data_def)

lemma kept_instants: "\<forall>k \<in> {0, 1, 4}. valid_instant (kept_day k + 570) \<and> valid_instant (kept_day k + 960)"
  by code_simp

lemma kept_data_storable: "storable_dataset kept_data"
  using kept_data_ok kept_instants
  by (simp add: storable_dataset_def storable_calendar_def storable_observation_def kept_data_def kept_calendar_def fx_defs days_in_month_def)

subsection \<open>The strategy\<close>

lemma fx_doc_clean: "json_clean (strategy_json fx_doc)"
proof -
  have "json_clean (strategy_json fx_doc) = True" by code_simp
  then show ?thesis by simp
qed

lemma fx_doc_portable: "strategy_portable fx_doc"
proof -
  have "strategy_portable fx_doc = True" by code_simp
  then show ?thesis by simp
qed

lemma fx_doc_version: "is_supported_schema_version (sd_schema_version fx_doc)"
  by code_simp

lemma fx_doc_saved:
  "\<exists>db. save_strategy (quiet now) T fx_doc (idle (fresh_store now')) = (Inr (''s'', 1), idle db)"
  using save_strategy_new[OF fx_doc_version fx_doc_portable fresh_store_structured, of now' now T] fresh_store_rows[of "''strategies''" now']
  by (simp add: fx_doc_def fx_document_def)

subsection \<open>A run\<close>

definition fx_event :: "string \<Rightarrow> string \<Rightarrow> json_object \<Rightarrow> trace_event" where
  "fx_event n ty ps = \<lparr>te_run_id = ''run'', te_timestamp = kept_day 1 + 960, te_node_id = n, te_component_path = [],
     te_event_type = ty, te_payload = ps\<rparr>"

definition fx_weights :: json_object where
  "fx_weights = [(''v'', JInt 1), (''weights'', JList [JList [JStr ''A'', JFloat (Fin (1 / 2))], JList [JStr ''B'', JFloat (Fin (1 / 2))]]),
     (''cash'', JFloat (Fin 0))]"

definition fx_events :: "trace_event list" where
  "fx_events =
     [fx_event ''universe'' ''universe.selected'' [(''v'', JInt 1), (''assets'', JList [JStr ''A'', JStr ''B''])],
      fx_event ''weight'' ''portfolio.weighted'' fx_weights, fx_event ''out'' ''targets.finalized'' fx_weights]"

definition fx_evaluation :: evaluation_record where
  "fx_evaluation = \<lparr>er_session = fx_fri, er_instant = kept_day 1 + 960, er_weights = [(''A'', Fin (1 / 2)), (''B'', Fin (1 / 2))],
     er_reconciliation = \<lparr>out_ok = True, out_orders = [], out_diagnostics = [], portfolio_value = Some (Fin 1000),
       target_cash = Some 0, projected_cash = Some (Fin 1000), out_plans = []\<rparr>,
     er_fill_session = None, er_fill_instant = None\<rparr>"

definition fx_result :: backtest_result where
  "fx_result = \<lparr>br_ok = True, br_run_id = ''run'', br_calendar = kept_calendar, br_first_session = Some fx_fri, br_last_session = Some fx_fri,
     br_valuations = [(fx_fri, Fin 1000)], br_stale_marks = [], br_evaluations = [fx_evaluation], br_fills = [], br_returns = [],
     br_total_return = 0, br_max_drawdown = 0, br_final_state = \<lparr>cash = Fin 1000, positions = []\<rparr>, br_notes = [],
     br_diagnostics = [], br_trace = fx_events\<rparr>"

definition fx_hash :: "string res \<Rightarrow> string" where
  "fx_hash r = (case r of Inr h \<Rightarrow> h | Inl _ \<Rightarrow> [])"

definition fx_recorded :: run_input_provenance where
  "fx_recorded = \<lparr>ip_status = ProvenanceRecorded, ip_dataset_hash = Some (fx_hash (dataset_fingerprint fx_text kept_data)),
     ip_calendar_hash = Some (fx_hash (calendar_fingerprint fx_text kept_calendar))\<rparr>"

definition fx_record :: run_record where
  "fx_record = record_from_result fx_result ''s'' 1 fx_recorded ''backtest''"

definition fx_read_event :: "json \<Rightarrow> nat + trace_event" where
  "fx_read_event j = (case find (\<lambda>e. json_of (dump_event e) = j) fx_events of Some e \<Rightarrow> Inr e | None \<Rightarrow> Inl 1)"

definition fx_validators :: validators where
  "fx_validators = \<lparr>va_strategy = \<lambda>_. Inr fx_doc, va_component = \<lambda>_. Inr fx_component, va_record = \<lambda>_. Inr fx_record,
     va_event = fx_read_event\<rparr>"

text \<open>The run is portable, and a fresh store takes it.\<close>

lemma is_double_half: "is_double (Fin (1 / 2))"
  by code_simp

lemma fx_record_clean: "json_clean (json_of (dump_record fx_record))" "py_portable (dump_record fx_record)"
  by (simp_all add: fx_record_def record_from_result_def fx_result_def fx_evaluation_def dump_record_def dump_evaluation_def
      dump_input_provenance_def fx_recorded_def persisted_evaluation_of_def Let_def py_optional_def py_date_value_def py_asset_value_def
      is_double_Fin is_double_half record_format_def js_max_safe_int_def)

lemma fx_events_clean:
  "\<forall>e \<in> set fx_events. json_clean (json_of (dump_event e)) \<and> py_portable (dump_event e) \<and> va_event fx_validators (json_of (dump_event e)) = Inr e"
proof -
  have clean: "json_clean (json_of (dump_event e)) \<and> py_portable (dump_event e)" if "e \<in> set fx_events" for e
    using that by (auto simp: fx_events_def fx_event_def fx_weights_def dump_event_def py_object_def is_double_Fin is_double_half js_max_safe_int_def)
  have distinct: "distinct (map te_node_id fx_events)" by (simp add: fx_events_def fx_event_def)
  have node: "json_of (dump_event e) = json_of (dump_event e') \<Longrightarrow> te_node_id e = te_node_id e'" for e e'
    by (simp add: dump_event_def)
  have "find (\<lambda>x. json_of (dump_event x) = json_of (dump_event e)) es = Some e"
    if "e \<in> set es" "distinct (map te_node_id es)" for e es
    using that by (induction es) (auto dest: node)
  then show ?thesis using clean distinct by (simp add: fx_validators_def fx_read_event_def)
qed

lemma fx_result_trace [simp]: "br_trace fx_result = fx_events" "br_run_id fx_result = ''run''"
  by (simp_all add: fx_result_def)

lemma fx_record_eq: "fx_record = record_from_result fx_result (sd_id fx_doc) (sd_version fx_doc) fx_recorded ''backtest''"
  by (simp add: fx_record_def fx_doc_def fx_document_def)

definition fx_strategy_text :: string where
  "fx_strategy_text = jt_dumps fx_text (strategy_json fx_doc)"

text \<open>A store with the run, and its rows.\<close>

definition fx_holds :: "string \<Rightarrow> database \<Rightarrow> bool" where
  "fx_holds now db \<longleftrightarrow> kept_store fx_text now db \<and> run_found fx_text fx_record fx_events db \<and> rows_of db ''datasets'' = [] \<and>
     rows_of db ''strategies'' = [bound_row (strategy_row (quiet now) fx_doc (content_hash fx_text fx_strategy_text) fx_strategy_text)]"

lemma fx_run_saved:
  "\<exists>db. save_run (quiet now) fx_text fx_doc fx_result fx_recorded ''backtest'' (idle (fresh_store now)) = (Inr ''run'', idle db) \<and> fx_holds now db"
proof -
  have "require_complete fx_record = Inr ()"
    by (simp add: require_complete_def fx_record_def record_from_result_def fx_result_def)
  moreover have "ip_status fx_recorded = ProvenanceRecorded" "rr_total_return fx_record \<noteq> NaN"
    by (simp_all add: fx_recorded_def fx_record_def record_from_result_def fx_result_def)
  ultimately obtain db where save: "save_run (quiet now) fx_text fx_doc fx_result fx_recorded ''backtest'' (idle (fresh_store now)) = (Inr ''run'', idle db)"
    and body: "execute_all 0 None (save_body fx_text (quiet now) fx_record fx_events (record_text fx_text fx_record) (event_texts fx_text fx_events)
      (Some (Insert ''strategies'' (strategy_row (quiet now) fx_doc (content_hash fx_text fx_strategy_text) fx_strategy_text)))) (fresh_store now) = Inr db"
    using save_run_new[OF fx_record_eq, of "fresh_store now" now fx_text] fx_record_clean(2) fx_events_clean fx_doc_portable fx_doc_version
      fresh_store_structured fresh_store_tables_ok fresh_store_rows[of "''strategies''" now] fresh_store_rows[of "''runs''" now]
    by (auto simp: fx_strategy_text_def)
  have "history fx_text (fresh_store now) db"
    using history.performed[of fx_text "fresh_store now" "fresh_store now" "quiet now" "SaveRun fx_doc fx_result fx_recorded ''backtest''"]
      history.started fx_doc_clean save by simp
  moreover have "run_found fx_text fx_record fx_events db"
    using save_run_found[OF save fx_doc_clean _ fx_record_eq] fresh_store_structured by simp
  ultimately have "fx_holds now db"
    using execute_all_rows[OF body] fresh_store_rows[of "''datasets''" now] fresh_store_rows[of "''strategies''" now]
    by (simp add: fx_holds_def kept_store_def save_body_def inserted_append inserted_events)
  then show ?thesis using save by blast
qed

lemma fx_record_read:
  assumes "fx_holds now db"
  shows "load_run (quiet later) fx_text fx_validators steps ''run'' (idle db) = Inr fx_record"
proof -
  have "rr_run_id fx_record = ''run''" "rr_record_format fx_record = record_format"
    by (simp_all add: fx_record_def record_from_result_def)
  moreover have "kept_store fx_text now db" "run_found fx_text fx_record fx_events db" using assms by (simp_all add: fx_holds_def)
  ultimately show ?thesis
    using load_run_saved[of fx_text fx_record fx_events db "quiet later" fx_validators steps] fx_record_clean(1) kept_store_ok(2,4)
      fx_text_faithful by (simp add: fx_validators_def)
qed

end
