(* ===== verification/ValueTap.thy ===== *)
theory ValueTap
  imports Runs Datasets Execution
begin

section \<open>The value tap\<close>

text \<open>
  \<open>quantize/valuetap/service.py\<close>: the value of one node's output port in a stored run, by evaluating the
  pinned strategy again at the recorded instant over the run's own data. Every attempt logs exactly one
  entry; the elapsed time of the entry is not modelled.
\<close>

record tap_error =
  tap_code :: string
  tap_message :: string
  tap_subject :: "string option"
  tap_diagnostics :: "runtime_diagnostic list"

datatype tap_fault = TapRefused tap_error | TapRaised fault

definition tap :: "fault + 'a \<Rightarrow> tap_fault + 'a" where
  "tap r = (case r of Inl e \<Rightarrow> Inl (TapRaised e) | Inr x \<Rightarrow> Inr x)"

lemma tap_simps [simp]: "tap (Inr x) = Inr x" "tap (Inl e) = Inl (TapRaised e)"
  by (simp_all add: tap_def)

lemma tap_Inr [res_simps]: "tap r = Inr x \<longleftrightarrow> r = Inr x"
  by (cases r) simp_all

definition no_evaluation_at_session :: string where "no_evaluation_at_session = ''no_evaluation_at_session''"
definition value_address_not_found :: string where "value_address_not_found = ''value_address_not_found''"
definition ambiguous_output_port :: string where "ambiguous_output_port = ''ambiguous_output_port''"
definition recompute_failed :: string where "recompute_failed = ''recompute_failed''"
definition engine_drift :: string where "engine_drift = ''engine_drift''"
definition unexpected_failure :: string where "unexpected_failure = ''unexpected_failure''"

definition status_for_value_tap_code :: "(string \<times> nat) list" where
  "status_for_value_tap_code = [(value_address_not_found, 404), (no_evaluation_at_session, 404), (ambiguous_output_port, 422),
     (unknown_provenance, 409), (dataset_mismatch, 409), (calendar_mismatch, 409), (recompute_failed, 409), (engine_drift, 409)]"

definition refuse :: "string \<Rightarrow> string \<Rightarrow> string option \<Rightarrow> tap_fault + 'a" where
  "refuse code m subject = Inl (TapRefused \<lparr>tap_code = code, tap_message = m, tap_subject = subject, tap_diagnostics = []\<rparr>)"

record resolved_node_value =
  rv_run_id :: string
  rv_node_id :: string
  rv_component_path :: "string list"
  rv_session :: date
  rv_instant :: instant
  rv_output_port :: string
  rv_value :: runtime_value
  rv_dataset_fingerprint :: string
  rv_calendar_fingerprint :: string
  rv_captured :: bool

record tap_log =
  tl_run :: string
  tl_addr :: string
  tl_session :: date
  tl_outcome :: "string + string"

subsection \<open>Helpers\<close>

definition addr :: "string list \<Rightarrow> string \<Rightarrow> string" where
  "addr component_path nid = join_str ''/'' (component_path @ [nid])"

definition diagnostics_summary :: "evaluation_outcome \<Rightarrow> string" where
  "diagnostics_summary out = (case ev_diagnostics out of [] \<Rightarrow> ''no diagnostics recorded''
     | d # ds \<Rightarrow> diag_code d @ '': '' @ diag_message d @ (if ds = [] then '''' else ''; +'' @ dec_nat (length ds) @ '' more''))"

definition node_events :: "trace_event list \<Rightarrow> string \<Rightarrow> string list \<Rightarrow> trace_event list" where
  "node_events events nid component_path = filter (\<lambda>e. te_node_id e = nid \<and> te_component_path e = component_path) events"

definition event_identity :: "json_text \<Rightarrow> trace_event \<Rightarrow> (string \<times> string) res" where
  "event_identity T e = try_bind (canonical_json_bytes T (te_payload e)) (\<lambda>b. Inr (te_event_type e, b))"

definition assert_no_drift ::
    "environment \<Rightarrow> json_text \<Rightarrow> validators \<Rightarrow> migration_registry \<Rightarrow> connection \<Rightarrow> string \<Rightarrow> date \<Rightarrow> string \<Rightarrow> string list
     \<Rightarrow> trace_event list \<Rightarrow> tap_fault + unit" where
  "assert_no_drift env T va steps cn run session nid component_path fresh =
     try_bind (tap (load_trace env T va steps run (Some session) cn)) (\<lambda>events.
       let persisted = node_events events nid component_path in
       if persisted = [] then Inr ()
       else try_bind (tap (raising (traverse (event_identity T) fresh))) (\<lambda>xs.
         try_bind (tap (raising (traverse (event_identity T) persisted))) (\<lambda>ys.
           if xs \<noteq> ys
           then refuse engine_drift ''engine drift - the current node implementation no longer reproduces this run's recorded trace; re-run to refresh'' (Some nid)
           else Inr ())))"

definition evaluation_instant :: "run_record \<Rightarrow> date \<Rightarrow> tap_fault + instant" where
  "evaluation_instant r session = (case find (\<lambda>ev. pe_session ev = session) (rr_evaluations r) of
     Some ev \<Rightarrow> Inr (pe_instant ev)
   | None \<Rightarrow> (case find (\<lambda>n. sn_session n = session) (rr_notes r) of
       Some n \<Rightarrow> refuse no_evaluation_at_session (''no evaluation at '' @ isoformat session @ '': '' @ sn_message n) None
     | None \<Rightarrow> refuse no_evaluation_at_session (''the run has no evaluation at session '' @ isoformat session) None))"

definition min_dataset :: "dataset_summary list \<Rightarrow> dataset_summary" where
  "min_dataset ss = hd (sort_key dy_dataset_id ss)"

definition resolve_dataset ::
    "environment \<Rightarrow> json_text \<Rightarrow> string \<Rightarrow> string \<Rightarrow> connection \<Rightarrow> tap_fault + market_data_set" where
  "resolve_dataset env T dataset_hash calendar_hash cn =
     try_bind (tap (list_datasets env cn)) (\<lambda>summaries.
       let by_dataset = filter (\<lambda>s. dy_dataset_fingerprint s = dataset_hash) summaries;
           full = filter (\<lambda>s. dy_calendar_fingerprint s = calendar_hash) by_dataset in
       if by_dataset = [] then refuse dataset_mismatch
         ''the run's input dataset is no longer stored - deterministic recomputation cannot be guaranteed'' None
       else if full = [] then refuse calendar_mismatch
         ''the run's input calendar is no longer stored - deterministic recomputation cannot be guaranteed'' None
       else tap (load_dataset env T (dy_dataset_id (min_dataset full)) cn))"

definition find_node :: "node_instance list \<Rightarrow> string \<Rightarrow> node_instance option" where
  "find_node nodes nid = find (\<lambda>n. node_id n = nid) nodes"

fun walk_address ::
    "component_catalog \<Rightarrow> node_instance list \<Rightarrow> component_ref list \<Rightarrow> string list
     \<Rightarrow> tap_fault + node_instance list option" where
  "walk_address components nodes refs [] = Inr (Some nodes)"
| "walk_address components nodes refs (segment # path) = (case find_node nodes segment of
     Some (ComponentRefNode i ref ps ui ext) \<Rightarrow>
       (case find_ref_key ref refs of
          None \<Rightarrow> Inr None
        | Some key \<Rightarrow> (case map_of components key of
            None \<Rightarrow> Inr None
          | Some d \<Rightarrow> walk_address components (graph_nodes (cd_graph d)) (cd_component_refs d) path))
   | _ \<Rightarrow> refuse value_address_not_found
       (''component path segment '' @ repr_str segment @ '' is not a component instance in this run'') (Some segment))"

definition verify_address ::
    "strategy_document \<Rightarrow> component_catalog \<Rightarrow> string list \<Rightarrow> string \<Rightarrow> tap_fault + unit" where
  "verify_address d components component_path nid =
     try_bind (walk_address components (sd_nodes d) (sd_component_refs d) component_path) (\<lambda>scope. case scope of
       None \<Rightarrow> Inr ()
     | Some nodes \<Rightarrow> if find_node nodes nid = None
         then refuse value_address_not_found (''node '' @ addr component_path nid @ '' does not exist in this run's strategy'') (Some nid)
         else Inr ())"

definition select_output_port ::
    "string list \<Rightarrow> string option \<Rightarrow> string list \<Rightarrow> string \<Rightarrow> tap_fault + string" where
  "select_output_port produced requested component_path nid = (case requested of
     Some port \<Rightarrow> if port \<in> set produced then Inr port
       else refuse value_address_not_found (''node '' @ addr component_path nid @ '' has no output port '' @ repr_str port @
         ''; produced '' @ repr_strs (sort produced)) (Some port)
   | None \<Rightarrow> (case produced of
       [port] \<Rightarrow> Inr port
     | _ \<Rightarrow> refuse ambiguous_output_port (''node '' @ addr component_path nid @ '' produces multiple output ports '' @
         repr_strs (sort produced) @ ''; specify output_port'') (Some nid)))"

subsection \<open>Resolution\<close>

definition produced_ports :: "value_store \<Rightarrow> node_path \<Rightarrow> string list" where
  "produced_ports outputs path = remdups (map (\<lambda>((p, port), v). port) (filter (\<lambda>((p, port), v). p = path) outputs))"

definition recompute ::
    "schema_lib \<Rightarrow> strategy_document \<Rightarrow> component_catalog \<Rightarrow> market_data_set \<Rightarrow> string \<Rightarrow> instant \<Rightarrow> tap_fault + evaluation_outcome" where
  "recompute lib d components ds run t =
     try_bind (tap (raising build_core_catalog)) (\<lambda>catalog.
       tap (raising (fst (evaluate_strategy lib d catalog ds run (Aware t 0) (Some components) True None))))"

definition project_output ::
    "evaluation_outcome \<Rightarrow> string list \<Rightarrow> string \<Rightarrow> string option \<Rightarrow> tap_fault + string \<times> runtime_value" where
  "project_output out component_path nid requested =
     (let path = component_path @ [nid]; produced = produced_ports (ev_outputs out) path in
      if produced = [] then
        (if \<not> ev_ok out
         then Inl (TapRefused \<lparr>tap_code = recompute_failed, tap_message = ''recompute did not produce node '' @ addr component_path nid @
           '': the strategy did not evaluate cleanly at this session ('' @ diagnostics_summary out @ '')'', tap_subject = Some nid,
           tap_diagnostics = ev_diagnostics out\<rparr>)
         else refuse value_address_not_found (''node '' @ addr component_path nid @ '' produces no output values'') (Some nid))
      else try_bind (select_output_port produced requested component_path nid) (\<lambda>port.
        case map_of (ev_outputs out) (path, port) of
          Some v \<Rightarrow> Inr (port, v)
        | None \<Rightarrow> tap (Inl (Raised (KeyError port)))))"

record tap_request =
  tq_run :: string
  tq_node :: string
  tq_session :: date
  tq_path :: "string list"
  tq_port :: "string option"

definition resolve_value ::
    "environment \<Rightarrow> json_text \<Rightarrow> validators \<Rightarrow> schema_lib \<Rightarrow> migration_registry \<Rightarrow> tap_request \<Rightarrow> connection
     \<Rightarrow> tap_fault + resolved_node_value" where
  "resolve_value env T va lib steps q cn =
     try_bind (tap (load_run env T va steps (tq_run q) cn)) (\<lambda>rec.
     if ip_status (rr_input_provenance rec) = ProvenanceUnknown
     then refuse unknown_provenance ''replay cannot be verified - re-run to enable the value tap'' None
     else case (ip_dataset_hash (rr_input_provenance rec), ip_calendar_hash (rr_input_provenance rec)) of
       (Some dataset_hash, Some calendar_hash) \<Rightarrow>
         try_bind (evaluation_instant rec (tq_session q)) (\<lambda>t.
         try_bind (tap (load_strategy env T va (rr_strategy_id rec) (rr_strategy_version rec) cn)) (\<lambda>d.
         try_bind (tap (load_component_catalog env T va (sd_component_refs d) cn)) (\<lambda>components.
         try_bind (verify_address d components (tq_path q) (tq_node q)) (\<lambda>_.
         try_bind (resolve_dataset env T dataset_hash calendar_hash cn) (\<lambda>ds.
         try_bind (recompute lib d components ds (tq_run q) t) (\<lambda>out.
         try_bind (project_output out (tq_path q) (tq_node q) (tq_port q)) (\<lambda>(port, v).
         try_bind (assert_no_drift env T va steps cn (tq_run q) (tq_session q) (tq_node q) (tq_path q)
             (node_events (ev_trace out) (tq_node q) (tq_path q))) (\<lambda>_.
           Inr \<lparr>rv_run_id = tq_run q, rv_node_id = tq_node q, rv_component_path = tq_path q, rv_session = tq_session q,
             rv_instant = t, rv_output_port = port, rv_value = v, rv_dataset_fingerprint = dataset_hash,
             rv_calendar_fingerprint = calendar_hash, rv_captured = False\<rparr>))))))))
     | _ \<Rightarrow> tap (Inl (Raised AssertionError)))"

fun fault_code :: "tap_fault \<Rightarrow> string" where
  "fault_code (TapRefused e) = tap_code e"
| "fault_code (TapRaised (PersistenceError code m)) = code"
| "fault_code (TapRaised (IntegrityViolationError m)) = ''integrity_violation''"
| "fault_code (TapRaised e) = unexpected_failure"

definition log_attempt :: "tap_request \<Rightarrow> string + string \<Rightarrow> tap_log" where
  "log_attempt q outcome = \<lparr>tl_run = tq_run q, tl_addr = addr (tq_path q) (tq_node q), tl_session = tq_session q, tl_outcome = outcome\<rparr>"

definition resolve_node_value ::
    "environment \<Rightarrow> json_text \<Rightarrow> validators \<Rightarrow> schema_lib \<Rightarrow> migration_registry \<Rightarrow> tap_request \<Rightarrow> connection
     \<Rightarrow> (tap_fault + resolved_node_value) \<times> tap_log list" where
  "resolve_node_value env T va lib steps q cn = (case resolve_value env T va lib steps q cn of
     Inl e \<Rightarrow> (Inl e, [log_attempt q (Inl (fault_code e))])
   | Inr v \<Rightarrow> (Inr v, [log_attempt q (Inr (rv_output_port v))]))"

end
