(* ===== verification/TapLaws.thy ===== *)
theory TapLaws
  imports ValueTap RunTrips
begin

section \<open>Laws of the value tap\<close>

text \<open>
  Every attempt leaves exactly one log entry with the outcome it returns. A served value is an output of
  the pinned strategy, evaluated at the recorded instant over a dataset with the recorded fingerprints,
  and where the stored trace has events of the node, the evaluation reproduces them.
\<close>

subsection \<open>The data of a run\<close>

lemma list_datasets_rows:
  assumes "list_datasets env (idle db) = Inr summaries" "s \<in> set summaries"
  shows "\<not> env_lock_query env \<and> (\<exists>r \<in> set (rows_of db ''datasets''). dy_dataset_id s = cell_str (cell r ''dataset_id'') \<and>
    dy_dataset_fingerprint s = cell_str (cell r ''dataset_fingerprint'') \<and>
    dy_calendar_fingerprint s = cell_str (cell r ''calendar_fingerprint''))"
proof -
  obtain rows where sel: "select env ''datasets'' [''dataset_id'', ''dataset_fingerprint'', ''calendar_fingerprint'', ''saved_at''] (\<lambda>_. True) [] (idle db) = Inr rows"
    and sums: "summaries = map (\<lambda>r. \<lparr>dy_dataset_id = cell_str (r ! 0), dy_dataset_fingerprint = cell_str (r ! 1),
       dy_calendar_fingerprint = cell_str (r ! 2), dy_saved_at = cell_str (r ! 3)\<rparr>) (newest_first rows)"
    using assms(1) by (auto simp: list_datasets_def res_simps)
  obtain x where x: "x \<in> set rows" "dy_dataset_id s = cell_str (x ! 0)" "dy_dataset_fingerprint s = cell_str (x ! 1)"
    "dy_calendar_fingerprint s = cell_str (x ! 2)"
    using assms(2) by (auto simp: sums newest_first_def)
  obtain r where "r \<in> set (rows_of db ''datasets'')" "\<not> env_lock_query env"
    "x = cells [''dataset_id'', ''dataset_fingerprint'', ''calendar_fingerprint'', ''saved_at''] r"
    using select_Inr_idle[OF sel] x(1) by (auto simp: rows_of_def)
  then show ?thesis using x by (auto simp: cells_def)
qed

text \<open>The key of a dataset is unique.\<close>

lemma dataset_row_unique:
  assumes "tables_ok db" "store_structured db" "r \<in> set (rows_of db ''datasets'')" "r' \<in> set (rows_of db ''datasets'')"
    "cell r ''dataset_id'' = SqlText i" "cell r' ''dataset_id'' = SqlText i"
  shows "r = r'"
proof -
  obtain t where t: "map_of db ''datasets'' = Some t" "tb_key t = [''dataset_id'']"
    using assms(2) by (auto simp: store_structured_def structured_def datasets_table_def)
  have "keys_unique t" using assms(1) t(1) by (simp add: tables_ok_def)
  then have "sorted_wrt (\<lambda>r r'. cell r' ''dataset_id'' = SqlText i \<longrightarrow> cell r ''dataset_id'' \<noteq> SqlText i) (tb_rows t)"
    unfolding keys_unique_def by (rule sorted_wrt_mono_rel[rotated]) (auto simp: t(2) same_key_def)
  moreover obtain k where "k < length (tb_rows t)" "tb_rows t ! k = r" using assms(3) t(1) by (auto simp: rows_of_def in_set_conv_nth)
  moreover obtain l where "l < length (tb_rows t)" "tb_rows t ! l = r'" using assms(4) t(1) by (auto simp: rows_of_def in_set_conv_nth)
  ultimately show ?thesis using assms(5,6) unfolding sorted_wrt_iff_nth_less by (metis nat_neq_iff)
qed

lemma min_dataset_mem: "ss \<noteq> [] \<Longrightarrow> min_dataset ss \<in> set ss"
  unfolding min_dataset_def by (metis hd_in_set set_empty set_sort)

text \<open>The dataset that is loaded has the fingerprints it is asked for.\<close>

lemma resolve_dataset_fingerprints:
  assumes resolved: "resolve_dataset env T dataset_hash calendar_hash (idle db) = Inr ds"
    and kept: "kept_store T now db" and faithful: "text_faithful T"
  shows "dataset_fingerprint T ds = Inr dataset_hash \<and> calendar_fingerprint T (calendar ds) = Inr calendar_hash"
proof -
  note store = kept_store_ok[OF kept]
  obtain summaries where list: "list_datasets env (idle db) = Inr summaries"
    and rest: "(let by_dataset = filter (\<lambda>s. dy_dataset_fingerprint s = dataset_hash) summaries;
        full = filter (\<lambda>s. dy_calendar_fingerprint s = calendar_hash) by_dataset in
      if by_dataset = [] then refuse dataset_mismatch
        ''the run's input dataset is no longer stored - deterministic recomputation cannot be guaranteed'' None
      else if full = [] then refuse calendar_mismatch
        ''the run's input calendar is no longer stored - deterministic recomputation cannot be guaranteed'' None
      else tap (load_dataset env T (dy_dataset_id (min_dataset full)) (idle db))) = Inr ds"
    using resolved unfolding resolve_dataset_def try_bind_Inr tap_Inr by blast
  define full where "full = filter (\<lambda>s. dy_calendar_fingerprint s = calendar_hash) (filter (\<lambda>s. dy_dataset_fingerprint s = dataset_hash) summaries)"
  define s where "s = min_dataset full"
  have load: "load_dataset env T (dy_dataset_id s) (idle db) = Inr ds" and nonempty: "full \<noteq> []"
    using rest by (auto simp: Let_def refuse_def tap_Inr full_def[symmetric] s_def simp del: filter_filter split: if_splits)
  have s: "s \<in> set summaries" "dy_dataset_fingerprint s = dataset_hash" "dy_calendar_fingerprint s = calendar_hash"
    using min_dataset_mem[OF nonempty] by (auto simp: s_def full_def)
  obtain r where r: "r \<in> set (rows_of db ''datasets'')" "dy_dataset_id s = cell_str (cell r ''dataset_id'')"
    "dataset_hash = cell_str (cell r ''dataset_fingerprint'')" "calendar_hash = cell_str (cell r ''calendar_fingerprint'')"
    and unlocked: "\<not> env_lock_query env"
    using list_datasets_rows[OF list s(1)] s(2,3) by auto
  obtain ds' where ds': "dataset_kept T ds' r" using honest_dataset[OF store(4) r(1)] by blast
  have prints: "dataset_fingerprint T ds' = Inr dataset_hash" "calendar_fingerprint T (calendar ds') = Inr calendar_hash"
    using ds' r(3,4) by (auto simp: dataset_kept_def)
  have i: "cell r ''dataset_id'' = SqlText (dy_dataset_id s)" using ds' r(2) by (auto simp: dataset_kept_def)
  obtain x xs where x: "filter (dataset_where (dy_dataset_id s)) (rows_of db ''datasets'') = x # xs"
    using r(1) i by (cases "filter (dataset_where (dy_dataset_id s)) (rows_of db ''datasets'')") (auto simp: filter_empty_conv dataset_where_iff)
  have "x = r" using dataset_row_unique[OF store(1,2) _ r(1) _ i] filter_first[OF x] by (auto simp: dataset_where_iff)
  then have "load_dataset env T (dy_dataset_id s) (idle db) = Inr ds'"
    using load_dataset_row[OF x _ store(2) faithful unlocked] ds' by simp
  then show ?thesis using load prints by simp
qed

subsection \<open>What is served\<close>

definition recorded_instant :: "run_record \<Rightarrow> date \<Rightarrow> instant \<Rightarrow> bool" where
  "recorded_instant r session t \<longleftrightarrow> (\<exists>e \<in> set (rr_evaluations r). pe_session e = session \<and> pe_instant e = t)"

lemma find_SomeD: "find P xs = Some x \<Longrightarrow> x \<in> set xs \<and> P x"
  by (induction xs) (auto split: if_splits)

lemma evaluation_instant_Inr: "evaluation_instant r session = Inr t \<Longrightarrow> recorded_instant r session t"
  by (auto simp: evaluation_instant_def recorded_instant_def refuse_def dest!: find_SomeD split: option.splits)

definition reproduces :: "json_text \<Rightarrow> trace_event list \<Rightarrow> trace_event list \<Rightarrow> bool" where
  "reproduces T fresh persisted \<longleftrightarrow> persisted = [] \<or>
     (\<exists>ids. traverse (event_identity T) fresh = Inr ids \<and> traverse (event_identity T) persisted = Inr ids)"

lemma assert_no_drift_Inr:
  assumes "assert_no_drift env T va steps cn run session nid path fresh = Inr u"
  shows "\<exists>events. load_trace env T va steps run (Some session) cn = Inr events \<and> reproduces T fresh (node_events events nid path)"
  using assms by (auto simp: assert_no_drift_def reproduces_def Let_def res_simps refuse_def split: if_splits)

text \<open>The port asked for, or the only one produced.\<close>

definition chosen_port :: "string option \<Rightarrow> string list \<Rightarrow> string \<Rightarrow> bool" where
  "chosen_port requested produced port \<longleftrightarrow> (case requested of Some p \<Rightarrow> port = p | None \<Rightarrow> produced = [port])"

lemma project_output_Inr:
  "project_output out path nid requested = Inr (port, v) \<Longrightarrow> output_value out (path @ [nid]) port = Some v \<and>
     chosen_port requested (produced_ports (ev_outputs out) (path @ [nid])) port"
  by (auto simp: project_output_def output_value_def Let_def res_simps refuse_def select_output_port_def chosen_port_def
      split: if_splits option.splits list.splits)

definition value_served ::
    "environment \<Rightarrow> json_text \<Rightarrow> validators \<Rightarrow> schema_lib \<Rightarrow> migration_registry \<Rightarrow> tap_request \<Rightarrow> connection
     \<Rightarrow> resolved_node_value \<Rightarrow> bool" where
  "value_served env T va lib steps q cn v \<longleftrightarrow> (\<exists>r d components ds out events.
     load_run env T va steps (tq_run q) cn = Inr r \<and> recorded_instant r (tq_session q) (rv_instant v) \<and>
     ip_dataset_hash (rr_input_provenance r) = Some (rv_dataset_fingerprint v) \<and>
     ip_calendar_hash (rr_input_provenance r) = Some (rv_calendar_fingerprint v) \<and>
     load_strategy env T va (rr_strategy_id r) (rr_strategy_version r) cn = Inr d \<and>
     load_component_catalog env T va (sd_component_refs d) cn = Inr components \<and>
     dataset_fingerprint T ds = Inr (rv_dataset_fingerprint v) \<and>
     calendar_fingerprint T (calendar ds) = Inr (rv_calendar_fingerprint v) \<and>
     fst (evaluate_strategy lib d core_catalog ds (tq_run q) (Aware (rv_instant v) 0) (Some components) True None) = Inr out \<and>
     output_value out (tq_path q @ [tq_node q]) (rv_output_port v) = Some (rv_value v) \<and>
     chosen_port (tq_port q) (produced_ports (ev_outputs out) (tq_path q @ [tq_node q])) (rv_output_port v) \<and>
     load_trace env T va steps (tq_run q) (Some (tq_session q)) cn = Inr events \<and>
     reproduces T (node_events (ev_trace out) (tq_node q) (tq_path q)) (node_events events (tq_node q) (tq_path q)))"

lemma recompute_Inr:
  "recompute lib d components ds run t = Inr out \<longleftrightarrow>
   fst (evaluate_strategy lib d core_catalog ds run (Aware t 0) (Some components) True None) = Inr out"
  by (simp add: recompute_def core_catalog_ok(1) tap_Inr raising_Inr)

lemma resolve_value_Inr:
  assumes "resolve_value env T va lib steps q (idle db) = Inr v" "kept_store T now db" "text_faithful T"
  shows "value_served env T va lib steps q (idle db) v"
proof -
  obtain r where r: "load_run env T va steps (tq_run q) (idle db) = Inr r"
    using assms(1) unfolding resolve_value_def try_bind_Inr tap_Inr by blast
  obtain data cal where prov: "ip_dataset_hash (rr_input_provenance r) = Some data" "ip_calendar_hash (rr_input_provenance r) = Some cal"
    using assms(1) r by (auto simp: resolve_value_def refuse_def split: if_splits option.splits)
  have body: "try_bind (evaluation_instant r (tq_session q)) (\<lambda>t.
      try_bind (tap (load_strategy env T va (rr_strategy_id r) (rr_strategy_version r) (idle db))) (\<lambda>d.
      try_bind (tap (load_component_catalog env T va (sd_component_refs d) (idle db))) (\<lambda>components.
      try_bind (verify_address d components (tq_path q) (tq_node q)) (\<lambda>_.
      try_bind (resolve_dataset env T data cal (idle db)) (\<lambda>ds.
      try_bind (recompute lib d components ds (tq_run q) t) (\<lambda>out.
      try_bind (project_output out (tq_path q) (tq_node q) (tq_port q)) (\<lambda>(port, v).
      try_bind (assert_no_drift env T va steps (idle db) (tq_run q) (tq_session q) (tq_node q) (tq_path q)
          (node_events (ev_trace out) (tq_node q) (tq_path q))) (\<lambda>_.
        Inr \<lparr>rv_run_id = tq_run q, rv_node_id = tq_node q, rv_component_path = tq_path q, rv_session = tq_session q,
          rv_instant = t, rv_output_port = port, rv_value = v, rv_dataset_fingerprint = data,
          rv_calendar_fingerprint = cal, rv_captured = False\<rparr>)))))))) = Inr v"
    using assms(1) r prov by (simp add: resolve_value_def refuse_def split: if_splits)
  obtain t d components ds out p where parts: "evaluation_instant r (tq_session q) = Inr t"
      "load_strategy env T va (rr_strategy_id r) (rr_strategy_version r) (idle db) = Inr d"
      "load_component_catalog env T va (sd_component_refs d) (idle db) = Inr components"
      "resolve_dataset env T data cal (idle db) = Inr ds" "recompute lib d components ds (tq_run q) t = Inr out"
      "project_output out (tq_path q) (tq_node q) (tq_port q) = Inr p"
    and last: "(case p of (port, v) \<Rightarrow> try_bind (assert_no_drift env T va steps (idle db) (tq_run q) (tq_session q) (tq_node q) (tq_path q)
          (node_events (ev_trace out) (tq_node q) (tq_path q))) (\<lambda>_.
        Inr \<lparr>rv_run_id = tq_run q, rv_node_id = tq_node q, rv_component_path = tq_path q, rv_session = tq_session q,
          rv_instant = t, rv_output_port = port, rv_value = v, rv_dataset_fingerprint = data,
          rv_calendar_fingerprint = cal, rv_captured = False\<rparr>)) = Inr v"
    using body unfolding try_bind_Inr tap_Inr by blast
  obtain port x where p: "p = (port, x)" by (cases p)
  obtain u where drift: "assert_no_drift env T va steps (idle db) (tq_run q) (tq_session q) (tq_node q) (tq_path q)
      (node_events (ev_trace out) (tq_node q) (tq_path q)) = Inr u"
    and v: "v = \<lparr>rv_run_id = tq_run q, rv_node_id = tq_node q, rv_component_path = tq_path q, rv_session = tq_session q,
      rv_instant = t, rv_output_port = port, rv_value = x, rv_dataset_fingerprint = data, rv_calendar_fingerprint = cal, rv_captured = False\<rparr>"
    using last by (auto simp: p res_simps)
  obtain events where events: "load_trace env T va steps (tq_run q) (Some (tq_session q)) (idle db) = Inr events"
    "reproduces T (node_events (ev_trace out) (tq_node q) (tq_path q)) (node_events events (tq_node q) (tq_path q))"
    using assert_no_drift_Inr[OF drift] by blast
  note served = project_output_Inr[OF parts(6)[unfolded p]]
  show ?thesis unfolding value_served_def v
    by (intro exI[of _ r] exI[of _ d] exI[of _ components] exI[of _ ds] exI[of _ out] exI[of _ events] conjI)
      (use r prov parts(2,3,5) evaluation_instant_Inr[OF parts(1)] resolve_dataset_fingerprints[OF parts(4) assms(2,3)]
        served events in \<open>simp_all add: recompute_Inr\<close>)
qed

end
