(* ===== verification/FixtureTap.thy ===== *)
theory FixtureTap
  imports FixtureStore TapLaws
begin

section \<open>A value served from the small store\<close>

text \<open>
  The store of the fixtures with the run and its dataset: the value tap evaluates the strategy again and
  serves the weights, and the evaluation reproduces the stored trace.
\<close>

definition fx_outcome :: evaluation_outcome where
  "fx_outcome = (let targets = [(''A'', Fin (1 / 2)), (''B'', Fin (1 / 2))] in
     \<lparr>ev_ok = True, ev_run_id = ''run'', ev_instant = kept_day 1 + 960, ev_diagnostics = [], ev_targets = Some targets,
      ev_outputs = [(([''universe''], ''assets''), AssetSetV [''A'', ''B'']), (([''weight''], ''targets''), TargetsV targets)],
      ev_trace = fx_events\<rparr>)"

text \<open>The evaluation itself, by the kernel.\<close>

lemma fx_recomputed:
  "fst (evaluate_strategy fx_lib fx_doc core_catalog kept_data ''run'' (Aware (kept_day 1 + 960) 0) (Some []) True None) = Inr fx_outcome"
  by code_simp

definition fx_request :: tap_request where
  "fx_request = \<lparr>tq_run = ''run'', tq_node = ''weight'', tq_session = fx_fri, tq_path = [], tq_port = None\<rparr>"

definition fx_tapped :: "string \<Rightarrow> database \<Rightarrow> bool" where
  "fx_tapped now db \<longleftrightarrow> (\<exists>db0 info. fx_holds now db0 \<and> save_dataset (quiet now) fx_text kept_data (idle db0) = (Inr (info, True), idle db) \<and>
     dataset_info fx_text kept_data (content_hash fx_text (dataset_text fx_text kept_data)) = Inr info \<and> history fx_text db0 db \<and>
     rows_of db ''datasets'' = [bound_row (dataset_row (quiet now) info (dataset_text fx_text kept_data))])"

lemma fx_tapped_store: "\<exists>db. fx_tapped now db"
proof -
  obtain db0 where db0: "fx_holds now db0" using fx_run_saved by blast
  then have kept: "kept_store fx_text now db0" "rows_of db0 ''datasets'' = []" by (simp_all add: fx_holds_def)
  obtain info db where save: "save_dataset (quiet now) fx_text kept_data (idle db0) = (Inr (info, True), idle db)"
    "dataset_info fx_text kept_data (content_hash fx_text (dataset_text fx_text kept_data)) = Inr info"
    "rows_of db ''datasets'' = [bound_row (dataset_row (quiet now) info (dataset_text fx_text kept_data))]"
    using save_dataset_first[OF kept_data_storable kept_store_ok(2)[OF kept(1)] kept(2)] by blast
  have "history fx_text db0 db"
    using history.performed[of fx_text db0 db0 "quiet now" "SaveDataset kept_data"] history.started kept_data_storable save(1) by simp
  then show ?thesis using db0 save unfolding fx_tapped_def by blast
qed

lemma fx_tapped_kept:
  assumes "fx_tapped now db"
  shows "kept_store fx_text now db" "\<exists>db0. fx_holds now db0 \<and> extends db0 db"
  using assms kept_store_history history_extends by (auto simp: fx_tapped_def fx_holds_def)

lemma fx_strategy_read:
  assumes "fx_tapped now db"
  shows "load_strategy (quiet later) fx_text fx_validators ''s'' 1 (idle db) = Inr fx_doc"
proof -
  obtain db0 where db0: "fx_holds now db0" "extends db0 db" using fx_tapped_kept(2)[OF assms] by blast
  let ?row = "bound_row (strategy_row (quiet now) fx_doc (content_hash fx_text fx_strategy_text) fx_strategy_text)"
  have "filter (strategy_where (sd_id fx_doc, sd_version fx_doc)) (rows_of db0 ''strategies'') = [?row]"
    using db0(1) by (simp add: fx_holds_def strategy_where_iff bound_row_def strategy_row_def cell_def)
  then have found: "filter (strategy_where (sd_id fx_doc, sd_version fx_doc)) (rows_of db0 ''strategies'') = ?row # []" by simp
  obtain rs where row: "filter (strategy_where (sd_id fx_doc, sd_version fx_doc)) (rows_of db ''strategies'') = ?row # rs"
    using found_later[OF found db0(2)] by blast
  have "cell ?row ''content_hash'' = SqlText (content_hash fx_text (jt_dumps fx_text (strategy_json fx_doc)))"
    by (simp add: bound_row_def strategy_row_def cell_def fx_strategy_text_def)
  from load_strategy_saved[OF row this kept_store_ok(2,4)[OF fx_tapped_kept(1)[OF assms]] fx_doc_clean fx_text_faithful fx_doc_version,
      of fx_validators "quiet later"]
  show ?thesis by (simp add: fx_validators_def fx_doc_def fx_document_def)
qed

lemma fx_record_read_later:
  assumes "fx_tapped now db"
  shows "load_run (quiet later) fx_text fx_validators steps ''run'' (idle db) = Inr fx_record"
  using fx_tapped_kept(2)[OF assms] fx_record_read load_run_extends by blast

lemma fx_trace_read:
  assumes "fx_tapped now db"
  shows "load_trace (quiet later) fx_text fx_validators steps ''run'' (Some fx_fri) (idle db) = Inr fx_events"
proof -
  note store = kept_store_ok[OF fx_tapped_kept(1)[OF assms]]
  have "rr_run_id fx_record = ''run''" by (simp add: fx_record_def record_from_result_def)
  moreover have "run_found fx_text fx_record fx_events db"
    using fx_tapped_kept(2)[OF assms] run_found_later by (auto simp: fx_holds_def)
  ultimately have "load_trace (quiet later) fx_text fx_validators steps ''run'' (Some fx_fri) (idle db) = Inr (on_session (Some fx_fri) fx_events)"
    using load_trace_saved[of fx_text fx_record fx_events db "quiet later" fx_validators steps "Some fx_fri"] store
      fx_text_faithful fx_text_escaped fx_events_clean by simp
  moreover have "on_session (Some fx_fri) fx_events = fx_events"
  proof -
    have "instant_date (kept_day 1 + 960) = fx_fri" by code_simp
    then show ?thesis by (simp add: on_session_def fx_events_def fx_event_def)
  qed
  ultimately show ?thesis by simp
qed

lemma fx_dataset_read:
  assumes "fx_tapped now db"
  shows "resolve_dataset (quiet later) fx_text (fx_hash (dataset_fingerprint fx_text kept_data)) (fx_hash (calendar_fingerprint fx_text kept_calendar))
    (idle db) = Inr kept_data"
proof -
  obtain info where info: "dataset_info fx_text kept_data (content_hash fx_text (dataset_text fx_text kept_data)) = Inr info"
    and rows: "rows_of db ''datasets'' = [bound_row (dataset_row (quiet now) info (dataset_text fx_text kept_data))]"
    using assms by (auto simp: fx_tapped_def)
  let ?row = "bound_row (dataset_row (quiet now) info (dataset_text fx_text kept_data))"
  note store = kept_store_ok[OF fx_tapped_kept(1)[OF assms]]
  have prints: "dataset_fingerprint fx_text kept_data = Inr (di_dataset_fingerprint info)"
    "calendar_fingerprint fx_text kept_calendar = Inr (di_calendar_fingerprint info)"
    and id: "di_dataset_id info = content_hash fx_text (dataset_text fx_text kept_data)"
    using info by (auto simp: dataset_info_def res_simps kept_data_def)
  have cells: "cell ?row ''dataset_id'' = SqlText (di_dataset_id info)" "cell ?row ''dataset_fingerprint'' = SqlText (di_dataset_fingerprint info)"
    "cell ?row ''calendar_fingerprint'' = SqlText (di_calendar_fingerprint info)" "cell ?row ''saved_at'' = SqlText now"
    by (simp_all add: bound_row_def dataset_row_def cell_def)
  have list: "list_datasets (quiet later) (idle db) = Inr [\<lparr>dy_dataset_id = di_dataset_id info, dy_dataset_fingerprint = di_dataset_fingerprint info,
      dy_calendar_fingerprint = di_calendar_fingerprint info, dy_saved_at = now\<rparr>]"
    by (simp add: list_datasets_def select_store[OF store(2)] rows newest_first_def cells_def cells)
  have "filter (dataset_where (content_hash fx_text (dataset_text fx_text kept_data))) (rows_of db ''datasets'') = ?row # []"
    by (simp add: rows dataset_where_iff cells id)
  from load_dataset_saved[OF this store(2,4) kept_data_storable fx_text_faithful, of "quiet later"]
  have "load_dataset (quiet later) fx_text (di_dataset_id info) (idle db) = Inr kept_data" by (simp add: id)
  then show ?thesis by (simp add: resolve_dataset_def list fx_hash_def prints min_dataset_def)
qed

definition fx_weight_value :: resolved_node_value where
  "fx_weight_value = \<lparr>rv_run_id = ''run'', rv_node_id = ''weight'', rv_component_path = [], rv_session = fx_fri, rv_instant = kept_day 1 + 960,
     rv_output_port = ''targets'', rv_value = TargetsV [(''A'', Fin (1 / 2)), (''B'', Fin (1 / 2))],
     rv_dataset_fingerprint = fx_hash (dataset_fingerprint fx_text kept_data),
     rv_calendar_fingerprint = fx_hash (calendar_fingerprint fx_text kept_calendar), rv_captured = False\<rparr>"

lemma fx_events_identified:
  "\<exists>ids. traverse (event_identity fx_text) (node_events fx_events ''weight'' []) = Inr ids"
proof -
  have "json_clean (JObj fx_weights)" by (simp add: fx_weights_def is_double_Fin is_double_half js_max_safe_int_def)
  from canonical_json_bytes_clean[OF this, of fx_text] show ?thesis
    by (simp add: node_events_def fx_events_def fx_event_def event_identity_def del: sort_keys.simps)
qed

lemma fx_value_served:
  assumes "fx_tapped now db"
  shows "resolve_value (quiet later) fx_text fx_validators fx_lib artifact_migrations fx_request (idle db) = Inr fx_weight_value"
proof -
  have "rr_strategy_id fx_record = ''s''" "rr_strategy_version fx_record = 1" "rr_input_provenance fx_record = fx_recorded"
    by (simp_all add: fx_record_def record_from_result_def)
  moreover have "evaluation_instant fx_record fx_fri = Inr (kept_day 1 + 960)"
    by (simp add: evaluation_instant_def fx_record_def record_from_result_def fx_result_def persisted_evaluation_of_def fx_evaluation_def)
  moreover have "sd_component_refs fx_doc = []" by (simp add: fx_doc_def fx_document_def)
  moreover have "load_component_catalog (quiet later) fx_text fx_validators [] (idle db) = Inr []"
    by (simp add: load_component_catalog_def mk_component_catalog_def)
  moreover have "verify_address fx_doc [] [] ''weight'' = Inr ()"
    by (simp add: verify_address_def find_node_def fx_doc_def fx_document_def fx_universe_def fx_node_def)
  moreover have "recompute fx_lib fx_doc [] kept_data ''run'' (kept_day 1 + 960) = Inr fx_outcome"
    using fx_recomputed by (simp add: recompute_Inr)
  moreover have "project_output fx_outcome [] ''weight'' None = Inr (''targets'', TargetsV [(''A'', Fin (1 / 2)), (''B'', Fin (1 / 2))])"
    by (simp add: project_output_def fx_outcome_def produced_ports_def select_output_port_def Let_def)
  moreover have "assert_no_drift (quiet later) fx_text fx_validators artifact_migrations (idle db) ''run'' fx_fri ''weight'' []
      (node_events (ev_trace fx_outcome) ''weight'' []) = Inr ()"
    using fx_events_identified by (auto simp: assert_no_drift_def fx_trace_read[OF assms] fx_outcome_def Let_def)
  ultimately show ?thesis
    by (simp add: resolve_value_def fx_request_def fx_record_read_later[OF assms] fx_strategy_read[OF assms] fx_recorded_def
        fx_dataset_read[OF assms] fx_weight_value_def)
qed

end
