(* ===== verification/Spec2Isabelle.thy ===== *)
theory Spec2Isabelle
  imports FixtureStrategy EngineLaws Summaries StoreReads FixtureTap
begin

text \<open>
  Verification library of \<open>quantize\<close> (the Python package under src/quantize): a research engine that
  runs strategy graphs over exchange market data without look-ahead, stores the runs and serves single
  values of them again. Paths below are relative to src/quantize.

  \<^bold>\<open>The program and its parts.\<close> A \<^emph>\<open>strategy document\<close> (schema) is a graph of registered nodes and
  component references. Structural validation checks its shape, semantic validation its types
  against the node registry, component resolution its pinned components; the evaluator's pre-flight
  composes the three, orders the nodes and runs them on the as-of view of a market dataset, which
  gives target weights and a trace. The session engine walks the sessions of the exchange calendar:
  at the open it fills the pending orders, it values the portfolio, and at the close of a scheduled session
  it evaluates the strategy and reconciles the targets into the orders of the next open. The
  forward driver runs the same engine one session at a time. Persistence stores strategies,
  components, datasets and runs with their traces in SQLite, each under a hash of its text; the value tap
  recomputes one node's output of a stored run and refuses it where the stored trace disagrees.

  \<^bold>\<open>Theories and code.\<close> A Python class is a record or datatype, its constructor checks an operation
  \<open>mk_...\<close> that raises, a raised exception the left case of a sum, a dictionary an association list in
  insertion order, and an object that the code mutates (cursor, recorder, run state, engine, connection) a state
  that every operation takes and returns.
  \<^item> \<open>Prelude\<close>, \<open>Dates\<close>, \<open>Instants\<close>, \<open>Pyfloat\<close>: the language. Exceptions and results, dictionaries, sorting;
    proleptic dates, ISO weeks, instants in microseconds and their ISO text; binary64 floats as exact rationals
    rounded to even with infinities and NaN, \<open>sum\<close>, \<open>min\<close>, \<open>max\<close> and \<open>repr\<close>.
  \<^item> \<open>Calendar\<close>: market/calendar.py, engine/schedule.py. \<open>MarketData\<close>: market/data.py and the
    price source of engine/backtest.py.
  \<^item> \<open>Trading\<close>, \<open>Fills\<close>, \<open>Reconcile\<close>, \<open>Metrics\<close>: engine/state.py, orders.py, fills.py, reconcile.py, metrics.py.
  \<^item> \<open>Values\<close>, \<open>Summaries\<close>: runtime values, port types and runtime/summarize.py. \<open>Schema\<close>: the models of schema/.
  \<^item> \<open>CycleSearch\<close>, \<open>Structural\<close>, \<open>Semantic\<close>: validation/. \<open>Tracing\<close>: tracing/ and the JSON Schema wrapper.
    \<open>Registry\<close>: registry/ and the node runtime. \<open>Resolve\<close>: components/resolve.py and its catalog.
  \<^item> \<open>TopoOrder\<close>, \<open>Preflight\<close>, \<open>Evaluate\<close>: evaluator/. \<open>Nodes\<close>, \<open>CoreCatalog\<close>: nodes/.
  \<^item> \<open>Engine\<close>, \<open>Forward\<close>: engine/backtest.py, records.py, forward.py.
  \<^item> \<open>Serialization\<close>, \<open>ModelDump\<close>: schema/serialization.py, schema/semantics.py, persistence/serialize.py and the
    dumps of the models. \<open>Records\<close>: persistence/provenance.py, records.py. \<open>Database\<close>: database.py, migrations.py,
    errors.py. \<open>Documents\<close>: documents.py, closure.py. \<open>Runs\<close>: runs.py. \<open>Datasets\<close>: datasets.py.
  \<^item> \<open>ValueTap\<close>: valuetap/service.py.

  \<^bold>\<open>Groups of lemmas.\<close>
  \<^item> Market data: \<open>MarketData\<close> proves that cursor and view agree and that neither reads ahead (C1, C2).
  \<^item> Money: \<open>Pyfloat\<close> bounds the rounding error; \<open>Fills\<close>, \<open>Reconcile\<close>, \<open>Metrics\<close> rest on it (C3, C4, C24 to C28, C32).
  \<^item> Graphs: \<open>CycleSearch\<close> and \<open>TopoOrder\<close> show their searches exact; \<open>Structural\<close>, \<open>Semantic\<close>, \<open>Resolve\<close>
    characterise validation by declarative predicates (C5 to C12).
  \<^item> Evaluation: \<open>Wiring\<close> reads a clean pre-flight as one property of a graph, \<open>NodeLaws\<close> shows every core node safe and
    typed, \<open>Soundness\<close> and \<open>Execution\<close> that a wired graph runs to its targets or to one node's failure (C13 to C18).
  \<^item> Engine: \<open>EngineRuns\<close> relates two runs, \<open>EngineLaws\<close> keeps the invariants of a run, \<open>Forward\<close> shows replay and backtest
    equal (C19 to C23). Traces, values and schedules: C29 to C31.
  \<^item> Store: \<open>StoreLaws\<close> shows what statements and transactions keep; \<open>Histories\<close> defines the histories of a store, any
    operations of any number of connections with locks and interleaved commits, by a rule induction on committed operations;
    \<open>StoredRows\<close> shows the rows honest; \<open>RoundTrips\<close>, \<open>RunTrips\<close>, \<open>StoreReads\<close>, \<open>StoreWrites\<close> give what is loaded, refused and
    saved (C33 to C38, C40). \<open>TapLaws\<close>: what the value tap serves (C39).
  \<^item> \<open>Fixtures\<close>, \<open>FixtureStrategy\<close>, \<open>FixtureText\<close>, \<open>FixtureStore\<close>, \<open>FixtureTap\<close>: small concrete inputs on which the properties are applied.

  \<^bold>\<open>Interfaces.\<close> The locale \<open>open_price_source\<close> is what the fills rely on when they read opens, interpreted by the data
  view and by the engine's cursor; \<open>paired_sources\<close> is two of them that answer alike, interpreted for two
  datasets that agree up to an instant and for a cursor beside its view. \<open>sound_catalog\<close> and its extension
  \<open>terminal_catalog\<close> are what the executor relies on in a catalog, interpreted by the core catalog.

  \<^bold>\<open>Fuel and bounds.\<close> Loops are recursions that end; these carry fuel, each with a proof that it is enough.
  \<open>execution_fuel\<close> is one more than the depth of the instance tree (C17: an evaluation returns); the instantiation of
  components has one more than the number of fetched definitions (C12); the loop of the weight cap one more than
  the number of weights (C16); the closure walk of the store has \<open>closure_fuel\<close>, the pins that can be queued
  (\<open>Documents\<close>). Replaying all sessions takes as many advances as the client makes; C22 gives it at least
  one per session. C3 assumes prices and quantities up to 2 to the 300, cash up to 2 to the 600
  and fewer than 2 to the 52 orders: beyond them binary64 may overflow, and the constructors then do raise.

  \<^bold>\<open>Parameters.\<close> \<open>schema_lib\<close> is the JSON Schema library, \<open>validators\<close> the parsing of a model by pydantic. \<open>json_text\<close> is the
  printing and parsing of JSON text and SHA-256: \<open>text_faithful\<close> says that parsing inverts printing on clean
  values, \<open>text_escaped\<close> that printed text holds no NUL, and nothing is assumed of the digest, so the
  properties of the store name the collision that would break them. \<open>environment\<close> is the rest of the world during an
  operation: locks, commits of other connections, the clock. Run ids are the canonical text of the caller's UUID.

  \<^bold>\<open>Not modelled.\<close> The HTTP service (api), code generation and exports (codegen, registry/export.py) and the literal payload
  schemas of engine events (engine/trace.py): input, output and constants. Also the prose of node descriptors, the sign
  of a zero (stored text has none), spellings of ISO texts that the program never writes, the type affinity of
  SQLite columns, closing a connection, code points above 255 and the elapsed time in the log of the value tap.
\<close>

section \<open>Properties of the market data\<close>

text \<open>C1. The incremental cursor answers every sequence of the engine's reads, in any order and
  even going backward in time, exactly as a fresh as-of view of the dataset would.\<close>

theorem cursor_refines_view:
  assumes "ds_ok ds"
  shows "cursor_run (new_cursor ds) qs = map (view_answer ds) qs"
  using cursor_run_view[OF new_cursor_ok[OF assms]] .

lemma cursor_refines_view_witness:
  "cursor_run (new_cursor fx_data) [LatestClose ''A'' 2500, OpenPrice ''B'' fx_thu 100, SessionClose ''B'' fx_fri 2400] =
     [Some (Some fx_fri, Fin 13), None, Some (None, Fin 20)]"
  by (simp only: cursor_refines_view[OF fx_data_ok])
    (simp add: close_history_as_of view_open_price_as_of visible_closes_def visible_opens_def fx_defs)

text \<open>C2. No look-ahead: prices that only become available after the instant of a view do not
  change it, whatever they are.\<close>

theorem as_of_no_lookahead:
  assumes "agree_until t ds ds'" "t' \<le> t"
  shows "as_of_utc ds t' = as_of_utc ds' t'"
  using as_of_agree[OF assms] .

lemma as_of_no_lookahead_witness:
  "as_of_utc fx_data 2000 = as_of_utc (fx_data\<lparr>observations :=
     [(''A'', [fx_obs fx_thu 0 (Fin 10) (Fin 11), fx_obs fx_fri 1440 (Fin 99) (Fin 98), fx_obs fx_mon 5760 (Fin 97) (Fin 96)]),
      (''B'', [fx_obs fx_thu 0 (Fin 20) (Fin 21), fx_obs fx_fri 1440 (Fin 95) (Fin 94), fx_obs fx_mon 5760 (Fin 93) (Fin 92)])]\<rparr>) 2000"
  by (rule as_of_no_lookahead[of 2000]) (simp_all add: agree_until_def obs_agree_def fx_defs)

section \<open>Properties of the fills\<close>

text \<open>C3. Within generous bounds (every price and quantity up to 2 to the 300, cash up to 2 to the
  600, fewer than 2 to the 52 orders), applying any batch of well-formed orders returns: the
  error that rounding drove cash negative beyond its tolerance is unreachable, and neither the
  fill nor the state constructor rejects what was computed.\<close>

theorem apply_orders_never_raises:
  assumes "cursor_source_ok src" "state_ok st" "cash st \<le> Fin (2 ^ 600)"
    "\<forall>(a, q) \<in> set (positions st). q \<le> Fin (2 ^ 300)"
    "\<forall>ord \<in> set orders. order_ok ord \<and> ord_quantity ord \<le> Fin (2 ^ 300)" "length orders < 2 ^ 52"
    "\<forall>ord \<in> set orders. \<forall>p. fst (open_prices_at src (ord_asset ord) d) = Some p \<longrightarrow> p \<le> Fin (2 ^ 300)"
  shows "\<exists>result. fst (apply_orders open_prices_at st orders src d (PyFloat bps)) = Inr result"
  using cursor_feed.apply_orders_total[OF assms] .

lemma apply_orders_never_raises_witness:
  "\<exists>result. fst (apply_orders open_prices_at fx_state fx_orders (new_cursor fx_data, 600) fx_thu (PyFloat (Fin 10))) =
     Inr result"
proof (rule apply_orders_never_raises[OF fx_source_ok fx_state_ok])
  have "map (\<lambda>ord. fst (open_prices_at (new_cursor fx_data, 600) (ord_asset ord) fx_thu)) fx_orders =
    [Some (Fin 20), Some (Fin 10)]" by code_simp
  then show "\<forall>ord \<in> set fx_orders. \<forall>p. fst (open_prices_at (new_cursor fx_data, 600) (ord_asset ord) fx_thu) = Some p
      \<longrightarrow> p \<le> Fin (2 ^ 300)"
    by (simp add: fx_orders_def)
qed (simp_all add: fx_state_def fx_orders_def order_ok_def is_double_Fin)

text \<open>C4. A fill event is all or nothing. With diagnostics the state is unchanged and nothing is
  filled. Without, the new state is well formed, the fills are the sells and then the buys, one
  per order by ascending asset, each at the open read at the fill instant and never above
  the quantity ordered, and the final cash is the opening cash credited with every
  sell and settled, floored at zero, with every buy.\<close>

theorem apply_orders_all_or_nothing:
  assumes "cursor_source_ok src" "state_ok st" "\<forall>ord \<in> set orders. order_ok ord"
    "apply_orders open_prices_at st orders src d bps = (Inr (st', fills, diags), src')"
  shows "if diags = [] then state_ok st' \<and> (\<exists>sells buys. fills = sells @ buys \<and>
      list_all2 (executes (\<lambda>a. fst (open_prices_at src a d))) (canonical_orders Sell orders) sells \<and>
      list_all2 (executes (\<lambda>a. fst (open_prices_at src a d))) (canonical_orders Buy orders) buys \<and>
      cash st' = foldl settle (foldl credit (cash st) sells) buys)
    else st' = st \<and> fills = []"
  using cursor_feed.apply_orders_outcome[OF assms] .

lemma apply_orders_all_or_nothing_witness:
  "\<exists>st' sells buys src'. apply_orders open_prices_at fx_state fx_orders (new_cursor fx_data, 600) fx_thu (PyFloat (Fin 0)) =
       (Inr (st', sells @ buys, []), src') \<and> length (sells @ buys) = 2 \<and> cash st' = 0 \<and> state_ok st' \<and>
     cash st' = foldl settle (foldl credit (cash fx_state) sells) buys"
proof -
  let ?r = "apply_orders open_prices_at fx_state fx_orders (new_cursor fx_data, 600) fx_thu (PyFloat (Fin 0))"
  have "case fst ?r of Inr (st', fills, diags) \<Rightarrow> feq (cash st') 0 \<and> length fills = 2 \<and> diags = [] | Inl _ \<Rightarrow> False" by code_simp
  then obtain st' fills src' where r: "?r = (Inr (st', fills, []), src')" "cash st' = 0" "length fills = 2"
    by (cases ?r) (auto simp: feq_def split: sum.splits)
  from apply_orders_all_or_nothing[OF fx_source_ok fx_state_ok fx_orders_ok r(1)]
  obtain sells buys where "fills = sells @ buys" "state_ok st'"
    "cash st' = foldl settle (foldl credit (cash fx_state) sells) buys" by auto
  with r show ?thesis by metis
qed

section \<open>Properties of the graph algorithms\<close>

text \<open>C5. The depth-first search with three colours decides cyclicity: what it returns is a
  cycle of the graph (a path of at least one edge back to its start, with no inner repetition) or
  the graph is acyclic, and on a closed adjacency it never meets an unknown neighbour.\<close>

theorem find_cycle_decides:
  assumes "adj_closed adj"
  shows "case find_cycle adj of
      Cycle c \<Rightarrow> is_cycle (adj_edges adj) c
    | Acyclic \<Rightarrow> acyclic (adj_edges adj)
    | UnknownNeighbour _ \<Rightarrow> False"
  using find_cycle_correct[OF assms] .

lemma find_cycle_decides_witness:
  "is_cycle (adj_edges [(''a'', [''b'']), (''b'', [''c'', ''d'']), (''c'', [''b'']), (''d'', [])]) [''b'', ''c'', ''b'']"
proof -
  let ?g = "[(''a'', [''b'']), (''b'', [''c'', ''d'']), (''c'', [''b'']), (''d'', [])] :: string adjacency"
  have "find_cycle ?g = Cycle [''b'', ''c'', ''b'']" by code_simp
  with find_cycle_decides[of ?g] show ?thesis by (simp add: adj_closed_def)
qed

text \<open>C6. Kahn's algorithm over a heap orders a graph exactly when it is acyclic. The order
  lists every node once, sources before targets, and at each step takes the smallest node whose
  sources are all placed.\<close>

theorem topological_order_exact:
  assumes "distinct ids" "set raw \<subseteq> set ids \<times> set ids"
  shows "(\<exists>order. order_ids ids raw = Inr order) = acyclic (set raw) \<and>
    (\<forall>order. order_ids ids raw = Inr order \<longrightarrow> set order = set ids \<and> distinct order \<and>
       ordered_by (set raw) order \<and> greedy (set raw) (set ids) order)"
  using order_ids_acyclic[OF assms] order_ids_Inr[of ids raw] by blast

lemma topological_order_exact_witness:
  "ordered_by {(''b'', ''a''), (''c'', ''a'')} [''b'', ''c'', ''a''] \<and> acyclic {(''b'', ''a''), (''c'', ''a'')}"
proof -
  let ?ids = "[''a'', ''c'', ''b'']" and ?raw = "[(''b'', ''a''), (''c'', ''a'')]"
  have run: "order_ids ?ids ?raw = Inr [''b'', ''c'', ''a'']" by code_simp
  have g: "distinct ?ids" "set ?raw \<subseteq> set ?ids \<times> set ?ids" by simp_all
  show ?thesis using topological_order_exact[OF g] run by auto
qed

text \<open>C7. The order is canonical: it depends on the sets of nodes and of edges only, not on the
  sequence in which a document lists them.\<close>

theorem topological_order_canonical:
  assumes "order_ids ids raw = Inr order" "order_ids ids' raw' = Inr order'" "set ids = set ids'" "set raw = set raw'"
  shows "order = order'"
  using order_ids_depends_on_sets[OF assms] .

lemma topological_order_canonical_witness:
  "\<exists>order order'. order_ids [''a'', ''c'', ''b''] [(''b'', ''a'')] = Inr order \<and>
     order_ids [''b'', ''a'', ''c''] [(''b'', ''a'')] = Inr order' \<and> order = order' \<and> order = [''b'', ''a'', ''c'']"
proof -
  have a: "order_ids [''a'', ''c'', ''b''] [(''b'', ''a'')] = Inr [''b'', ''a'', ''c'']" by code_simp
  have b: "order_ids [''b'', ''a'', ''c''] [(''b'', ''a'')] = Inr [''b'', ''a'', ''c'']" by code_simp
  show ?thesis using a b topological_order_canonical[OF a b] by auto
qed

section \<open>Properties of the validation layers\<close>

text \<open>C8. Structural validation accepts a strategy document exactly when it is sound: a
  supported schema version, unique reference ids, unique node ids, component nodes that use
  declared references, edges between existing nodes, and no cycle; and it accepts exactly
  when it reports no error.\<close>

theorem strategy_validation_exact:
  "sv_ok (validate_strategy_document doc) = document_sound doc \<and>
   (sv_errors (validate_strategy_document doc) = []) = document_sound doc"
  by (simp add: validate_strategy_document_ok)

text \<open>C9. The same for a component definition, which moreover may not reference itself, and for
  a set of definitions: accepted exactly when the identities are unique and the references
  inside the set are acyclic; the unresolved references it lists, once each and in order, are those
  pinned but not in the set.\<close>

theorem component_validation_exact:
  "sv_ok (validate_component_definition d) = definition_sound d \<and>
   csv_ok (validate_component_set ds) = (distinct (map definition_key ds) \<and> acyclic (set_dependency ds)) \<and>
   set (csv_unresolved (validate_component_set ds)) = snd ` set (set_refs ds) - definition_key ` set ds \<and>
   sorted (csv_unresolved (validate_component_set ds)) \<and> distinct (csv_unresolved (validate_component_set ds))"
  by (simp add: validate_component_definition_ok validate_component_set_ok validate_component_set_unresolved)

text \<open>C10. Semantic validation accepts a document over a registry exactly when every registered
  node resolves, every edge joins existing ports of compatible types, every required
  input of a registered node is connected and its parameters meet their schema.\<close>

theorem semantic_validation_exact:
  assumes "view_consistent view" "distinct (map node_id (sd_nodes doc))"
  shows "sem_ok (validate_strategy_semantics lib doc view) = document_typed lib doc view"
  using validate_strategy_semantics_ok(1)[OF assms] by blast

lemma semantic_validation_exact_witness:
  "document_typed fx_lib fx_doc (descriptor_registry core_catalog)"
proof -
  have "sem_ok (validate_strategy_semantics fx_lib fx_doc (descriptor_registry core_catalog))" by code_simp
  then show ?thesis
    using semantic_validation_exact[OF descriptor_registry_consistent, of fx_doc fx_lib core_catalog]
    by (simp add: fx_doc_def fx_document_def fx_universe_def fx_node_def)
qed

section \<open>Properties of component resolution and the pre-flight\<close>

text \<open>C11. Fetching a closure follows the pinned references breadth-first and stops: it fetches
  exactly the definitions reachable in the catalog from the roots, each once, and reports as
  missing exactly the reachable keys without a definition.\<close>

theorem fetched_closure_exact:
  assumes "fetch_loop catalog [] [] (sorted_ref_keys refs) = (fetched, missing)"
  shows "set missing = {k \<in> reachable_keys catalog (ref_key ` set refs). map_of catalog k = None} \<and>
    fst ` set fetched = {k \<in> reachable_keys catalog (ref_key ` set refs). map_of catalog k \<noteq> None} \<and>
    (\<forall>k d. (k, d) \<in> set fetched \<longrightarrow> map_of catalog k = Some d) \<and> distinct (map fst fetched) \<and> distinct missing"
  using fetch_closure_correct[OF assms] by blast

lemma fetched_closure_exact_witness:
  "ComponentKey ''weighting'' ''1.0.0'' \<in> reachable_keys fx_components (ref_key ` {fx_ref})"
proof -
  have f: "fetch_loop fx_components [] [] (sorted_ref_keys [fx_ref]) = ([(ComponentKey ''weighting'' ''1.0.0'', fx_component)], [])"
    by code_simp
  show ?thesis using fetched_closure_exact[OF f] by auto
qed



text \<open>C13. What a clean pre-flight guarantees the executor: in the document and in every instance
  at every depth, all nodes have port tables, edges join existing ports of compatible types,
  required inputs are fed by an edge or by the instance, and the graph is acyclic.\<close>

theorem clean_preflight_wires:
  assumes "component_catalog_ok catalog" "view_consistent view"
    "run_document_preflight lib doc view (Some catalog) = Inr p" "preflight_ok p"
  shows "graph_wired view (instance_definitions (rst_instances (pf_resolution p))) (sd_nodes doc) (sd_edges doc) {} \<and>
    components_wired view (instance_definitions (rst_instances (pf_resolution p))) (sd_nodes doc) (rst_instances (pf_resolution p))"
  using preflight_wired[OF assms] by blast

lemma clean_preflight_wires_witness:
  "\<exists>p. run_document_preflight fx_lib fx_composed (descriptor_registry core_catalog) (Some fx_components) = Inr p \<and>
     components_wired (descriptor_registry core_catalog) (instance_definitions (rst_instances (pf_resolution p)))
       (sd_nodes fx_composed) (rst_instances (pf_resolution p))"
  using fx_composed_preflight clean_preflight_wires[OF fx_components_ok descriptor_registry_consistent] by blast

section \<open>Properties of the catalog and the evaluator\<close>

text \<open>C14. Whatever implementations are registered, the descriptor registry and the bindings
  of a catalog stay in lockstep: a type and version resolves in both or in neither, to
  the same descriptor, with the same status and the same available versions.\<close>

theorem catalog_stays_in_lockstep:
  assumes "register_all nis new_catalog = Inr c"
  shows "rs_status (resolve_implementation c t v) = rs_status (descriptor_registry c t v) \<and>
    map_option ni_descriptor (rs_found (resolve_implementation c t v)) = rs_found (descriptor_registry c t v) \<and>
    rs_available (resolve_implementation c t v) = rs_available (descriptor_registry c t v)"
  using catalog_lockstep[OF register_all_ok[OF assms new_catalog_ok]] by blast

lemma catalog_stays_in_lockstep_witness:
  "rs_status (resolve_implementation core_catalog ''data.price'' ''9.9.9'') =
     rs_status (descriptor_registry core_catalog ''data.price'' ''9.9.9'')"
  using catalog_stays_in_lockstep[of core_node_implementations core_catalog] core_catalog_ok(1)
  by (simp add: build_core_catalog_def)


text \<open>C16. Every core node, whatever its parameters and inputs, either raises or returns exactly
  the ports its descriptor declares, in order, with well-formed values of the declared types; and the
  redistribution loop of the weight cap ends within one round per weight and one more.\<close>

theorem core_nodes_return_typed_outputs:
  assumes "ni \<in> set core_node_implementations" "view_ok (inv_view iv)" "ni_evaluate ni iv s = (Inr outs, s')"
  shows "outputs_typed (ni_descriptor ni) outs \<and>
    (is_double cap \<longrightarrow> waterfall (Suc (length ws)) cap (initial_cap ws) \<noteq> None)"
  using yieldsD[OF core_node_typed[OF assms(1,2)] assms(3)] waterfall_returns by blast

lemma core_nodes_return_typed_outputs_witness:
  "\<exists>outs s'. ni_evaluate equal_weight_node fx_invocation fx_run_state = (Inr outs, s') \<and>
     outputs_typed (ni_descriptor equal_weight_node) outs \<and> map fst outs = [''targets''] \<and>
     waterfall 3 (Fin (1 / 2)) (initial_cap [(''A'', Fin (3 / 4)), (''B'', Fin (1 / 4))]) \<noteq> None"
proof -
  obtain r s' where r: "ni_evaluate equal_weight_node fx_invocation fx_run_state = (r, s')" by (metis surj_pair)
  have "case fst (ni_evaluate equal_weight_node fx_invocation fx_run_state) of Inr outs \<Rightarrow> map fst outs = [''targets''] | Inl _ \<Rightarrow> False"
    by code_simp
  then obtain outs where o: "r = Inr outs" "map fst outs = [''targets'']" using r by (cases r) simp_all
  have "equal_weight_node \<in> set core_node_implementations" by (simp add: core_node_implementations_def)
  note applied = core_nodes_return_typed_outputs[OF this _ r[unfolded o(1)],
      where cap = "Fin (1 / 2)" and ws = "[(''A'', Fin (3 / 4)), (''B'', Fin (1 / 4))]"]
  have "view_ok (inv_view fx_invocation)" using fx_data_ok by (auto simp: fx_invocation_def view_ok_def)
  moreover have "is_double (Fin (1 / 2))" by code_simp
  ultimately show ?thesis using applied r o by (auto simp: numeral_3_eq_3)
qed





section \<open>Properties of the session engine\<close>

text \<open>C19. No look-ahead in a whole backtest: prices that only become available after the last close of
  the window, whatever they are, change nothing in the result, its fills, valuations, trace and
  diagnostics included, nor whether an exception escapes.\<close>

theorem backtest_no_lookahead:
  assumes "ds_ok ds" "ds_ok ds'" "agree_until t ds ds'"
    "\<forall>s \<in> set (run_window (calendar ds) first_session last_session). close_at s \<le> t"
  shows "run_backtest lib doc catalog ds run initial comps first_session last_session collect =
    run_backtest lib doc catalog ds' run initial comps first_session last_session collect"
  using run_backtest_agree[OF assms(1-3)] assms(4) by blast

lemma backtest_no_lookahead_witness:
  "run_backtest fx_lib fx_doc core_catalog fx_data ''run'' fx_state (Some []) None (Some fx_fri) True =
   run_backtest fx_lib fx_doc core_catalog fx_other ''run'' fx_state (Some []) None (Some fx_fri) True"
proof (rule backtest_no_lookahead[OF fx_data_ok fx_other_ok, of 2400])
  show "agree_until 2400 fx_data fx_other" by (simp add: agree_until_def obs_agree_def fx_other_def fx_defs)
  show "\<forall>s \<in> set (run_window (calendar fx_data) None (Some fx_fri)). close_at s \<le> 2400"
    by (simp add: run_window_def fx_defs)
qed

text \<open>C20. No fill without an earlier order: in the result of any backtest, failed or completed,
  every fill carries out an order that an evaluation proposed at the close of a strictly earlier
  session, on the session and at the instant it was scheduled for, never above the ordered
  quantity, at the open the market showed at that instant; and the final portfolio is well
  formed.\<close>

theorem backtest_fills_follow_orders:
  assumes "ds_ok ds" "state_ok initial"
    "run_backtest lib doc catalog ds run initial comps first_session last_session collect = Inr out"
  shows "state_ok (br_final_state out) \<and> (\<forall>fe \<in> set (br_fills out). \<exists>er \<in> set (br_evaluations out).
    er_session er < fe_session fe \<and> er_fill_session er = Some (fe_session fe) \<and> er_fill_instant er = Some (fe_instant fe) \<and>
    view_open_price (as_of_utc ds (fe_instant fe)) (fill_asset (fe_fill fe)) (fe_session fe) = Some (fill_price (fe_fill fe)) \<and>
    (\<exists>ord \<in> set (out_orders (er_reconciliation er)). fill_side (fe_fill fe) = ord_side ord \<and>
       fill_asset (fe_fill fe) = ord_asset ord \<and> \<not> ord_quantity ord < fill_quantity (fe_fill fe)))"
proof -
  let ?cfg = "engine_config_of doc catalog ds run comps first_session last_session collect"
  obtain es where es: "safe_run ?cfg es" "br_final_state out = es_portfolio es" "br_fills out = es_fills es" "br_evaluations out = es_evaluations es"
    using run_configured_outcome[OF engine_config_of_window[OF assms(1)] assms(2) assms(3)[unfolded run_backtest_def]] by metis
  moreover have "ec_market_data ?cfg = ds" by (simp add: engine_config_of_def)
  ultimately show ?thesis unfolding safe_run_def fill_from_def by simp
qed

lemma backtest_fills_follow_orders_witness:
  "\<exists>out. run_backtest fx_lib fx_monthly fx_catalog fx_data ''run'' fx_state (Some []) None (Some fx_fri) True = Inr out \<and>
     state_ok (br_final_state out)"
  using fx_hold backtest_fills_follow_orders[OF fx_data_ok fx_state_ok] by blast

text \<open>C21. A completed backtest settles: it has one valuation per session of the window, in order, and
  every order of every evaluation, the last one included, was filled on the session it was
  scheduled for. No order is dropped or left pending.\<close>

theorem completed_backtest_settles:
  assumes "ds_ok ds" "state_ok initial"
    "run_backtest lib doc catalog ds run initial comps first_session last_session collect = Inr out" "br_ok out"
  shows "map fst (br_valuations out) = map session_date (run_window (calendar ds) first_session last_session) \<and>
    (\<forall>er \<in> set (br_evaluations out). \<forall>ord \<in> set (out_orders (er_reconciliation er)). \<exists>fe \<in> set (br_fills out).
       er_fill_session er = Some (fe_session fe) \<and> fill_side (fe_fill fe) = ord_side ord \<and> fill_asset (fe_fill fe) = ord_asset ord)"
proof -
  let ?cfg = "engine_config_of doc catalog ds run comps first_session last_session collect"
  obtain es where es: "br_fills out = es_fills es" "br_evaluations out = es_evaluations es" "br_valuations out = es_valuations es"
    "between_sessions ?cfg (ec_sessions ?cfg) [] es"
    using run_configured_outcome[OF engine_config_of_window[OF assms(1)] assms(2) assms(3)[unfolded run_backtest_def]] assms(4) by metis
  then show ?thesis by (auto simp: between_sessions_def orders_tracked_def carried_out_def engine_config_of_def)
qed

lemma completed_backtest_settles_witness:
  "\<exists>out. run_backtest fx_lib fx_monthly fx_catalog fx_data ''run'' fx_state (Some []) None (Some fx_fri) True = Inr out \<and>
     map fst (br_valuations out) = map session_date (run_window fx_calendar None (Some fx_fri))"
  using fx_hold completed_backtest_settles[OF fx_data_ok fx_state_ok] by (metis fx_calendar_of)

text \<open>C22. Bounded, exhausted forward replay is the backtest: driving the engine one session at a time
  until it accepts no more gives the same result field for field, or the same exception.\<close>

theorem forward_replay_is_backtest:
  assumes "length (sessions (calendar ds)) \<le> n"
  shows "try_bind (new_forward lib doc catalog ds run initial comps first_session (Some d) collect)
      (\<lambda>fr. concluded (fr_config fr) (replay_all n lib fr)) =
    run_backtest lib doc catalog ds run initial comps first_session (Some d) collect"
proof -
  let ?cfg = "engine_config_of doc catalog ds run comps first_session (Some d) collect"
  have n: "length (ec_sessions ?cfg) \<le> n"
    using assms le_trans[OF length_filter_le] by (auto simp: engine_config_of_def run_window_def)
  have cfg: "fr_config fr = ?cfg" if "start_forward lib ?cfg initial = Inr fr" for fr
    using that by (auto simp: start_forward_def split: prod.splits sum.splits)
  show ?thesis
    using replay_configured[OF n, of lib initial] cfg
    by (cases "start_forward lib ?cfg initial") (auto simp: new_forward_def run_backtest_def)
qed

lemma forward_replay_is_backtest_witness:
  "try_bind (new_forward fx_lib fx_monthly fx_catalog fx_data ''run'' fx_state (Some []) None (Some fx_fri) True)
      (\<lambda>fr. concluded (fr_config fr) (replay_all 3 fx_lib fr)) =
    run_backtest fx_lib fx_monthly fx_catalog fx_data ''run'' fx_state (Some []) None (Some fx_fri) True"
  by (rule forward_replay_is_backtest) (simp add: fx_defs)

text \<open>C23. A failure is terminal for the forward driver: the advance that meets it counts the session and
  records it, and from then on advancing changes nothing.\<close>

theorem forward_failure_is_terminal:
  assumes "advance_session lib fr = (Inr (Some rep), fr')"
  shows "fr_cursor fr' = Suc (fr_cursor fr) \<and> (sa_ok rep \<longleftrightarrow> fr_failure fr' = None) \<and>
    (fr_failure fr' \<noteq> None \<longrightarrow> advance_session lib fr' = (Inr None, fr'))"
  using advance_failure_recorded[OF assms] advance_after_failure by blast

lemma forward_failure_is_terminal_witness:
  "\<exists>rep fr'. advance_session fx_lib fx_unpriced = (Inr (Some rep), fr') \<and> \<not> sa_ok rep \<and>
     advance_session fx_lib fr' = (Inr None, fr')"
proof -
  have "case fst (advance_session fx_lib fx_unpriced) of Inr (Some rep) \<Rightarrow> \<not> sa_ok rep | _ \<Rightarrow> False" by code_simp
  then obtain rep fr' where r: "advance_session fx_lib fx_unpriced = (Inr (Some rep), fr')" "\<not> sa_ok rep"
    by (cases "advance_session fx_lib fx_unpriced") (auto split: sum.splits option.splits)
  from forward_failure_is_terminal[OF r(1)] r show ?thesis by blast
qed

section \<open>Properties of reconciliation\<close>

text \<open>C24. A reconciliation that succeeds orders within the portfolio: first the sells, each at most
  what is held, then the buys, either side strictly by ascending asset, every order well formed;
  and it prices every asset held or targeted.\<close>

theorem reconciled_orders_within_holdings:
  assumes "state_ok st" "reconcile st ws prices = Inr out" "out_ok out"
  shows "\<exists>sells buys. out_orders out = sells @ buys \<and>
    (\<forall>ord \<in> set sells. ord_side ord = Sell \<and> ord_quantity ord \<le> quantity_of st (ord_asset ord)) \<and>
    (\<forall>ord \<in> set buys. ord_side ord = Buy) \<and> (\<forall>ord \<in> set (out_orders out). order_ok ord) \<and>
    sorted_wrt (<) (map ord_asset sells) \<and> sorted_wrt (<) (map ord_asset buys) \<and>
    (\<forall>a \<in> set (reconcile_assets st ws). valid_price (price_of prices a))"
  using reconcile_orders[OF assms] reconcile_ok[OF assms(2,3)] by blast

lemma reconciled_orders_within_holdings_witness:
  "\<exists>out. reconcile fx_state [] [(''A'', PyFloat (Fin 8))] = Inr out \<and> valid_price (price_of [(''A'', PyFloat (Fin 8))] ''A'')"
proof -
  obtain out where out: "reconcile fx_state [] [(''A'', PyFloat (Fin 8))] = Inr out" "out_ok out" using fx_liquidation by blast
  have "''A'' \<in> set (reconcile_assets fx_state [])" by (simp add: reconcile_assets_def union_assets_def held_assets_def fx_state_def live_weights_def)
  then show ?thesis using reconciled_orders_within_holdings[OF fx_state_ok out] out(1) by blast
qed

text \<open>C25. What is held and no longer targeted is sold in full, whatever its size: no dust is left behind.\<close>

theorem untargeted_holdings_liquidated:
  assumes "state_ok st" "reconcile st ws prices = Inr out" "out_ok out"
    "a \<in> set (held_assets st)" "a \<notin> fst ` set (live_weights ws)"
  shows "\<lparr>ord_side = Sell, ord_asset = a, ord_quantity = quantity_of st a\<rparr> \<in> set (out_orders out)"
  using reconcile_liquidates[OF assms] .

lemma untargeted_holdings_liquidated_witness:
  "\<exists>out. reconcile fx_state [] [(''A'', PyFloat (Fin 8))] = Inr out \<and>
     \<lparr>ord_side = Sell, ord_asset = ''A'', ord_quantity = quantity_of fx_state ''A''\<rparr> \<in> set (out_orders out)"
proof -
  obtain out where out: "reconcile fx_state [] [(''A'', PyFloat (Fin 8))] = Inr out" "out_ok out" using fx_liquidation by blast
  show ?thesis using untargeted_holdings_liquidated[OF fx_state_ok out, of "''A''"] out(1)
    by (simp add: held_assets_def fx_state_def live_weights_def)
qed

text \<open>C26. Reconciliation and fills compose: when every ordered asset has an open at the fill instant, what
  reconciliation ordered passes the validation of the fills, and the batch is carried out.\<close>

theorem reconciled_orders_are_filled:
  assumes "state_ok st" "reconcile st ws prices = Inr out" "out_ok out" "cursor_source_ok src" "bps_supported bps = Inr True"
    "\<forall>ord \<in> set (out_orders out). fst (open_prices_at src (ord_asset ord) d) \<noteq> None"
    "apply_orders open_prices_at st (out_orders out) src d bps = (Inr (st', fills, diags), src')"
  shows "diags = [] \<and> state_ok st' \<and> length fills = length (out_orders out)"
proof -
  have d: "diags = []" by (rule cursor_feed.reconciled_orders_pass[OF assms])
  have ok: "\<forall>ord \<in> set (out_orders out). order_ok ord" using reconcile_orders[OF assms(1-3)] by blast
  obtain sells buys where f: "state_ok st'" "fills = sells @ buys"
    "list_all2 (executes (\<lambda>a. fst (open_prices_at src a d))) (canonical_orders Sell (out_orders out)) sells"
    "list_all2 (executes (\<lambda>a. fst (open_prices_at src a d))) (canonical_orders Buy (out_orders out)) buys"
    using cursor_feed.apply_orders_outcome[OF assms(4,1) ok assms(7)] d by auto
  have "length (filter (\<lambda>ord. ord_side ord = Sell) ords) + length (filter (\<lambda>ord. ord_side ord = Buy) ords) = length ords" for ords
    by (induction ords) (auto, metis side.exhaust)
  then have "length (canonical_orders Sell ords) + length (canonical_orders Buy ords) = length ords" for ords
    by (simp add: canonical_orders_def)
  then show ?thesis using d f(1,2) list_all2_lengthD[OF f(3)] list_all2_lengthD[OF f(4)] by (metis length_append)
qed

lemma reconciled_orders_are_filled_witness:
  "\<exists>out st' fills src'. apply_orders open_prices_at fx_state (out_orders out) (new_cursor fx_data, 600) fx_thu (PyFloat 0) =
     (Inr (st', fills, []), src') \<and> out_ok (out :: outcome) \<and> length fills = 1"
proof -
  obtain out where out: "reconcile fx_state [] [(''A'', PyFloat (Fin 8))] = Inr out" "out_ok out"
    "out_orders out = [\<lparr>ord_side = Sell, ord_asset = ''A'', ord_quantity = Fin 5\<rparr>]" using fx_liquidation by blast
  let ?r = "apply_orders open_prices_at fx_state [\<lparr>ord_side = Sell, ord_asset = ''A'', ord_quantity = Fin 5\<rparr>] (new_cursor fx_data, 600) fx_thu (PyFloat 0)"
  have "case fst ?r of Inr _ \<Rightarrow> True | Inl _ \<Rightarrow> False" by code_simp
  then obtain st' fills diags src' where r: "?r = (Inr (st', fills, diags), src')" by (cases ?r) (auto split: sum.splits)
  have "view_open_price (as_of_utc fx_data 600) ''A'' fx_thu \<noteq> None"
    by (simp add: view_open_price_as_of visible_opens_def fx_defs)
  then have p: "fst (open_prices_at (new_cursor fx_data, 600) ''A'' fx_thu) \<noteq> None"
    using cursor_open_price_as_of(1)[OF new_cursor_ok[OF fx_data_ok], of "''A''" fx_thu 600] by simp
  have bps: "bps_supported (PyFloat 0) = Inr True" by code_simp
  have "diags = [] \<and> state_ok st' \<and> length fills = length (out_orders out)"
    by (rule reconciled_orders_are_filled[OF fx_state_ok out(1,2) fx_source_ok bps _ r[folded out(3)]]) (use p in \<open>simp add: out(3)\<close>)
  moreover have "apply_orders open_prices_at fx_state (out_orders out) (new_cursor fx_data, 600) fx_thu (PyFloat 0) =
      (Inr (st', fills, diags), src')" unfolding out(3) by (rule r)
  ultimately show ?thesis using out(2,3) by (metis One_nat_def length_Cons list.size(3))
qed

section \<open>Properties of metrics, summaries and traces\<close>

text \<open>C27. The maximum drawdown of a series of portfolio values is exactly its worst fall: it bounds the
  loss from every value to every later one, and is such a loss or zero. It lies between minus one and
  zero, and is zero for a series that never falls; every simple return is at least minus one.\<close>

theorem drawdown_within_bounds:
  assumes "\<forall>v \<in> set vals. valuation v"
  shows "(\<forall>i j. i \<le> j \<and> j < length vals \<and> \<not> feq (vals ! i) 0 \<longrightarrow> max_drawdown vals \<le> fdiv (vals ! j) (vals ! i) - 1) \<and>
    (max_drawdown vals = 0 \<or> (\<exists>i j. i \<le> j \<and> j < length vals \<and> \<not> feq (vals ! i) 0 \<and>
       max_drawdown vals = fdiv (vals ! j) (vals ! i) - 1)) \<and>
    - 1 \<le> max_drawdown vals \<and> max_drawdown vals \<le> 0 \<and> (sorted_wrt (\<le>) vals \<longrightarrow> max_drawdown vals = 0) \<and>
    (\<forall>r \<in> set (simple_returns vals). - 1 \<le> r) \<and> length (simple_returns vals) = length vals - 1"
proof -
  have low: "\<forall>v \<in> set vals. NInf \<le> v" using assms by (auto simp: valuation_def isfinite_iff)
  have exact: "\<forall>i j. i \<le> j \<and> j < length vals \<and> \<not> feq (vals ! i) 0 \<longrightarrow> max_drawdown vals \<le> fdiv (vals ! j) (vals ! i) - 1"
    "max_drawdown vals = 0 \<or> (\<exists>i j. i \<le> j \<and> j < length vals \<and> \<not> feq (vals ! i) 0 \<and>
       max_drawdown vals = fdiv (vals ! j) (vals ! i) - 1)"
    using max_drawdown_exact[OF assms] by (auto simp: set_falls loss_def)
  show ?thesis
    using exact low drawdown_bounds[OF assms, of 0 NInf] drawdown_monotone[OF assms, of NInf] simple_returns_ge[OF assms]
    by (simp add: max_drawdown_def simple_returns_length)
qed

lemma drawdown_within_bounds_witness:
  "max_drawdown [Fin 1000, Fin 1100, Fin 1200] = 0"
  using drawdown_within_bounds[of "[Fin 1000, Fin 1100, Fin 1200]"] by (simp add: valuation_def is_double_Fin)

text \<open>C28. The summary of a numeric cross section is exact: its minimum and maximum are values of the
  section and bound all of them.\<close>

theorem cross_summary_exact:
  assumes "cross_ok cs" "cs_dtype cs = NumberX" "cs_values cs \<noteq> []"
  shows "\<exists>lo hi. xs_min (summarize_cross cs) = Some lo \<and> xs_max (summarize_cross cs) = Some hi \<and>
    PyFloat lo \<in> snd ` set (cs_values cs) \<and> PyFloat hi \<in> snd ` set (cs_values cs) \<and>
    (\<forall>(a, v) \<in> set (cs_values cs). lo \<le> cell_number v \<and> cell_number v \<le> hi)"
  using summarize_cross_range[OF assms] .

lemma cross_summary_exact_witness:
  "\<exists>lo. xs_min (summarize_cross fx_scores) = Some lo \<and> lo \<le> Fin 2 \<and> lo \<le> Fin 3"
proof -
  have "cross_ok fx_scores" by (rule mk_cross_section_ok(1)[of NumberX "[''A'', ''B'']" "[(''A'', PyFloat (Fin 3)), (''B'', PyFloat (Fin 2))]"]) code_simp
  from cross_summary_exact[OF this] show ?thesis by (auto simp: fx_scores_def cell_number_def)
qed

text \<open>C29. The trace tree of an instant keeps every event exactly as often as it was recorded, and nothing
  else; and every node stands at the place its component path names.\<close>

theorem trace_tree_complete:
  "count_list (flat (tt_roots (instant_tree run t events))) e = count_list events e \<and>
   list_all (\<lambda>n. tn_path n = [] \<and> node_placed n) (filter (\<lambda>n. tn_origin n = NodeOrigin) (tt_roots (instant_tree run t events)))"
  using instant_tree_count instant_tree_placed by (auto simp: list_all_iff)

section \<open>Properties of the constructors and the schedule\<close>

text \<open>C30. The constructors of runtime values establish their invariants: sorted unique assets, present
  assets inside the domain and cells of the declared type; histories of strictly increasing
  dates and finite numbers; weights not negative that sum to at most one within the tolerance.\<close>

theorem value_constructors_wellformed:
  "(mk_cross_section dtype allowed vals = Inr cs \<longrightarrow> cross_ok cs \<and> cs_dtype cs = dtype \<and> cs_domain cs = sort allowed \<and> present_assets cs = sort (map fst vals)) \<and>
   (mk_time_series series = Inr ts \<longrightarrow> series_value_ok ts \<and> ts_assets ts = sort (map fst series)) \<and>
   (mk_targets raws = Inr ws \<longrightarrow> targets_ok ws \<and> map fst ws = sort (map fst raws))"
  by (intro conjI impI mk_cross_section_ok mk_time_series_ok mk_targets_ok)

lemma value_constructors_wellformed_witness:
  "targets_ok [(''A'', Fin (1/4)), (''B'', Fin (1/2))]"
proof -
  have "mk_targets [(''B'', PyFloat (Fin (1/2))), (''A'', PyFloat (Fin (1/4)))] = Inr [(''A'', Fin (1/4)), (''B'', Fin (1/2))]" by code_simp
  then show ?thesis using value_constructors_wellformed[of NumberX "[]" "[]" _ "[]" _ "[(''B'', PyFloat (Fin (1/2))), (''A'', PyFloat (Fin (1/4)))]"] by blast
qed

text \<open>C31. A schedule fires on the last session of each of its periods: with the daily schedule on every
  session, with the weekly and monthly ones on a session exactly when no later session of the
  calendar falls in the same ISO week or calendar month; in order and without repetition.\<close>

theorem schedule_fires_on_period_ends:
  assumes "cal_ok cal"
  shows "set (scheduled_sessions sched cal) = {d \<in> set (session_dates cal).
     sched \<noteq> ScheduleDaily \<longrightarrow> (\<forall>e \<in> set (session_dates cal). d < e \<longrightarrow> period_key sched e \<noteq> period_key sched d)} \<and>
    sorted_wrt (<) (scheduled_sessions sched cal)"
  using scheduled_sessions_set[OF assms] scheduled_sessions_sorted[OF assms] by blast

lemma schedule_fires_on_period_ends_witness:
  "fx_fri \<in> set (scheduled_sessions ScheduleWeekly fx_calendar)"
  unfolding schedule_fires_on_period_ends[OF fx_calendar_ok, THEN conjunct1]
  by (simp add: fx_defs session_dates_def) code_simp

text \<open>C32. The portfolio constructor admits only well-formed states: finite cash that is not negative, and
  positive finite quantities, zero positions dropped, by strictly ascending asset.\<close>

theorem portfolio_constructor_wellformed:
  assumes "mk_portfolio_state c ps = Inr st"
  shows "state_ok st \<and> set (held_assets st) \<subseteq> fst ` set ps \<and>
    (\<forall>a. 0 \<le> quantity_of st a \<and> (0 < quantity_of st a \<longleftrightarrow> a \<in> set (held_assets st)))"
proof -
  have st: "state_ok st" using mk_portfolio_state_ok[OF assms] .
  obtain c' qs where "norm_positions None (sort_key fst ps) = Inr qs" "positions st = qs"
    using assms by (auto simp: mk_portfolio_state_def try_bind_Inr)
  then have "set (held_assets st) \<subseteq> fst ` set ps"
    using norm_positions_Inr[of None "sort_key fst ps" qs] by (auto simp: held_assets_def)
  then show ?thesis using st state_ok_quantity[OF st] by blast
qed

lemma portfolio_constructor_wellformed_witness:
  "\<exists>st. mk_portfolio_state (PyInt 7) [(''B'', PyFloat (Fin 2)), (''A'', PyInt 0)] = Inr st \<and> set (held_assets st) \<subseteq> {''A'', ''B''}"
proof -
  have "case mk_portfolio_state (PyInt 7) [(''B'', PyFloat (Fin 2)), (''A'', PyInt 0)] of Inr _ \<Rightarrow> True | Inl _ \<Rightarrow> False" by code_simp
  then obtain st where st: "mk_portfolio_state (PyInt 7) [(''B'', PyFloat (Fin 2)), (''A'', PyInt 0)] = Inr st"
    by (cases "mk_portfolio_state (PyInt 7) [(''B'', PyFloat (Fin 2)), (''A'', PyInt 0)]") auto
  from portfolio_constructor_wellformed[OF st] st show ?thesis by auto
qed

section \<open>Properties of the store\<close>

text \<open>C33. A dataset is always saved, whatever other connections commit meanwhile, and at every later
  point of the store's history its content address loads the same dataset, unless SHA-256 collides with
  the text of its canonical payload.\<close>

theorem dataset_roundtrip:
  assumes "kept_store T now db" "history T db (env_race env db)" "unlocked env" "storable_dataset ds" "text_faithful T"
  shows "\<exists>info new cn. save_dataset env T ds (idle db) = (Inr (info, new), cn) \<and>
    di_dataset_id info = content_hash T (dataset_text T ds) \<and>
    (\<forall>env' db'. history T (cn_tables cn) db' \<longrightarrow> \<not> env_lock_query env' \<longrightarrow>
      load_dataset env' T (di_dataset_id info) (idle db') = Inr ds \<or> collides T (dataset_text T ds))"
proof -
  note store = kept_store_ok(2)[OF assms(1)] kept_store_ok(2)[OF kept_store_history[OF assms(1,2)]]
  obtain info new cn where save: "save_dataset env T ds (idle db) = (Inr (info, new), cn)"
    using save_dataset_returns[OF assms(4) store assms(3)] by blast
  have "history T db (cn_tables cn)"
    using history.performed[of T db db env "SaveDataset ds"] history.started assms(2,4) by (simp add: save)
  then have kept: "kept_store T now (cn_tables cn)" by (rule kept_store_history[OF assms(1)])
  note found = save_dataset_found[OF save assms(4) store]
  have "load_dataset env' T (di_dataset_id info) (idle db') = Inr ds \<or> collides T (dataset_text T ds)"
    if later: "history T (cn_tables cn) db'" and query: "\<not> env_lock_query env'" for env' db'
  proof -
    obtain r rs where "filter (dataset_where (content_hash T (dataset_text T ds))) (rows_of db' ''datasets'') = r # rs"
      using found found_later[OF _ history_extends[OF later]] by metis
    from load_dataset_saved[OF this] kept_store_ok(2,4)[OF kept_store_history[OF kept later]] assms(4,5) query found
    show ?thesis by simp
  qed
  then show ?thesis using save found by blast
qed

lemma dataset_roundtrip_witness:
  "\<exists>info new cn. save_dataset (quiet ''t1'') fx_text kept_data (idle (fresh_store ''t0'')) = (Inr (info, new), cn) \<and>
     load_dataset (quiet ''t2'') fx_text (di_dataset_id info) (idle (cn_tables cn)) = Inr kept_data"
proof -
  obtain info new cn where "save_dataset (quiet ''t1'') fx_text kept_data (idle (fresh_store ''t0'')) = (Inr (info, new), cn)"
    "\<forall>env' db'. history fx_text (cn_tables cn) db' \<longrightarrow> \<not> env_lock_query env' \<longrightarrow>
      load_dataset env' fx_text (di_dataset_id info) (idle db') = Inr kept_data \<or> collides fx_text (dataset_text fx_text kept_data)"
    using dataset_roundtrip[of fx_text "''t0''" "fresh_store ''t0''" "quiet ''t1''" kept_data] fx_fresh fx_text_faithful kept_data_storable
    by (auto simp: history.started)
  then show ?thesis using fx_no_collision history.started by fastforce
qed

text \<open>C34. A strategy that was saved is loaded unchanged at every later point of the store's history,
  unless SHA-256 collides with its text: the save returned its key, another save of other content under
  that key is refused.\<close>

theorem strategy_roundtrip:
  assumes "kept_store T now db" "history T db (env_race env db)" "text_faithful T" "json_clean (strategy_json d)"
    "save_strategy env T d (idle db) = (Inr key, cn)" "history T (cn_tables cn) db'"
    "\<not> env_lock_query env'" "va_strategy va (strategy_json d) = Inr d"
  shows "key = (sd_id d, sd_version d) \<and>
    (load_strategy env' T va (fst key) (snd key) (idle db') = Inr d \<or> collides T (jt_dumps T (strategy_json d)))"
proof -
  note store = kept_store_ok(2)[OF assms(1)] kept_store_ok(2)[OF kept_store_history[OF assms(1,2)]]
  have "history T db (cn_tables cn)"
    using history.performed[of T db db env "SaveStrategy d"] history.started assms(2,4,5) by simp
  then have later: "kept_store T now db'"
    using kept_store_history[OF kept_store_history[OF assms(1)] assms(6)] by blast
  obtain r rs where key: "key = (sd_id d, sd_version d)" "is_supported_schema_version (sd_schema_version d)"
    and found: "filter (strategy_where key) (rows_of (cn_tables cn) ''strategies'') = r # rs"
      "cell r ''content_hash'' = SqlText (content_hash T (jt_dumps T (strategy_json d)))"
    using save_strategy_found[OF assms(5) store] by blast
  obtain rs' where "filter (strategy_where key) (rows_of db' ''strategies'') = r # rs'"
    using found_later[OF found(1) history_extends[OF assms(6)]] by blast
  from load_strategy_saved[OF this[unfolded key(1)] found(2) kept_store_ok(2,4)[OF later] assms(4,3) key(2) assms(8,7)]
  show ?thesis by (simp add: key(1))
qed

lemma strategy_roundtrip_witness:
  "\<exists>db. save_strategy (quiet ''t1'') fx_text fx_doc (idle (fresh_store ''t0'')) = (Inr (''s'', 1), idle db) \<and>
     load_strategy (quiet ''t2'') fx_text fx_validators ''s'' 1 (idle db) = Inr fx_doc"
proof -
  obtain db where db: "save_strategy (quiet ''t1'') fx_text fx_doc (idle (fresh_store ''t0'')) = (Inr (''s'', 1), idle db)"
    using fx_doc_saved by blast
  have "load_strategy (quiet ''t2'') fx_text fx_validators ''s'' 1 (idle db) = Inr fx_doc \<or>
      collides fx_text (jt_dumps fx_text (strategy_json fx_doc))"
    using strategy_roundtrip[OF fx_fresh _ fx_text_faithful fx_doc_clean db] history.started
    by (simp add: fx_validators_def)
  then show ?thesis using db fx_no_collision by simp
qed

text \<open>C35. The record and the trace of a run that was saved are loaded unchanged at every later point of
  the store's history, the trace in order and whole, or restricted to the UTC date asked for, unless
  SHA-256 collides with the text of the record or with the joined text of the trace.\<close>

theorem run_roundtrip:
  assumes "kept_store T now db" "history T db (env_race env db)" "text_faithful T" "text_escaped T" "json_clean (strategy_json d)"
    "save_run env T d result provenance mode (idle db) = (Inr run, cn)" "history T (cn_tables cn) db'" "\<not> env_lock_query env'"
    "r = record_from_result result (sd_id d) (sd_version d) provenance mode"
    "json_clean (json_of (dump_record r))" "va_record va (json_of (dump_record r)) = Inr r"
    "\<forall>e \<in> set (br_trace result). json_clean (json_of (dump_event e)) \<and> va_event va (json_of (dump_event e)) = Inr e"
  shows "run = br_run_id result \<and>
    (load_run env' T va steps run (idle db') = Inr r \<or> collides T (record_text T r)) \<and>
    (load_trace env' T va steps run session (idle db') = Inr (on_session session (br_trace result)) \<or>
      collides T (joined (event_texts T (br_trace result))))"
proof -
  note store = kept_store_ok(2)[OF kept_store_history[OF assms(1,2)]]
  have "history T db (cn_tables cn)"
    using history.performed[of T db db env "SaveRun d result provenance mode"] history.started assms(2,5,6) by simp
  then have "kept_store T now db'" using kept_store_history[OF kept_store_history[OF assms(1)] assms(7)] by blast
  note later = kept_store_ok[OF this]
  have saved: "run = rr_run_id r" "run_found T r (br_trace result) (cn_tables cn)"
    using save_run_found[OF assms(6,5) store assms(9)] by simp_all
  note found = run_found_later[OF saved(2) history_extends[OF assms(7)]]
  have "rr_record_format r = record_format" "rr_run_id r = br_run_id result" by (simp_all add: assms(9) record_from_result_def)
  then show ?thesis using saved(1) load_run_saved[OF found later(2,4) assms(3,10) _ assms(8,11)]
      load_trace_saved[OF found later(2,4,3) assms(3,4,8)] assms(12) by simp
qed

lemma run_roundtrip_witness:
  "\<exists>db. save_run (quiet ''t0'') fx_text fx_doc fx_result fx_recorded ''backtest'' (idle (fresh_store ''t0'')) = (Inr ''run'', idle db) \<and>
     load_run (quiet ''t2'') fx_text fx_validators artifact_migrations ''run'' (idle db) = Inr fx_record \<and>
     load_trace (quiet ''t2'') fx_text fx_validators artifact_migrations ''run'' None (idle db) = Inr (br_trace fx_result)"
proof -
  obtain db where db: "save_run (quiet ''t0'') fx_text fx_doc fx_result fx_recorded ''backtest'' (idle (fresh_store ''t0'')) = (Inr ''run'', idle db)"
    using fx_run_saved by blast
  have "load_run (quiet ''t2'') fx_text fx_validators artifact_migrations ''run'' (idle db) = Inr fx_record \<and>
      load_trace (quiet ''t2'') fx_text fx_validators artifact_migrations ''run'' None (idle db) = Inr (on_session None (br_trace fx_result))"
    using run_roundtrip[OF fx_fresh _ fx_text_faithful fx_text_escaped fx_doc_clean db, of db "quiet ''t2''" fx_record fx_validators artifact_migrations None]
      history.started fx_record_clean(1) fx_events_clean by (simp add: fx_record_eq fx_validators_def)
  then show ?thesis using db by (simp add: on_session_def)
qed



text \<open>C37. In a store with a history every primary key is unique and every foreign key resolves, and
  every stored run has its strategy and its whole trace: as many events as it records, numbered without
  a gap, whose joined text has the recorded digest.\<close>

theorem kept_runs_whole:
  assumes "kept_store T now db"
  shows "tables_ok db \<and> (\<forall>x \<in> set (rows_of db ''runs''). \<exists>run texts. cell x ''run_id'' = SqlText run \<and>
    (\<exists>p \<in> set (rows_of db ''strategies''). cell p ''strategy_id'' = cell x ''strategy_id'' \<and> cell p ''version'' = cell x ''strategy_version'') \<and>
    map (cells [''seq'', ''event'']) (events_of db run) = map (\<lambda>(n, s). [SqlInt (int n), SqlText s]) (enumerate 0 texts) \<and>
    cell x ''trace_count'' = SqlInt (int (length texts)) \<and> cell x ''trace_content_hash'' = SqlText (content_hash T (joined texts)))"
proof -
  note store = kept_store_ok[OF assms]
  have "\<exists>run texts. cell x ''run_id'' = SqlText run \<and>
      map (cells [''seq'', ''event'']) (events_of db run) = map (\<lambda>(n, s). [SqlInt (int n), SqlText s]) (enumerate 0 texts) \<and>
      cell x ''trace_count'' = SqlInt (int (length texts)) \<and> cell x ''trace_content_hash'' = SqlText (content_hash T (joined texts))"
    if "x \<in> set (rows_of db ''runs'')" for x
  proof -
    have "trace_whole T db x" using store(3) that by (simp add: traces_whole_def)
    then show ?thesis by (cases "cell x ''run_id''") (auto simp: trace_whole_def trace_identity_joined)
  qed
  then show ?thesis using store(1) run_has_strategy[OF store(1,2)] by blast
qed

lemma kept_runs_whole_witness:
  "\<exists>db. history fx_text (fresh_store ''t0'') db \<and> tables_ok db \<and> rows_of db ''runs'' \<noteq> []"
proof -
  obtain db where db: "kept_store fx_text ''t0'' db" "run_found fx_text fx_record fx_events db" using fx_run_saved by (auto simp: fx_holds_def)
  then show ?thesis using kept_runs_whole[OF db(1)] by (auto simp: kept_store_def run_found_def)
qed

text \<open>C38. What a store has returned for an artifact it returns at every later point of its history:
  strategies, components, datasets, run records and traces never change.\<close>

theorem stored_artifacts_immutable:
  assumes "kept_store T now db" "history T db db'" "\<not> env_lock_query env"
  shows "(load_strategy env T va i v (idle db) = Inr d \<longrightarrow> load_strategy env T va i v (idle db') = Inr d) \<and>
    (load_component env T va k (idle db) = Inr c \<longrightarrow> load_component env T va k (idle db') = Inr c) \<and>
    (load_dataset env T address (idle db) = Inr ds \<longrightarrow> load_dataset env T address (idle db') = Inr ds) \<and>
    (load_run env T va steps run (idle db) = Inr r \<longrightarrow> load_run env T va steps run (idle db') = Inr r) \<and>
    (load_trace env T va steps run session (idle db) = Inr events \<longrightarrow> load_trace env T va steps run session (idle db') = Inr events)"
proof -
  note store = kept_store_ok(2,3)[OF assms(1)] kept_store_ok(2,3)[OF kept_store_history[OF assms(1,2)]]
    and extends = history_extends[OF assms(2)]
  show ?thesis
    by (intro conjI impI)
      (erule load_strategy_extends[OF _ extends] load_component_extends[OF _ extends] load_dataset_extends[OF _ extends]
        load_run_extends[OF _ extends] load_trace_kept[OF _ extends store assms(3)])+
qed

lemma stored_artifacts_immutable_witness:
  "\<exists>db info db'. save_dataset (quiet ''t2'') fx_text kept_data (idle db) = (Inr (info, True), idle db') \<and> rows_of db ''datasets'' = [] \<and>
     load_run (quiet ''t3'') fx_text fx_validators artifact_migrations ''run'' (idle db') = Inr fx_record"
proof -
  obtain db where holds: "fx_holds ''t1'' db" using fx_run_saved by blast
  then have db: "kept_store fx_text ''t1'' db" "rows_of db ''datasets'' = []" by (simp_all add: fx_holds_def)
  obtain info db' where save: "save_dataset (quiet ''t2'') fx_text kept_data (idle db) = (Inr (info, True), idle db')"
    using save_dataset_first[OF kept_data_storable kept_store_ok(2)[OF db(1)] db(2)] by blast
  have "history fx_text db db'"
    using history.performed[of fx_text db db "quiet ''t2''" "SaveDataset kept_data"] history.started kept_data_storable save by simp
  from stored_artifacts_immutable[OF db(1) this, where env = "quiet ''t3''" and va = fx_validators and steps = artifact_migrations
      and run = "''run''" and r = fx_record]
  have "load_run (quiet ''t3'') fx_text fx_validators artifact_migrations ''run'' (idle db') = Inr fx_record"
    using fx_record_read[OF holds, of "''t3''" artifact_migrations] by simp
  then show ?thesis using save db(2) by blast
qed

text \<open>C39. Every attempt of the value tap logs exactly one entry, with the outcome it returns. A value it
  serves is the named output of the run's own strategy, evaluated with the core nodes at the instant the
  run recorded for that session, over a dataset with the fingerprints the run recorded; and where the
  stored trace has events of the node at that session, the evaluation emits the same ones.\<close>

theorem value_tap_serves_recomputed_value:
  assumes "kept_store T now db" "text_faithful T"
  shows "case resolve_node_value env T va lib steps q (idle db) of
      (Inl e, entries) \<Rightarrow> entries = [log_attempt q (Inl (fault_code e))]
    | (Inr v, entries) \<Rightarrow> entries = [log_attempt q (Inr (rv_output_port v))] \<and> value_served env T va lib steps q (idle db) v"
proof (cases "resolve_value env T va lib steps q (idle db)")
  case (Inr v)
  then show ?thesis using resolve_value_Inr[OF Inr assms] by (simp add: resolve_node_value_def)
qed (simp add: resolve_node_value_def)

lemma value_tap_serves_recomputed_value_witness:
  "\<exists>db. resolve_node_value (quiet ''t1'') fx_text fx_validators fx_lib artifact_migrations fx_request (idle db) =
       (Inr fx_weight_value, [log_attempt fx_request (Inr ''targets'')]) \<and>
     value_served (quiet ''t1'') fx_text fx_validators fx_lib artifact_migrations fx_request (idle db) fx_weight_value"
proof -
  obtain db where db: "fx_tapped ''t0'' db" using fx_tapped_store by blast
  have "resolve_node_value (quiet ''t1'') fx_text fx_validators fx_lib artifact_migrations fx_request (idle db) =
      (Inr fx_weight_value, [log_attempt fx_request (Inr ''targets'')])"
    using fx_value_served[OF db] by (simp add: resolve_node_value_def fx_weight_value_def)
  then show ?thesis
    using value_tap_serves_recomputed_value[OF fx_tapped_kept(1)[OF db] fx_text_faithful, where env = "quiet ''t1''" and va = fx_validators
      and lib = fx_lib and steps = artifact_migrations and q = fx_request] by auto
qed



end
